(* ===== verification/Prelude.thy ===== *)
theory Prelude
  imports Main "HOL-Library.Word" "HOL-Library.Multiset"
begin

text \<open>
  Shared vocabulary of the development: the machine integer types of the C sources, the error
  values that stand for the ways a C function can fail to return normally, a result type with
  its sequencing operator, loops over lists with an early exit, checked array access, and walks
  along the index-linked lists of the MAC layer. The component theories import this one.
\<close>

named_theorems resE_simps \<open>rewrite rules of the result type\<close>

section \<open>Machine integers\<close>

type_synonym u8 = "8 word"
type_synonym u16 = "16 word"
type_synonym u32 = "32 word"
type_synonym u64 = "64 word"

text \<open>
  C's integer division and remainder truncate towards zero; the sign of the remainder is the sign
  of the dividend.
\<close>

definition c_div :: "int \<Rightarrow> int \<Rightarrow> int" where
  "c_div a b = sgn a * sgn b * (\<bar>a\<bar> div \<bar>b\<bar>)"

definition c_rem :: "int \<Rightarrow> int \<Rightarrow> int" where
  "c_rem a b = a - b * c_div a b"

lemma c_div_nonneg [simp]: "0 \<le> a \<Longrightarrow> 0 < b \<Longrightarrow> c_div a b = a div b"
  by (cases "a = 0") (auto simp: c_div_def)

lemma c_rem_nonneg [simp]: "0 \<le> a \<Longrightarrow> 0 < b \<Longrightarrow> c_rem a b = a mod b"
  by (simp add: c_rem_def minus_mult_div_eq_mod)

lemma c_rem_small: "\<bar>a\<bar> < b \<Longrightarrow> c_rem a b = a"
  by (auto simp: c_rem_def c_div_def)

lemma c_div_neg_le: "a \<le> 0 \<Longrightarrow> 0 < b \<Longrightarrow> c_div a b \<le> 0"
  by (cases "a = 0") (auto simp: c_div_def pos_imp_zdiv_nonneg_iff)

section \<open>Limits\<close>

text \<open>The limits of the USRP build (\<open>openairinterface5g_limits.h\<close>).\<close>

definition NUMBER_OF_UE_MAX :: nat where "NUMBER_OF_UE_MAX = 16"
definition NOT_A_RNTI :: u16 where "NOT_A_RNTI = 0"

definition NUMBER_OF_eNB_MAX :: nat where "NUMBER_OF_eNB_MAX = 1"

section \<open>Results\<close>

text \<open>
  \<^item> \<open>Abort\<close>: the code calls \<open>abort()\<close>, \<open>exit()\<close> or a failing \<open>AssertFatal\<close>;
  \<^item> \<open>OutOfBounds\<close>: an array access outside the array (undefined behaviour in C);
  \<^item> \<open>NullDeref\<close>: a null pointer is followed;
  \<^item> \<open>Diverges\<close>: a loop does not end (a cycle in an index-linked list);
  \<^item> \<open>Undefined\<close>: any other undefined operation (an unrepresentable conversion, a division by
    zero).
\<close>

datatype c_error = Abort | OutOfBounds | NullDeref | Diverges | Undefined

type_synonym 'a res = "c_error + 'a"

definition bindE :: "'a res \<Rightarrow> ('a \<Rightarrow> 'b res) \<Rightarrow> 'b res" where
  "bindE m f = (case m of Inl e \<Rightarrow> Inl e | Inr x \<Rightarrow> f x)"

lemma bindE_Inl [simp, resE_simps]: "bindE (Inl e) f = Inl e"
  by (simp add: bindE_def)

lemma bindE_Inr [simp, resE_simps]: "bindE (Inr x) f = f x"
  by (simp add: bindE_def)

lemma bindE_eq_Inr [resE_simps]: "bindE m f = Inr y \<longleftrightarrow> (\<exists>x. m = Inr x \<and> f x = Inr y)"
  by (cases m) auto

lemma bindE_eq_InrE:
  assumes "bindE m f = Inr y"
  obtains x where "m = Inr x" and "f x = Inr y"
  using assms by (auto simp: bindE_eq_Inr)

lemma bindE_cong [fundef_cong]:
  "m = m' \<Longrightarrow> (\<And>x. m' = Inr x \<Longrightarrow> f x = f' x) \<Longrightarrow> bindE m f = bindE m' f'"
  by (cases m') auto

section \<open>Loops\<close>

text \<open>A \<open>for\<close> loop over the values of a list, left at the first error.\<close>

fun foldE :: "('a \<Rightarrow> 's \<Rightarrow> 's res) \<Rightarrow> 'a list \<Rightarrow> 's \<Rightarrow> 's res" where
  "foldE f [] s = Inr s"
| "foldE f (x # xs) s = bindE (f x s) (foldE f xs)"

lemma foldE_append: "foldE f (xs @ ys) s = bindE (foldE f xs s) (foldE f ys)"
  by (induction xs arbitrary: s) (auto simp: bindE_def split: sum.splits)

lemma foldE_map: "foldE f (map g xs) s = foldE (f \<circ> g) xs s"
  by (induction xs arbitrary: s) (auto simp: bindE_def split: sum.splits)

text \<open>
  An invariant of the body that holds at the start holds at the end, with the fact that the
  element comes from the list.
\<close>

lemma foldE_invariant:
  assumes "foldE f xs s = Inr t" and "P s"
    and "\<And>x s s'. x \<in> set xs \<Longrightarrow> P s \<Longrightarrow> f x s = Inr s' \<Longrightarrow> P s'"
  shows "P t"
  using assms
proof (induction xs arbitrary: s)
  case Nil
  then show ?case by simp
next
  case (Cons x xs)
  from Cons.prems(1) obtain s' where s': "f x s = Inr s'" and rest: "foldE f xs s' = Inr t"
    by (auto elim: bindE_eq_InrE)
  have "P s'" using Cons.prems(2,3) s' by auto
  with rest show ?case using Cons.prems(3) by (intro Cons.IH) auto
qed

text \<open>A loop whose body cannot fail under an invariant does not fail.\<close>

lemma foldE_total:
  assumes "P s"
    and "\<And>x s. x \<in> set xs \<Longrightarrow> P s \<Longrightarrow> \<exists>s'. f x s = Inr s' \<and> P s'"
  shows "\<exists>t. foldE f xs s = Inr t \<and> P t"
  using assms
proof (induction xs arbitrary: s)
  case Nil
  then show ?case by simp
next
  case (Cons x xs)
  from Cons.prems obtain s' where "f x s = Inr s'" and "P s'"
    by (metis list.set_intros(1))
  moreover have "\<exists>t. foldE f xs s' = Inr t \<and> P t"
    using \<open>P s'\<close> Cons.prems(2) by (intro Cons.IH) auto
  ultimately show ?case by auto
qed

text \<open>
  A loop whose passes for the other elements leave a view of the state alone: what the view is at the
  end, the pass for the element itself has made of what it was at the start.
\<close>

lemma foldE_local:
  assumes "foldE f xs s = Inr t" and "distinct xs" and "a \<in> set xs"
    and frame: "\<And>x u v. x \<noteq> a \<Longrightarrow> f x u = Inr v \<Longrightarrow> V v = V u"
  shows "\<exists>u v. V u = V s \<and> f a u = Inr v \<and> V t = V v"
proof -
  from assms(3) obtain ys zs where xs: "xs = ys @ a # zs" by (auto dest: split_list)
  with assms(1) obtain u v where loop: "foldE f ys s = Inr u" "f a u = Inr v" "foldE f zs v = Inr t"
    by (auto simp: foldE_append bindE_eq_Inr)
  have "V u = V s"
    by (rule foldE_invariant [OF loop(1)]) (use frame assms(2) xs in fastforce)+
  moreover have "V t = V v"
    by (rule foldE_invariant [OF loop(3)]) (use frame assms(2) xs in fastforce)+
  ultimately show ?thesis using loop(2) by blast
qed

text \<open>
  A loop that refines a loop over abstract states: every pass does, under an invariant and a condition on the abstract
  state that the pass meets.
\<close>

fun steps_ok :: "('a \<Rightarrow> 'm \<Rightarrow> bool) \<Rightarrow> ('a \<Rightarrow> 'm \<Rightarrow> 'm) \<Rightarrow> 'a list \<Rightarrow> 'm \<Rightarrow> bool" where
  "steps_ok P f [] m \<longleftrightarrow> True"
| "steps_ok P f (x # xs) m \<longleftrightarrow> P x m \<and> steps_ok P f xs (f x m)"

lemma foldE_refines:
  assumes "I s" and "steps_ok P f xs (view s)"
    and "\<And>x s. I s \<Longrightarrow> P x (view s) \<Longrightarrow> \<exists>t. g x s = Inr t \<and> I t \<and> view t = f x (view s)"
  shows "\<exists>t. foldE g xs s = Inr t \<and> I t \<and> view t = fold f xs (view s)"
  using assms
proof (induction xs arbitrary: s)
  case Nil
  then show ?case by simp
next
  case (Cons x xs)
  from Cons.prems(2) have "P x (view s)" "steps_ok P f xs (f x (view s))" by simp_all
  with Cons.prems(1,3) obtain t where t: "g x s = Inr t" "I t" "view t = f x (view s)" by blast
  with Cons.IH [OF t(2)] \<open>steps_ok P f xs (f x (view s))\<close> Cons.prems(3) show ?case by simp
qed

lemma fold_invariant:
  assumes "P s" and "\<And>x s. x \<in> set xs \<Longrightarrow> P s \<Longrightarrow> P (f x s)"
  shows "P (fold f xs s)"
  using assms by (induction xs arbitrary: s) auto

section \<open>Arrays\<close>

text \<open>
  Fixed-size arrays whose bounds matter are lists. A checked read or write takes the C index as
  an \<open>int\<close>, because the sources compute indices in \<open>int\<close>.
\<close>

definition in_range :: "'a list \<Rightarrow> int \<Rightarrow> bool" where
  "in_range xs i \<longleftrightarrow> 0 \<le> i \<and> i < int (length xs)"

definition aget :: "'a list \<Rightarrow> int \<Rightarrow> 'a res" where
  "aget xs i = (if in_range xs i then Inr (xs ! nat i) else Inl OutOfBounds)"

definition aset :: "'a list \<Rightarrow> int \<Rightarrow> 'a \<Rightarrow> 'a list res" where
  "aset xs i v = (if in_range xs i then Inr (xs[nat i := v]) else Inl OutOfBounds)"

lemma aget_Inr [resE_simps]: "aget xs i = Inr v \<longleftrightarrow> in_range xs i \<and> v = xs ! nat i"
  by (auto simp: aget_def)

lemma aset_Inr [resE_simps]: "aset xs i v = Inr ys \<longleftrightarrow> in_range xs i \<and> ys = xs[nat i := v]"
  by (auto simp: aset_def)

lemma in_range_update [simp]: "in_range (xs[j := v]) i = in_range xs i"
  by (simp add: in_range_def)

text \<open>Arrays of two dimensions that are indexed within their bounds are functions.\<close>

definition upd2 :: "('i \<Rightarrow> 'j \<Rightarrow> 'a) \<Rightarrow> 'i \<Rightarrow> 'j \<Rightarrow> 'a \<Rightarrow> ('i \<Rightarrow> 'j \<Rightarrow> 'a)" where
  "upd2 f i j v = f(i := (f i)(j := v))"

lemma upd2_apply [simp]: "upd2 f i j v i' j' = (if i' = i \<and> j' = j then v else f i' j')"
  by (simp add: upd2_def)

section \<open>Index-linked lists\<close>

text \<open>
  The MAC layer links UEs by index arrays: \<open>for (i = head; i >= 0; i = next[i])\<close>.
  \<open>walk\<close> lists the indices such a loop visits; a negative index ends it and fuel bounds it, so that
  a cyclic list is \<open>None\<close>. \<open>chain\<close> says that an array links exactly the elements of a list.
\<close>

fun walk :: "nat \<Rightarrow> (nat \<Rightarrow> int) \<Rightarrow> int \<Rightarrow> nat list option" where
  "walk fuel nxt i =
     (if i < 0 then Some []
      else (case fuel of
              0 \<Rightarrow> None
            | Suc n \<Rightarrow> map_option (Cons (nat i)) (walk n nxt (nxt (nat i)))))"

declare walk.simps [simp del]

fun chain :: "(nat \<Rightarrow> int) \<Rightarrow> int \<Rightarrow> nat list \<Rightarrow> bool" where
  "chain nxt i [] \<longleftrightarrow> i < 0"
| "chain nxt i (x # xs) \<longleftrightarrow> i = int x \<and> chain nxt (nxt x) xs"

lemma walk_chain: "chain nxt i xs \<Longrightarrow> length xs \<le> fuel \<Longrightarrow> walk fuel nxt i = Some xs"
proof (induction xs arbitrary: i fuel)
  case Nil
  then show ?case by (simp add: walk.simps)
next
  case (Cons x xs)
  then obtain n where "fuel = Suc n" by (cases fuel) auto
  with Cons show ?case by (simp add: walk.simps)
qed

lemma chain_walk: "walk fuel nxt i = Some xs \<Longrightarrow> chain nxt i xs \<and> length xs \<le> fuel"
proof (induction fuel arbitrary: i xs)
  case 0
  then show ?case by (auto simp: walk.simps split: if_splits)
next
  case (Suc n)
  show ?case
  proof (cases "i < 0")
    case True
    with Suc.prems show ?thesis by (simp add: walk.simps)
  next
    case False
    with Suc.prems obtain ys where "walk n nxt (nxt (nat i)) = Some ys" and "xs = nat i # ys"
      by (auto simp: walk.simps)
    with Suc.IH [of "nxt (nat i)" ys] False show ?thesis by simp
  qed
qed

lemma chain_determined: "chain nxt i xs \<Longrightarrow> chain nxt i ys \<Longrightarrow> xs = ys"
proof (induction xs arbitrary: i ys)
  case Nil
  then show ?case by (cases ys) auto
next
  case (Cons x xs)
  then show ?case by (cases ys) auto
qed

lemma chain_suffix: "chain nxt i (xs @ x # ys) \<Longrightarrow> chain nxt (nxt x) ys"
  by (induction xs arbitrary: i) auto

lemma chain_distinct: "chain nxt i xs \<Longrightarrow> distinct xs"
proof (rule ccontr)
  assume c: "chain nxt i xs" and "\<not> distinct xs"
  then obtain as x bs cs where xs: "xs = as @ [x] @ bs @ [x] @ cs" by (metis not_distinct_decomp)
  from c have "chain nxt (nxt x) (bs @ x # cs)" "chain nxt (nxt x) cs"
    unfolding xs using chain_suffix [of nxt i as x "bs @ x # cs"]
      chain_suffix [of nxt i "as @ x # bs" x cs] by auto
  then have "bs @ x # cs = cs" by (rule chain_determined)
  then have "length (bs @ x # cs) = length cs" by simp
  then show False by simp
qed

lemma chain_upd: "x \<notin> set xs \<Longrightarrow> chain (nxt(x := v)) i xs = chain nxt i xs"
  by (induction xs arbitrary: i) auto

text \<open>
  A segment of links from one index to another, for reasoning about surgery in the middle of a list.
\<close>

fun links :: "(nat \<Rightarrow> int) \<Rightarrow> int \<Rightarrow> nat list \<Rightarrow> int \<Rightarrow> bool" where
  "links nxt i [] e \<longleftrightarrow> i = e"
| "links nxt i (x # xs) e \<longleftrightarrow> i = int x \<and> links nxt (nxt x) xs e"

lemma links_append:
  "links nxt i (xs @ ys) e \<longleftrightarrow> (\<exists>m. links nxt i xs m \<and> links nxt m ys e)"
  by (induction xs arbitrary: i) auto

lemma chain_links: "chain nxt i xs \<longleftrightarrow> (\<exists>e < 0. links nxt i xs e)"
  by (induction xs arbitrary: i) auto

lemma links_upd [simp]: "x \<notin> set xs \<Longrightarrow> links (nxt(x := v)) i xs e = links nxt i xs e"
  by (induction xs arbitrary: i) auto

lemma links_cong: "(\<And>x. x \<in> set xs \<Longrightarrow> n x = n' x) \<Longrightarrow> links n i xs e = links n' i xs e"
  by (induction xs arbitrary: i) auto

lemma links_start: "links nxt i xs e \<Longrightarrow> i = (if xs = [] then e else int (hd xs))"
  by (cases xs) auto

lemma links_redirect:
  "links nxt i xs e \<Longrightarrow> distinct xs \<Longrightarrow> xs \<noteq> [] \<Longrightarrow> links (nxt(last xs := v)) i xs v"
proof (induction xs arbitrary: i)
  case Nil
  then show ?case by simp
next
  case (Cons x xs)
  show ?case
  proof (cases "xs = []")
    case True
    with Cons.prems show ?thesis by simp
  next
    case False
    with Cons.prems have "last xs \<noteq> x" by (metis distinct.simps(2) last_in_set)
    with False Cons show ?thesis by simp
  qed
qed

text \<open>Writing the links of a list, as the sorting functions of the schedulers do.\<close>

fun write_links :: "nat list \<Rightarrow> (nat \<Rightarrow> int) \<Rightarrow> (nat \<Rightarrow> int)" where
  "write_links [] nxt = nxt"
| "write_links [x] nxt = nxt(x := - 1)"
| "write_links (x # y # ys) nxt = write_links (y # ys) (nxt(x := int y))"

definition list_head :: "nat list \<Rightarrow> int" where
  "list_head xs = (case xs of [] \<Rightarrow> - 1 | x # _ \<Rightarrow> int x)"

lemma write_links_other: "x \<notin> set xs \<Longrightarrow> write_links xs nxt x = nxt x"
  by (induction xs nxt rule: write_links.induct) auto

lemma chain_write_links: "distinct xs \<Longrightarrow> chain (write_links xs nxt) (list_head xs) xs"
  by (induction xs nxt rule: write_links.induct) (auto simp: list_head_def write_links_other)

end
