(* ===== verification/Slices.thy ===== *)
theory Slices
  imports Prelude Complex_Main
begin

text \<open>
  The slice table of the eNodeB: \<open>LAYER2/MAC/main.c\<close> keeps the global \<open>Global_Info\<close>, sets it up in
  \<open>Initialization_\<close>, and updates the radio resources of the slices from the messages that the
  hypervisor sends over a socket; \<open>LAYER2/MAC/pre_processor.c\<close> looks quotas up by UE. The types are
  those of \<open>LAYER2/MAC/defs.h\<close>.
\<close>

section \<open>State\<close>

definition SLICENUM :: nat where
  "SLICENUM = 3"

record slice_info =
  UE_id :: int
  IMSI :: int
  slice_RNTI :: int
  uRB :: int
  dRB :: int
  latency :: rat
  slice_active :: int

record global_infos =
  SOCKET_ID :: int
  COMM_PORT :: int
  BUFFER_SIZE :: int
  Thor :: int
  Slice_Info :: "slice_info list"

definition zero_slice :: slice_info where
  "zero_slice = \<lparr>UE_id = 0, IMSI = 0, slice_RNTI = 0, uRB = 0, dRB = 0, latency = 0,
     slice_active = 0\<rparr>"

text \<open>The static initialiser \<open>GLOBAL_INFOS Global_Info={49,50}\<close>: the other fields are zero.\<close>

definition Global_Info_static :: global_infos where
  "Global_Info_static = \<lparr>SOCKET_ID = 49, COMM_PORT = 50, BUFFER_SIZE = 0, Thor = 0,
     Slice_Info = replicate SLICENUM zero_slice\<rparr>"

section \<open>Initialisation\<close>

definition init_slice :: "int \<Rightarrow> slice_info \<Rightarrow> slice_info" where
  "init_slice n s = s\<lparr>UE_id := n, IMSI := n, slice_RNTI := 0, uRB := 10, dRB := 10,
     slice_active := 1\<rparr>"

definition Initialization :: "global_infos \<Rightarrow> global_infos" where
  "Initialization g = g\<lparr>SOCKET_ID := 0, COMM_PORT := 8888, BUFFER_SIZE := 256, Thor := 1,
     Slice_Info := (Slice_Info g)
       [0 := init_slice 0 (Slice_Info g ! 0),
        1 := init_slice 1 (Slice_Info g ! 1),
        2 := init_slice 2 (Slice_Info g ! 2)]\<rparr>"

section \<open>Messages of the hypervisor\<close>

text \<open>
  A message is an array of doubles. A finite double is a rational number; C truncates it towards
  zero when it is stored in an \<open>int\<close>, and the conversion is undefined outside the range of \<open>int\<close>.
\<close>

definition double_to_int :: "rat \<Rightarrow> int res" where
  "double_to_int x =
     (let n = (if x < 0 then \<lceil>x\<rceil> else \<lfloor>x\<rfloor>)
      in if - (2 ^ 31) \<le> n \<and> n < 2 ^ 31 then Inr n else Inl Undefined)"

text \<open>
  What \<open>recv\<close> with \<open>MSG_WAITALL\<close> returns: zero or a negative value, or the filled buffer of
  \<open>BUFFER_SIZE\<close> doubles. A short positive return leaves the rest of the buffer uninitialised; the
  list then holds the doubles that arrived.
\<close>

datatype recv_outcome = RecvFail | RecvData "rat list"

definition set_quota :: "nat \<Rightarrow> int \<Rightarrow> int \<Rightarrow> global_infos \<Rightarrow> global_infos" where
  "set_quota n u d g = g\<lparr>Slice_Info := (Slice_Info g)
     [n := (Slice_Info g ! n)\<lparr>uRB := u, dRB := d\<rparr>]\<rparr>"

definition recv_double :: "rat list \<Rightarrow> nat \<Rightarrow> int res" where
  "recv_double xs i = (if i < length xs then double_to_int (xs ! i) else Inl Undefined)"

definition socket_recv_function :: "recv_outcome \<Rightarrow> global_infos \<Rightarrow> (int \<times> global_infos) res" where
  "socket_recv_function r g =
     (case r of
        RecvFail \<Rightarrow> Inr (0, g)
      | RecvData recv_data \<Rightarrow>
          bindE (recv_double recv_data 0) (\<lambda>u0.
          bindE (recv_double recv_data 1) (\<lambda>d0.
          bindE (recv_double recv_data 2) (\<lambda>u1.
          bindE (recv_double recv_data 3) (\<lambda>d1.
          Inr (1, set_quota 1 u1 d1 (set_quota 0 u0 d0 g)))))))"

text \<open>
  \<open>recv_in_thread\<close> receives until a receive does not return 1. The outcomes of the calls are a list;
  the loop may also still be waiting when the list is used up, so the result says whether the thread
  has ended.
\<close>

fun recv_in_thread :: "recv_outcome list \<Rightarrow> global_infos \<Rightarrow> (bool \<times> global_infos) res" where
  "recv_in_thread [] g = Inr (False, g)"
| "recv_in_thread (r # rs) g =
     bindE (socket_recv_function r g)
       (\<lambda>(ret, g'). if ret \<noteq> 1 then Inr (True, g') else recv_in_thread rs g')"

text \<open>
  The listening thread stores each accepted socket in \<open>Global_Info.SOCKET_ID\<close> and starts a receiver;
  a receiver reads the global socket number before each call. The threads interleave: an event is
  an \<open>accept\<close> that returned, or a receive of some live receiver.
\<close>

record server =
  info :: global_infos
  receivers :: nat

datatype server_event = Accept int | Receive recv_outcome

fun server_step :: "server_event \<Rightarrow> server \<Rightarrow> server res" where
  "server_step (Accept fd) s = Inr (s\<lparr>info := (info s)\<lparr>SOCKET_ID := fd\<rparr>, receivers := Suc (receivers s)\<rparr>)"
| "server_step (Receive r) s =
     (if receivers s = 0 then Inr s
      else bindE (socket_recv_function r (info s))
        (\<lambda>(ret, g). Inr (s\<lparr>info := g,
            receivers := (if ret \<noteq> 1 then receivers s - 1 else receivers s)\<rparr>)))"

definition start_radio_slicing_function :: "global_infos \<Rightarrow> server" where
  "start_radio_slicing_function g = \<lparr>info = Initialization g, receivers = 0\<rparr>"

section \<open>Quotas of a UE\<close>

fun find_slice :: "slice_info list \<Rightarrow> int \<Rightarrow> slice_info option" where
  "find_slice [] ue = None"
| "find_slice (s # ss) ue =
     (if UE_id s = ue \<and> slice_active s = 1 then Some s else find_slice ss ue)"

definition UE_RNTI_process_function_downlink :: "global_infos \<Rightarrow> int \<Rightarrow> int" where
  "UE_RNTI_process_function_downlink g ue =
     (case find_slice (take SLICENUM (Slice_Info g)) ue of Some s \<Rightarrow> dRB s | None \<Rightarrow> 10)"

definition UE_RNTI_process_function_uplink :: "global_infos \<Rightarrow> int \<Rightarrow> int" where
  "UE_RNTI_process_function_uplink g ue =
     (case find_slice (take SLICENUM (Slice_Info g)) ue of Some s \<Rightarrow> uRB s | None \<Rightarrow> 10)"

section \<open>Basic facts\<close>

lemma length_Initialization [simp]:
  "length (Slice_Info (Initialization g)) = length (Slice_Info g)"
  by (simp add: Initialization_def)

lemma length_set_quota [simp]: "length (Slice_Info (set_quota n u d g)) = length (Slice_Info g)"
  by (simp add: set_quota_def)

lemma set_quota_other:
  "m \<noteq> n \<Longrightarrow> Slice_Info (set_quota n u d g) ! m = Slice_Info g ! m"
  by (simp add: set_quota_def)

lemma set_quota_same:
  "n < length (Slice_Info g) \<Longrightarrow>
   Slice_Info (set_quota n u d g) ! n = (Slice_Info g ! n)\<lparr>uRB := u, dRB := d\<rparr>"
  by (simp add: set_quota_def)

text \<open>What identifies a slice, as opposed to its quota.\<close>

definition slice_key :: "slice_info \<Rightarrow> int \<times> int \<times> int \<times> int" where
  "slice_key s = (UE_id s, IMSI s, slice_RNTI s, slice_active s)"

lemma slice_key_quota [simp]: "slice_key (s\<lparr>uRB := u, dRB := d\<rparr>) = slice_key s"
  by (simp add: slice_key_def)

lemma keys_set_quota [simp]:
  "map slice_key (Slice_Info (set_quota n u d g)) = map slice_key (Slice_Info g)"
proof (cases "n < length (Slice_Info g)")
  case True
  then have "map slice_key (Slice_Info (set_quota n u d g))
      = (map slice_key (Slice_Info g))[n := slice_key (Slice_Info g ! n)]"
    by (simp add: set_quota_def map_update)
  also have "\<dots> = map slice_key (Slice_Info g)"
    using True by (metis list_update_id nth_map length_map)
  finally show ?thesis .
next
  case False
  then show ?thesis by (simp add: set_quota_def list_update_beyond)
qed

text \<open>The effect of one receive, on every branch.\<close>

lemma socket_recv_function_cases:
  assumes "socket_recv_function r g = Inr (ret, g')"
  obtains "r = RecvFail" and "ret = 0" and "g' = g"
  | xs u0 d0 u1 d1 where "r = RecvData xs" and "ret = 1"
      and "recv_double xs 0 = Inr u0" and "recv_double xs 1 = Inr d0"
      and "recv_double xs 2 = Inr u1" and "recv_double xs 3 = Inr d1"
      and "g' = set_quota 1 u1 d1 (set_quota 0 u0 d0 g)"
  using assms
  by (cases r) (auto simp: socket_recv_function_def elim!: bindE_eq_InrE)

text \<open>
  The invariant of the slice table: three slices with the identities of \<open>Initialization\<close>, and the
  third slice, which no message writes, with its initial quota.
\<close>

definition slice_table_ok :: "global_infos \<Rightarrow> bool" where
  "slice_table_ok g \<longleftrightarrow>
     map slice_key (Slice_Info g) = [(0, 0, 0, 1), (1, 1, 0, 1), (2, 2, 0, 1)] \<and>
     uRB (Slice_Info g ! 2) = 10 \<and> dRB (Slice_Info g ! 2) = 10"

lemma slice_table_length: "slice_table_ok g \<Longrightarrow> length (Slice_Info g) = 3"
  unfolding slice_table_ok_def by (drule conjunct1, drule arg_cong [where f = length]) simp

lemma slice_table_ok_Initialization:
  assumes "length (Slice_Info g) = SLICENUM"
  shows "slice_table_ok (Initialization g)"
proof -
  from assms obtain a b c where "Slice_Info g = [a, b, c]"
    by (auto simp: SLICENUM_def numeral_3_eq_3 length_Suc_conv)
  then show ?thesis
    by (simp add: slice_table_ok_def Initialization_def init_slice_def slice_key_def)
qed

lemma slice_table_ok_SOCKET_ID [simp]: "slice_table_ok (g\<lparr>SOCKET_ID := fd\<rparr>) = slice_table_ok g"
  by (simp add: slice_table_ok_def)

lemma slice_table_ok_recv:
  assumes "slice_table_ok g" and "socket_recv_function r g = Inr (ret, g')"
  shows "slice_table_ok g'"
  using assms(2)
proof (cases rule: socket_recv_function_cases)
  case 1
  with assms(1) show ?thesis by simp
next
  case (2 xs u0 d0 u1 d1)
  with assms(1) show ?thesis by (simp add: slice_table_ok_def set_quota_other)
qed

text \<open>The states the server reaches from its start, by any interleaving of its threads.\<close>

inductive server_reachable :: "server \<Rightarrow> bool" where
  start: "server_reachable (start_radio_slicing_function Global_Info_static)"
| step: "server_reachable s \<Longrightarrow> server_step e s = Inr s' \<Longrightarrow> server_reachable s'"

inductive_cases server_reachableE: "server_reachable s"

fun_cases Accept_step: "server_step (Accept fd) s = Inr s'"
  and Receive_step: "server_step (Receive r) s = Inr s'"

lemma server_step_table_ok:
  assumes "slice_table_ok (info s)" and "server_step e s = Inr s'"
  shows "slice_table_ok (info s')"
proof (cases e)
  case (Accept fd)
  with assms show ?thesis by auto
next
  case (Receive r)
  show ?thesis
  proof (cases "receivers s = 0")
    case True
    with Receive assms show ?thesis by simp
  next
    case False
    with Receive assms(2) obtain ret g where
      "socket_recv_function r (info s) = Inr (ret, g)" and "info s' = g"
      by (auto elim!: bindE_eq_InrE)
    with assms(1) show ?thesis by (auto intro: slice_table_ok_recv)
  qed
qed

lemma server_reachable_table_ok: "server_reachable s \<Longrightarrow> slice_table_ok (info s)"
proof (induction rule: server_reachable.induct)
  case start
  show ?case
    by (simp add: start_radio_slicing_function_def Global_Info_static_def
        slice_table_ok_Initialization)
next
  case (step s e s')
  then show ?case by (blast intro: server_step_table_ok)
qed

text \<open>Where the table is well formed, the search of a UE is the slice of its number.\<close>

lemma slice_table_elems:
  assumes "slice_table_ok g"
  obtains a b c where "Slice_Info g = [a, b, c]"
    and "UE_id a = 0" and "slice_active a = 1" and "UE_id b = 1" and "slice_active b = 1"
    and "UE_id c = 2" and "slice_active c = 1" and "uRB c = 10" and "dRB c = 10"
proof -
  from slice_table_length [OF assms] obtain a b c where abc: "Slice_Info g = [a, b, c]"
    by (auto simp: numeral_3_eq_3 length_Suc_conv)
  with assms that show thesis by (simp add: slice_table_ok_def slice_key_def)
qed

lemma find_slice_ok:
  assumes "slice_table_ok g"
  shows "find_slice (take SLICENUM (Slice_Info g)) ue
    = (if 0 \<le> ue \<and> ue < 3 then Some (Slice_Info g ! nat ue) else None)"
  using slice_table_elems [OF assms]
proof cases
  case (1 a b c)
  consider "ue = 0" | "ue = 1" | "ue = 2" | "\<not> (0 \<le> ue \<and> ue < 3)" by arith
  then show ?thesis by cases (use 1 in \<open>auto simp: SLICENUM_def\<close>)
qed

lemma downlink_quota_ok:
  assumes "slice_table_ok g"
  shows "UE_RNTI_process_function_downlink g ue
    = (if 0 \<le> ue \<and> ue < 2 then dRB (Slice_Info g ! nat ue) else 10)"
proof -
  consider "ue = 2" | "0 \<le> ue \<and> ue < 2" | "\<not> (0 \<le> ue \<and> ue < 3)" by arith
  then show ?thesis
    using assms
    by cases (auto simp: UE_RNTI_process_function_downlink_def find_slice_ok slice_table_ok_def)
qed

lemma uplink_quota_ok:
  assumes "slice_table_ok g"
  shows "UE_RNTI_process_function_uplink g ue
    = (if 0 \<le> ue \<and> ue < 2 then uRB (Slice_Info g ! nat ue) else 10)"
proof -
  consider "ue = 2" | "0 \<le> ue \<and> ue < 2" | "\<not> (0 \<le> ue \<and> ue < 3)" by arith
  then show ?thesis
    using assms
    by cases (auto simp: UE_RNTI_process_function_uplink_def find_slice_ok slice_table_ok_def)
qed

lemma quota_after_message:
  assumes "slice_table_ok g" and "socket_recv_function (RecvData xs) g = Inr (ret, g')"
  shows "ret = 1 \<and>
    recv_double xs 0 = Inr (UE_RNTI_process_function_uplink g' 0) \<and>
    recv_double xs 1 = Inr (UE_RNTI_process_function_downlink g' 0) \<and>
    recv_double xs 2 = Inr (UE_RNTI_process_function_uplink g' 1) \<and>
    recv_double xs 3 = Inr (UE_RNTI_process_function_downlink g' 1)"
proof -
  have ok: "slice_table_ok g'" using assms by (rule slice_table_ok_recv)
  have len: "length (Slice_Info g) = 3" using assms(1) by (rule slice_table_length)
  from assms(2) obtain u0 d0 u1 d1 where r: "ret = 1"
    "recv_double xs 0 = Inr u0" "recv_double xs 1 = Inr d0"
    "recv_double xs 2 = Inr u1" "recv_double xs 3 = Inr d1"
    and g': "g' = set_quota 1 u1 d1 (set_quota 0 u0 d0 g)"
    by (cases rule: socket_recv_function_cases) auto
  from len have "uRB (Slice_Info g' ! 0) = u0" "dRB (Slice_Info g' ! 0) = d0"
    "uRB (Slice_Info g' ! 1) = u1" "dRB (Slice_Info g' ! 1) = d1"
    unfolding g' by (simp_all add: set_quota_def)
  with r show ?thesis by (simp add: uplink_quota_ok [OF ok] downlink_quota_ok [OF ok])
qed

text \<open>
  A receiver thread: after messages that all arrive whole, the quotas are those of the last message;
  a failed receive ends the thread and changes nothing.
\<close>

lemma recv_in_thread_append:
  "recv_in_thread (rs @ [r]) g =
     bindE (recv_in_thread rs g)
       (\<lambda>(ended, g'). if ended then Inr (True, g') else recv_in_thread [r] g')"
  by (induction rs arbitrary: g) (auto simp: bindE_def split: sum.splits)

lemma recv_in_thread_table_ok:
  "slice_table_ok g \<Longrightarrow> recv_in_thread rs g = Inr (e, g') \<Longrightarrow> slice_table_ok g'"
proof (induction rs arbitrary: g)
  case Nil
  then show ?case by simp
next
  case (Cons r rs)
  from Cons.prems(2) obtain ret g1 where r: "socket_recv_function r g = Inr (ret, g1)"
    and rest: "(if ret \<noteq> 1 then Inr (True, g1) else recv_in_thread rs g1) = Inr (e, g')"
    by (auto elim!: bindE_eq_InrE)
  have "slice_table_ok g1" using Cons.prems(1) r by (rule slice_table_ok_recv)
  with rest Cons.IH show ?case by (auto split: if_splits)
qed

section \<open>Properties\<close>

text \<open>C9. A whole message of the hypervisor, received in any reachable state of the slicing server,
  sets the uplink and downlink quotas of the UEs 0 and 1 to its first four numbers truncated towards
  zero; the receiver stays alive.\<close>

theorem hypervisor_message_sets_quotas:
  assumes "server_reachable s" and "0 < receivers s"
    and "server_step (Receive (RecvData xs)) s = Inr s'"
  shows "recv_double xs 0 = Inr (UE_RNTI_process_function_uplink (info s') 0)
    \<and> recv_double xs 1 = Inr (UE_RNTI_process_function_downlink (info s') 0)
    \<and> recv_double xs 2 = Inr (UE_RNTI_process_function_uplink (info s') 1)
    \<and> recv_double xs 3 = Inr (UE_RNTI_process_function_downlink (info s') 1)
    \<and> receivers s' = receivers s"
proof -
  from assms(2,3) obtain ret g where
    r: "socket_recv_function (RecvData xs) (info s) = Inr (ret, g)"
    and s': "info s' = g" "receivers s' = (if ret \<noteq> 1 then receivers s - 1 else receivers s)"
    by (auto elim!: bindE_eq_InrE)
  from quota_after_message [OF server_reachable_table_ok [OF assms(1)] r] s' show ?thesis by simp
qed

text \<open>The server after one hypervisor has connected.\<close>

definition connected_server :: server where
  "connected_server = (start_radio_slicing_function Global_Info_static)
     \<lparr>info := (info (start_radio_slicing_function Global_Info_static))\<lparr>SOCKET_ID := 7\<rparr>, receivers := 1\<rparr>"

lemma connected_server_reachable: "server_reachable connected_server"
proof (rule server_reachable.step [OF server_reachable.start])
  show "server_step (Accept 7) (start_radio_slicing_function Global_Info_static)
      = Inr connected_server"
    by (simp add: connected_server_def start_radio_slicing_function_def)
qed

theorem hypervisor_message_sets_quotas_witness:
  "\<exists>s'. server_step (Receive (RecvData [12, 9, 6, 3])) connected_server = Inr s'
    \<and> UE_RNTI_process_function_downlink (info s') 1 = 3"
proof -
  have "\<exists>s'. server_step (Receive (RecvData [12, 9, 6, 3])) connected_server = Inr s'"
    by (simp add: connected_server_def socket_recv_function_def recv_double_def double_to_int_def)
  then obtain s' where
    s': "server_step (Receive (RecvData [12, 9, 6, 3])) connected_server = Inr s'" by blast
  have "0 < receivers connected_server" by (simp add: connected_server_def)
  from hypervisor_message_sets_quotas [OF connected_server_reachable this s'] s' show ?thesis
    by (simp add: recv_double_def double_to_int_def)
qed

text \<open>C17. In every reachable state of the slicing server, whatever messages and connections
  interleave, a UE other than 0 and 1 has the quota 10 in both directions.\<close>

theorem other_quotas_constant:
  assumes "server_reachable s" and "ue \<noteq> 0" and "ue \<noteq> 1"
  shows "UE_RNTI_process_function_downlink (info s) ue = 10
    \<and> UE_RNTI_process_function_uplink (info s) ue = 10"
proof -
  have "\<not> (0 \<le> ue \<and> ue < 2)" using assms(2,3) by arith
  with server_reachable_table_ok [OF assms(1)] show ?thesis
    by (simp only: downlink_quota_ok uplink_quota_ok if_False)
qed

theorem other_quotas_constant_witness:
  "UE_RNTI_process_function_downlink (info connected_server) 2 = 10"
  using other_quotas_constant [OF connected_server_reachable, of 2] by simp

text \<open>A receiver thread that ends after some receives leaves the quotas of its last complete
  message: the receive that ends it changes nothing, and no receive after it happens.\<close>

theorem recv_in_thread_ends:
  assumes "recv_in_thread rs g = Inr (False, g')"
  shows "recv_in_thread (rs @ RecvFail # qs) g = Inr (True, g')
    \<and> (slice_table_ok g \<longrightarrow> slice_table_ok g')"
proof -
  have "recv_in_thread (rs @ ps) g = recv_in_thread ps g'"
    if "recv_in_thread rs g = Inr (False, g')" for ps
    using that by (induction rs arbitrary: g) (auto simp: bindE_def split: sum.splits if_splits)
  with assms recv_in_thread_table_ok show ?thesis by (simp add: socket_recv_function_def)
qed

theorem recv_in_thread_ends_witness:
  "recv_in_thread ([RecvData [1, 2, 3, 4]] @ RecvFail # [RecvData [5, 6, 7, 8]]) Global_Info_static
    = Inr (True, set_quota 1 3 4 (set_quota 0 1 2 Global_Info_static))"
proof -
  have "recv_in_thread [RecvData [1, 2, 3, 4]] Global_Info_static
      = Inr (False, set_quota 1 3 4 (set_quota 0 1 2 Global_Info_static))"
    by (simp add: socket_recv_function_def recv_double_def double_to_int_def)
  from recv_in_thread_ends [OF this] show ?thesis by blast
qed

end
