(* ===== verification/MacState.thy ===== *)
theory MacState
  imports Prelude
begin

text \<open>
  The state of one eNodeB MAC instance (\<open>eNB_mac_inst[Mod_id]\<close>): the UE list, the per-UE templates
  and scheduling control blocks, the random access templates and the tables of
  \<open>eNB_dlsch_info\<close> / \<open>eNB_ulsch_info\<close>, with the field names of \<open>LAYER2/MAC/defs.h\<close>. Only fields that the
  modelled functions touch are present. Component carriers and UE slots are natural numbers; arrays
  indexed by them are functions.
\<close>

section \<open>Constants\<close>

text \<open>The limits of the USRP build (\<open>openairinterface5g_limits.h\<close>, \<open>CMakeLists.txt\<close>).\<close>

definition MAX_NUM_CCs :: nat where "MAX_NUM_CCs = 1"
definition N_RBG_MAX :: nat where "N_RBG_MAX = 25"
definition MAX_NUM_LCID :: nat where "MAX_NUM_LCID = 11"
definition NB_RA_PROC_MAX :: nat where "NB_RA_PROC_MAX = 4"

section \<open>Structures\<close>

record ue_template =
  rnti :: u16
  oldNDI :: "u8 list"
  oldNDI_UL :: "u8 list"
  ul_active :: bool
  configured :: bool
  nb_rb :: "u16 list"
  nb_rb_ul :: "u16 list"
  pre_allocated_nb_rb_ul :: u8
  pre_allocated_rb_table_index_ul :: int
  pre_assigned_mcs_ul :: u8
  ul_SR :: u8
  bsr_info :: "u8 list"
  phr_info :: int
  dl_buffer_info :: "u32 list"
  dl_buffer_total :: u32
  dl_pdus_total :: u32
  dl_pdus_in_buffer :: "u32 list"
  dl_buffer_head_sdu_creation_time :: "u32 list"
  dl_buffer_head_sdu_creation_time_max :: u32
  dl_buffer_head_sdu_is_segmented :: "u8 list"
  dl_buffer_head_sdu_remaining_size_to_send :: "u32 list"
  ul_total_buffer :: u32
  ul_buffer_info :: "u32 list"
  ue_tx_power :: int

record ue_sched_ctrl =
  harq_pid :: "nat \<Rightarrow> u8"
  harq_round :: "nat \<Rightarrow> u8"
  dl_pow_off :: "nat \<Rightarrow> u8"
  pre_nb_available_rbs :: "nat \<Rightarrow> u16"
  rballoc_sub_UE :: "nat \<Rightarrow> u8 list"
  ta_timer :: u16
  ta_update :: int
  ul_inactivity_timer :: int
  ul_failure_timer :: int
  ul_scheduled :: int
  ul_out_of_sync :: int
  phr_received :: int

datatype sched_status = S_NONE | S_WAITING | S_SCHEDULED | S_BUFFERED

record sched_info =
  info_rnti :: u16
  weight :: u16
  info_subframe :: u16
  serving_num :: u16
  status :: sched_status

record ra_template =
  RA_active :: bool
  generate_rar :: u8
  generate_Msg4 :: u8
  wait_ack_Msg4 :: u8
  ra_rnti :: u16
  timing_offset :: int
  RRC_timer :: int

text \<open>\<open>ra_rnti\<close> is the field \<open>rnti\<close> of a template, the identity given in the response.\<close>

text \<open>The statistics the physical layer keeps of a UE, shared with the MAC (\<open>LTE_eNB_UE_stats\<close>).\<close>

record ue_stats =
  DL_cqi :: u8
  dlsch_mcs1 :: u8
  timing_advance_update :: int

record mac =
  UE_template :: "nat \<Rightarrow> nat \<Rightarrow> ue_template"
  pCC_id :: "nat \<Rightarrow> nat"
  ordered_CCids :: "nat \<Rightarrow> nat \<Rightarrow> nat"
  numactiveCCs :: "nat \<Rightarrow> nat"
  ordered_ULCCids :: "nat \<Rightarrow> nat \<Rightarrow> nat"
  numactiveULCCs :: "nat \<Rightarrow> nat"
  UE_sched_ctrl :: "nat \<Rightarrow> ue_sched_ctrl"
  next_dl :: "nat \<Rightarrow> int"
  head :: int
  next_ul :: "nat \<Rightarrow> int"
  head_ul :: int
  avail :: int
  num_UEs :: int
  active :: "nat \<Rightarrow> bool"
  eNB_dlsch_info :: "nat \<Rightarrow> nat \<Rightarrow> sched_info"
  eNB_ulsch_info :: "nat \<Rightarrow> nat \<Rightarrow> sched_info"
  RA_template :: "nat \<Rightarrow> nat \<Rightarrow> ra_template"
  vrb_map :: "nat \<Rightarrow> u8 list"
  phy_stats :: "nat \<Rightarrow> u16 \<Rightarrow> ue_stats option"
  phy_removed :: "u16 list"

section \<open>Zeroed structures\<close>

definition zero_template :: ue_template where
  "zero_template = \<lparr>rnti = 0, oldNDI = replicate 8 0, oldNDI_UL = replicate 8 0,
     ul_active = False, configured = False, nb_rb = replicate 8 0, nb_rb_ul = replicate 8 0,
     pre_allocated_nb_rb_ul = 0, pre_allocated_rb_table_index_ul = 0, pre_assigned_mcs_ul = 0,
     ul_SR = 0, bsr_info = replicate 4 0, phr_info = 0,
     dl_buffer_info = replicate MAX_NUM_LCID 0, dl_buffer_total = 0, dl_pdus_total = 0,
     dl_pdus_in_buffer = replicate MAX_NUM_LCID 0,
     dl_buffer_head_sdu_creation_time = replicate MAX_NUM_LCID 0,
     dl_buffer_head_sdu_creation_time_max = 0,
     dl_buffer_head_sdu_is_segmented = replicate MAX_NUM_LCID 0,
     dl_buffer_head_sdu_remaining_size_to_send = replicate MAX_NUM_LCID 0,
     ul_total_buffer = 0, ul_buffer_info = replicate 4 0, ue_tx_power = 0\<rparr>"

definition zero_sched_ctrl :: ue_sched_ctrl where
  "zero_sched_ctrl = \<lparr>harq_pid = (\<lambda>_. 0), harq_round = (\<lambda>_. 0), dl_pow_off = (\<lambda>_. 0),
     pre_nb_available_rbs = (\<lambda>_. 0), rballoc_sub_UE = (\<lambda>_. replicate N_RBG_MAX 0),
     ta_timer = 0, ta_update = 0, ul_inactivity_timer = 0, ul_failure_timer = 0,
     ul_scheduled = 0, ul_out_of_sync = 0, phr_received = 0\<rparr>"

definition zero_info :: sched_info where
  "zero_info = \<lparr>info_rnti = 0, weight = 0, info_subframe = 0, serving_num = 0, status = S_NONE\<rparr>"

definition zero_ra :: ra_template where
  "zero_ra = \<lparr>RA_active = False, generate_rar = 0, generate_Msg4 = 0, wait_ack_Msg4 = 0,
     ra_rnti = 0, timing_offset = 0, RRC_timer = 0\<rparr>"

text \<open>
  The instance after \<open>mac_top_init\<close>: all zero, the two UE lists empty, the arrays of links joining
  the slots in order. \<open>init_next\<close> is the loop that links them.
\<close>

definition init_next :: "nat \<Rightarrow> int" where
  "init_next i = (if i < NUMBER_OF_UE_MAX - 1 then int i + 1
     else if i = NUMBER_OF_UE_MAX - 1 then - 1 else 0)"

definition mac_top_init :: mac where
  "mac_top_init = \<lparr>UE_template = (\<lambda>_ _. zero_template), pCC_id = (\<lambda>_. 0),
     ordered_CCids = (\<lambda>_ _. 0), numactiveCCs = (\<lambda>_. 0), ordered_ULCCids = (\<lambda>_ _. 0),
     numactiveULCCs = (\<lambda>_. 0), UE_sched_ctrl = (\<lambda>_. zero_sched_ctrl),
     next_dl = init_next, head = - 1, next_ul = init_next, head_ul = - 1, avail = 0, num_UEs = 0,
     active = (\<lambda>_. False), eNB_dlsch_info = (\<lambda>_ _. zero_info), eNB_ulsch_info = (\<lambda>_ _. zero_info),
     RA_template = (\<lambda>_ _. zero_ra), vrb_map = (\<lambda>_. replicate 100 0),
     phy_stats = (\<lambda>_ _. None), phy_removed = []\<rparr>"

section \<open>Updates of one slot\<close>

definition upd_template :: "nat \<Rightarrow> nat \<Rightarrow> (ue_template \<Rightarrow> ue_template) \<Rightarrow> mac \<Rightarrow> mac" where
  "upd_template cc ue f s = s\<lparr>UE_template := upd2 (UE_template s) cc ue (f (UE_template s cc ue))\<rparr>"

definition upd_sched :: "nat \<Rightarrow> (ue_sched_ctrl \<Rightarrow> ue_sched_ctrl) \<Rightarrow> mac \<Rightarrow> mac" where
  "upd_sched ue f s = s\<lparr>UE_sched_ctrl := (UE_sched_ctrl s)(ue := f (UE_sched_ctrl s ue))\<rparr>"

lemma upd_template_simps [simp]:
  "UE_template (upd_template cc ue f s) =
     upd2 (UE_template s) cc ue (f (UE_template s cc ue))"
  "pCC_id (upd_template cc ue f s) = pCC_id s"
  "ordered_CCids (upd_template cc ue f s) = ordered_CCids s"
  "numactiveCCs (upd_template cc ue f s) = numactiveCCs s"
  "ordered_ULCCids (upd_template cc ue f s) = ordered_ULCCids s"
  "numactiveULCCs (upd_template cc ue f s) = numactiveULCCs s"
  "UE_sched_ctrl (upd_template cc ue f s) = UE_sched_ctrl s"
  "next_dl (upd_template cc ue f s) = next_dl s"
  "head (upd_template cc ue f s) = head s"
  "next_ul (upd_template cc ue f s) = next_ul s"
  "head_ul (upd_template cc ue f s) = head_ul s"
  "num_UEs (upd_template cc ue f s) = num_UEs s"
  "active (upd_template cc ue f s) = active s"
  "phy_stats (upd_template cc ue f s) = phy_stats s"
  by (simp_all add: upd_template_def)

lemma upd_sched_simps [simp]:
  "UE_template (upd_sched ue g s) = UE_template s"
  "pCC_id (upd_sched ue g s) = pCC_id s"
  "ordered_CCids (upd_sched ue g s) = ordered_CCids s"
  "numactiveCCs (upd_sched ue g s) = numactiveCCs s"
  "ordered_ULCCids (upd_sched ue g s) = ordered_ULCCids s"
  "numactiveULCCs (upd_sched ue g s) = numactiveULCCs s"
  "UE_sched_ctrl (upd_sched ue g s) = (UE_sched_ctrl s)(ue := g (UE_sched_ctrl s ue))"
  "next_dl (upd_sched ue g s) = next_dl s"
  "head (upd_sched ue g s) = head s"
  "next_ul (upd_sched ue g s) = next_ul s"
  "head_ul (upd_sched ue g s) = head_ul s"
  "num_UEs (upd_sched ue g s) = num_UEs s"
  "active (upd_sched ue g s) = active s"
  "phy_stats (upd_sched ue g s) = phy_stats s"
  by (simp_all add: upd_sched_def)

end
