(* ===== verification/UeList.thy ===== *)
theory UeList
  imports MacState
begin

text \<open>
  The UE list of the MAC: lookup, insertion and removal of UEs, the flags that mark a UE for the
  uplink scheduler, and the surgery on the index-linked UE lists. Everything is from
  \<open>LAYER2/MAC/eNB_scheduler_primitives.c\<close>.
\<close>

section \<open>Lookup\<close>

definition UE_PCCID :: "mac \<Rightarrow> nat \<Rightarrow> nat" where
  "UE_PCCID s ue = pCC_id s ue"

definition find_UE_id :: "mac \<Rightarrow> u16 \<Rightarrow> int" where
  "find_UE_id s r =
     (case find (\<lambda>ue. active s ue \<and> rnti (UE_template s (UE_PCCID s ue) ue) = r)
             [0..<NUMBER_OF_UE_MAX] of
        Some ue \<Rightarrow> int ue
      | None \<Rightarrow> - 1)"

definition UE_num_active_CC :: "mac \<Rightarrow> nat \<Rightarrow> nat" where
  "UE_num_active_CC s ue = numactiveCCs s ue"

definition UE_RNTI :: "mac \<Rightarrow> nat \<Rightarrow> u16" where
  "UE_RNTI s ue =
     (let r = rnti (UE_template s (UE_PCCID s ue) ue) in if r > 0 then r else NOT_A_RNTI)"

definition is_UE_active :: "mac \<Rightarrow> nat \<Rightarrow> bool" where
  "is_UE_active s ue = active s ue"

definition get_ue_weight :: "mac \<Rightarrow> nat \<Rightarrow> nat \<Rightarrow> u8" where
  "get_ue_weight s cc ue = ucast (weight (eNB_dlsch_info s cc ue))"

section \<open>Scheduling tables\<close>

definition init_ue_sched_info :: "mac \<Rightarrow> mac" where
  "init_ue_sched_info s = s\<lparr>
     eNB_dlsch_info := (\<lambda>cc ue. if cc < MAX_NUM_CCs \<and> ue < NUMBER_OF_UE_MAX
       then (eNB_dlsch_info s cc ue)\<lparr>weight := 0, info_subframe := 0, serving_num := 0,
              status := S_NONE\<rparr>
       else eNB_dlsch_info s cc ue),
     eNB_ulsch_info := (\<lambda>cc ue. if cc < MAX_NUM_CCs \<and> ue < NUMBER_OF_UE_MAX
       then (eNB_ulsch_info s cc ue)\<lparr>info_subframe := 0, serving_num := 0, status := S_NONE\<rparr>
       else eNB_ulsch_info s cc ue)\<rparr>"

section \<open>Adding and removing a UE\<close>

text \<open>The slot taken by a new UE, as the body of the loop of \<open>add_new_ue\<close> sets it up.\<close>

definition fill_slot :: "nat \<Rightarrow> u16 \<Rightarrow> int \<Rightarrow> nat \<Rightarrow> mac \<Rightarrow> mac" where
  "fill_slot cc r harq ue s =
     (upd_template cc ue (\<lambda>t. t\<lparr>rnti := r, configured := False,
         oldNDI := map (\<lambda>j. if j = 0 then 1 else 0) [0..<8],
         oldNDI_UL := map (\<lambda>j. if int j = harq then 0 else 1) [0..<8]\<rparr>) s)
     \<lparr>numactiveCCs := (numactiveCCs s)(ue := 1),
      numactiveULCCs := (numactiveULCCs s)(ue := 1),
      pCC_id := (pCC_id s)(ue := cc),
      ordered_CCids := upd2 (ordered_CCids s) 0 ue cc,
      ordered_ULCCids := upd2 (ordered_ULCCids s) 0 ue cc,
      num_UEs := num_UEs s + 1,
      active := (active s)(ue := True),
      UE_sched_ctrl := (UE_sched_ctrl s)(ue := zero_sched_ctrl),
      eNB_ulsch_info := upd2 (eNB_ulsch_info s) cc ue
        ((eNB_ulsch_info s cc ue)\<lparr>status := S_WAITING\<rparr>),
      eNB_dlsch_info := upd2 (eNB_dlsch_info s) cc ue
        ((eNB_dlsch_info s cc ue)\<lparr>status := S_WAITING\<rparr>)\<rparr>"

definition add_new_ue :: "nat \<Rightarrow> u16 \<Rightarrow> int \<Rightarrow> mac \<Rightarrow> int \<times> mac" where
  "add_new_ue cc r harq s =
     (case find (\<lambda>ue. \<not> active s ue) [0..<NUMBER_OF_UE_MAX] of
        Some ue \<Rightarrow> (int ue, fill_slot cc r harq ue s)
      | None \<Rightarrow> (- 1, s))"

definition mac_phy_remove_ue :: "u16 \<Rightarrow> mac \<Rightarrow> mac" where
  "mac_phy_remove_ue r s = s\<lparr>phy_removed := phy_removed s @ [r]\<rparr>"

definition reset_ra :: "ra_template \<Rightarrow> ra_template" where
  "reset_ra ra = ra\<lparr>RA_active := False, generate_rar := 0, generate_Msg4 := 0,
     wait_ack_Msg4 := 0, timing_offset := 0, RRC_timer := 20, ra_rnti := 0\<rparr>"

definition clear_slot :: "nat \<Rightarrow> nat \<Rightarrow> mac \<Rightarrow> mac" where
  "clear_slot cc ue s =
     (upd_template cc ue (\<lambda>t. t\<lparr>bsr_info := (bsr_info t)[0 := 0, 1 := 0, 2 := 0, 3 := 0],
         ul_SR := 0, rnti := NOT_A_RNTI, ul_active := False\<rparr>) s)
     \<lparr>active := (active s)(ue := False),
      num_UEs := num_UEs s - 1,
      eNB_ulsch_info := upd2 (eNB_ulsch_info s) cc ue
        ((eNB_ulsch_info s cc ue)\<lparr>info_rnti := NOT_A_RNTI, status := S_NONE\<rparr>),
      eNB_dlsch_info := upd2 (eNB_dlsch_info s) cc ue
        ((eNB_dlsch_info s cc ue)\<lparr>info_rnti := NOT_A_RNTI, status := S_NONE\<rparr>)\<rparr>"

definition rrc_mac_remove_ue :: "u16 \<Rightarrow> mac \<Rightarrow> mac" where
  "rrc_mac_remove_ue r s =
     (if find_UE_id s r = - 1 then mac_phy_remove_ue r s
      else
        (let ue = nat (find_UE_id s r); cc = UE_PCCID s ue;
             s1 = mac_phy_remove_ue r (clear_slot cc ue s)
         in s1\<lparr>RA_template := (RA_template s1)(cc := (\<lambda>i.
              if i < NB_RA_PROC_MAX \<and> ra_rnti (RA_template s1 cc i) = r
              then reset_ra (RA_template s1 cc i) else RA_template s1 cc i))\<rparr>))"

section \<open>Uplink flags\<close>

text \<open>The RRC state of a UE (\<open>UE_STATE_t\<close>), ordered as the enumeration is.\<close>

definition RRC_CONNECTED :: nat where "RRC_CONNECTED = 3"
definition RRC_RECONFIGURED :: nat where "RRC_RECONFIGURED = 4"

text \<open>\<open>mac_eNB_get_rrc_status\<close> belongs to the RRC; it is the argument \<open>rrc\<close>.\<close>

definition UE_is_to_be_scheduled :: "(u16 \<Rightarrow> nat) \<Rightarrow> mac \<Rightarrow> nat \<Rightarrow> nat \<Rightarrow> bool" where
  "UE_is_to_be_scheduled rrc s cc ue =
     (let t = UE_template s cc ue; c = UE_sched_ctrl s ue in
      if ul_failure_timer c > 0 then False
      else if ul_out_of_sync c > 0 then False
      else bsr_info t ! 0 > 0 \<or> bsr_info t ! 1 > 0 \<or> bsr_info t ! 2 > 0 \<or> bsr_info t ! 3 > 0 \<or>
           ul_SR t > 0 \<or>
           (ul_inactivity_timer c > 20 \<and> ul_scheduled c = 0) \<or>
           (ul_inactivity_timer c > 10 \<and> ul_scheduled c = 0 \<and> rrc (UE_RNTI s ue) < RRC_CONNECTED))"

definition SR_indication :: "nat \<Rightarrow> u16 \<Rightarrow> mac \<Rightarrow> mac" where
  "SR_indication cc r s =
     (if find_UE_id s r \<noteq> - 1
      then upd_template cc (nat (find_UE_id s r)) (\<lambda>t. t\<lparr>ul_SR := 1, ul_active := True\<rparr>) s
      else s)"

definition UL_failure_indication :: "u16 \<Rightarrow> mac \<Rightarrow> mac" where
  "UL_failure_indication r s =
     (if find_UE_id s r \<noteq> - 1
      then upd_sched (nat (find_UE_id s r))
        (\<lambda>c. if ul_failure_timer c = 0 then c\<lparr>ul_failure_timer := 1\<rparr> else c) s
      else s)"

section \<open>The index-linked lists\<close>

text \<open>
  \<open>prev\<close> follows the links until the next node is the one sought. The fuel is the number of slots:
  a search that visits more nodes than there are slots runs round a cycle.
\<close>

fun prev_loop :: "nat \<Rightarrow> (nat \<Rightarrow> int) \<Rightarrow> int \<Rightarrow> int \<Rightarrow> int res" where
  "prev_loop fuel nxt j node =
     (if j < 0 then Inr (- 1)
      else if nxt (nat j) = node then Inr j
      else (case fuel of 0 \<Rightarrow> Inl Diverges | Suc n \<Rightarrow> prev_loop n nxt (nxt (nat j)) node))"

declare prev_loop.simps [simp del]

definition prev_node :: "(nat \<Rightarrow> int) \<Rightarrow> int \<Rightarrow> int \<Rightarrow> int res" where
  "prev_node nxt h0 node =
     (if node = h0 then Inr node else prev_loop NUMBER_OF_UE_MAX nxt h0 node)"

text \<open>
  \<open>swap_UEs\<close> on one of the two lists: the array of links and the head. \<open>macphy_exit\<close> is an abort.
\<close>

definition swap_links ::
  "(nat \<Rightarrow> int) \<Rightarrow> int \<Rightarrow> nat \<Rightarrow> nat \<Rightarrow> ((nat \<Rightarrow> int) \<times> int) res" where
  "swap_links nxt h0 i j =
     bindE (prev_node nxt h0 (int i)) (\<lambda>prev_i.
     bindE (prev_node nxt h0 (int j)) (\<lambda>prev_j.
     if prev_i < 0 \<or> prev_j < 0 then Inl Abort
     else
       (let next_i = nxt i; next_j = nxt j in
        if next_i = int j then
          (let n1 = nxt(i := next_j, j := int i) in
           if int i = h0 then Inr (n1, int j) else Inr (n1(nat prev_i := int j), h0))
        else if next_j = int i then
          (let n1 = nxt(j := next_i, i := int j) in
           if int j = h0 then Inr (n1, int i) else Inr (n1(nat prev_j := int i), h0))
        else
          (let n1 = nxt(j := next_i, i := next_j) in
           if int i = h0 then Inr (n1(nat prev_j := int i), int j)
           else if int j = h0 then Inr (n1(nat prev_i := int j), int i)
           else Inr (n1(nat prev_i := int j, nat prev_j := int i), h0)))))"

definition swap_UEs :: "nat \<Rightarrow> nat \<Rightarrow> bool \<Rightarrow> mac \<Rightarrow> mac res" where
  "swap_UEs i j ul s =
     (if \<not> ul
      then bindE (swap_links (next_dl s) (head s) i j)
             (\<lambda>(n, h). Inr (s\<lparr>next_dl := n, head := h\<rparr>))
      else bindE (swap_links (next_ul s) (head_ul s) i j)
             (\<lambda>(n, h). Inr (s\<lparr>next_ul := n, head_ul := h\<rparr>)))"

section \<open>Facts about lookup\<close>

definition ue_matches :: "mac \<Rightarrow> u16 \<Rightarrow> nat \<Rightarrow> bool" where
  "ue_matches s r ue \<longleftrightarrow> active s ue \<and> rnti (UE_template s (pCC_id s ue) ue) = r"

lemma find_UE_id_alt:
  "find_UE_id s r =
     (case find (ue_matches s r) [0..<NUMBER_OF_UE_MAX] of Some ue \<Rightarrow> int ue | None \<Rightarrow> - 1)"
  by (simp add: find_UE_id_def ue_matches_def [abs_def] UE_PCCID_def)

lemma find_upt_Some:
  "find P [0..<n] = Some x \<longleftrightarrow> x < n \<and> P x \<and> (\<forall>y < x. \<not> P y)"
  by (auto simp: find_Some_iff)

lemma find_upt_None: "find P [0..<n] = None \<longleftrightarrow> (\<forall>y < n. \<not> P y)"
  by (auto simp: find_None_iff)

lemma find_UE_id_none: "find_UE_id s r = - 1 \<longleftrightarrow> (\<forall>ue < NUMBER_OF_UE_MAX. \<not> ue_matches s r ue)"
  by (auto simp: find_UE_id_alt find_upt_None find_upt_Some split: option.splits)

lemma find_UE_id_some:
  "find_UE_id s r = int ue \<longleftrightarrow>
     ue < NUMBER_OF_UE_MAX \<and> ue_matches s r ue \<and> (\<forall>v < ue. \<not> ue_matches s r v)"
  by (auto simp: find_UE_id_alt find_upt_Some find_upt_None split: option.splits)
     (metis linorder_neqE_nat)

lemma find_UE_id_cases:
  obtains (none) "find_UE_id s r = - 1" and "\<And>ue. ue < NUMBER_OF_UE_MAX \<Longrightarrow> \<not> ue_matches s r ue"
  | (found) ue where "find_UE_id s r = int ue" and "ue < NUMBER_OF_UE_MAX" and "ue_matches s r ue"
      and "\<And>v. v < ue \<Longrightarrow> \<not> ue_matches s r v"
proof (cases "find (ue_matches s r) [0..<NUMBER_OF_UE_MAX]")
  case None
  then have "find_UE_id s r = - 1" by (simp add: find_UE_id_alt)
  with none show thesis by (auto simp: find_UE_id_none)
next
  case (Some ue)
  then have "find_UE_id s r = int ue" by (simp add: find_UE_id_alt)
  with found show thesis by (auto simp: find_UE_id_some)
qed

lemma find_UE_id_cong:
  assumes "\<And>ue. ue < NUMBER_OF_UE_MAX \<Longrightarrow> ue_matches s r ue = ue_matches t r ue"
  shows "find_UE_id s r = find_UE_id t r"
proof -
  have "find (ue_matches s r) [0..<NUMBER_OF_UE_MAX] = find (ue_matches t r) [0..<NUMBER_OF_UE_MAX]"
    using assms by (intro find_cong) auto
  then show ?thesis by (simp add: find_UE_id_alt)
qed

lemma UE_RNTI_eq: "UE_RNTI s ue = rnti (UE_template s (pCC_id s ue) ue)"
  by (simp add: UE_RNTI_def UE_PCCID_def NOT_A_RNTI_def Let_def word_gt_0)

section \<open>The invariant of the UE list\<close>

text \<open>
  The count of UEs is the number of active slots, and a slot that is not active holds no RNTI, so
  that \<open>UE_RNTI\<close> alone tells the schedulers which slots are in use.
\<close>

definition active_set :: "mac \<Rightarrow> nat set" where
  "active_set s = {ue. ue < NUMBER_OF_UE_MAX \<and> active s ue}"

definition ue_list_ok :: "mac \<Rightarrow> bool" where
  "ue_list_ok s \<longleftrightarrow>
     num_UEs s = int (card (active_set s)) \<and>
     (\<forall>ue < NUMBER_OF_UE_MAX. \<not> active s ue \<longrightarrow> rnti (UE_template s (pCC_id s ue) ue) = NOT_A_RNTI)"

definition rntis_distinct :: "mac \<Rightarrow> bool" where
  "rntis_distinct s \<longleftrightarrow>
     (\<forall>r u v. u < NUMBER_OF_UE_MAX \<longrightarrow> v < NUMBER_OF_UE_MAX \<longrightarrow>
        ue_matches s r u \<longrightarrow> ue_matches s r v \<longrightarrow> u = v)"

lemma ue_list_ok_num: "ue_list_ok s \<Longrightarrow> 0 \<le> num_UEs s \<and> num_UEs s \<le> int NUMBER_OF_UE_MAX"
proof -
  assume "ue_list_ok s"
  moreover have "card (active_set s) \<le> card {..<NUMBER_OF_UE_MAX}"
    by (rule card_mono) (auto simp: active_set_def)
  ultimately show ?thesis by (simp add: ue_list_ok_def)
qed

lemma ue_list_ok_init: "ue_list_ok mac_top_init"
  by (simp add: ue_list_ok_def active_set_def mac_top_init_def zero_template_def NOT_A_RNTI_def)

lemma rntis_distinct_init: "rntis_distinct mac_top_init"
  by (simp add: rntis_distinct_def ue_matches_def mac_top_init_def)

text \<open>The new slot.\<close>

lemma fill_slot_simps [simp]:
  "active (fill_slot cc r harq ue s) = (active s)(ue := True)"
  "pCC_id (fill_slot cc r harq ue s) = (pCC_id s)(ue := cc)"
  "num_UEs (fill_slot cc r harq ue s) = num_UEs s + 1"
  "rnti (UE_template (fill_slot cc r harq ue s) c u) =
     (if c = cc \<and> u = ue then r else rnti (UE_template s c u))"
  "UE_sched_ctrl (fill_slot cc r harq ue s) = (UE_sched_ctrl s)(ue := zero_sched_ctrl)"
  by (simp_all add: fill_slot_def upd_template_def)

lemma ue_matches_fill_slot:
  "ue_matches (fill_slot cc r harq ue s) q u \<longleftrightarrow> (if u = ue then q = r else ue_matches s q u)"
  by (auto simp: ue_matches_def)

lemma finite_active_set [simp]: "finite (active_set s)"
  by (simp add: active_set_def)

lemma active_set_insert:
  "ue < NUMBER_OF_UE_MAX \<Longrightarrow> active t = (active s)(ue := True) \<Longrightarrow>
   active_set t = insert ue (active_set s)"
  by (auto simp: active_set_def)

lemma active_set_remove:
  "active t = (active s)(ue := False) \<Longrightarrow> active_set t = active_set s - {ue}"
  by (auto simp: active_set_def)

lemma add_new_ue_cases:
  assumes "add_new_ue cc r harq s = (k, s')"
  obtains (full) "k = - 1" and "s' = s" and "\<And>ue. ue < NUMBER_OF_UE_MAX \<Longrightarrow> active s ue"
  | (slot) ue where "k = int ue" and "ue < NUMBER_OF_UE_MAX" and "\<not> active s ue"
      and "\<And>v. v < ue \<Longrightarrow> active s v" and "s' = fill_slot cc r harq ue s"
proof (cases "find (\<lambda>ue. \<not> active s ue) [0..<NUMBER_OF_UE_MAX]")
  case None
  with assms full show thesis by (simp add: add_new_ue_def find_upt_None)
next
  case (Some ue)
  with assms slot [of ue] show thesis by (simp add: add_new_ue_def find_upt_Some)
qed

lemma add_new_ue_ok: "ue_list_ok s \<Longrightarrow> ue_list_ok (snd (add_new_ue cc r harq s))"
proof (cases "add_new_ue cc r harq s")
  case (Pair k s')
  assume ok: "ue_list_ok s"
  from Pair show ?thesis
  proof (cases rule: add_new_ue_cases)
    case full
    with ok Pair show ?thesis by simp
  next
    case (slot ue)
    have "active_set s' = insert ue (active_set s)" and "ue \<notin> active_set s"
      using slot by (auto simp: active_set_def)
    with slot ok Pair show ?thesis by (auto simp: ue_list_ok_def)
  qed
qed

lemma add_new_ue_distinct:
  assumes "rntis_distinct s" and "find_UE_id s r = - 1"
  shows "rntis_distinct (snd (add_new_ue cc r harq s))"
proof (cases "add_new_ue cc r harq s")
  case (Pair k s')
  then show ?thesis
  proof (cases rule: add_new_ue_cases)
    case full
    with assms Pair show ?thesis by simp
  next
    case (slot ue)
    have fresh: "\<not> ue_matches s r w" if "w < NUMBER_OF_UE_MAX" for w
      using assms(2) that by (simp add: find_UE_id_none)
    have "u = v" if "u < NUMBER_OF_UE_MAX" "v < NUMBER_OF_UE_MAX"
        "ue_matches s' q u" "ue_matches s' q v" for q u v
      using that assms(1) fresh slot(5)
      by (auto simp: ue_matches_fill_slot rntis_distinct_def split: if_splits)
    with Pair show ?thesis by (auto simp: rntis_distinct_def)
  qed
qed

text \<open>The freed slot.\<close>

lemma clear_slot_simps [simp]:
  "active (clear_slot cc ue s) = (active s)(ue := False)"
  "pCC_id (clear_slot cc ue s) = pCC_id s"
  "num_UEs (clear_slot cc ue s) = num_UEs s - 1"
  "rnti (UE_template (clear_slot cc ue s) c u) =
     (if c = cc \<and> u = ue then NOT_A_RNTI else rnti (UE_template s c u))"
  "phy_removed (clear_slot cc ue s) = phy_removed s"
  by (simp_all add: clear_slot_def upd_template_def)

lemma mac_phy_remove_ue_simps [simp]:
  "active (mac_phy_remove_ue r s) = active s"
  "pCC_id (mac_phy_remove_ue r s) = pCC_id s"
  "num_UEs (mac_phy_remove_ue r s) = num_UEs s"
  "UE_template (mac_phy_remove_ue r s) = UE_template s"
  "phy_removed (mac_phy_remove_ue r s) = phy_removed s @ [r]"
  by (simp_all add: mac_phy_remove_ue_def)

lemma ue_list_ok_phy_remove [simp]: "ue_list_ok (mac_phy_remove_ue r s) = ue_list_ok s"
  by (simp add: ue_list_ok_def active_set_def)

lemma ue_matches_phy_remove [simp]: "ue_matches (mac_phy_remove_ue r s) q u = ue_matches s q u"
  by (simp add: ue_matches_def)

lemma rrc_mac_remove_ue_cases:
  obtains (unknown) "find_UE_id s r = - 1" and "rrc_mac_remove_ue r s = mac_phy_remove_ue r s"
  | (known) ue where "find_UE_id s r = int ue" and "ue < NUMBER_OF_UE_MAX" and "ue_matches s r ue"
      and "active (rrc_mac_remove_ue r s) = (active s)(ue := False)"
      and "pCC_id (rrc_mac_remove_ue r s) = pCC_id s"
      and "num_UEs (rrc_mac_remove_ue r s) = num_UEs s - 1"
      and "UE_template (rrc_mac_remove_ue r s) = UE_template (clear_slot (pCC_id s ue) ue s)"
      and "phy_removed (rrc_mac_remove_ue r s) = phy_removed s @ [r]"
proof (cases rule: find_UE_id_cases [of s r])
  case none
  with unknown show thesis by (simp add: rrc_mac_remove_ue_def)
next
  case (found ue)
  with known [of ue] show thesis
    by (simp add: rrc_mac_remove_ue_def Let_def UE_PCCID_def)
qed

lemma rrc_mac_remove_ue_ok:
  assumes "ue_list_ok s"
  shows "ue_list_ok (rrc_mac_remove_ue r s)"
proof (cases rule: rrc_mac_remove_ue_cases [of s r])
  case unknown
  with assms show ?thesis by simp
next
  case (known ue)
  then have ue: "ue \<in> active_set s" by (simp add: ue_matches_def active_set_def)
  have "active_set (rrc_mac_remove_ue r s) = active_set s - {ue}"
    using known by (intro active_set_remove) simp
  moreover have "0 < card (active_set s)" using ue by (auto simp: card_gt_0_iff)
  ultimately have "num_UEs (rrc_mac_remove_ue r s) = int (card (active_set (rrc_mac_remove_ue r s)))"
    using assms ue known(6) by (simp add: ue_list_ok_def card_Diff_singleton)
  with assms known show ?thesis by (auto simp: ue_list_ok_def)
qed

lemma rrc_mac_remove_ue_matches:
  assumes "find_UE_id s r = int ue"
  shows "ue_matches (rrc_mac_remove_ue r s) q u \<longleftrightarrow> u \<noteq> ue \<and> ue_matches s q u"
proof (cases rule: rrc_mac_remove_ue_cases [of s r])
  case unknown
  with assms show ?thesis by simp
next
  case (known v)
  with assms have "v = ue" by simp
  with known show ?thesis by (auto simp: ue_matches_def)
qed

lemma rrc_mac_remove_ue_distinct: "rntis_distinct s \<Longrightarrow> rntis_distinct (rrc_mac_remove_ue r s)"
proof (cases rule: find_UE_id_cases [of s r])
  case none
  assume "rntis_distinct s"
  with none show ?thesis by (simp add: rrc_mac_remove_ue_def rntis_distinct_def)
next
  case (found ue)
  assume "rntis_distinct s"
  then show ?thesis
    unfolding rntis_distinct_def rrc_mac_remove_ue_matches [OF found(1)] by blast
qed

section \<open>Swapping two UEs of a list\<close>

lemma prev_loop_found:
  assumes "links nxt i (xs @ [p]) (int x)" and "distinct (xs @ [p, x])" and "length xs \<le> fuel"
  shows "prev_loop fuel nxt i (int x) = Inr (int p)"
  using assms
proof (induction xs arbitrary: i fuel)
  case Nil
  then show ?case by (simp add: prev_loop.simps)
next
  case (Cons y ys)
  then obtain n where n: "fuel = Suc n" by (cases fuel) auto
  from Cons.prems have l: "i = int y" "links nxt (nxt y) (ys @ [p]) (int x)" by auto
  from l(2) have "nxt y = int (hd (ys @ [p]))" by (auto dest: links_start)
  moreover have "hd (ys @ [p]) \<noteq> x" using Cons.prems(2) by (cases ys) auto
  ultimately have "nxt y \<noteq> int x" by simp
  moreover have "prev_loop n nxt (nxt y) (int x) = Inr (int p)"
    using l Cons.prems n by (intro Cons.IH) auto
  ultimately show ?case using l n by (simp add: prev_loop.simps)
qed

lemma prev_node_found:
  assumes "links nxt h0 xs (int x)" and "distinct (xs @ [x])" and "length xs \<le> NUMBER_OF_UE_MAX"
  shows "prev_node nxt h0 (int x) = Inr (if xs = [] then int x else int (last xs))"
proof (cases xs rule: rev_cases)
  case Nil
  with assms show ?thesis by (simp add: prev_node_def)
next
  case (snoc ys p)
  have "h0 = int (hd (ys @ [p]))" using assms(1) snoc by (auto dest: links_start)
  moreover have "hd (ys @ [p]) \<noteq> x" using assms(2) snoc by (cases ys) auto
  moreover have "prev_loop NUMBER_OF_UE_MAX nxt h0 (int x) = Inr (int p)"
    using assms snoc by (intro prev_loop_found [of _ _ ys]) auto
  ultimately show ?thesis using snoc by (simp add: prev_node_def)
qed

text \<open>
  The links after a swap: \<open>i\<close> comes before \<open>j\<close>, with \<open>as\<close>, \<open>bs\<close> and \<open>cs\<close> before, between and after
  them.
\<close>

definition swapped :: "(nat \<Rightarrow> int) \<Rightarrow> nat list \<Rightarrow> nat \<Rightarrow> nat list \<Rightarrow> nat \<Rightarrow> nat \<Rightarrow> int" where
  "swapped nxt as i bs j =
     (let n1 = nxt(i := nxt j, j := (if bs = [] then int i else nxt i));
          n2 = (if bs = [] then n1 else n1(last bs := int i))
      in (if as = [] then n2 else n2(last as := int j)))"

lemma chain_swapped:
  assumes l: "links nxt h0 as (int i)" "links nxt (nxt i) bs (int j)" "links nxt (nxt j) cs e" "e < 0"
    and d: "distinct (as @ i # bs @ j # cs)"
  shows "chain (swapped nxt as i bs j) (if as = [] then int j else h0) (as @ j # bs @ i # cs)"
proof -
  let ?n = "swapped nxt as i bs j"
  have mid: "last bs \<in> set bs" if "bs \<noteq> []" using that by simp
  have pre: "last as \<in> set as" if "as \<noteq> []" using that by simp
  have ij: "i \<noteq> j" "bs \<noteq> [] \<Longrightarrow> i \<noteq> last bs \<and> j \<noteq> last bs" "as \<noteq> [] \<Longrightarrow> i \<noteq> last as \<and> j \<noteq> last as"
    using d mid pre by auto
  then have ni: "?n i = nxt j" and nj: "?n j = (if bs = [] then int i else nxt i)"
    by (simp_all add: swapped_def Let_def)
  have na: "?n x = (nxt(last as := int j)) x" if "x \<in> set as" for x
  proof -
    have "x \<noteq> i" "x \<noteq> j" "bs \<noteq> [] \<Longrightarrow> x \<noteq> last bs" "as \<noteq> []" using that d mid by auto
    then show ?thesis by (simp add: swapped_def Let_def)
  qed
  have nb: "?n x = (nxt(last bs := int i)) x" if "x \<in> set bs" for x
  proof -
    have "set as \<inter> set bs = {}" using d by auto
    with pre have "as \<noteq> [] \<Longrightarrow> last as \<notin> set bs" by blast
    then have "x \<noteq> i" "x \<noteq> j" "as \<noteq> [] \<Longrightarrow> x \<noteq> last as" "bs \<noteq> []" using that d by auto
    then show ?thesis by (simp add: swapped_def Let_def)
  qed
  have nc: "?n x = nxt x" if "x \<in> set cs" for x
  proof -
    have "set as \<inter> set cs = {}" "set bs \<inter> set cs = {}" using d by auto
    with pre mid that have "as \<noteq> [] \<Longrightarrow> x \<noteq> last as" "bs \<noteq> [] \<Longrightarrow> x \<noteq> last bs" by blast+
    moreover have "x \<noteq> i" "x \<noteq> j" using that d by auto
    ultimately show ?thesis by (simp add: swapped_def Let_def)
  qed
  have 1: "links ?n (if as = [] then int j else h0) as (int j)"
  proof (cases "as = []")
    case False
    have "links (nxt(last as := int j)) h0 as (int j)"
      using l(1) d False by (intro links_redirect) auto
    moreover have "links ?n h0 as (int j) = links (nxt(last as := int j)) h0 as (int j)"
      by (rule links_cong) (rule na)
    ultimately show ?thesis using False by simp
  qed simp
  have 2: "links ?n (?n j) bs (int i)"
  proof (cases "bs = []")
    case True
    then have "?n j = int i" using nj by simp
    with True show ?thesis by (simp only: links.simps)
  next
    case False
    have "links (nxt(last bs := int i)) (nxt i) bs (int i)"
      using l(2) d False by (intro links_redirect) auto
    moreover have "links ?n (nxt i) bs (int i) = links (nxt(last bs := int i)) (nxt i) bs (int i)"
      by (rule links_cong) (rule nb)
    ultimately show ?thesis using False by (simp add: nj)
  qed
  have 3: "links ?n (?n i) cs e"
  proof -
    have "links ?n (nxt j) cs e = links nxt (nxt j) cs e"
      by (rule links_cong) (rule nc)
    with l(3) show ?thesis by (simp add: ni)
  qed
  have "links ?n (if as = [] then int j else h0) (as @ j # bs @ i # cs) e"
    unfolding links_append links.simps using 1 2 3 by blast
  with l(4) show ?thesis unfolding chain_links by blast
qed

text \<open>Both orders of the two nodes in the list are a swap in this sense.\<close>

lemma swap_links_ordered:
  assumes l: "links nxt h0 as (int i)" "links nxt (nxt i) bs (int j)" "links nxt (nxt j) cs e" "e < 0"
    and d: "distinct (as @ i # bs @ j # cs)"
    and len: "length (as @ i # bs @ j # cs) \<le> NUMBER_OF_UE_MAX"
  shows "swap_links nxt h0 i j
      = Inr (swapped nxt as i bs j, if as = [] then int j else h0)" (is ?ij)
    and "swap_links nxt h0 j i
      = Inr (swapped nxt as i bs j, if as = [] then int j else h0)" (is ?ji)
proof -
  have p: "prev_node nxt h0 (int i) = Inr (if as = [] then int i else int (last as))"
    using l d len by (intro prev_node_found) auto
  have dj: "distinct ((as @ i # bs) @ [j])" using d by auto
  have lj: "length (as @ i # bs) \<le> NUMBER_OF_UE_MAX" using len by simp
  have "links nxt h0 (as @ i # bs) (int j)" using l by (auto simp: links_append)
  then have q: "prev_node nxt h0 (int j) = Inr (int (last (i # bs)))"
    using prev_node_found [of nxt h0 "as @ i # bs" j, OF _ dj lj] by simp
  have ni: "nxt i = int (if bs = [] then j else hd bs)" using l(2) by (auto dest: links_start)
  have nj: "nxt j \<noteq> int i" using l(3,4) d by (cases cs) auto
  have hi: "h0 = int (hd (as @ [i]))" using l(1) by (auto dest: links_start split: if_splits)
  have ij: "i \<noteq> j" and hb: "bs \<noteq> [] \<Longrightarrow> hd bs \<noteq> j" and ha: "as \<noteq> [] \<Longrightarrow> hd as \<noteq> i \<and> hd as \<noteq> j"
    using d by (auto dest: hd_in_set)
  have lb: "bs \<noteq> [] \<Longrightarrow> last bs \<noteq> i \<and> last bs \<noteq> j" and la: "as \<noteq> [] \<Longrightarrow> last as \<noteq> i \<and> last as \<noteq> j"
    and lab: "as \<noteq> [] \<Longrightarrow> bs \<noteq> [] \<Longrightarrow> last as \<noteq> last bs"
    using d by (auto dest: last_in_set)
  note facts = p q ni nj hi ij hb ha lb la lab
  show ?ij
    using facts by (cases "as = []"; cases "bs = []")
      (auto simp: swap_links_def swapped_def Let_def fun_upd_twist)
  show ?ji
    using facts by (cases "as = []"; cases "bs = []")
      (auto simp: swap_links_def swapped_def Let_def fun_upd_twist)
qed

text \<open>
  The two nodes of a list occur in one of the two orders, and exchanging them is a renaming of its
  elements.
\<close>

lemma two_in_distinct:
  assumes "i \<in> set xs" and "j \<in> set xs" and "i \<noteq> j"
  obtains as bs cs where "xs = as @ i # bs @ j # cs \<or> xs = as @ j # bs @ i # cs"
proof -
  from assms(1) obtain ys zs where xs: "xs = ys @ i # zs" by (auto simp: in_set_conv_decomp)
  with assms consider "j \<in> set ys" | "j \<in> set zs" by auto
  then show thesis
  proof cases
    case 1
    then obtain as bs where "ys = as @ j # bs" by (auto simp: in_set_conv_decomp)
    with xs show thesis by (intro that [of as bs zs]) simp
  next
    case 2
    then obtain bs cs where "zs = bs @ j # cs" by (auto simp: in_set_conv_decomp)
    with xs show thesis by (intro that [of ys bs cs]) simp
  qed
qed

lemma map_transpose_ordered:
  assumes "distinct (as @ i # bs @ j # cs)"
  shows "map (id(i := j, j := i)) (as @ i # bs @ j # cs) = as @ j # bs @ i # cs"
  using assms by (auto intro!: map_idI)

lemma swap_links_ok:
  assumes c: "chain nxt h0 xs" and d: "distinct xs" and len: "length xs \<le> NUMBER_OF_UE_MAX"
    and ij: "i \<in> set xs" "j \<in> set xs" "i \<noteq> j"
  shows "\<exists>n h. swap_links nxt h0 i j = Inr (n, h) \<and> chain n h (map (id(i := j, j := i)) xs)"
proof -
  from c obtain e where l: "links nxt h0 xs e" "e < 0" by (auto simp: chain_links)
  from ij obtain as bs cs where
    "xs = as @ i # bs @ j # cs \<or> xs = as @ j # bs @ i # cs" by (rule two_in_distinct)
  then show ?thesis
  proof
    assume xs: "xs = as @ i # bs @ j # cs"
    have ls: "links nxt h0 as (int i)" "links nxt (nxt i) bs (int j)" "links nxt (nxt j) cs e"
      using l unfolding xs links_append links.simps by simp_all
    have "chain (swapped nxt as i bs j) (if as = [] then int j else h0) (as @ j # bs @ i # cs)"
      using chain_swapped [OF ls l(2)] d unfolding xs .
    moreover have "map (id(i := j, j := i)) xs = as @ j # bs @ i # cs"
      using map_transpose_ordered d unfolding xs .
    ultimately show ?thesis
      using swap_links_ordered(1) [OF ls l(2)] d len unfolding xs by metis
  next
    assume xs: "xs = as @ j # bs @ i # cs"
    have ls: "links nxt h0 as (int j)" "links nxt (nxt j) bs (int i)" "links nxt (nxt i) cs e"
      using l unfolding xs links_append links.simps by simp_all
    have "chain (swapped nxt as j bs i) (if as = [] then int i else h0) (as @ i # bs @ j # cs)"
      using chain_swapped [OF ls l(2)] d unfolding xs .
    moreover have "map (id(i := j, j := i)) xs = as @ i # bs @ j # cs"
      using map_transpose_ordered [of as j bs i cs] d ij(3) unfolding xs by (simp add: fun_upd_twist)
    ultimately show ?thesis
      using swap_links_ordered(2) [OF ls l(2)] d len unfolding xs by metis
  qed
qed

section \<open>The reachable states\<close>

text \<open>
  The operations of this theory, as the handlers of the MAC call them: random access adds a UE, the
  RRC removes one, the physical layer signals scheduling requests and uplink failures, and the
  schedulers reset their tables and exchange UEs in the lists.
\<close>

inductive ue_step :: "mac \<Rightarrow> mac \<Rightarrow> bool" where
  add: "ue_step s (snd (add_new_ue cc r harq s))" if "find_UE_id s r = - 1"
| remove: "ue_step s (rrc_mac_remove_ue r s)"
| SR: "ue_step s (SR_indication cc r s)"
| failure: "ue_step s (UL_failure_indication r s)"
| init: "ue_step s (init_ue_sched_info s)"
| swap: "ue_step s s'" if "swap_UEs i j ul s = Inr s'"

inductive_cases ue_stepE: "ue_step s s'"

inductive ue_reachable :: "mac \<Rightarrow> bool" where
  start: "ue_reachable mac_top_init"
| step: "ue_reachable s \<Longrightarrow> ue_step s s' \<Longrightarrow> ue_reachable s'"

text \<open>What the flag operations leave alone.\<close>

definition same_slots :: "mac \<Rightarrow> mac \<Rightarrow> bool" where
  "same_slots s t \<longleftrightarrow> active t = active s \<and> pCC_id t = pCC_id s \<and> num_UEs t = num_UEs s \<and>
     (\<forall>cc ue. rnti (UE_template t cc ue) = rnti (UE_template s cc ue))"

lemma same_slots_ok: "same_slots s t \<Longrightarrow> ue_list_ok t = ue_list_ok s"
  by (simp add: same_slots_def ue_list_ok_def active_set_def)

lemma same_slots_matches: "same_slots s t \<Longrightarrow> ue_matches t r ue = ue_matches s r ue"
  by (simp add: same_slots_def ue_matches_def)

lemma same_slots_distinct: "same_slots s t \<Longrightarrow> rntis_distinct t = rntis_distinct s"
  by (simp add: rntis_distinct_def same_slots_matches)

lemma same_slots_SR: "same_slots s (SR_indication cc r s)"
  by (simp add: same_slots_def SR_indication_def)

lemma same_slots_failure: "same_slots s (UL_failure_indication r s)"
  by (simp add: same_slots_def UL_failure_indication_def)

lemma same_slots_init: "same_slots s (init_ue_sched_info s)"
  by (simp add: same_slots_def init_ue_sched_info_def)

lemma same_slots_swap: "swap_UEs i j ul s = Inr s' \<Longrightarrow> same_slots s s'"
  by (auto simp: same_slots_def swap_UEs_def split: if_splits elim!: bindE_eq_InrE)

lemmas same_slots_intros = same_slots_SR same_slots_failure same_slots_init same_slots_swap

lemma ue_step_invariant:
  assumes "ue_list_ok s \<and> rntis_distinct s" and "ue_step s s'"
  shows "ue_list_ok s' \<and> rntis_distinct s'"
  using assms(2)
proof cases
  case (add r cc harq)
  with assms(1) show ?thesis by (simp add: add_new_ue_ok add_new_ue_distinct)
next
  case (remove r)
  with assms(1) show ?thesis by (simp add: rrc_mac_remove_ue_ok rrc_mac_remove_ue_distinct)
next
  case (SR cc r)
  with assms(1) same_slots_SR [of s cc r] show ?thesis
    by (simp add: same_slots_ok same_slots_distinct)
next
  case (failure r)
  with assms(1) same_slots_failure [of s r] show ?thesis
    by (simp add: same_slots_ok same_slots_distinct)
next
  case init
  with assms(1) same_slots_init [of s] show ?thesis
    by (simp add: same_slots_ok same_slots_distinct)
next
  case (swap i j ul)
  with assms(1) same_slots_swap show ?thesis
    by (metis same_slots_ok same_slots_distinct)
qed

lemma ue_reachable_ok: "ue_reachable s \<Longrightarrow> ue_list_ok s \<and> rntis_distinct s"
proof (induction rule: ue_reachable.induct)
  case start
  show ?case by (simp only: ue_list_ok_init rntis_distinct_init)
next
  case (step s s')
  from step.IH step.hyps(2) show ?case by (rule ue_step_invariant)
qed

lemma ue_reachable_first:
  "find_UE_id mac_top_init r = - 1 \<Longrightarrow> ue_reachable (snd (add_new_ue cc r harq mac_top_init))"
  by (rule ue_reachable.step [OF ue_reachable.start ue_step.add])

text \<open>A removal forgets exactly the removed identity.\<close>

lemma rrc_mac_remove_ue_find:
  assumes "rntis_distinct s"
  shows "find_UE_id (rrc_mac_remove_ue r s) q = (if q = r then - 1 else find_UE_id s q)"
proof (cases rule: find_UE_id_cases [of s r])
  case none
  then have "find_UE_id (rrc_mac_remove_ue r s) q = find_UE_id s q"
    by (intro find_UE_id_cong) (simp add: rrc_mac_remove_ue_def)
  with none show ?thesis by simp
next
  case (found ue)
  note m = rrc_mac_remove_ue_matches [OF found(1)]
  show ?thesis
  proof (cases "q = r")
    case True
    with assms found show ?thesis
      by (auto simp: find_UE_id_none m rntis_distinct_def)
  next
    case False
    then have "\<not> ue_matches s q ue" using found by (simp add: ue_matches_def)
    then have "find_UE_id (rrc_mac_remove_ue r s) q = find_UE_id s q"
      by (intro find_UE_id_cong) (auto simp: m)
    with False show ?thesis by simp
  qed
qed

lemma add_new_ue_find:
  assumes "find_UE_id s r = - 1" and "add_new_ue cc r harq s = (k, s')" and "k \<noteq> - 1"
  shows "find_UE_id s' q = (if q = r then k else find_UE_id s q)"
  using assms(2)
proof (cases rule: add_new_ue_cases)
  case full
  with assms show ?thesis by simp
next
  case (slot ue)
  have fresh: "\<not> ue_matches s r w" if "w < NUMBER_OF_UE_MAX" for w
    using assms(1) that by (simp add: find_UE_id_none)
  show ?thesis
  proof (cases "q = r")
    case True
    have "find_UE_id s' r = int ue"
      using slot fresh by (auto simp: find_UE_id_some ue_matches_fill_slot)
    with True slot(1) show ?thesis by simp
  next
    case False
    have "ue_matches s' q u = ue_matches s q u" for u
      using False slot(3,5) by (auto simp: ue_matches_fill_slot) (simp add: ue_matches_def)
    then have "find_UE_id s' q = find_UE_id s q" by (intro find_UE_id_cong) simp
    with False show ?thesis by simp
  qed
qed

section \<open>Properties\<close>

text \<open>C7. In every state the MAC reaches from its start by adding, removing, flagging and
  reordering UEs, the UE count is the number of occupied slots, at most sixteen, and no two slots
  hold the same identity, so that a lookup finds the only slot with it.\<close>

theorem ue_list_invariant:
  assumes "ue_reachable s"
  shows "num_UEs s = int (card {ue. ue < NUMBER_OF_UE_MAX \<and> active s ue})
    \<and> num_UEs s \<le> 16
    \<and> (\<forall>u v. u < NUMBER_OF_UE_MAX \<and> v < NUMBER_OF_UE_MAX \<and> active s u \<and> active s v \<and>
           UE_RNTI s u = UE_RNTI s v \<longrightarrow> u = v)"
proof -
  have ok: "ue_list_ok s" and d: "rntis_distinct s" using ue_reachable_ok [OF assms] by auto
  have "u = v" if "u < NUMBER_OF_UE_MAX" "v < NUMBER_OF_UE_MAX" "active s u" "active s v"
      "UE_RNTI s u = UE_RNTI s v" for u v
  proof -
    from that have "ue_matches s (UE_RNTI s u) u" "ue_matches s (UE_RNTI s u) v"
      by (simp_all add: ue_matches_def UE_RNTI_eq)
    with d that(1,2) show ?thesis unfolding rntis_distinct_def by blast
  qed
  with ok ue_list_ok_num [OF ok] show ?thesis
    by (simp add: ue_list_ok_def active_set_def NUMBER_OF_UE_MAX_def)
qed

theorem ue_list_invariant_witness:
  "num_UEs (snd (add_new_ue 0 70 0 mac_top_init)) \<le> 16"
proof -
  have "find_UE_id mac_top_init 70 = - 1"
    by (simp add: find_UE_id_none ue_matches_def mac_top_init_def)
  then have "ue_reachable (snd (add_new_ue 0 70 0 mac_top_init))"
    by (rule ue_reachable_first)
  from ue_list_invariant [OF this] show ?thesis by blast
qed

text \<open>C23. Adding a UE whose identity is new and finding a free slot makes the lookup of the identity
  return the slot, changes the lookup of no other identity, and starts the slot with a cleared
  scheduling control block.\<close>

theorem add_new_ue_lookup:
  assumes "find_UE_id s r = - 1" and "add_new_ue cc r harq s = (k, s')" and "k \<noteq> - 1"
  shows "0 \<le> k \<and> k < int NUMBER_OF_UE_MAX \<and> \<not> active s (nat k) \<and> active s' (nat k)
    \<and> find_UE_id s' q = (if q = r then k else find_UE_id s q)
    \<and> UE_RNTI s' (nat k) = r \<and> UE_PCCID s' (nat k) = cc \<and> UE_num_active_CC s' (nat k) = 1
    \<and> UE_sched_ctrl s' (nat k) = zero_sched_ctrl"
  using assms(2)
proof (cases rule: add_new_ue_cases)
  case full
  with assms show ?thesis by simp
next
  case (slot ue)
  then have "UE_num_active_CC s' ue = 1" by (simp add: UE_num_active_CC_def fill_slot_def)
  with slot add_new_ue_find [OF assms, of q] show ?thesis
    by (simp add: UE_RNTI_eq UE_PCCID_def)
qed

theorem add_new_ue_lookup_witness:
  "find_UE_id (snd (add_new_ue 0 70 3 mac_top_init)) 70 = 0"
proof -
  have none: "find_UE_id mac_top_init 70 = - 1"
    by (simp add: find_UE_id_none ue_matches_def mac_top_init_def)
  have "find (\<lambda>ue. \<not> active mac_top_init ue) [0..<NUMBER_OF_UE_MAX] = Some 0"
    by (simp add: find_upt_Some mac_top_init_def NUMBER_OF_UE_MAX_def)
  then have "add_new_ue 0 70 3 mac_top_init = (0, fill_slot 0 70 3 0 mac_top_init)"
    by (simp add: add_new_ue_def)
  from add_new_ue_lookup [OF none this, of 70] this show ?thesis by simp
qed

text \<open>Adding a UE fails exactly when all sixteen slots are in use, and then the state is
  unchanged.\<close>

theorem add_new_ue_full:
  "(fst (add_new_ue cc r harq s) = - 1) = (\<forall>ue \<in> {..<16}. is_UE_active s ue)
   \<and> (fst (add_new_ue cc r harq s) = - 1 \<longrightarrow> snd (add_new_ue cc r harq s) = s)"
proof (cases "add_new_ue cc r harq s")
  case (Pair k s')
  then show ?thesis
    by (cases rule: add_new_ue_cases) (auto simp: is_UE_active_def NUMBER_OF_UE_MAX_def Pair)
qed

text \<open>A state all of whose slots are in use.\<close>

definition full_state :: mac where
  "full_state = mac_top_init\<lparr>active := (\<lambda>_. True)\<rparr>"

theorem add_new_ue_full_witness: "add_new_ue 0 70 0 full_state = (- 1, full_state)"
proof -
  have "is_UE_active full_state ue" for ue by (simp add: is_UE_active_def full_state_def)
  with add_new_ue_full [of 0 70 0 full_state]
  have "fst (add_new_ue 0 70 0 full_state) = - 1 \<and> snd (add_new_ue 0 70 0 full_state) = full_state"
    by blast
  then show ?thesis by (metis prod.collapse)
qed

text \<open>C24. Removing a UE makes its identity unknown, keeps the lookup of every other identity, and
  leaves no random access process of its carrier bound to the identity; the physical layer is told
  in every case.\<close>

theorem rrc_mac_remove_ue_lookup:
  assumes "ue_reachable s" and "r \<noteq> NOT_A_RNTI"
  shows "find_UE_id (rrc_mac_remove_ue r s) q = (if q = r then - 1 else find_UE_id s q)
    \<and> phy_removed (rrc_mac_remove_ue r s) = phy_removed s @ [r]
    \<and> num_UEs (rrc_mac_remove_ue r s) =
        (if find_UE_id s r = - 1 then num_UEs s else num_UEs s - 1)
    \<and> (find_UE_id s r = int ue \<and> i < NB_RA_PROC_MAX \<longrightarrow>
        ra_rnti (RA_template (rrc_mac_remove_ue r s) (UE_PCCID s ue) i) \<noteq> r)"
proof -
  have "ra_rnti (RA_template (rrc_mac_remove_ue r s) (UE_PCCID s ue) i) \<noteq> r"
    if "find_UE_id s r = int ue" "i < NB_RA_PROC_MAX"
    using that assms(2) by (simp add: rrc_mac_remove_ue_def Let_def reset_ra_def NOT_A_RNTI_def)
  moreover have "num_UEs (rrc_mac_remove_ue r s) =
      (if find_UE_id s r = - 1 then num_UEs s else num_UEs s - 1)"
    by (cases rule: rrc_mac_remove_ue_cases [of s r]) auto
  moreover have "phy_removed (rrc_mac_remove_ue r s) = phy_removed s @ [r]"
    by (cases rule: rrc_mac_remove_ue_cases [of s r]) auto
  ultimately show ?thesis
    using ue_reachable_ok [OF assms(1)] by (simp add: rrc_mac_remove_ue_find)
qed

theorem rrc_mac_remove_ue_lookup_witness:
  "find_UE_id (rrc_mac_remove_ue 70 (snd (add_new_ue 0 70 3 mac_top_init))) 70 = - 1"
proof -
  have "find_UE_id mac_top_init 70 = - 1"
    by (simp add: find_UE_id_none ue_matches_def mac_top_init_def)
  then have "ue_reachable (snd (add_new_ue 0 70 3 mac_top_init))"
    by (rule ue_reachable_first)
  from rrc_mac_remove_ue_lookup [OF this, of 70 70] show ?thesis by (simp add: NOT_A_RNTI_def)
qed

text \<open>C25. Swapping two different UEs of a scheduling list, the one of the downlink or the one of the
  uplink, never aborts or loops, and yields the list with the two exchanged and nothing else moved, for
  adjacent UEs and for the head as well. The other list stays as it is.\<close>

theorem swap_UEs_exchanges:
  assumes "chain (if ul then next_ul s else next_dl s) (if ul then head_ul s else head s) xs"
    and "distinct xs" and "length xs \<le> NUMBER_OF_UE_MAX"
    and "i \<in> set xs" and "j \<in> set xs" and "i \<noteq> j"
  shows "\<exists>s'. swap_UEs i j ul s = Inr s'
    \<and> walk NUMBER_OF_UE_MAX (if ul then next_ul s' else next_dl s') (if ul then head_ul s' else head s')
        = Some (map (id(i := j, j := i)) xs)
    \<and> (if ul then next_dl s' else next_ul s') = (if ul then next_dl s else next_ul s)
    \<and> (if ul then head s' else head_ul s') = (if ul then head s else head_ul s)"
proof -
  from swap_links_ok [OF assms] obtain n h where
    "swap_links (if ul then next_ul s else next_dl s) (if ul then head_ul s else head s) i j = Inr (n, h)"
    "chain n h (map (id(i := j, j := i)) xs)"
    by blast
  with assms(3) show ?thesis by (cases ul) (simp_all add: swap_UEs_def walk_chain)
qed

text \<open>The lists of both directions hold the same UEs in different orders; each swap changes its own list only.\<close>

theorem swap_UEs_exchanges_witness:
  "\<exists>s1 s2. swap_UEs 2 5 False (mac_top_init\<lparr>next_dl := write_links [2, 7, 5] init_next, head := 2,
       next_ul := write_links [7, 5, 2] init_next, head_ul := 7\<rparr>) = Inr s1 \<and>
     swap_UEs 7 5 True s1 = Inr s2 \<and>
     walk NUMBER_OF_UE_MAX (next_dl s2) (head s2) = Some [5, 7, 2] \<and>
     walk NUMBER_OF_UE_MAX (next_ul s2) (head_ul s2) = Some [5, 7, 2]"
proof -
  let ?s = "mac_top_init\<lparr>next_dl := write_links [2, 7, 5] init_next, head := 2,
       next_ul := write_links [7, 5, 2] init_next, head_ul := 7\<rparr>"
  have c: "chain (next_dl ?s) (head ?s) [2, 7, 5]" "chain (next_ul ?s) (head_ul ?s) [7, 5, 2]"
    using chain_write_links [of "[2, 7, 5]" init_next] chain_write_links [of "[7, 5, 2]" init_next]
    by (simp_all add: list_head_def)
  have m: "map (id(2 := 5, 5 := 2)) [2, 7, 5] = [5, 7, 2 :: nat]" "map (id(7 := 5, 5 := 7)) [7, 5, 2] = [5, 7, 2 :: nat]"
    by simp_all
  from swap_UEs_exchanges [of False ?s "[2, 7, 5]" 2 5] c(1) obtain s1 where
    s1: "swap_UEs 2 5 False ?s = Inr s1" "walk NUMBER_OF_UE_MAX (next_dl s1) (head s1) = Some [5, 7, 2]"
    "next_ul s1 = next_ul ?s" "head_ul s1 = head_ul ?s" by (auto simp: NUMBER_OF_UE_MAX_def m(1))
  have "chain (next_ul s1) (head_ul s1) [7, 5, 2]" using c(2) by (simp only: s1(3,4))
  from swap_UEs_exchanges [of True s1 "[7, 5, 2]" 7 5] this obtain s2 where
    s2: "swap_UEs 7 5 True s1 = Inr s2" "walk NUMBER_OF_UE_MAX (next_ul s2) (head_ul s2) = Some [5, 7, 2]"
    "next_dl s2 = next_dl s1" "head s2 = head s1" by (auto simp: NUMBER_OF_UE_MAX_def m(2))
  with s1(1,2) show ?thesis by (intro exI [of _ s1] exI [of _ s2]) simp
qed

end
