(* ===== verification/Cce.thy ===== *)
theory Cce
  imports MacState
begin

text \<open>
  The downlink control channel: the list of control messages (DCI) of a subframe, the search for
  control channel elements (CCE) of one message, the allocation of all messages with one to three
  control symbols, the feasibility test the schedulers make before they add a message, and the
  resource block maps the messages carry. Everything is from
  \<open>LAYER2/MAC/eNB_scheduler_primitives.c\<close>; the structures are \<open>DCI_ALLOC_t\<close> of
  \<open>PHY/LTE_TRANSPORT/defs.h\<close> and \<open>DCI_PDU\<close> of \<open>LAYER2/MAC/defs.h\<close>. The number of elements that a number
  of control symbols gives belongs to the physical layer and is the argument \<open>get_nCCE_max\<close>.
\<close>

section \<open>Structures\<close>

definition NUM_DCI_MAX :: nat where "NUM_DCI_MAX = 32"
definition CCE_TABLE_SIZE :: nat where "CCE_TABLE_SIZE = 800"

datatype dci_format = format0 | format1 | format1A | format1B | format1C | format1D
  | format1E_2A_M10PRB | format2 | format2A | format2B | format2C | format2D | format3 | format3A
  | format4

datatype dci_space = DCI_COMMON_SPACE | DCI_UE_SPACE

record dci_entry =
  dci_length :: u8
  dci_L :: u8
  firstCCE :: int
  ra_flag :: u8
  dci_rnti :: u16
  dci_fmt :: dci_format
  search_space :: dci_space
  dci_bytes :: "u8 list"

record pdcch =
  Num_dci :: nat
  num_pdcch_symbols :: nat
  dci_alloc :: "dci_entry list"
  CCE_table :: "int list"

section \<open>Adding a message\<close>

definition add_dci ::
  "dci_space \<Rightarrow> u8 list \<Rightarrow> u16 \<Rightarrow> nat \<Rightarrow> u8 \<Rightarrow> u8 \<Rightarrow> dci_format \<Rightarrow> u8 \<Rightarrow> pdcch \<Rightarrow> pdcch res" where
  "add_dci sp pdu r size_bytes agg size_bits fmt ra p =
     (if Num_dci p = NUM_DCI_MAX then Inl Abort
      else if length (dci_alloc p) \<le> Num_dci p then Inl OutOfBounds
      else if size_bytes > length (dci_bytes (dci_alloc p ! Num_dci p)) \<or> size_bytes > length pdu
           then Inl OutOfBounds
      else (let d = dci_alloc p ! Num_dci p in
        Inr (p\<lparr>dci_alloc := (dci_alloc p)[Num_dci p :=
                d\<lparr>dci_bytes := take size_bytes pdu @ drop size_bytes (dci_bytes d),
                  dci_length := size_bits, dci_L := agg, dci_rnti := r, dci_fmt := fmt,
                  ra_flag := ra, search_space := sp\<rparr>],
              Num_dci := Suc (Num_dci p)\<rparr>)))"

definition add_common_dci ::
  "u8 list \<Rightarrow> u16 \<Rightarrow> nat \<Rightarrow> u8 \<Rightarrow> u8 \<Rightarrow> dci_format \<Rightarrow> u8 \<Rightarrow> pdcch \<Rightarrow> pdcch res" where
  "add_common_dci = add_dci DCI_COMMON_SPACE"

definition add_ue_spec_dci ::
  "u8 list \<Rightarrow> u16 \<Rightarrow> nat \<Rightarrow> u8 \<Rightarrow> u8 \<Rightarrow> dci_format \<Rightarrow> u8 \<Rightarrow> pdcch \<Rightarrow> pdcch res" where
  "add_ue_spec_dci = add_dci DCI_UE_SPACE"

section \<open>The search for elements\<close>

text \<open>
  The inner loops over the elements of a candidate: is no element taken, and take them all. In the
  UE-specific space a candidate must also end below the number of elements.
\<close>

fun span_free :: "int list \<Rightarrow> int \<Rightarrow> nat \<Rightarrow> bool res" where
  "span_free tbl c 0 = Inr True"
| "span_free tbl c (Suc n) =
     bindE (aget tbl c) (\<lambda>v. if v = 1 then Inr False else span_free tbl (c + 1) n)"

fun span_free_below :: "int \<Rightarrow> int list \<Rightarrow> int \<Rightarrow> nat \<Rightarrow> bool res" where
  "span_free_below lim tbl c 0 = Inr True"
| "span_free_below lim tbl c (Suc n) =
     (if c \<ge> lim then Inr False
      else bindE (aget tbl c) (\<lambda>v. if v = 1 then Inr False else span_free_below lim tbl (c + 1) n))"

fun take_span :: "int list \<Rightarrow> int \<Rightarrow> nat \<Rightarrow> int list res" where
  "take_span tbl c 0 = Inr tbl"
| "take_span tbl c (Suc n) = bindE (aset tbl c 1) (\<lambda>t. take_span t (c + 1) n)"

fun search_candidates ::
  "(int \<Rightarrow> bool res) \<Rightarrow> int list \<Rightarrow> nat \<Rightarrow> int list \<Rightarrow> (int \<times> int list) res" where
  "search_candidates free tbl L [] = Inr (- 1, tbl)"
| "search_candidates free tbl L (c # cs) =
     bindE (free c) (\<lambda>ok.
       if ok then bindE (take_span tbl c L) (\<lambda>t. Inr (c, t))
       else search_candidates free tbl L cs)"

text \<open>The first candidate of a UE in a subframe, a hash of its identity.\<close>

definition Yk_init :: "u16 \<Rightarrow> u8 \<Rightarrow> u32" where
  "Yk_init r subframe = ((\<lambda>y. (y * 39827) mod 65537) ^^ (unat subframe + 1)) (ucast r)"

definition get_nCCE_offset ::
  "int list \<Rightarrow> nat \<Rightarrow> int \<Rightarrow> bool \<Rightarrow> u16 \<Rightarrow> u8 \<Rightarrow> (int \<times> int list) res" where
  "get_nCCE_offset tbl L nCCE common r subframe =
     (if L = 0 then Inl Undefined
      else if common then
        (let nb = min (if L = 4 then 4 else 2) (c_div nCCE (int L))
         in search_candidates (\<lambda>c. span_free tbl c L) tbl L
              (map (\<lambda>m. int m * int L) (rev [0..<nat nb])))
      else if c_div nCCE (int L) = 0 then Inl Undefined
      else
        (let q = word_of_int (c_div nCCE (int L)) :: u32; Yk = Yk_init r subframe mod q
         in if L \<notin> {1, 2, 4, 8} then Inl Abort
            else search_candidates (\<lambda>c. span_free_below nCCE tbl c L) tbl L
              (map (\<lambda>m. sint (((Yk + of_nat m) mod q) * of_nat L))
                 [0..<(if L = 1 \<or> L = 2 then 6 else 2)])))"

section \<open>Allocating all messages\<close>

definition init_CCE_table :: "int list" where
  "init_CCE_table = replicate CCE_TABLE_SIZE 0"

text \<open>
  One round over the messages: \<open>False\<close> when a message finds no room. A shift by 31 or more is
  undefined, and the size is passed as an \<open>unsigned char\<close>.
\<close>

fun alloc_loop ::
  "bool \<Rightarrow> u8 \<Rightarrow> int \<Rightarrow> nat list \<Rightarrow> int \<Rightarrow> int list \<Rightarrow> dci_entry list
     \<Rightarrow> (bool \<times> int list \<times> dci_entry list) res" where
  "alloc_loop test sf nCCE_max [] nCCE tbl ds = Inr (True, tbl, ds)"
| "alloc_loop test sf nCCE_max (i # ix) nCCE tbl ds =
     (if length ds \<le> i then Inl OutOfBounds
      else if unat (dci_L (ds ! i)) \<ge> 31 then Inl Undefined
      else
        (let d = ds ! i; L = 2 ^ unat (dci_L d) in
         if nCCE + int L > nCCE_max then Inr (False, tbl, ds)
         else
           bindE (get_nCCE_offset tbl (L mod 256) nCCE_max (search_space d = DCI_COMMON_SPACE)
                    (dci_rnti d) sf)
             (\<lambda>(fCCE, t). if fCCE = - 1 then Inr (False, t, ds)
                else alloc_loop test sf nCCE_max ix (nCCE + int L) t
                       (if test then ds else ds[i := d\<lparr>firstCCE := fCCE\<rparr>]))))"

text \<open>
  The rounds: each starts with a cleared table; a failure adds a control symbol, up to three. The
  first argument is the number of symbols that may still be added.
\<close>

fun try_again ::
  "(nat \<Rightarrow> int) \<Rightarrow> bool \<Rightarrow> u8 \<Rightarrow> nat \<Rightarrow> pdcch \<Rightarrow> (int \<times> pdcch) res" where
  "try_again get_nCCE_max test sf left p =
     bindE (alloc_loop test sf (get_nCCE_max (num_pdcch_symbols p)) [0..<Num_dci p] 0
              init_CCE_table (dci_alloc p))
       (\<lambda>(ok, tbl, ds).
          let p' = p\<lparr>CCE_table := tbl, dci_alloc := ds\<rparr> in
          if ok then Inr (0, p')
          else case left of
                 0 \<Rightarrow> Inr (- 1, p')
               | Suc n \<Rightarrow> try_again get_nCCE_max test sf n
                            (p'\<lparr>num_pdcch_symbols := Suc (num_pdcch_symbols p)\<rparr>))"

declare try_again.simps [simp del]

definition allocate_CCEs :: "(nat \<Rightarrow> int) \<Rightarrow> u8 \<Rightarrow> bool \<Rightarrow> pdcch \<Rightarrow> (int \<times> pdcch) res" where
  "allocate_CCEs get_nCCE_max sf test p =
     try_again get_nCCE_max test sf 2 (p\<lparr>num_pdcch_symbols := 1\<rparr>)"

definition CCE_allocation_infeasible ::
  "(nat \<Rightarrow> int) \<Rightarrow> bool \<Rightarrow> u8 \<Rightarrow> u8 \<Rightarrow> u16 \<Rightarrow> pdcch \<Rightarrow> (bool \<times> pdcch) res" where
  "CCE_allocation_infeasible get_nCCE_max common sf agg r p =
     (if Num_dci p = NUM_DCI_MAX then Inr (True, p)
      else if length (dci_alloc p) \<le> Num_dci p then Inl OutOfBounds
      else
        (let d = (dci_alloc p ! Num_dci p)\<lparr>dci_rnti := r, dci_L := agg,
               search_space := (if common then DCI_COMMON_SPACE else DCI_UE_SPACE)\<rparr>;
             p1 = p\<lparr>dci_alloc := (dci_alloc p)[Num_dci p := d], Num_dci := Suc (Num_dci p)\<rparr>
         in bindE (allocate_CCEs get_nCCE_max sf True p1)
              (\<lambda>(ret, p2). Inr (ret = - 1, p2\<lparr>Num_dci := Num_dci p2 - 1\<rparr>))))"

section \<open>Resource blocks\<close>

definition get_bw_index :: "int \<Rightarrow> int" where
  "get_bw_index N_RB_DL =
     (if N_RB_DL = 6 then 0 else if N_RB_DL = 25 then 1 else if N_RB_DL = 50 then 2
      else if N_RB_DL = 100 then 3 else 1)"

definition get_min_rb_unit :: "int \<Rightarrow> int" where
  "get_min_rb_unit N_RB_DL =
     (if N_RB_DL = 6 then 1 else if N_RB_DL = 25 then 2 else if N_RB_DL = 50 then 3
      else if N_RB_DL = 100 then 4 else 2)"

text \<open>The case of 15 blocks has no \<open>break\<close> and runs into the next one.\<close>

definition get_nb_subband :: "int \<Rightarrow> int" where
  "get_nb_subband N_RB_DL =
     (if N_RB_DL = 6 then 0 else if N_RB_DL = 15 then 7 else if N_RB_DL = 25 then 7
      else if N_RB_DL = 50 then 9 else if N_RB_DL = 75 then 10 else if N_RB_DL = 100 then 13
      else 0)"

text \<open>The blocks that a set bit of the group map stands for: the last group may be smaller.\<close>

definition rbg_blocks :: "int \<Rightarrow> int \<Rightarrow> int \<Rightarrow> int" where
  "rbg_blocks N_RB_DL N_RBG check =
     (if N_RB_DL = 6 then 1
      else if N_RB_DL = 25 then (if check = N_RBG - 1 then 1 else 2)
      else if N_RB_DL = 50 then (if check = N_RBG - 1 then 2 else 3)
      else if N_RB_DL = 100 then 4 else 0)"

text \<open>The \<open>while\<close> loop runs over the group numbers from its argument to the number of groups.\<close>

fun allocate_prbs_loop ::
  "int \<Rightarrow> int \<Rightarrow> u8 list \<Rightarrow> int list \<Rightarrow> int \<Rightarrow> u32 \<Rightarrow> u32 res" where
  "allocate_prbs_loop N_RB_DL N_RBG rballoc [] nb dci = Inr dci"
| "allocate_prbs_loop N_RB_DL N_RBG rballoc (check # cs) nb dci =
     (if nb > 0 then
        bindE (aget rballoc check) (\<lambda>v.
          if v = 1 then
            allocate_prbs_loop N_RB_DL N_RBG rballoc cs (nb - rbg_blocks N_RB_DL N_RBG check)
              (or dci (push_bit (nat (N_RBG - 1 - check)) 1))
          else allocate_prbs_loop N_RB_DL N_RBG rballoc cs nb dci)
      else Inr dci)"

definition allocate_prbs_sub :: "int \<Rightarrow> int \<Rightarrow> int \<Rightarrow> u8 list \<Rightarrow> u32 res" where
  "allocate_prbs_sub N_RB_DL N_RBG nb rballoc =
     allocate_prbs_loop N_RB_DL N_RBG rballoc [0..N_RBG - 1] nb 0"

text \<open>The aggregation level of a message from the channel quality of its UE.\<close>

definition cqi2fmt0_agg :: "u8 list list" where
  "cqi2fmt0_agg =
     [[3, 3, 3, 2, 2, 1, 1, 1, 1, 0, 0, 0, 0, 0, 0, 0],
      [3, 3, 3, 3, 2, 2, 1, 1, 1, 1, 0, 0, 0, 0, 0, 0],
      [3, 3, 3, 3, 2, 2, 2, 1, 1, 1, 1, 0, 0, 0, 0, 0],
      [3, 3, 3, 3, 2, 2, 2, 2, 1, 1, 1, 1, 0, 0, 0, 0]]"

definition cqi2fmt1x_agg :: "u8 list list" where
  "cqi2fmt1x_agg =
     [[3, 3, 3, 2, 2, 1, 1, 1, 1, 0, 0, 0, 0, 0, 0, 0],
      [3, 3, 3, 3, 2, 2, 1, 1, 1, 1, 0, 0, 0, 0, 0, 0],
      [3, 3, 3, 3, 2, 2, 2, 1, 1, 1, 1, 0, 0, 0, 0, 0],
      [3, 3, 3, 3, 2, 2, 2, 2, 1, 1, 1, 1, 0, 0, 0, 0]]"

definition cqi2fmt2x_agg :: "u8 list list" where
  "cqi2fmt2x_agg =
     [[3, 3, 3, 2, 2, 1, 1, 1, 1, 0, 0, 0, 0, 0, 0, 0],
      [3, 3, 3, 3, 2, 2, 1, 1, 1, 1, 0, 0, 0, 0, 0, 0],
      [3, 3, 3, 3, 2, 2, 2, 1, 1, 1, 1, 0, 0, 0, 0, 0],
      [3, 3, 3, 3, 3, 2, 2, 2, 2, 2, 1, 1, 1, 1, 0, 0]]"

definition get_aggregation :: "u8 \<Rightarrow> u8 \<Rightarrow> dci_format \<Rightarrow> u8 res" where
  "get_aggregation bw_index cqi fmt =
     (let look = (\<lambda>t :: u8 list list. bindE (aget t (uint bw_index)) (\<lambda>row. aget row (uint cqi))) in
      if fmt = format0 then look cqi2fmt0_agg
      else if fmt \<in> {format1, format1A, format1B, format1D} then look cqi2fmt1x_agg
      else if fmt \<in> {format2, format2A, format2B, format2C, format2D} then look cqi2fmt2x_agg
      else Inr 3)"

section \<open>Facts about the search\<close>

definition marked :: "int list \<Rightarrow> int set" where
  "marked tbl = {i. in_range tbl i \<and> tbl ! nat i = 1}"

definition span :: "int \<Rightarrow> nat \<Rightarrow> int set" where
  "span c n = {c..<c + int n}"

lemma span_0 [simp]: "span c 0 = {}"
  by (simp add: span_def)

lemma span_Suc: "span c (Suc n) = insert c (span (c + 1) n)"
  by (auto simp: span_def)

lemma span_free_True:
  "span_free tbl c n = Inr True \<longleftrightarrow> (\<forall>i \<in> span c n. in_range tbl i) \<and> span c n \<inter> marked tbl = {}"
proof (induction n arbitrary: c)
  case 0
  show ?case by simp
next
  case (Suc n)
  then show ?case by (auto simp: span_Suc marked_def aget_def)
qed

lemma span_free_total:
  "\<forall>i \<in> span c n. in_range tbl i \<Longrightarrow> \<exists>b. span_free tbl c n = Inr b"
  by (induction n arbitrary: c) (auto simp: span_Suc aget_def)

lemma span_free_below_True:
  "span_free_below lim tbl c n = Inr True \<longleftrightarrow>
     (\<forall>i \<in> span c n. in_range tbl i \<and> i < lim) \<and> span c n \<inter> marked tbl = {}"
proof (induction n arbitrary: c)
  case 0
  show ?case by simp
next
  case (Suc n)
  then show ?case by (auto simp: span_Suc marked_def aget_def)
qed

lemma span_free_below_total:
  "0 \<le> c \<Longrightarrow> lim \<le> int (length tbl) \<Longrightarrow> \<exists>b. span_free_below lim tbl c n = Inr b"
  by (induction n arbitrary: c) (auto simp: aget_def in_range_def)

lemma marked_update: "in_range tbl c \<Longrightarrow> marked (tbl[nat c := 1]) = insert c (marked tbl)"
  by (auto simp: marked_def in_range_def nth_list_update)

lemma take_span_ok:
  "\<forall>i \<in> span c n. in_range tbl i \<Longrightarrow>
   \<exists>t. take_span tbl c n = Inr t \<and> length t = length tbl \<and> marked t = marked tbl \<union> span c n"
proof (induction n arbitrary: c tbl)
  case 0
  show ?case by simp
next
  case (Suc n)
  then have r: "in_range tbl c" by (simp add: span_Suc)
  have "\<forall>i \<in> span (c + 1) n. in_range (tbl[nat c := 1]) i" using Suc.prems by (simp add: span_Suc)
  from Suc.IH [OF this] obtain t where
    "take_span (tbl[nat c := 1]) (c + 1) n = Inr t" "length t = length tbl"
    "marked t = marked (tbl[nat c := 1]) \<union> span (c + 1) n" by auto
  with r show ?case by (auto simp: aset_def marked_update span_Suc)
qed

text \<open>What a successful search returns, over any test of a candidate.\<close>

lemma search_candidates_cases:
  assumes "search_candidates free tbl L cs = Inr (f, t)"
  obtains (none) "f = - 1" and "t = tbl"
  | (found) "f \<in> set cs" and "free f = Inr True" and "take_span tbl f L = Inr t"
  using assms
proof (induction cs)
  case Nil
  then show ?case by simp
next
  case (Cons c cs)
  from Cons.prems(3) obtain ok where ok: "free c = Inr ok" by (auto elim: bindE_eq_InrE)
  show ?case
  proof (cases ok)
    case True
    with ok Cons.prems show ?thesis by (auto elim!: bindE_eq_InrE)
  next
    case False
    with ok Cons show ?thesis by auto
  qed
qed

lemma search_candidates_total:
  assumes "\<And>c. c \<in> set cs \<Longrightarrow> \<exists>b. free c = Inr b"
    and "\<And>c. c \<in> set cs \<Longrightarrow> free c = Inr True \<Longrightarrow> \<forall>i \<in> span c L. in_range tbl i"
  shows "\<exists>f t. search_candidates free tbl L cs = Inr (f, t)"
  using assms
proof (induction cs)
  case Nil
  then show ?case by simp
next
  case (Cons c cs)
  from Cons.prems(1) obtain b where b: "free c = Inr b" by auto
  show ?case
  proof (cases b)
    case True
    with b Cons.prems(2) take_span_ok [of c L tbl] obtain t where "take_span tbl c L = Inr t" by auto
    with b True show ?thesis by simp
  next
    case False
    have "\<exists>f t. search_candidates free tbl L cs = Inr (f, t)"
      using Cons.prems by (intro Cons.IH) auto
    with b False show ?thesis by simp
  qed
qed

text \<open>
  A candidate of the UE-specific space is the \<open>m\<close>-th group of elements after the hash, modulo the
  number of groups.
\<close>

lemma sint_small: "uint w < 2 ^ 31 \<Longrightarrow> sint (w :: u32) = uint w"
  by (simp add: sint_uint signed_take_bit_eq_if_positive bit_iff_odd take_bit_int_eq_self)

lemma uint_of_nat_small: "n < 2 ^ 32 \<Longrightarrow> uint (of_nat n :: u32) = int n"
  by (simp add: unsigned_of_nat take_bit_nat_eq_self)

lemma ue_candidate:
  fixes Yk :: u32
  assumes "0 < n" and "n \<le> 800" and "L \<le> 8" and "uint Yk < n" and "m \<le> 6"
  shows "sint (((Yk + of_nat m) mod word_of_int n) * of_nat L) = ((uint Yk + int m) mod n) * int L"
proof -
  have m: "uint (of_nat m :: u32) = int m" and l: "uint (of_nat L :: u32) = int L"
    using assms by (simp_all add: uint_of_nat_small)
  have y: "uint (Yk + of_nat m) = uint Yk + int m"
  proof -
    have "uint Yk + int m < 4294967296" using assms by linarith
    then show ?thesis using uint_add_lem [of Yk "of_nat m"] m by simp
  qed
  have "uint (word_of_int n :: u32) = n" using assms by (simp add: uint_word_of_int)
  with y have q: "uint ((Yk + of_nat m) mod word_of_int n) = (uint Yk + int m) mod n"
    by (simp add: uint_mod)
  have x: "0 \<le> (uint Yk + int m) mod n" "(uint Yk + int m) mod n \<le> 799"
  proof -
    show "0 \<le> (uint Yk + int m) mod n" using assms(1) by simp
    have "(uint Yk + int m) mod n < n" using assms(1) by (rule pos_mod_bound)
    with assms(2) show "(uint Yk + int m) mod n \<le> 799" by linarith
  qed
  have "(uint Yk + int m) mod n * int L \<le> 799 * 8"
    using x assms(3) by (intro mult_mono) auto
  moreover from this have "uint (((Yk + of_nat m) mod word_of_int n) * of_nat L)
      = (uint Yk + int m) mod n * int L"
    using uint_mult_lem [of "(Yk + of_nat m) mod word_of_int n" "of_nat L"] l q by simp
  ultimately show ?thesis by (subst sint_small) simp_all
qed

text \<open>The candidates of a search, as plain arithmetic.\<close>

definition common_starts :: "int \<Rightarrow> nat \<Rightarrow> int list" where
  "common_starts nCCE L =
     map (\<lambda>m. int m * int L) (rev [0..<nat (min (if L = 4 then 4 else 2) (nCCE div int L))])"

definition ue_starts :: "int \<Rightarrow> nat \<Rightarrow> u16 \<Rightarrow> u8 \<Rightarrow> int list" where
  "ue_starts nCCE L r subframe =
     map (\<lambda>m. ((uint (Yk_init r subframe) mod (nCCE div int L) + int m) mod (nCCE div int L)) * int L)
       [0..<(if L = 1 \<or> L = 2 then 6 else 2)]"

lemma size_cases:
  assumes "L \<in> {1, 2, 4, 8 :: nat}" and "int L \<le> nCCE"
  shows "0 < nCCE div int L" and "nCCE div int L \<le> nCCE" and "0 < L" and "L \<le> 8"
proof -
  show L: "0 < L" "L \<le> 8" using assms(1) by auto
  show "0 < nCCE div int L" using assms(2) L by (simp add: pos_imp_zdiv_pos_iff)
  show "nCCE div int L \<le> nCCE"
    using assms(2) L zdiv_mono2 [of nCCE 1 "int L"] by simp
qed

lemma get_nCCE_offset_search:
  assumes "L \<in> {1, 2, 4, 8}" and "int L \<le> nCCE" and "nCCE \<le> 800"
  shows "get_nCCE_offset tbl L nCCE common r sf =
    (if common then search_candidates (\<lambda>c. span_free tbl c L) tbl L (common_starts nCCE L)
     else search_candidates (\<lambda>c. span_free_below nCCE tbl c L) tbl L (ue_starts nCCE L r sf))"
proof -
  note q = size_cases [OF assms(1,2)]
  have d: "c_div nCCE (int L) = nCCE div int L" using assms(2) q(3) by simp
  let ?n = "nCCE div int L"
  have u: "uint (word_of_int ?n :: u32) = ?n" using q assms(3) by (simp add: uint_word_of_int)
  then have y: "uint (Yk_init r sf mod word_of_int ?n) = uint (Yk_init r sf) mod ?n"
    by (simp add: uint_mod)
  have "map (\<lambda>m. sint (((Yk_init r sf mod word_of_int ?n + of_nat m) mod word_of_int ?n) * of_nat L))
          [0..<(if L = 1 \<or> L = 2 then 6 else 2)] = ue_starts nCCE L r sf"
    unfolding ue_starts_def
  proof (rule map_cong [OF refl])
    fix m assume "m \<in> set [0..<(if L = 1 \<or> L = 2 then 6 else 2 :: nat)]"
    then have "m \<le> 6" by (auto split: if_splits)
    then show "sint (((Yk_init r sf mod word_of_int ?n + of_nat m) mod word_of_int ?n) * of_nat L)
        = (uint (Yk_init r sf) mod ?n + int m) mod ?n * int L"
      using q assms(3) by (subst ue_candidate) (simp_all add: y)
  qed
  with assms(1) q d show ?thesis
    by (simp add: get_nCCE_offset_def common_starts_def Let_def)
qed

lemma span_bound:
  assumes "0 \<le> x" and "x < n div int L" and "0 < L"
  shows "span (x * int L) L \<subseteq> {0..<n}"
proof -
  have "(x + 1) * int L \<le> (n div int L) * int L" using assms by (intro mult_right_mono) auto
  also have "\<dots> \<le> n" by (metis div_mult_mod_eq assms(3) le_add_same_cancel1 of_nat_0_less_iff
        pos_mod_sign)
  finally have "x * int L + int L \<le> n" by (simp add: distrib_right)
  moreover have "0 \<le> x * int L" using assms(1) by simp
  ultimately show ?thesis by (auto simp: span_def)
qed

lemma common_starts_mem:
  assumes "c \<in> set (common_starts nCCE L)"
  obtains m where "c = int m * int L" and "m < (if L = 4 then 4 else 2)"
    and "int m < nCCE div int L"
proof -
  let ?k = "nat (min (if L = 4 then 4 else 2) (nCCE div int L))"
  from assms have "c \<in> (\<lambda>m. int m * int L) ` {0..<?k}"
    by (simp only: common_starts_def set_map set_rev set_upt)
  then obtain m where c: "c = int m * int L" and m: "m \<in> {0..<?k}" by (rule imageE)
  from m have "int m < (if L = 4 then 4 else 2)" and "int m < nCCE div int L"
    by (simp_all only: atLeastLessThan_iff zless_nat_eq_int_zless min_less_iff_conj)
  then show thesis using that [OF c] by (auto split: if_splits)
qed

lemma common_starts_bound:
  assumes "L \<in> {1, 2, 4, 8}" and "int L \<le> nCCE" and "c \<in> set (common_starts nCCE L)"
  shows "span c L \<subseteq> {0..<nCCE}" and "0 \<le> c" and "int L dvd c"
proof -
  from assms(3) obtain m where "c = int m * int L" and "int m < nCCE div int L"
    by (rule common_starts_mem)
  then show "span c L \<subseteq> {0..<nCCE}" "0 \<le> c" "int L dvd c"
    using size_cases [OF assms(1,2)] span_bound [of "int m" nCCE L] by simp_all
qed

lemma ue_starts_bound:
  assumes "L \<in> {1, 2, 4, 8}" and "int L \<le> nCCE" and "c \<in> set (ue_starts nCCE L r sf)"
  shows "span c L \<subseteq> {0..<nCCE}" and "0 \<le> c" and "int L dvd c"
proof -
  note q = size_cases [OF assms(1,2)]
  from assms(3) obtain k where c: "c = k mod (nCCE div int L) * int L"
    by (auto simp: ue_starts_def)
  have "0 \<le> k mod (nCCE div int L)" "k mod (nCCE div int L) < nCCE div int L" using q by simp_all
  then show "span c L \<subseteq> {0..<nCCE}" "0 \<le> c" "int L dvd c"
    unfolding c using q(3) span_bound [of "k mod (nCCE div int L)" nCCE L] by simp_all
qed

lemma get_nCCE_offset_ok:
  assumes L: "L \<in> {1, 2, 4, 8}" "int L \<le> nCCE" "nCCE \<le> 800" and tbl: "length tbl = 800"
  obtains (none) "get_nCCE_offset tbl L nCCE common r sf = Inr (- 1, tbl)"
  | (found) f t where "get_nCCE_offset tbl L nCCE common r sf = Inr (f, t)"
      and "f \<in> set (if common then common_starts nCCE L else ue_starts nCCE L r sf)"
      and "0 \<le> f" and "span f L \<subseteq> {0..<nCCE}" and "int L dvd f"
      and "span f L \<inter> marked tbl = {}" and "length t = 800" and "marked t = marked tbl \<union> span f L"
proof -
  let ?cs = "if common then common_starts nCCE L else ue_starts nCCE L r sf"
  let ?free = "\<lambda>c. if common then span_free tbl c L else span_free_below nCCE tbl c L"
  have eq: "get_nCCE_offset tbl L nCCE common r sf = search_candidates ?free tbl L ?cs"
    using get_nCCE_offset_search [OF L] by simp
  have b: "span c L \<subseteq> {0..<nCCE}" "0 \<le> c" "int L dvd c" if "c \<in> set ?cs" for c
    using that common_starts_bound [OF L(1,2)] ue_starts_bound [OF L(1,2)]
    by (auto split: if_splits)
  have inr: "\<forall>i \<in> span c L. in_range tbl i" if "c \<in> set ?cs" for c
    using b [OF that] L(3) tbl by (auto simp: in_range_def)
  have "\<exists>f t. search_candidates ?free tbl L ?cs = Inr (f, t)"
    using inr b L(3) tbl
    by (intro search_candidates_total) (auto intro: span_free_total span_free_below_total)
  then obtain f t where ft: "search_candidates ?free tbl L ?cs = Inr (f, t)" by blast
  then show thesis
  proof (cases rule: search_candidates_cases)
    case none
    with eq ft that(1) show thesis by simp
  next
    case found
    from take_span_ok [OF inr [OF found(1)]] found(3)
    have "length t = 800" "marked t = marked tbl \<union> span f L" using tbl by auto
    moreover have "span f L \<inter> marked tbl = {}"
      using found(2) by (auto simp: span_free_True span_free_below_True split: if_splits)
    ultimately show thesis
      using that(2) eq ft found(1) b [OF found(1)] by simp
  qed
qed

section \<open>Facts about the allocation of all messages\<close>

definition dci_size :: "dci_entry \<Rightarrow> nat" where
  "dci_size d = 2 ^ unat (dci_L d)"

definition dci_span :: "dci_entry \<Rightarrow> int set" where
  "dci_span d = span (firstCCE d) (dci_size d)"

text \<open>The candidates of a message.\<close>

definition dci_starts :: "int \<Rightarrow> u8 \<Rightarrow> dci_entry \<Rightarrow> int list" where
  "dci_starts nCCE sf d =
     (if search_space d = DCI_COMMON_SPACE then common_starts nCCE (dci_size d)
      else ue_starts nCCE (dci_size d) (dci_rnti d) sf)"

text \<open>A message stands on one of its candidates, within the elements, and aligned to its size.\<close>

definition dci_legal :: "int \<Rightarrow> u8 \<Rightarrow> dci_entry \<Rightarrow> bool" where
  "dci_legal nCCE sf d \<longleftrightarrow>
     firstCCE d \<in> set (dci_starts nCCE sf d) \<and> dci_span d \<subseteq> {0..<nCCE} \<and>
     int (dci_size d) dvd firstCCE d"

definition placed_ok :: "int \<Rightarrow> u8 \<Rightarrow> int set \<Rightarrow> dci_entry list \<Rightarrow> nat list \<Rightarrow> bool" where
  "placed_ok nCCE sf used ds ix \<longleftrightarrow>
     (\<forall>i \<in> set ix. dci_legal nCCE sf (ds ! i) \<and> dci_span (ds ! i) \<inter> used = {}) \<and>
     (\<forall>i \<in> set ix. \<forall>j \<in> set ix. i \<noteq> j \<longrightarrow> dci_span (ds ! i) \<inter> dci_span (ds ! j) = {})"

text \<open>Lists of messages that differ in their positions only.\<close>

definition same_dcis :: "dci_entry list \<Rightarrow> dci_entry list \<Rightarrow> bool" where
  "same_dcis ds es \<longleftrightarrow> length es = length ds \<and>
     (\<forall>i < length ds. \<exists>c. es ! i = (ds ! i)\<lparr>firstCCE := c\<rparr>)"

lemma firstCCE_self [simp]: "\<exists>c. d = d\<lparr>firstCCE := c\<rparr>"
  by (rule exI [of _ "firstCCE d"]) simp

lemma same_dcis_refl [simp]: "same_dcis ds ds"
  by (simp add: same_dcis_def)

lemma same_dcis_trans: "same_dcis ds es \<Longrightarrow> same_dcis es fs \<Longrightarrow> same_dcis ds fs"
  unfolding same_dcis_def by force

lemma same_dcis_update:
  "i < length ds \<Longrightarrow> same_dcis ds (ds[i := (ds ! i)\<lparr>firstCCE := c\<rparr>])"
  by (auto simp: same_dcis_def nth_list_update)

lemma small_size:
  assumes "dci_L d \<le> 3"
  shows "unat (dci_L d) < 31" and "2 ^ unat (dci_L d) \<in> {1, 2, 4, 8 :: nat}"
    and "(2 ^ unat (dci_L d) :: nat) mod 256 = 2 ^ unat (dci_L d)"
proof -
  have "unat (dci_L d) \<le> 3" using assms by (simp add: word_le_nat_alt)
  then have "unat (dci_L d) \<in> {0, 1, 2, 3}" by auto
  then show "unat (dci_L d) < 31" "2 ^ unat (dci_L d) \<in> {1, 2, 4, 8 :: nat}"
    "(2 ^ unat (dci_L d) :: nat) mod 256 = 2 ^ unat (dci_L d)" by auto
qed

text \<open>One round always ends, moves messages only, and on success places every message.\<close>

definition round_ok ::
  "bool \<Rightarrow> u8 \<Rightarrow> int \<Rightarrow> nat list \<Rightarrow> int set \<Rightarrow> dci_entry list \<Rightarrow> bool \<times> int list \<times> dci_entry list \<Rightarrow> bool"
  where
  "round_ok test sf M ix used ds res =
     (case res of (ok, t, es) \<Rightarrow>
        same_dcis ds es \<and> (\<forall>i. i \<notin> set ix \<longrightarrow> es ! i = ds ! i) \<and> (test \<longrightarrow> es = ds) \<and>
        (ok \<and> \<not> test \<longrightarrow> placed_ok M sf used es ix))"

lemma placed_ok_Cons:
  assumes "i \<notin> set ix" and "dci_legal M sf (es ! i)" and "dci_span (es ! i) \<inter> used = {}"
    and "placed_ok M sf (used \<union> dci_span (es ! i)) es ix"
  shows "placed_ok M sf used es (i # ix)"
  using assms unfolding placed_ok_def by (auto 0 3)

lemma alloc_loop_ok:
  assumes "M \<le> 800" and "length tbl = 800" and "distinct ix"
    and "\<forall>i \<in> set ix. i < length ds \<and> dci_L (ds ! i) \<le> 3" and "0 \<le> n"
  shows "\<exists>res. alloc_loop test sf M ix n tbl ds = Inr res \<and> round_ok test sf M ix (marked tbl) ds res"
  using assms
proof (induction ix arbitrary: n tbl ds)
  case Nil
  then show ?case by (simp add: round_ok_def placed_ok_def)
next
  case (Cons i ix)
  let ?d = "ds ! i" and ?L = "2 ^ unat (dci_L (ds ! i)) :: nat"
  from Cons.prems have i: "i < length ds" "dci_L ?d \<le> 3" and ni: "i \<notin> set ix" by auto
  note sz = small_size [OF i(2)]
  show ?case
  proof (cases "n + int ?L > M")
    case True
    with i sz show ?thesis by (simp add: Let_def round_ok_def)
  next
    case False
    then have le: "int ?L \<le> M" using Cons.prems(5) by linarith
    show ?thesis
      using sz(2) le Cons.prems(1,2)
    proof (cases rule: get_nCCE_offset_ok [where common = "search_space ?d = DCI_COMMON_SPACE" and r = "dci_rnti ?d" and sf = sf])
      case none
      with False i sz show ?thesis by (simp add: Let_def round_ok_def)
    next
      case (found f t)
      let ?ds = "if test then ds else ds[i := ?d\<lparr>firstCCE := f\<rparr>]"
      have "\<forall>j \<in> set ix. j < length ?ds \<and> dci_L (?ds ! j) \<le> 3"
        using Cons.prems(4) ni by (auto simp: nth_list_update)
      then obtain ok t' es where
        run: "alloc_loop test sf M ix (n + int ?L) t ?ds = Inr (ok, t', es)"
        and r: "round_ok test sf M ix (marked t) ?ds (ok, t', es)"
        using Cons.IH [of t ?ds "n + int ?L"] Cons.prems found(7) by auto
      have "alloc_loop test sf M (i # ix) n tbl ds = Inr (ok, t', es)"
        using False i sz found(1,3) run by (simp add: Let_def)
      moreover have "same_dcis ds ?ds" using i(1) by (simp add: same_dcis_update)
      moreover have "placed_ok M sf (marked tbl) es (i # ix)" if "ok" "\<not> test"
      proof (rule placed_ok_Cons [OF ni])
        have ei: "es ! i = ?d\<lparr>firstCCE := f\<rparr>"
          using r ni that i(1) by (simp add: round_ok_def)
        then have s: "dci_span (es ! i) = span f ?L" by (simp add: dci_span_def dci_size_def)
        show "dci_legal M sf (es ! i)"
          using found(2,4,5) ei s
          by (simp add: dci_legal_def dci_starts_def dci_size_def split: if_splits)
        show "dci_span (es ! i) \<inter> marked tbl = {}" using found(6) s by simp
        show "placed_ok M sf (marked tbl \<union> dci_span (es ! i)) es ix"
          using r that found(8) s by (simp add: round_ok_def)
      qed
      ultimately show ?thesis
        using r ni by (auto simp: round_ok_def intro: same_dcis_trans)
    qed
  qed
qed

text \<open>The outcome of a round depends on the levels, identities and spaces of the messages only.\<close>

definition dci_key :: "dci_entry \<Rightarrow> u8 \<times> u16 \<times> dci_space" where
  "dci_key d = (dci_L d, dci_rnti d, search_space d)"

definition same_keys :: "nat list \<Rightarrow> dci_entry list \<Rightarrow> dci_entry list \<Rightarrow> bool" where
  "same_keys ix ds es \<longleftrightarrow>
     (\<forall>i \<in> set ix. i < length ds \<and> i < length es \<and> dci_key (es ! i) = dci_key (ds ! i))"

lemma dci_key_update: "dci_key (ds[i := (ds ! i)\<lparr>firstCCE := f\<rparr>] ! j) = dci_key (ds ! j)"
  by (cases "i < length ds") (auto simp: dci_key_def nth_list_update list_update_beyond)

lemma same_keys_update:
  "same_keys ix ds es \<Longrightarrow>
   same_keys ix (if a then ds else ds[i := (ds ! i)\<lparr>firstCCE := f\<rparr>])
                (if b then es else es[i := (es ! i)\<lparr>firstCCE := f\<rparr>])"
  by (auto simp: same_keys_def dci_key_update)

lemma alloc_loop_keys:
  "same_keys ix ds es \<Longrightarrow> alloc_loop a sf M ix n tbl ds = Inr (ok, t, ds') \<Longrightarrow>
   \<exists>es'. alloc_loop b sf M ix n tbl es = Inr (ok, t, es')"
proof (induction ix arbitrary: n tbl ds es)
  case Nil
  then show ?case by simp
next
  case (Cons i ix)
  let ?L = "2 ^ unat (dci_L (ds ! i)) :: nat"
  from Cons.prems(1) have i: "i < length ds" "i < length es"
    "dci_L (es ! i) = dci_L (ds ! i)" "dci_rnti (es ! i) = dci_rnti (ds ! i)"
    "search_space (es ! i) = search_space (ds ! i)" and ix: "same_keys ix ds es"
    by (auto simp: same_keys_def dci_key_def)
  from Cons.prems(2) i(1) have lt: "unat (dci_L (ds ! i)) < 31" by (auto split: if_splits)
  show ?case
  proof (cases "n + int ?L > M")
    case True
    with Cons.prems(2) i lt show ?thesis by (simp add: Let_def)
  next
    case False
    from Cons.prems(2) i lt False obtain f t1 where
      g: "get_nCCE_offset tbl (?L mod 256) M (search_space (ds ! i) = DCI_COMMON_SPACE)
            (dci_rnti (ds ! i)) sf = Inr (f, t1)"
      and rest: "(if f = - 1 then Inr (False, t1, ds)
        else alloc_loop a sf M ix (n + int ?L) t1
               (if a then ds else ds[i := (ds ! i)\<lparr>firstCCE := f\<rparr>])) = Inr (ok, t, ds')"
      by (auto simp: Let_def elim!: bindE_eq_InrE)
    show ?thesis
    proof (cases "f = - 1")
      case True
      with g rest i lt False show ?thesis by (simp add: Let_def)
    next
      case nf: False
      with rest have "alloc_loop a sf M ix (n + int ?L) t1
          (if a then ds else ds[i := (ds ! i)\<lparr>firstCCE := f\<rparr>]) = Inr (ok, t, ds')" by simp
      from Cons.IH [OF same_keys_update [OF ix] this] obtain es' where
        "alloc_loop b sf M ix (n + int ?L) t1
          (if b then es else es[i := (es ! i)\<lparr>firstCCE := f\<rparr>]) = Inr (ok, t, es')" by blast
      with g nf i lt False show ?thesis by (simp add: Let_def)
    qed
  qed
qed

text \<open>The control region before an allocation: messages of levels 0 to 3.\<close>

definition pdcch_ok :: "pdcch \<Rightarrow> bool" where
  "pdcch_ok p \<longleftrightarrow> Num_dci p \<le> length (dci_alloc p) \<and> (\<forall>i < Num_dci p. dci_L (dci_alloc p ! i) \<le> 3)"

lemma same_dcis_levels:
  "same_dcis ds es \<Longrightarrow> i < length ds \<Longrightarrow> dci_L (es ! i) = dci_L (ds ! i)"
  by (force simp: same_dcis_def)

lemma pdcch_ok_same:
  assumes "pdcch_ok p" and "same_dcis (dci_alloc p) es" and "Num_dci q = Num_dci p"
    and "dci_alloc q = es"
  shows "pdcch_ok q"
proof -
  have "length es = length (dci_alloc p)" using assms(2) by (simp add: same_dcis_def)
  then show ?thesis using assms same_dcis_levels [OF assms(2)] by (simp add: pdcch_ok_def)
qed

text \<open>What the rounds guarantee of their final state.\<close>

definition tried_ok :: "(nat \<Rightarrow> int) \<Rightarrow> bool \<Rightarrow> u8 \<Rightarrow> nat \<Rightarrow> pdcch \<Rightarrow> int \<times> pdcch \<Rightarrow> bool" where
  "tried_ok g test sf k p res =
     (case res of (ret, q) \<Rightarrow>
        Num_dci q = Num_dci p \<and> same_dcis (dci_alloc p) (dci_alloc q) \<and>
        (\<forall>i \<ge> Num_dci p. dci_alloc q ! i = dci_alloc p ! i) \<and>
        (test \<longrightarrow> dci_alloc q = dci_alloc p) \<and>
        num_pdcch_symbols p \<le> num_pdcch_symbols q \<and>
        num_pdcch_symbols q \<le> num_pdcch_symbols p + k \<and>
        (ret = 0 \<or> ret = - 1 \<and> num_pdcch_symbols q = num_pdcch_symbols p + k) \<and>
        (ret = 0 \<and> \<not> test \<longrightarrow>
           placed_ok (g (num_pdcch_symbols q)) sf {} (dci_alloc q) [0..<Num_dci q]))"

lemma marked_init [simp]: "marked init_CCE_table = {}"
  by (auto simp: marked_def init_CCE_table_def in_range_def)

lemma try_again_ok:
  assumes "\<And>n. g n \<le> 800" and "pdcch_ok p"
  shows "\<exists>res. try_again g test sf k p = Inr res \<and> tried_ok g test sf k p res"
  using assms(2)
proof (induction k arbitrary: p)
  case (0 p)
  let ?M = "g (num_pdcch_symbols p)" and ?ix = "[0..<Num_dci p]"
  have "length init_CCE_table = 800" by (simp add: init_CCE_table_def CCE_TABLE_SIZE_def)
  with 0 assms(1) obtain ok t es where
    "alloc_loop test sf ?M ?ix 0 init_CCE_table (dci_alloc p) = Inr (ok, t, es)"
    "round_ok test sf ?M ?ix {} (dci_alloc p) (ok, t, es)"
    using alloc_loop_ok [of ?M init_CCE_table ?ix "dci_alloc p" 0 test sf]
    by (auto simp: pdcch_ok_def)
  then show ?case by (auto simp: try_again.simps tried_ok_def round_ok_def Let_def)
next
  case (Suc k p)
  let ?M = "g (num_pdcch_symbols p)" and ?ix = "[0..<Num_dci p]"
  have "length init_CCE_table = 800" by (simp add: init_CCE_table_def CCE_TABLE_SIZE_def)
  with Suc.prems assms(1) obtain ok t es where
    run: "alloc_loop test sf ?M ?ix 0 init_CCE_table (dci_alloc p) = Inr (ok, t, es)"
    and r: "round_ok test sf ?M ?ix {} (dci_alloc p) (ok, t, es)"
    using alloc_loop_ok [of ?M init_CCE_table ?ix "dci_alloc p" 0 test sf]
    by (auto simp: pdcch_ok_def)
  show ?case
  proof (cases ok)
    case True
    with run r show ?thesis by (auto simp: try_again.simps tried_ok_def round_ok_def Let_def)
  next
    case False
    let ?p = "p\<lparr>CCE_table := t, dci_alloc := es, num_pdcch_symbols := Suc (num_pdcch_symbols p)\<rparr>"
    have same: "same_dcis (dci_alloc p) es" using r by (simp add: round_ok_def)
    from Suc.IH [of ?p] obtain ret q where
      q: "try_again g test sf k ?p = Inr (ret, q)" "tried_ok g test sf k ?p (ret, q)"
      using pdcch_ok_same [OF Suc.prems same, of ?p] by auto
    have "try_again g test sf (Suc k) p = Inr (ret, q)"
      using run False q(1) by (subst try_again.simps) (simp add: Let_def)
    moreover have "tried_ok g test sf (Suc k) p (ret, q)"
      using q(2) r same by (auto simp: tried_ok_def round_ok_def intro: same_dcis_trans)
    ultimately show ?thesis by blast
  qed
qed

lemma alloc_loop_length_keys:
  "alloc_loop a sf M ix n tbl ds = Inr (ok, t, es) \<Longrightarrow>
   length es = length ds \<and> (\<forall>j. dci_key (es ! j) = dci_key (ds ! j))"
proof (induction ix arbitrary: n tbl ds)
  case Nil
  then show ?case by simp
next
  case (Cons i ix)
  from Cons.prems consider "es = ds"
    | m tb f where "alloc_loop a sf M ix m tb
        (if a then ds else ds[i := (ds ! i)\<lparr>firstCCE := f\<rparr>]) = Inr (ok, t, es)"
    by (auto simp: Let_def split: if_splits elim!: bindE_eq_InrE)
  then show ?case
  proof cases
    case 1
    then show ?thesis by simp
  next
    case 2
    from Cons.IH [OF 2] show ?thesis by (auto simp: dci_key_update split: if_splits)
  qed
qed

lemma same_keys_round:
  assumes "same_keys ix ds es" and "alloc_loop a sf M iy n tbl ds = Inr (ok, t, ds')"
    and "alloc_loop b sf M iy n tbl es = Inr (ok, t, es')"
  shows "same_keys ix ds' es'"
  using assms(1) alloc_loop_length_keys [OF assms(2)] alloc_loop_length_keys [OF assms(3)]
  by (auto simp: same_keys_def)

lemma try_again_keys:
  assumes "Num_dci q = Num_dci p" and "num_pdcch_symbols q = num_pdcch_symbols p"
    and "same_keys [0..<Num_dci p] (dci_alloc p) (dci_alloc q)"
    and "try_again g a sf k p = Inr (ret, p')"
  shows "\<exists>q'. try_again g b sf k q = Inr (ret, q')"
  using assms
proof (induction k arbitrary: p q)
  case (0 p q)
  let ?M = "g (num_pdcch_symbols p)" and ?ix = "[0..<Num_dci p]"
  from 0(4) obtain ok t es where
    run: "alloc_loop a sf ?M ?ix 0 init_CCE_table (dci_alloc p) = Inr (ok, t, es)"
    and ret: "ret = (if ok then 0 else - 1)"
    by (auto simp: try_again.simps Let_def split: if_splits elim!: bindE_eq_InrE)
  from alloc_loop_keys [OF 0(3) run] obtain es' where
    "alloc_loop b sf ?M ?ix 0 init_CCE_table (dci_alloc q) = Inr (ok, t, es')" by blast
  with 0(1,2) ret show ?case by (simp add: try_again.simps Let_def)
next
  case (Suc k p q)
  let ?M = "g (num_pdcch_symbols p)" and ?ix = "[0..<Num_dci p]"
  from Suc.prems(4) obtain ok t es where
    run: "alloc_loop a sf ?M ?ix 0 init_CCE_table (dci_alloc p) = Inr (ok, t, es)"
    by (subst (asm) try_again.simps) (auto elim!: bindE_eq_InrE)
  from alloc_loop_keys [OF Suc.prems(3) run] obtain es' where
    run': "alloc_loop b sf ?M ?ix 0 init_CCE_table (dci_alloc q) = Inr (ok, t, es')" by blast
  show ?case
  proof (cases ok)
    case True
    with run Suc.prems(4) have "ret = 0" by (subst (asm) try_again.simps) (simp add: Let_def)
    with run' True Suc.prems(1,2) show ?thesis by (subst try_again.simps) (simp add: Let_def)
  next
    case False
    let ?p = "p\<lparr>CCE_table := t, dci_alloc := es, num_pdcch_symbols := Suc (num_pdcch_symbols p)\<rparr>"
    let ?q = "q\<lparr>CCE_table := t, dci_alloc := es', num_pdcch_symbols := Suc (num_pdcch_symbols p)\<rparr>"
    have "try_again g a sf k ?p = Inr (ret, p')"
      using run False Suc.prems(4) by (subst (asm) try_again.simps) (simp add: Let_def)
    moreover have "same_keys ?ix es es'" using Suc.prems(3) run run' by (rule same_keys_round)
    ultimately obtain q' where "try_again g b sf k ?q = Inr (ret, q')"
      using Suc.IH [of ?q ?p] Suc.prems(1) by auto
    with run' False Suc.prems(1,2) show ?thesis by (subst try_again.simps) (simp add: Let_def)
  qed
qed

text \<open>The hash in closed form: the recurrence multiplies modulo 65537, without wrap-around.\<close>

lemma Yk_iterate:
  "uint (((\<lambda>y :: u32. (y * 39827) mod 65537) ^^ Suc n) (ucast (r :: u16)))
     = uint r * 39827 ^ Suc n mod 65537"
proof (induction n)
  case 0
  have b: "uint r < 65536" using uint_bounded [of r] by simp
  then have "uint (ucast r :: u32) = uint r" by (simp add: unsigned_ucast_eq take_bit_int_eq_self)
  with b have "uint (ucast r * 39827 :: u32) = uint r * 39827"
    using uint_mult_lem [of "ucast r :: u32" 39827] by simp
  then show ?case by (simp add: uint_mod)
next
  case (Suc n)
  let ?y = "((\<lambda>y :: u32. (y * 39827) mod 65537) ^^ Suc n) (ucast r)"
  have "uint ?y < 65537" unfolding Suc.IH by simp
  then have "uint (?y * 39827) = uint ?y * 39827"
    using uint_mult_lem [of ?y 39827] by simp
  then have "uint ((?y * 39827) mod 65537) = uint ?y * 39827 mod 65537" by (simp add: uint_mod)
  also have "\<dots> = uint r * 39827 ^ Suc (Suc n) mod 65537"
  proof -
    have "uint r * 39827 ^ Suc n * 39827 = uint r * 39827 ^ Suc (Suc n)"
      by (simp only: power_Suc ac_simps)
    then show ?thesis unfolding Suc.IH mod_mult_left_eq by (simp only:)
  qed
  finally show ?case by simp
qed

lemma Yk_closed: "uint (Yk_init r sf) = uint r * 39827 ^ (unat sf + 1) mod 65537"
  unfolding Yk_init_def using Yk_iterate [of "unat sf" r] by simp

section \<open>Facts about resource block maps\<close>

text \<open>The blocks of the marked groups from one group number up to another.\<close>

definition blocks_between :: "int \<Rightarrow> int \<Rightarrow> u8 list \<Rightarrow> int \<Rightarrow> int \<Rightarrow> int" where
  "blocks_between N_RB_DL N_RBG rballoc c g =
     (\<Sum>j \<in> {j \<in> {c..<g}. rballoc ! nat j = 1}. rbg_blocks N_RB_DL N_RBG j)"

lemma rbg_blocks_nonneg [simp]: "0 \<le> rbg_blocks a b c"
  by (simp add: rbg_blocks_def)

lemma blocks_between_step:
  assumes "c < g"
  shows "blocks_between a b rb c g =
    (if rb ! nat c = 1 then rbg_blocks a b c else 0) + blocks_between a b rb (c + 1) g"
proof -
  have "{j \<in> {c..<g}. rb ! nat j = 1}
      = (if rb ! nat c = 1 then {c} else {}) \<union> {j \<in> {c + 1..<g}. rb ! nat j = 1}"
    using assms by (auto simp: order_le_less)
  moreover have "finite {j \<in> {c + 1..<g}. rb ! nat j = 1}"
    by (rule finite_subset [of _ "{c + 1..<g}"]) auto
  moreover have "c \<notin> {j \<in> {c + 1..<g}. rb ! nat j = 1}" by simp
  ultimately show ?thesis
    unfolding blocks_between_def by (cases "rb ! nat c = 1") (simp_all del: mem_Collect_eq)
qed

lemma blocks_between_nonneg: "0 \<le> blocks_between a b rb c g"
  by (simp add: blocks_between_def sum_nonneg)

lemma blocks_between_self [simp]: "blocks_between a b rb c c = 0"
  by (simp add: blocks_between_def)

definition rbg_taken :: "int \<Rightarrow> int \<Rightarrow> u8 list \<Rightarrow> int \<Rightarrow> int \<Rightarrow> int \<Rightarrow> bool" where
  "rbg_taken a N rb nb c g \<longleftrightarrow> c \<le> g \<and> g < N \<and> rb ! nat g = 1 \<and> blocks_between a N rb c g < nb"

lemma rbg_taken_step:
  assumes "c < N"
  shows "rbg_taken a N rb nb c g \<longleftrightarrow>
    (g = c \<and> rb ! nat c = 1 \<and> 0 < nb) \<or>
    rbg_taken a N rb (nb - (if rb ! nat c = 1 then rbg_blocks a N c else 0)) (c + 1) g"
proof (cases "c < g")
  case True
  with blocks_between_step [OF this, of a N rb] show ?thesis by (auto simp: rbg_taken_def)
next
  case False
  then show ?thesis using assms by (auto simp: rbg_taken_def)
qed

lemma rbg_taken_none: "nb \<le> 0 \<Longrightarrow> \<not> rbg_taken a N rb nb c g"
  using blocks_between_nonneg [of a N rb c g] by (auto simp: rbg_taken_def)

lemma allocate_prbs_loop_ok:
  assumes "0 \<le> c" and "N \<le> 32" and "N \<le> int (length rb)"
  shows "\<exists>d. allocate_prbs_loop a N rb [c..N - 1] nb dci = Inr d \<and>
    (\<forall>k. bit d k \<longleftrightarrow> bit dci k \<or> (\<exists>g. rbg_taken a N rb nb c g \<and> k = nat (N - 1 - g)))"
  using assms
proof (induction "nat (N - c)" arbitrary: c nb dci)
  case 0
  then have "\<not> rbg_taken a N rb nb c g" for g by (auto simp: rbg_taken_def)
  with 0 show ?case by simp
next
  case (Suc m)
  then have c: "c < N" by linarith
  then have u: "[c..N - 1] = c # [c + 1..N - 1]" by (simp add: upto_rec1)
  show ?case
  proof (cases "0 < nb")
    case False
    with u show ?thesis by (simp add: rbg_taken_none)
  next
    case True
    have r: "in_range rb c" using c Suc.prems by (simp add: in_range_def)
    let ?b = "if rb ! nat c = 1 then rbg_blocks a N c else 0"
    let ?d = "if rb ! nat c = 1 then or dci (push_bit (nat (N - 1 - c)) 1) else dci"
    have bit_d: "bit ?d k \<longleftrightarrow> bit dci k \<or> (rb ! nat c = 1 \<and> k = nat (N - 1 - c))" for k
      using c Suc.prems(1,2)
      by (auto simp: bit_or_iff bit_exp_iff)
    have "m = nat (N - (c + 1))" using Suc(2) by linarith
    from Suc.hyps(1) [OF this, of "nb - ?b" ?d] Suc.prems obtain d where
      d: "allocate_prbs_loop a N rb [c + 1..N - 1] (nb - ?b) ?d = Inr d"
      "\<And>k. bit d k \<longleftrightarrow> bit ?d k \<or> (\<exists>g. rbg_taken a N rb (nb - ?b) (c + 1) g \<and> k = nat (N - 1 - g))"
      by auto
    have "allocate_prbs_loop a N rb [c..N - 1] nb dci = Inr d"
      using d(1) True r unfolding u by (simp add: aget_def split: if_splits)
    moreover have "bit d k \<longleftrightarrow> bit dci k \<or> (\<exists>g. rbg_taken a N rb nb c g \<and> k = nat (N - 1 - g))" for k
      unfolding d(2) bit_d rbg_taken_step [OF c, of a rb nb] using True by blast
    ultimately show ?thesis by blast
  qed
qed

section \<open>Feasibility and addition\<close>

lemma try_again_E:
  assumes "try_again g test sf k p = Inr (ret, q)"
  obtains ok t es where
    "alloc_loop test sf (g (num_pdcch_symbols p)) [0..<Num_dci p] 0 init_CCE_table (dci_alloc p)
       = Inr (ok, t, es)"
    and "(if ok then Inr (0, p\<lparr>CCE_table := t, dci_alloc := es\<rparr>)
          else case k of 0 \<Rightarrow> Inr (- 1, p\<lparr>CCE_table := t, dci_alloc := es\<rparr>)
               | Suc n \<Rightarrow> try_again g test sf n (p\<lparr>CCE_table := t, dci_alloc := es,
                            num_pdcch_symbols := Suc (num_pdcch_symbols p)\<rparr>)) = Inr (ret, q)"
  using assms unfolding try_again.simps [of g test sf k p]
  by (auto simp: Let_def elim!: bindE_eq_InrE)

lemma try_again_ret:
  "try_again g test sf k p = Inr (ret, q) \<Longrightarrow> (ret = 0 \<or> ret = - 1) \<and> Num_dci q = Num_dci p"
proof (induction k arbitrary: p)
  case 0
  from 0 show ?case by (rule try_again_E) (auto split: if_splits)
next
  case (Suc k)
  from Suc.prems show ?case by (rule try_again_E) (auto split: if_splits dest: Suc.IH)
qed

lemma alloc_loop_test: "alloc_loop True sf M ix n tbl ds = Inr (ok, t, es) \<Longrightarrow> es = ds"
proof (induction ix arbitrary: n tbl)
  case Nil
  then show ?case by simp
next
  case (Cons i ix)
  from Cons.prems show ?case
    by (auto simp: Let_def split: if_splits elim!: bindE_eq_InrE dest: Cons.IH)
qed

lemma try_again_test: "try_again g True sf k p = Inr (ret, q) \<Longrightarrow> dci_alloc q = dci_alloc p"
proof (induction k arbitrary: p)
  case 0
  from 0 show ?case by (rule try_again_E) (auto split: if_splits dest: alloc_loop_test)
next
  case (Suc k)
  from Suc.prems show ?case
    by (rule try_again_E) (auto split: if_splits dest!: alloc_loop_test Suc.IH)
qed

text \<open>What a feasible answer says.\<close>

lemma feasible_test:
  assumes "CCE_allocation_infeasible g common sf agg r p = Inr (False, p1)"
  obtains px q where "try_again g True sf 2 px = Inr (0, q)"
    and "num_pdcch_symbols px = 1" and "Num_dci px = Suc (Num_dci p)"
    and "Num_dci p1 = Num_dci p" and "Num_dci p < length (dci_alloc p)"
    and "dci_alloc p1 = dci_alloc px"
    and "dci_alloc px = (dci_alloc p)[Num_dci p := (dci_alloc p ! Num_dci p)\<lparr>dci_rnti := r,
           dci_L := agg, search_space := (if common then DCI_COMMON_SPACE else DCI_UE_SPACE)\<rparr>]"
proof -
  let ?d = "(dci_alloc p ! Num_dci p)\<lparr>dci_rnti := r, dci_L := agg,
    search_space := (if common then DCI_COMMON_SPACE else DCI_UE_SPACE)\<rparr>"
  let ?px = "p\<lparr>dci_alloc := (dci_alloc p)[Num_dci p := ?d], Num_dci := Suc (Num_dci p),
    num_pdcch_symbols := 1\<rparr>"
  from assms have n: "Num_dci p < length (dci_alloc p)"
    by (auto simp: CCE_allocation_infeasible_def split: if_splits)
  from assms obtain ret q where q: "try_again g True sf 2 ?px = Inr (ret, q)" "ret \<noteq> - 1"
    and p1: "p1 = q\<lparr>Num_dci := Num_dci q - 1\<rparr>"
    by (auto simp: CCE_allocation_infeasible_def allocate_CCEs_def Let_def split: if_splits
        elim!: bindE_eq_InrE)
  from try_again_ret [OF q(1)] q(2) have "ret = 0" and "Num_dci q = Suc (Num_dci p)" by auto
  with that [OF q(1) [unfolded \<open>ret = 0\<close>]] n p1 try_again_test [OF q(1)] show thesis by simp
qed

lemma add_dci_effect:
  assumes "add_dci sp pdu r n agg bits fmt ra p = Inr p2"
  shows "Num_dci p2 = Suc (Num_dci p)" and "Num_dci p < length (dci_alloc p)"
    and "\<exists>d. dci_alloc p2 = (dci_alloc p)[Num_dci p := d] \<and> dci_key d = (agg, r, sp)"
  using assms by (auto simp: add_dci_def Let_def dci_key_def split: if_splits)

section \<open>Concrete control regions\<close>

definition zero_dci :: dci_entry where
  "zero_dci = \<lparr>dci_length = 0, dci_L = 0, firstCCE = 0, ra_flag = 0, dci_rnti = 0,
     dci_fmt = format0, search_space = DCI_COMMON_SPACE, dci_bytes = replicate 8 0\<rparr>"

definition empty_pdcch :: pdcch where
  "empty_pdcch = \<lparr>Num_dci = 0, num_pdcch_symbols = 0, dci_alloc = replicate NUM_DCI_MAX zero_dci,
     CCE_table = init_CCE_table\<rparr>"

text \<open>One common message of four elements and one message of two elements for the UE 70.\<close>

definition example_pdcch :: pdcch where
  "example_pdcch = empty_pdcch\<lparr>Num_dci := 2, dci_alloc := (dci_alloc empty_pdcch)
     [0 := zero_dci\<lparr>dci_L := 2, dci_rnti := 65535\<rparr>,
      1 := zero_dci\<lparr>dci_L := 1, dci_rnti := 70, search_space := DCI_UE_SPACE\<rparr>]\<rparr>"

lemma pdcch_ok_example: "pdcch_ok example_pdcch"
  by (auto simp: pdcch_ok_def example_pdcch_def empty_pdcch_def NUM_DCI_MAX_def less_2_cases_iff)

section \<open>Properties\<close>

text \<open>C6. The allocation of the control channel elements never aborts, reads outside its table or
  divides by zero. It returns 0 with one to three control symbols and every message placed within
  the elements of that number of symbols, aligned to its size and disjoint from every other message;
  or it returns -1 after three symbols. It moves messages only, and adds or drops none.\<close>

theorem allocate_CCEs_correct:
  assumes "\<And>n. get_nCCE_max n \<le> 800" and "pdcch_ok p"
  shows "\<exists>ret q. allocate_CCEs get_nCCE_max sf False p = Inr (ret, q)
    \<and> Num_dci q = Num_dci p \<and> same_dcis (dci_alloc p) (dci_alloc q)
    \<and> num_pdcch_symbols q \<in> {1, 2, 3}
    \<and> (ret = - 1 \<and> num_pdcch_symbols q = 3
       \<or> ret = 0
         \<and> (\<forall>i < Num_dci q. dci_span (dci_alloc q ! i) \<subseteq> {0..<get_nCCE_max (num_pdcch_symbols q)}
              \<and> int (dci_size (dci_alloc q ! i)) dvd firstCCE (dci_alloc q ! i))
         \<and> (\<forall>i < Num_dci q. \<forall>j < Num_dci q. i \<noteq> j \<longrightarrow>
              dci_span (dci_alloc q ! i) \<inter> dci_span (dci_alloc q ! j) = {}))"
proof -
  let ?p = "p\<lparr>num_pdcch_symbols := 1\<rparr>"
  have "pdcch_ok ?p" using assms(2) by (simp add: pdcch_ok_def)
  from try_again_ok [where g = get_nCCE_max and test = False and sf = sf and k = 2, OF assms(1) this] obtain ret q where
    "try_again get_nCCE_max False sf 2 ?p = Inr (ret, q)"
    and q: "tried_ok get_nCCE_max False sf 2 ?p (ret, q)" by auto
  moreover from q have "Num_dci q = Num_dci p" "same_dcis (dci_alloc p) (dci_alloc q)"
    and "num_pdcch_symbols q \<in> {1, 2, 3}"
    and "ret = 0 \<or> ret = - 1 \<and> num_pdcch_symbols q = 3"
    and "ret = 0 \<Longrightarrow> placed_ok (get_nCCE_max (num_pdcch_symbols q)) sf {} (dci_alloc q) [0..<Num_dci q]"
    unfolding tried_ok_def by auto
  ultimately show ?thesis
    unfolding allocate_CCEs_def placed_ok_def dci_legal_def set_upt by fastforce
qed

theorem allocate_CCEs_correct_witness:
  "\<exists>ret q. allocate_CCEs (\<lambda>_. 20) 3 False example_pdcch = Inr (ret, q) \<and> Num_dci q = 2"
proof -
  have "Num_dci example_pdcch = 2" by (simp add: example_pdcch_def)
  with allocate_CCEs_correct [of "\<lambda>_. 20" example_pdcch 3] pdcch_ok_example
  show ?thesis by auto
qed

text \<open>C27. After a successful allocation a message of the UE-specific space starts at one of the first
  six (levels 0 and 1) or two (levels 2 and 3) candidates that follow the hash
  \<open>rnti * 39827^(subframe+1) mod 65537\<close> modulo the number of groups of its size; a message of the
  common space lies within the first sixteen elements.\<close>

theorem allocate_CCEs_search_space:
  assumes "\<And>n. get_nCCE_max n \<le> 800" and "pdcch_ok p"
    and "allocate_CCEs get_nCCE_max sf False p = Inr (0, q)" and "i < Num_dci q"
  defines "d \<equiv> dci_alloc q ! i" and "groups \<equiv> get_nCCE_max (num_pdcch_symbols q) div
      int (dci_size (dci_alloc q ! i))"
  shows "(search_space d = DCI_UE_SPACE \<longrightarrow>
      (\<exists>m < (if dci_size d \<le> 2 then 6 else 2). firstCCE d =
        ((uint (dci_rnti d) * 39827 ^ (unat sf + 1) mod 65537 mod groups + m) mod groups)
          * int (dci_size d)))
    \<and> (search_space d = DCI_COMMON_SPACE \<longrightarrow> 0 \<le> firstCCE d \<and> firstCCE d + int (dci_size d) \<le> 16)"
proof -
  let ?p = "p\<lparr>num_pdcch_symbols := 1\<rparr>" and ?M = "get_nCCE_max (num_pdcch_symbols q)"
  have "pdcch_ok ?p" using assms(2) by (simp add: pdcch_ok_def)
  from try_again_ok [where g = get_nCCE_max and test = False and sf = sf and k = 2,
      OF assms(1) this] assms(3)
  have q: "tried_ok get_nCCE_max False sf 2 ?p (0, q)" by (auto simp: allocate_CCEs_def)
  then have legal: "dci_legal ?M sf d"
    using assms(4) by (simp add: tried_ok_def placed_ok_def d_def)
  have "pdcch_ok q"
    by (rule pdcch_ok_same [OF assms(2), of "dci_alloc q"]) (use q in \<open>auto simp: tried_ok_def\<close>)
  then have "dci_L d \<le> 3" using assms(4) by (simp add: pdcch_ok_def d_def)
  then have sz: "dci_size d \<in> {1, 2, 4, 8}" unfolding dci_size_def by (rule small_size(2))
  show ?thesis
  proof (intro conjI impI)
    assume "search_space d = DCI_UE_SPACE"
    with legal have "firstCCE d \<in> set (ue_starts ?M (dci_size d) (dci_rnti d) sf)"
      by (simp add: dci_legal_def dci_starts_def)
    then obtain m where "m < (if dci_size d = 1 \<or> dci_size d = 2 then 6 else 2)" and
      "firstCCE d = ((uint (Yk_init (dci_rnti d) sf) mod groups + int m) mod groups)
        * int (dci_size d)"
      unfolding ue_starts_def groups_def d_def by auto
    moreover from this(1) have "int m < (if dci_size d \<le> 2 then 6 else 2)"
      using sz by (auto split: if_splits)
    ultimately show "\<exists>m < (if dci_size d \<le> 2 then 6 else 2). firstCCE d =
        ((uint (dci_rnti d) * 39827 ^ (unat sf + 1) mod 65537 mod groups + m) mod groups)
          * int (dci_size d)"
      unfolding Yk_closed by blast
  next
    assume "search_space d = DCI_COMMON_SPACE"
    with legal have "firstCCE d \<in> set (common_starts ?M (dci_size d))"
      by (simp add: dci_legal_def dci_starts_def)
    then obtain m where f: "firstCCE d = int m * int (dci_size d)"
      and m: "m < (if dci_size d = 4 then 4 else 2)"
      by (rule common_starts_mem)
    show "0 \<le> firstCCE d" using f by simp
    show "firstCCE d + int (dci_size d) \<le> 16" using f m sz by (auto split: if_splits)
  qed
qed

theorem allocate_CCEs_search_space_witness:
  "\<exists>q. allocate_CCEs (\<lambda>_. 20) 3 False example_pdcch = Inr (0, q)
    \<and> 0 \<le> firstCCE (dci_alloc q ! 0) \<and> firstCCE (dci_alloc q ! 0) + 4 \<le> 16"
proof -
  have "case allocate_CCEs (\<lambda>_. 20) 3 False example_pdcch of Inl _ \<Rightarrow> False
      | Inr (ret, q) \<Rightarrow> ret = 0 \<and> Num_dci q = 2 \<and> dci_L (dci_alloc q ! 0) = 2 \<and>
          search_space (dci_alloc q ! 0) = DCI_COMMON_SPACE"
    by code_simp
  then obtain q where q: "allocate_CCEs (\<lambda>_. 20) 3 False example_pdcch = Inr (0, q)"
    "Num_dci q = 2" "dci_L (dci_alloc q ! 0) = 2"
    "search_space (dci_alloc q ! 0) = DCI_COMMON_SPACE"
    by (auto split: sum.splits)
  then have "dci_size (dci_alloc q ! 0) = 4" by (simp add: dci_size_def)
  with allocate_CCEs_search_space [OF _ pdcch_ok_example q(1), of 0] q show ?thesis by auto
qed

text \<open>C26. When the test of a message answers that it is feasible, adding the message and allocating
  succeeds; the test leaves the messages of the subframe as they were.\<close>

theorem CCE_feasible_then_allocated:
  assumes "CCE_allocation_infeasible get_nCCE_max common sf agg r p = Inr (False, p1)"
    and "(if common then add_common_dci else add_ue_spec_dci) pdu r n agg bits fmt ra p1 = Inr p2"
  shows "(\<exists>q. allocate_CCEs get_nCCE_max sf False p2 = Inr (0, q))
    \<and> Num_dci p1 = Num_dci p \<and> take (Num_dci p) (dci_alloc p1) = take (Num_dci p) (dci_alloc p)"
proof -
  from assms(1) obtain px q where px: "try_again get_nCCE_max True sf 2 px = Inr (0, q)"
    "num_pdcch_symbols px = 1" "Num_dci px = Suc (Num_dci p)"
    "Num_dci p1 = Num_dci p" "Num_dci p < length (dci_alloc p)" "dci_alloc p1 = dci_alloc px"
    "dci_alloc px = (dci_alloc p)[Num_dci p := (dci_alloc p ! Num_dci p)\<lparr>dci_rnti := r,
       dci_L := agg, search_space := (if common then DCI_COMMON_SPACE else DCI_UE_SPACE)\<rparr>]"
    by (rule feasible_test)
  from assms(2) have "add_dci (if common then DCI_COMMON_SPACE else DCI_UE_SPACE) pdu r n agg bits
      fmt ra p1 = Inr p2"
    by (simp add: add_common_dci_def add_ue_spec_dci_def split: if_splits)
  note e = add_dci_effect [OF this]
  from e(3) obtain d where d: "dci_alloc p2 = (dci_alloc p1)[Num_dci p1 := d]"
    "dci_key d = (agg, r, if common then DCI_COMMON_SPACE else DCI_UE_SPACE)" by blast
  let ?q = "p2\<lparr>num_pdcch_symbols := 1\<rparr>"
  have "same_keys [0..<Num_dci px] (dci_alloc px) (dci_alloc ?q)"
    using px d by (auto simp: same_keys_def nth_list_update dci_key_def)
  with px(1,2) e(1) px(3,4) have "\<exists>q'. try_again get_nCCE_max False sf 2 ?q = Inr (0, q')"
    by (intro try_again_keys [where p = px and p' = q]) auto
  then show ?thesis using px by (simp add: allocate_CCEs_def)
qed

theorem CCE_feasible_then_allocated_witness:
  "\<exists>p1 p2 q. CCE_allocation_infeasible (\<lambda>_. 20) False 3 0 72 example_pdcch = Inr (False, p1)
    \<and> add_ue_spec_dci [1, 2] 72 2 0 13 format1 0 p1 = Inr p2
    \<and> allocate_CCEs (\<lambda>_. 20) 3 False p2 = Inr (0, q)"
proof -
  have "bindE (CCE_allocation_infeasible (\<lambda>_. 20) False 3 0 72 example_pdcch) (\<lambda>(b, p1).
      if b then Inl Abort
      else bindE (add_ue_spec_dci [1, 2] 72 2 0 13 format1 0 p1) (\<lambda>_. Inr ())) = Inr ()"
    by code_simp
  then obtain p1 p2 where
    p: "CCE_allocation_infeasible (\<lambda>_. 20) False 3 0 72 example_pdcch = Inr (False, p1)"
    "add_ue_spec_dci [1, 2] 72 2 0 13 format1 0 p1 = Inr p2"
    by (auto elim!: bindE_eq_InrE split: if_splits)
  from CCE_feasible_then_allocated [OF p(1), of "[1, 2]" 2 13 format1 0 p2] p show ?thesis by auto
qed

text \<open>The map of resource block groups that goes into a message has exactly the bits of the groups
  marked for the UE, the first group in the highest bit, as long as the blocks of the marked groups
  before it are fewer than the blocks to allocate.\<close>

theorem allocate_prbs_sub_bits:
  assumes "0 \<le> N_RBG" and "N_RBG \<le> 32" and "N_RBG \<le> int (length rballoc)"
  shows "\<exists>dci. allocate_prbs_sub N_RB_DL N_RBG nb rballoc = Inr dci
    \<and> (\<forall>k. bit dci k \<longleftrightarrow> (\<exists>g. 0 \<le> g \<and> g < N_RBG \<and> k = nat (N_RBG - 1 - g) \<and> rballoc ! nat g = 1
          \<and> (\<Sum>j \<in> {j \<in> {0..<g}. rballoc ! nat j = 1}. rbg_blocks N_RB_DL N_RBG j) < nb))"
proof -
  from allocate_prbs_loop_ok [of 0 N_RBG rballoc N_RB_DL nb 0] assms obtain dci where
    "allocate_prbs_loop N_RB_DL N_RBG rballoc [0..N_RBG - 1] nb 0 = Inr dci" and
    "\<And>k. bit dci k \<longleftrightarrow> (\<exists>g. rbg_taken N_RB_DL N_RBG rballoc nb 0 g \<and> k = nat (N_RBG - 1 - g))"
    by auto
  then show ?thesis
    unfolding allocate_prbs_sub_def rbg_taken_def blocks_between_def by blast
qed

theorem allocate_prbs_sub_bits_witness:
  "\<exists>dci. allocate_prbs_sub 25 13 3 ([0, 1, 1, 1] @ replicate 9 0) = Inr dci \<and> bit dci 11"
proof -
  let ?rb = "[0, 1, 1, 1] @ replicate 9 0 :: u8 list"
  from allocate_prbs_sub_bits [of 13 ?rb 25 3] obtain dci where
    d: "allocate_prbs_sub 25 13 3 ?rb = Inr dci"
    and b: "\<forall>k. bit dci k \<longleftrightarrow> (\<exists>g. 0 \<le> g \<and> g < 13 \<and> k = nat (13 - 1 - g) \<and> ?rb ! nat g = 1
      \<and> (\<Sum>j \<in> {j \<in> {0..<g}. ?rb ! nat j = 1}. rbg_blocks 25 13 j) < 3)" by auto
  have "{j \<in> {0..<1 :: int}. ?rb ! nat j = 1} = {}" by auto
  then have s: "(\<Sum>j \<in> {j \<in> {0..<1 :: int}. ?rb ! nat j = 1}. rbg_blocks 25 13 j) < 3"
    by (simp only: sum.empty)
  have "bit dci 11"
    unfolding b [rule_format] by (intro exI [of _ 1] conjI s) simp_all
  with d show ?thesis by blast
qed

end
