(* ===== verification/Sorting_Lists.thy ===== *)
theory Sorting_Lists
  imports Prelude
begin

text \<open>
  The sorting that the schedulers share: \<open>qsort_r\<close> on an array of UE numbers with a three-way
  comparison. The library function is modelled by a stable insertion sort, the order glibc's merge
  sort produces; what the schedulers rely on is stated as a contract, and the comparisons of both
  schedulers are lexicographic comparisons of key lists, which meet it.
\<close>

section \<open>The library function\<close>

fun insort_r :: "('a \<Rightarrow> 'a \<Rightarrow> int) \<Rightarrow> 'a \<Rightarrow> 'a list \<Rightarrow> 'a list" where
  "insort_r cmp x [] = [x]"
| "insort_r cmp x (y # ys) = (if cmp x y \<le> 0 then x # y # ys else y # insort_r cmp x ys)"

definition qsort_r :: "('a \<Rightarrow> 'a \<Rightarrow> int) \<Rightarrow> 'a list \<Rightarrow> 'a list" where
  "qsort_r cmp xs = foldr (insort_r cmp) xs []"

lemma mset_insort_r [simp]: "mset (insort_r cmp x xs) = add_mset x (mset xs)"
  by (induction xs) auto

lemma mset_qsort_r [simp]: "mset (qsort_r cmp xs) = mset xs"
  by (induction xs) (auto simp: qsort_r_def)

lemma set_qsort_r [simp]: "set (qsort_r cmp xs) = set xs"
  by (metis mset_qsort_r set_mset_mset)

lemma length_qsort_r [simp]: "length (qsort_r cmp xs) = length xs"
  by (metis mset_qsort_r size_mset)

lemma distinct_qsort_r [simp]: "distinct (qsort_r cmp xs) = distinct xs"
  by (metis mset_qsort_r mset_eq_imp_distinct_iff)

section \<open>The contract of a comparison\<close>

locale comparison =
  fixes cmp :: "'a \<Rightarrow> 'a \<Rightarrow> int"
  assumes total: "cmp a b \<le> 0 \<or> cmp b a \<le> 0"
    and trans: "cmp a b \<le> 0 \<Longrightarrow> cmp b c \<le> 0 \<Longrightarrow> cmp a c \<le> 0"
begin

abbreviation before :: "'a \<Rightarrow> 'a \<Rightarrow> bool" where
  "before a b \<equiv> cmp a b \<le> 0"

lemma set_insort: "set (insort_r cmp x xs) = insert x (set xs)"
  by (metis mset_insort_r set_mset_add_mset_insert set_mset_mset)

lemma sorted_insort: "sorted_wrt before xs \<Longrightarrow> sorted_wrt before (insort_r cmp x xs)"
proof (induction xs)
  case Nil
  then show ?case by simp
next
  case (Cons y ys)
  show ?case
  proof (cases "before x y")
    case True
    with Cons.prems trans show ?thesis by auto
  next
    case False
    with total have "before y x" by blast
    with False Cons show ?thesis by (auto simp: set_insort)
  qed
qed

lemma sorted_qsort: "sorted_wrt before (qsort_r cmp xs)"
  by (induction xs) (auto simp: qsort_r_def intro: sorted_insort)

lemma first_is_best:
  assumes "x \<in> set xs"
  shows "before (hd (qsort_r cmp xs)) x"
proof -
  have "x \<in> set (qsort_r cmp xs)" using assms by simp
  moreover have "before x x" using total by blast
  ultimately show ?thesis
    using sorted_qsort [of xs] by (cases "qsort_r cmp xs") auto
qed

end

section \<open>Lexicographic comparison, larger keys first\<close>

fun lex_desc :: "int list \<Rightarrow> int list \<Rightarrow> int" where
  "lex_desc (x # xs) (y # ys) = (if x > y then - 1 else if x < y then 1 else lex_desc xs ys)"
| "lex_desc xs ys = 0"

lemma lex_desc_total:
  "length xs = length ys \<Longrightarrow> lex_desc xs ys \<le> 0 \<or> lex_desc ys xs \<le> 0"
  by (induction xs ys rule: lex_desc.induct) auto

lemma lex_desc_trans:
  "length xs = length ys \<Longrightarrow> length ys = length zs \<Longrightarrow>
   lex_desc xs ys \<le> 0 \<Longrightarrow> lex_desc ys zs \<le> 0 \<Longrightarrow> lex_desc xs zs \<le> 0"
proof (induction xs ys zs rule: list_induct3)
  case Nil
  show ?case by simp
next
  case (Cons x xs y ys z zs)
  from Cons.prems(1) consider "x > y" | "x = y" "lex_desc xs ys \<le> 0" by (auto split: if_splits)
  moreover from Cons.prems(2) consider "y > z" | "y = z" "lex_desc ys zs \<le> 0"
    by (auto split: if_splits)
  ultimately show ?case
    using Cons.IH by (smt (verit) lex_desc.simps(1))
qed

lemma lex_desc_range: "lex_desc xs ys \<in> {- 1, 0, 1}"
  by (induction xs ys rule: lex_desc.induct) auto

lemma comparison_lex:
  assumes "\<And>a b. cmp a b = lex_desc (keys a) (keys b)" and "\<And>a b. length (keys a) = length (keys b)"
  shows "comparison cmp"
proof
  fix a b c
  show "cmp a b \<le> 0 \<or> cmp b a \<le> 0"
    unfolding assms(1) by (rule lex_desc_total [OF assms(2)])
  show "cmp a b \<le> 0 \<Longrightarrow> cmp b c \<le> 0 \<Longrightarrow> cmp a c \<le> 0"
    unfolding assms(1) by (rule lex_desc_trans [OF assms(2) assms(2)])
qed

end
