(* ===== verification/DlPre.thy ===== *)
theory DlPre
  imports Slices UeList Cce Sorting_Lists
begin

text \<open>
  The downlink pre-processor of \<open>LAYER2/MAC/pre_processor.c\<close>, which decides, in every subframe, the
  resource block groups each UE may use: the reset of the per-UE state, the download of the buffer
  status, the estimate of the blocks a UE needs, the order of the UEs, and the slicing algorithm of
  this project, which gives each UE a window of groups after the windows of the UEs before it.

  The functions the MAC calls through \<open>mac_xface\<close> and the RLC and RRC are the fields of a record of
  functions. The four local arrays of \<open>dlsch_scheduler_pre_processor\<close> are a record; C leaves them
  uninitialised, so their initial contents are an argument.
\<close>

section \<open>The interface to the other layers\<close>

record rlc_status =
  bytes_in_buffer :: u32
  pdus_in_buffer :: u32
  head_sdu_creation_time :: u32
  head_sdu_remaining_size_to_send :: u32
  head_sdu_is_segmented :: u8

text \<open>
  \<open>N_RB_DL\<close> and \<open>threequarter_fs\<close> are of the frame parameters of a carrier.
  \<open>get_ue_active_harq_pid\<close> is given the process number and the round it may overwrite.
\<close>

record phy_if =
  N_RB_DL :: "nat \<Rightarrow> u8"
  threequarter_fs :: "nat \<Rightarrow> bool"
  get_TBS_DL :: "u8 \<Rightarrow> u16 \<Rightarrow> u32"
  get_transmission_mode :: "nat \<Rightarrow> u16 \<Rightarrow> u8"
  get_ue_active_harq_pid :: "nat \<Rightarrow> u16 \<Rightarrow> u8 \<times> u8 \<Rightarrow> u8 \<times> u8"
  mac_rlc_status_ind :: "u16 \<Rightarrow> nat \<Rightarrow> rlc_status"
  mac_eNB_get_rrc_status :: "u16 \<Rightarrow> nat"

text \<open>The local arrays.\<close>

record dl_tables =
  nb_rbs_required :: "nat \<Rightarrow> nat \<Rightarrow> u16"
  nb_rbs_remaining :: "nat \<Rightarrow> nat \<Rightarrow> u16"
  rballoc_sub :: "nat \<Rightarrow> u8 list"
  MIMO_mode :: "nat \<Rightarrow> u8 list"

definition upd_stats :: "nat \<Rightarrow> u16 \<Rightarrow> (ue_stats \<Rightarrow> ue_stats) \<Rightarrow> mac \<Rightarrow> mac" where
  "upd_stats cc r f s =
     s\<lparr>phy_stats := upd2 (phy_stats s) cc r (map_option f (phy_stats s cc r))\<rparr>"

section \<open>Which UEs take part\<close>

definition active_ccs :: "mac \<Rightarrow> nat \<Rightarrow> nat list" where
  "active_ccs s ue = map (\<lambda>n. ordered_CCids s n ue) [0..<UE_num_active_CC s ue]"

definition phy_stats_exist :: "mac \<Rightarrow> u16 \<Rightarrow> bool" where
  "phy_stats_exist s r =
     (if find_UE_id s r = - 1 then False
      else let ue = nat (find_UE_id s r) in
        if numactiveCCs s ue = 0 then False
        else list_all (\<lambda>cc. phy_stats s cc r \<noteq> None) (active_ccs s ue))"

text \<open>The three tests that every loop over the UEs makes before it uses one.\<close>

definition skip_ue :: "mac \<Rightarrow> nat \<Rightarrow> bool" where
  "skip_ue s ue =
     (if UE_RNTI s ue = NOT_A_RNTI then True
      else if ul_out_of_sync (UE_sched_ctrl s ue) = 1 then True
      else \<not> phy_stats_exist s (UE_RNTI s ue))"

text \<open>The UEs of the downlink list, in order; a cycle in the links does not end.\<close>

definition dl_list :: "mac \<Rightarrow> nat list res" where
  "dl_list s =
     (case walk NUMBER_OF_UE_MAX (next_dl s) (head s) of Some xs \<Rightarrow> Inr xs | None \<Rightarrow> Inl Diverges)"

section \<open>Reset of a UE\<close>

definition ta_divisor :: "u8 \<Rightarrow> bool \<Rightarrow> int option" where
  "ta_divisor n tq =
     (if n = 6 then Some 1 else if n = 15 then Some 2 else if n = 25 then Some 4
      else if n = 50 then Some 8 else if n = 75 then Some 12
      else if n = 100 then Some (if \<not> tq then 16 else 12) else None)"

text \<open>The timing advance: a measurement is taken over every 20 subframes, and cleared then.\<close>

definition reset_ta :: "phy_if \<Rightarrow> nat \<Rightarrow> nat \<Rightarrow> u16 \<Rightarrow> ue_stats \<Rightarrow> mac \<Rightarrow> mac" where
  "reset_ta ph cc ue r st s =
     (if ta_timer (UE_sched_ctrl s ue) = 0 then
        upd_stats cc r (\<lambda>x. x\<lparr>timing_advance_update := 0\<rparr>)
          (upd_sched ue (\<lambda>c. c\<lparr>ta_timer := 20,
              ta_update := (case ta_divisor (N_RB_DL ph cc) (threequarter_fs ph cc) of
                 None \<Rightarrow> ta_update c
               | Some d \<Rightarrow> sint (word_of_int (c_div (timing_advance_update st) d) :: 16 word))\<rparr>) s)
      else upd_sched ue (\<lambda>c. c\<lparr>ta_timer := ta_timer c - 1, ta_update := 0\<rparr>) s)"

definition rbg_sizes :: "u8 \<Rightarrow> (nat \<times> nat) res" where
  "rbg_sizes n =
     (if n = 6 then Inr (1, 1) else if n = 15 then Inr (2, 1) else if n = 25 then Inr (2, 1)
      else if n = 50 then Inr (3, 2) else if n = 75 then Inr (4, 3)
      else if n = 100 then Inr (4, 4) else Inl Abort)"

definition sf0_limits :: "int \<Rightarrow> (int \<times> int) res" where
  "sf0_limits n_rbg =
     (if n_rbg = 6 then Inr (0, 5) else if n_rbg = 8 then Inr (2, 5)
      else if n_rbg = 13 then Inr (4, 7) else if n_rbg = 17 then Inr (7, 9)
      else if n_rbg = 25 then Inr (11, 13) else Inl Abort)"

text \<open>Is one of the blocks of a group given to a common message.\<close>

fun vrb_taken :: "u8 list \<Rightarrow> int \<Rightarrow> nat \<Rightarrow> bool res" where
  "vrb_taken vm c 0 = Inr False"
| "vrb_taken vm c (Suc n) =
     bindE (aget vm c) (\<lambda>v. if v \<noteq> 0 then Inr True else vrb_taken vm (c + 1) n)"

definition upd_row :: "(nat \<Rightarrow> 'a list) \<Rightarrow> nat \<Rightarrow> int \<Rightarrow> 'a \<Rightarrow> (nat \<Rightarrow> 'a list) res" where
  "upd_row f cc i v = bindE (aset (f cc) i v) (\<lambda>row. Inr (f(cc := row)))"

text \<open>One pass of the last loop of the reset: the state of group \<open>i\<close>.\<close>

definition reset_rbg ::
  "nat \<Rightarrow> nat \<Rightarrow> int \<Rightarrow> int \<Rightarrow> nat \<times> nat \<Rightarrow> int \<times> int \<Rightarrow> int \<Rightarrow> mac \<times> dl_tables \<Rightarrow> (mac \<times> dl_tables) res"
  where
  "reset_rbg cc ue n_rbg subframe sizes sf0 i st =
     (case (sizes, sf0, st) of ((RBGsize, RBGsize_last), (lo, hi), (s, t)) \<Rightarrow>
      let rb_size = (if i = n_rbg - 1 then RBGsize_last else RBGsize) in
      bindE (upd_row (rballoc_sub_UE (UE_sched_ctrl s ue)) cc i 0) (\<lambda>ru.
      bindE (upd_row (rballoc_sub t) cc i
               (if subframe = 0 \<and> lo \<le> i \<and> i \<le> hi then 1 else 0)) (\<lambda>rs.
      bindE (vrb_taken (vrb_map s cc) (i * int RBGsize) rb_size) (\<lambda>taken.
      bindE (if taken then upd_row rs cc i 1 else Inr rs) (\<lambda>rs'.
      bindE (upd_row (MIMO_mode t) cc i 2) (\<lambda>mi.
      Inr (upd_sched ue (\<lambda>c. c\<lparr>rballoc_sub_UE := ru\<rparr>) s,
           t\<lparr>rballoc_sub := rs', MIMO_mode := mi\<rparr>)))))))"

definition dlsch_scheduler_pre_processor_reset ::
  "phy_if \<Rightarrow> int \<Rightarrow> nat \<Rightarrow> nat \<Rightarrow> int \<Rightarrow> mac \<times> dl_tables \<Rightarrow> (mac \<times> dl_tables) res" where
  "dlsch_scheduler_pre_processor_reset ph subframe ue cc n_rbg st =
     (case st of (s, t) \<Rightarrow>
      let r = UE_RNTI s ue in
      case phy_stats s cc r of None \<Rightarrow> Inr (s, t)
      | Some stats \<Rightarrow>
        (let c = UE_sched_ctrl s ue;
             (pid, rnd) = get_ue_active_harq_pid ph cc r (harq_pid c cc, harq_round c cc);
             s1 = upd_sched ue (\<lambda>c. c\<lparr>harq_pid := (harq_pid c)(cc := pid),
                    harq_round := (harq_round c)(cc := rnd)\<rparr>) s;
             s2 = reset_ta ph cc ue r stats s1;
             s3 = upd_sched ue (\<lambda>c. c\<lparr>pre_nb_available_rbs := (pre_nb_available_rbs c)(cc := 0),
                    dl_pow_off := (dl_pow_off c)(cc := 2)\<rparr>) s2;
             t1 = t\<lparr>nb_rbs_required := upd2 (nb_rbs_required t) cc ue 0,
                    nb_rbs_remaining := upd2 (nb_rbs_remaining t) cc ue 0\<rparr>
         in bindE (rbg_sizes (N_RB_DL ph cc)) (\<lambda>sizes.
            bindE (sf0_limits n_rbg) (\<lambda>sf0.
            foldE (reset_rbg cc ue n_rbg subframe sizes sf0) [0..n_rbg - 1] (s3, t1)))))"

section \<open>Buffer status and required blocks\<close>

text \<open>The channel loop of \<open>store_dlsch_buffer\<close>, for the template of one UE.\<close>

definition clear_buffers :: "ue_template \<Rightarrow> ue_template" where
  "clear_buffers t = t\<lparr>dl_buffer_total := 0, dl_pdus_total := 0,
     dl_buffer_info := replicate MAX_NUM_LCID 0,
     dl_pdus_in_buffer := replicate MAX_NUM_LCID 0,
     dl_buffer_head_sdu_creation_time := replicate MAX_NUM_LCID 0,
     dl_buffer_head_sdu_remaining_size_to_send := replicate MAX_NUM_LCID 0\<rparr>"

definition store_lcid :: "rlc_status \<Rightarrow> nat \<Rightarrow> ue_template \<Rightarrow> ue_template" where
  "store_lcid st i t = t\<lparr>
     dl_buffer_info := (dl_buffer_info t)[i := bytes_in_buffer st],
     dl_pdus_in_buffer := (dl_pdus_in_buffer t)[i := pdus_in_buffer st],
     dl_buffer_head_sdu_creation_time :=
       (dl_buffer_head_sdu_creation_time t)[i := head_sdu_creation_time st],
     dl_buffer_head_sdu_creation_time_max :=
       max (dl_buffer_head_sdu_creation_time_max t) (head_sdu_creation_time st),
     dl_buffer_head_sdu_remaining_size_to_send :=
       (dl_buffer_head_sdu_remaining_size_to_send t)[i := head_sdu_remaining_size_to_send st],
     dl_buffer_head_sdu_is_segmented :=
       (dl_buffer_head_sdu_is_segmented t)[i := head_sdu_is_segmented st],
     dl_buffer_total := dl_buffer_total t + bytes_in_buffer st,
     dl_pdus_total := dl_pdus_total t + pdus_in_buffer st\<rparr>"

definition store_ue_buffer :: "phy_if \<Rightarrow> u16 \<Rightarrow> ue_template \<Rightarrow> ue_template" where
  "store_ue_buffer ph r t =
     fold (\<lambda>i. store_lcid (mac_rlc_status_ind ph r i) i) [0..<MAX_NUM_LCID] (clear_buffers t)"

definition store_dlsch_buffer :: "phy_if \<Rightarrow> mac \<Rightarrow> mac" where
  "store_dlsch_buffer ph s =
     fold (\<lambda>ue s. if active s ue
                 then upd_template (UE_PCCID s ue) ue (store_ue_buffer ph (UE_RNTI s ue)) s
                 else s)
       [0..<NUMBER_OF_UE_MAX] s"

definition cqi_to_mcs :: "u8 list" where
  "cqi_to_mcs = [0, 0, 1, 2, 4, 6, 8, 11, 13, 16, 18, 20, 23, 25, 27, 28]"

definition stats_of :: "mac \<Rightarrow> nat \<Rightarrow> u16 \<Rightarrow> ue_stats res" where
  "stats_of s cc r = (case phy_stats s cc r of None \<Rightarrow> Inl NullDeref | Some x \<Rightarrow> Inr x)"

definition update_mcs :: "u16 \<Rightarrow> nat \<Rightarrow> mac \<Rightarrow> mac res" where
  "update_mcs r cc s =
     bindE (stats_of s cc r) (\<lambda>x.
     bindE (aget cqi_to_mcs (uint (DL_cqi x))) (\<lambda>m.
     Inr (upd_stats cc r (\<lambda>y. y\<lparr>dlsch_mcs1 := m\<rparr>) s)))"

text \<open>The exchange sort of the carriers of a UE by increasing MCS.\<close>

definition order_ccs_step :: "u16 \<Rightarrow> nat \<Rightarrow> nat \<times> nat \<Rightarrow> mac \<Rightarrow> mac res" where
  "order_ccs_step r ue ij s =
     (case ij of (i, j) \<Rightarrow>
      if \<not> j < MAX_NUM_CCs then Inl Abort
      else
        (let a = ordered_CCids s i ue; b = ordered_CCids s j ue in
         bindE (stats_of s a r) (\<lambda>x. bindE (stats_of s b r) (\<lambda>y.
         Inr (if dlsch_mcs1 x > dlsch_mcs1 y
              then s\<lparr>ordered_CCids := upd2 (upd2 (ordered_CCids s) i ue b) j ue a\<rparr> else s)))))"

definition order_ccs :: "u16 \<Rightarrow> nat \<Rightarrow> mac \<Rightarrow> mac res" where
  "order_ccs r ue s =
     (let n = UE_num_active_CC s ue in
      foldE (order_ccs_step r ue) [(i, j). i \<leftarrow> [0..<n], j \<leftarrow> [i + 1..<n]] s)"

text \<open>
  The estimate of one UE on one carrier. The loop adds \<open>min_rb_unit\<close> until the transport block holds
  the buffer or the carrier is full; the fuel exceeds the number of blocks of a carrier, and a loop
  that uses it up (a block unit of zero) does not end.
\<close>

fun rb_loop :: "phy_if \<Rightarrow> nat \<Rightarrow> u8 \<Rightarrow> u8 \<Rightarrow> int \<Rightarrow> u32 \<Rightarrow> u16 \<Rightarrow> u16 \<Rightarrow> u16 res" where
  "rb_loop ph fuel n_rb mcs unit buf nb TBS =
     (if ucast TBS < buf then
        (case fuel of
           0 \<Rightarrow> Inl Diverges
         | Suc f \<Rightarrow>
             (let nb' = nb + word_of_int unit in
              if uint nb' > uint n_rb then Inr (ucast n_rb)
              else rb_loop ph f n_rb mcs unit buf nb' (ucast (get_TBS_DL ph mcs nb'))))
      else Inr nb)"

declare rb_loop.simps [simp del]

definition rbs_for :: "phy_if \<Rightarrow> u8 \<Rightarrow> u8 \<Rightarrow> int \<Rightarrow> u32 \<Rightarrow> u16 res" where
  "rbs_for ph n_rb mcs unit buf =
     (let nb = (if mcs = 0 then 4 else word_of_int unit) in
      rb_loop ph 256 n_rb mcs unit buf nb (ucast (get_TBS_DL ph mcs nb)))"

definition assign_ue_rbs ::
  "phy_if \<Rightarrow> (nat \<Rightarrow> int) \<Rightarrow> nat \<Rightarrow> mac \<times> dl_tables \<Rightarrow> (mac \<times> dl_tables) res" where
  "assign_ue_rbs ph unit ue st =
     (case st of (s, t) \<Rightarrow>
      let pcc = UE_PCCID s ue; r = rnti (UE_template s pcc ue) in
      if \<not> active s ue then Inr (s, t)
      else if \<not> phy_stats_exist s r then Inr (s, t)
      else
        bindE (foldE (update_mcs r) (active_ccs s ue) s) (\<lambda>s1.
        bindE (order_ccs r ue s1) (\<lambda>s2.
        if dl_buffer_total (UE_template s2 pcc ue) > 0 then
          bindE (foldE (\<lambda>cc tb.
              bindE (stats_of s2 cc r) (\<lambda>x.
              bindE (rbs_for ph (N_RB_DL ph cc) (dlsch_mcs1 x) (unit cc)
                       (dl_buffer_total (UE_template s2 pcc ue))) (\<lambda>nb.
              Inr (tb\<lparr>nb_rbs_required := upd2 (nb_rbs_required tb) cc ue nb\<rparr>))))
            (active_ccs s2 ue) t) (\<lambda>t1. Inr (s2, t1))
        else Inr (s2, t))))"

definition assign_rbs_required ::
  "phy_if \<Rightarrow> (nat \<Rightarrow> int) \<Rightarrow> mac \<times> dl_tables \<Rightarrow> (mac \<times> dl_tables) res" where
  "assign_rbs_required ph unit st = foldE (assign_ue_rbs ph unit) [0..<NUMBER_OF_UE_MAX] st"

section \<open>The order of the UEs\<close>

definition maxround :: "mac \<Rightarrow> u16 \<Rightarrow> u8 res" where
  "maxround s r =
     foldE (\<lambda>cc round_max.
        if find_UE_id s r = - 1 then Inl OutOfBounds
        else Inr (let rnd = harq_round (UE_sched_ctrl s (nat (find_UE_id s r))) cc in
                  if rnd > round_max then rnd else round_max))
       [0..<MAX_NUM_CCs] 0"

definition maxcqi :: "mac \<Rightarrow> nat \<Rightarrow> int" where
  "maxcqi s ue =
     (case foldE (\<lambda>cc q. bindE (stats_of s cc (UE_RNTI s ue))
              (\<lambda>x. Inr (if uint (DL_cqi x) > q then uint (DL_cqi x) else q)))
             (active_ccs s ue) 0 of
        Inl _ \<Rightarrow> - 1
      | Inr q \<Rightarrow> q)"

text \<open>
  The comparison. On the UEs that \<open>sort_UEs\<close> lists \<open>maxround\<close> always returns a round
  (\<open>maxround_listed\<close> below), so that the default is never used.
\<close>

definition ue_round :: "mac \<Rightarrow> nat \<Rightarrow> int" where
  "ue_round s ue = (case maxround s (UE_RNTI s ue) of Inr n \<Rightarrow> uint n | Inl _ \<Rightarrow> 0)"

definition srb_buffer :: "mac \<Rightarrow> nat \<Rightarrow> u32" where
  "srb_buffer s ue = (let t = UE_template s (UE_PCCID s ue) ue in
     dl_buffer_info t ! 1 + dl_buffer_info t ! 2)"

definition ue_dl_compare :: "mac \<Rightarrow> nat \<Rightarrow> nat \<Rightarrow> int" where
  "ue_dl_compare s ue1 ue2 =
     (let round1 = ue_round s ue1; round2 = ue_round s ue2;
          t1 = UE_template s (UE_PCCID s ue1) ue1; t2 = UE_template s (UE_PCCID s ue2) ue2;
          cqi1 = maxcqi s ue1; cqi2 = maxcqi s ue2
      in if round1 > round2 then - 1
         else if round1 < round2 then 1
         else if srb_buffer s ue1 > srb_buffer s ue2 then - 1
         else if srb_buffer s ue1 < srb_buffer s ue2 then 1
         else if dl_buffer_head_sdu_creation_time_max t1 > dl_buffer_head_sdu_creation_time_max t2
              then - 1
         else if dl_buffer_head_sdu_creation_time_max t1 < dl_buffer_head_sdu_creation_time_max t2
              then 1
         else if dl_buffer_total t1 > dl_buffer_total t2 then - 1
         else if dl_buffer_total t1 < dl_buffer_total t2 then 1
         else if cqi1 > cqi2 then - 1
         else if cqi1 < cqi2 then 1
         else 0)"

definition sort_UEs :: "mac \<Rightarrow> mac" where
  "sort_UEs s =
     (let xs = qsort_r (ue_dl_compare s) (filter (\<lambda>ue. \<not> skip_ue s ue) [0..<NUMBER_OF_UE_MAX])
      in s\<lparr>next_dl := write_links xs (next_dl s), head := list_head xs\<rparr>)"

section \<open>The slicing algorithm\<close>

text \<open>One group of the window of a UE: taken when it is free and the UE still needs blocks.\<close>

definition my_rbg ::
  "int \<Rightarrow> nat \<Rightarrow> nat \<Rightarrow> int \<Rightarrow> mac \<times> dl_tables \<Rightarrow> (mac \<times> dl_tables) res" where
  "my_rbg unit cc ue k st =
     (case st of (s, t) \<Rightarrow>
      bindE (aget (rballoc_sub t cc) k) (\<lambda>v.
      if v = 0 \<and> nb_rbs_remaining t cc ue > 0 then
        bindE (upd_row (rballoc_sub t) cc k 1) (\<lambda>rs.
        bindE (upd_row (rballoc_sub_UE (UE_sched_ctrl s ue)) cc k 1) (\<lambda>ru.
        bindE (upd_row (MIMO_mode t) cc k 1) (\<lambda>mi.
        Inr (upd_sched ue (\<lambda>c. c\<lparr>rballoc_sub_UE := ru,
                 pre_nb_available_rbs := (pre_nb_available_rbs c)
                   (cc := pre_nb_available_rbs c cc + word_of_int unit)\<rparr>) s,
             t\<lparr>rballoc_sub := rs, MIMO_mode := mi,
               nb_rbs_remaining := upd2 (nb_rbs_remaining t) cc ue
                 (nb_rbs_remaining t cc ue - word_of_int unit)\<rparr>))))
      else Inr (s, t)))"

text \<open>One carrier of a UE.\<close>

definition my_cc ::
  "phy_if \<Rightarrow> (nat \<Rightarrow> int) \<Rightarrow> int \<Rightarrow> int \<Rightarrow> nat \<Rightarrow> nat \<Rightarrow> mac \<times> dl_tables \<Rightarrow> (mac \<times> dl_tables) res"
  where
  "my_cc ph unit first quota ue cc st =
     (case st of (s, t) \<Rightarrow>
      let t1 = t\<lparr>nb_rbs_remaining := upd2 (nb_rbs_remaining t) cc ue (nb_rbs_required t cc ue)\<rparr>;
          s1 = (if get_transmission_mode ph cc (UE_RNTI s ue) = 5
                then upd_sched ue (\<lambda>c. c\<lparr>dl_pow_off := (dl_pow_off c)(cc := 1)\<rparr>) s else s)
      in foldE (my_rbg (unit cc) cc ue) [first..first + quota - 1] (s1, t1))"

text \<open>One UE: a UE that is skipped does not move the start of the next window.\<close>

definition my_ue ::
  "global_infos \<Rightarrow> phy_if \<Rightarrow> (nat \<Rightarrow> int) \<Rightarrow> nat \<Rightarrow> int \<times> mac \<times> dl_tables
     \<Rightarrow> (int \<times> mac \<times> dl_tables) res" where
  "my_ue g ph unit ue st =
     (case st of (RBG_start_index, s, t) \<Rightarrow>
      let assigned_dRB = c_div (UE_RNTI_process_function_downlink g (int ue)) 3 in
      if skip_ue s ue then Inr (RBG_start_index, s, t)
      else bindE (foldE (my_cc ph unit RBG_start_index assigned_dRB ue) (active_ccs s ue) (s, t))
             (\<lambda>(s', t'). Inr (RBG_start_index + assigned_dRB, s', t')))"

definition dlsch_my_scheduler_pre_processor ::
  "global_infos \<Rightarrow> phy_if \<Rightarrow> (nat \<Rightarrow> int) \<Rightarrow> mac \<times> dl_tables \<Rightarrow> (mac \<times> dl_tables) res" where
  "dlsch_my_scheduler_pre_processor g ph unit st =
     (case st of (s, t) \<Rightarrow>
      bindE (dl_list s) (\<lambda>xs.
      bindE (foldE (my_ue g ph unit) xs (0, s, t)) (\<lambda>(_, s', t'). Inr (s', t'))))"

section \<open>The original allocation\<close>

text \<open>
  The allocation the slicing algorithm replaces; it hands a UE free groups from the lowest one on.
  The last group is one block smaller on carriers of 25 and 50 blocks.
\<close>

definition allocate_rbg ::
  "nat \<Rightarrow> nat \<Rightarrow> int \<Rightarrow> u8 \<Rightarrow> int \<Rightarrow> u8 \<Rightarrow> int \<Rightarrow> mac \<times> dl_tables \<Rightarrow> (mac \<times> dl_tables) res"
  where
  "allocate_rbg ue cc n_rbg tm unit n_rb i st =
     (case st of (s, t) \<Rightarrow>
      bindE (aget (rballoc_sub t cc) i) (\<lambda>v.
      bindE (aget (rballoc_sub_UE (UE_sched_ctrl s ue) cc) i) (\<lambda>w.
      let c = UE_sched_ctrl s ue; rem = nb_rbs_remaining t cc ue;
          need = (if i = n_rbg - 1 \<and> (n_rb = 25 \<or> n_rb = 50) then unit - 1 else unit)
      in if v = 0 \<and> w = 0 \<and> rem > 0 \<and> pre_nb_available_rbs c cc < nb_rbs_required t cc ue \<and>
            dl_pow_off c cc \<noteq> 0 \<and> uint rem \<ge> need
         then
           bindE (upd_row (rballoc_sub t) cc i 1) (\<lambda>rs.
           bindE (upd_row (rballoc_sub_UE c) cc i 1) (\<lambda>ru.
           bindE (upd_row (MIMO_mode t) cc i 1) (\<lambda>mi.
           Inr (upd_sched ue (\<lambda>c. c\<lparr>rballoc_sub_UE := ru,
                    dl_pow_off := (if tm = 5 then (dl_pow_off c)(cc := 1) else dl_pow_off c),
                    pre_nb_available_rbs := (pre_nb_available_rbs c)
                      (cc := pre_nb_available_rbs c cc + word_of_int need)\<rparr>) s,
                t\<lparr>rballoc_sub := rs, MIMO_mode := mi,
                  nb_rbs_remaining := upd2 (nb_rbs_remaining t) cc ue (rem - word_of_int need)\<rparr>))))
         else Inr (s, t))))"

definition dlsch_scheduler_pre_processor_allocate ::
  "nat \<Rightarrow> nat \<Rightarrow> int \<Rightarrow> u8 \<Rightarrow> int \<Rightarrow> u8 \<Rightarrow> mac \<times> dl_tables \<Rightarrow> (mac \<times> dl_tables) res" where
  "dlsch_scheduler_pre_processor_allocate ue cc n_rbg tm unit n_rb st =
     foldE (allocate_rbg ue cc n_rbg tm unit n_rb) [0..n_rbg - 1] st"

section \<open>The pre-processor\<close>

text \<open>The resets of all active UEs on the carriers that carry no MBSFN in this subframe.\<close>

definition reset_all ::
  "phy_if \<Rightarrow> int \<Rightarrow> (nat \<Rightarrow> int) \<Rightarrow> (nat \<Rightarrow> bool) \<Rightarrow> mac \<times> dl_tables \<Rightarrow> (mac \<times> dl_tables) res" where
  "reset_all ph subframe n_rbg mbsfn st =
     foldE (\<lambda>cc st.
        if mbsfn cc then Inr st
        else foldE (\<lambda>ue st.
               if \<not> active (fst st) ue then Inr st
               else dlsch_scheduler_pre_processor_reset ph subframe ue cc (n_rbg cc) st)
               [0..<NUMBER_OF_UE_MAX] st)
       [0..<MAX_NUM_CCs] st"

text \<open>
  The loop that counts the UEs with something to send. A retransmission needs the blocks of its first
  transmission. The count is an \<open>unsigned char\<close>; the average it gives is used by the original
  allocation only.
\<close>

definition count_ue_cc ::
  "nat \<Rightarrow> nat \<Rightarrow> u8 \<times> mac \<times> dl_tables \<Rightarrow> (u8 \<times> mac \<times> dl_tables) res" where
  "count_ue_cc ue cc st =
     (case st of (n, s, t) \<Rightarrow>
      let c = UE_sched_ctrl s ue in
      bindE (if harq_round c cc > 0
             then bindE (aget (nb_rb (UE_template s cc ue)) (uint (harq_pid c cc)))
                    (\<lambda>x. Inr (t\<lparr>nb_rbs_required := upd2 (nb_rbs_required t) cc ue x\<rparr>))
             else Inr t)
        (\<lambda>t'. Inr (if nb_rbs_required t' cc ue > 0 then n + 1 else n, s, t')))"

definition count_ues :: "mac \<times> dl_tables \<Rightarrow> (u8 \<times> mac \<times> dl_tables) res" where
  "count_ues st =
     (case st of (s, t) \<Rightarrow>
      bindE (dl_list s) (\<lambda>xs.
      foldE (\<lambda>ue st.
          if skip_ue (fst (snd st)) ue then Inr st
          else foldE (count_ue_cc ue) (active_ccs (fst (snd st)) ue) st)
        xs (0, s, t)))"

definition dlsch_scheduler_pre_processor ::
  "global_infos \<Rightarrow> phy_if \<Rightarrow> int \<Rightarrow> (nat \<Rightarrow> int) \<Rightarrow> (nat \<Rightarrow> bool) \<Rightarrow> mac \<times> dl_tables
     \<Rightarrow> (mac \<times> dl_tables) res" where
  "dlsch_scheduler_pre_processor g ph subframe n_rbg mbsfn st =
     (let unit = (\<lambda>cc. get_min_rb_unit (uint (N_RB_DL ph cc))) in
      bindE (reset_all ph subframe n_rbg mbsfn st) (\<lambda>(s1, t1).
      bindE (assign_rbs_required ph unit (store_dlsch_buffer ph s1, t1)) (\<lambda>(s2, t2).
      bindE (count_ues (sort_UEs s2, t2)) (\<lambda>(n, s3, t3).
      if n > 0 then dlsch_my_scheduler_pre_processor g ph unit (s3, t3) else Inr (s3, t3)))))"

section \<open>Facts about the order of the UEs\<close>

definition dl_keys :: "mac \<Rightarrow> nat \<Rightarrow> int list" where
  "dl_keys s ue = (let t = UE_template s (UE_PCCID s ue) ue in
     [ue_round s ue, uint (srb_buffer s ue), uint (dl_buffer_head_sdu_creation_time_max t),
      uint (dl_buffer_total t), maxcqi s ue])"

lemma ue_dl_compare_lex: "ue_dl_compare s a b = lex_desc (dl_keys s a) (dl_keys s b)"
  by (simp add: ue_dl_compare_def dl_keys_def Let_def word_less_def)

interpretation dl_order: comparison "ue_dl_compare s" for s
  by (rule comparison_lex [where keys = "dl_keys s"])
     (auto simp: ue_dl_compare_lex dl_keys_def Let_def)

definition listed :: "mac \<Rightarrow> nat list" where
  "listed s = filter (\<lambda>ue. \<not> skip_ue s ue) [0..<NUMBER_OF_UE_MAX]"

lemma listed_simps [simp]:
  "distinct (listed s)" "set (listed s) = {ue. ue < NUMBER_OF_UE_MAX \<and> \<not> skip_ue s ue}"
  "length (listed s) \<le> NUMBER_OF_UE_MAX"
  by (auto simp: listed_def intro: order_trans [OF length_filter_le])

lemma dl_list_sorted: "dl_list (sort_UEs s) = Inr (qsort_r (ue_dl_compare s) (listed s))"
proof -
  let ?xs = "qsort_r (ue_dl_compare s) (listed s)"
  have "chain (write_links ?xs (next_dl s)) (list_head ?xs) ?xs"
    by (rule chain_write_links) simp
  then have "walk NUMBER_OF_UE_MAX (write_links ?xs (next_dl s)) (list_head ?xs) = Some ?xs"
    by (rule walk_chain) simp
  then show ?thesis by (simp add: dl_list_def sort_UEs_def listed_def Let_def)
qed

lemma dl_list_distinct: "dl_list s = Inr xs \<Longrightarrow> distinct xs"
  unfolding dl_list_def by (auto dest: chain_walk chain_distinct split: option.splits)

text \<open>A listed UE is known, so that the rounds compared are real ones.\<close>

lemma maxround_listed: "\<not> skip_ue s ue \<Longrightarrow> \<exists>n. maxround s (UE_RNTI s ue) = Inr n"
  unfolding maxround_def
  by (rule foldE_total [where P = "\<lambda>_. True", simplified])
     (auto simp: skip_ue_def phy_stats_exist_def split: if_splits)

section \<open>A concrete subframe\<close>

text \<open>Two UEs, in the slots 0 and 1, each with four blocks to send.\<close>

definition example_mac :: mac where
  "example_mac = (snd (add_new_ue 0 71 0 (snd (add_new_ue 0 70 0 mac_top_init))))
     \<lparr>phy_stats := (\<lambda>_ r. if r = 70 \<or> r = 71
        then Some \<lparr>DL_cqi = 9, dlsch_mcs1 = 0, timing_advance_update = 0\<rparr> else None),
      next_dl := write_links [0, 1] init_next, head := 0\<rparr>"

definition example_tables :: dl_tables where
  "example_tables = \<lparr>nb_rbs_required = (\<lambda>_ _. 4), nb_rbs_remaining = (\<lambda>_ _. 0),
     rballoc_sub = (\<lambda>_. replicate N_RBG_MAX 0), MIMO_mode = (\<lambda>_. replicate N_RBG_MAX 2)\<rparr>"

definition example_phy :: phy_if where
  "example_phy = \<lparr>N_RB_DL = (\<lambda>_. 25), threequarter_fs = (\<lambda>_. False),
     get_TBS_DL = (\<lambda>mcs nb. (ucast mcs + 1) * ucast nb), get_transmission_mode = (\<lambda>_ _. 1),
     get_ue_active_harq_pid = (\<lambda>_ _ _. (0, 0)),
     mac_rlc_status_ind = (\<lambda>_ i. \<lparr>bytes_in_buffer = (if i = 3 then 50 else 0),
        pdus_in_buffer = 1, head_sdu_creation_time = 0, head_sdu_remaining_size_to_send = 0,
        head_sdu_is_segmented = 0\<rparr>),
     mac_eNB_get_rrc_status = (\<lambda>_. 4)\<rparr>"

lemma example_added: "add_new_ue 0 71 0 (snd (add_new_ue 0 70 0 mac_top_init))
    = (1, fill_slot 0 71 0 1 (fill_slot 0 70 0 0 mac_top_init))"
proof -
  have "find (\<lambda>ue. \<not> active mac_top_init ue) [0..<NUMBER_OF_UE_MAX] = Some 0"
    by (simp add: find_upt_Some mac_top_init_def NUMBER_OF_UE_MAX_def)
  then have "add_new_ue 0 70 0 mac_top_init = (0, fill_slot 0 70 0 0 mac_top_init)"
    by (simp add: add_new_ue_def)
  moreover have "find (\<lambda>ue. \<not> active (fill_slot 0 70 0 0 mac_top_init) ue) [0..<NUMBER_OF_UE_MAX] = Some 1"
    by (simp add: find_upt_Some mac_top_init_def NUMBER_OF_UE_MAX_def)
  ultimately show ?thesis by (simp add: add_new_ue_def)
qed

lemma example_sched: "UE_sched_ctrl example_mac u = zero_sched_ctrl"
  by (simp add: example_mac_def example_added) (simp add: mac_top_init_def)

lemma example_list: "dl_list example_mac = Inr [0, 1]"
  by (simp add: dl_list_def example_mac_def walk.simps NUMBER_OF_UE_MAX_def eval_nat_numeral)

section \<open>Properties\<close>

text \<open>C29. The sorting of the downlink leaves a proper list that holds exactly the UEs that are known,
  synchronised and present in the physical layer, each once, ordered by retransmission round, then
  signalling data, waiting time, total data and channel quality, the largest first; the uplink list is
  not touched.\<close>

theorem sort_UEs_orders:
  "\<exists>xs. dl_list (sort_UEs s) = Inr xs \<and> distinct xs
    \<and> set xs = {ue. ue < NUMBER_OF_UE_MAX \<and> UE_RNTI s ue \<noteq> NOT_A_RNTI \<and>
          ul_out_of_sync (UE_sched_ctrl s ue) \<noteq> 1 \<and> phy_stats_exist s (UE_RNTI s ue)}
    \<and> sorted_wrt (\<lambda>a b. ue_dl_compare s a b \<le> 0) xs
    \<and> (\<forall>ue \<in> set xs. ue_round s ue \<le> ue_round s (xs ! 0))
    \<and> next_ul (sort_UEs s) = next_ul s \<and> head_ul (sort_UEs s) = head_ul s"
proof -
  let ?xs = "qsort_r (ue_dl_compare s) (listed s)"
  have "ue_round s ue \<le> ue_round s (?xs ! 0)" if "ue \<in> set ?xs" for ue
  proof -
    have "?xs \<noteq> []" using that by (metis empty_iff list.set(1))
    moreover have "ue_dl_compare s (hd ?xs) ue \<le> 0"
      using that by (intro dl_order.first_is_best) simp
    ultimately show ?thesis
      by (auto simp: ue_dl_compare_def Let_def hd_conv_nth split: if_splits)
  qed
  moreover have "set ?xs = {ue. ue < NUMBER_OF_UE_MAX \<and> UE_RNTI s ue \<noteq> NOT_A_RNTI \<and>
          ul_out_of_sync (UE_sched_ctrl s ue) \<noteq> 1 \<and> phy_stats_exist s (UE_RNTI s ue)}"
    by (auto simp: skip_ue_def split: if_splits)
  moreover have "next_ul (sort_UEs s) = next_ul s" "head_ul (sort_UEs s) = head_ul s"
    by (simp_all add: sort_UEs_def Let_def)
  ultimately show ?thesis
    using dl_order.sorted_qsort [of s "listed s"]
    by (intro exI [of _ ?xs] conjI) (simp_all add: dl_list_sorted del: set_qsort_r)
qed

theorem sort_UEs_orders_witness:
  "\<exists>xs. dl_list (sort_UEs example_mac) = Inr xs \<and> set xs = {0, 1} \<and>
     ue_round example_mac 1 \<le> ue_round example_mac (xs ! 0)"
proof -
  from sort_UEs_orders [of example_mac] obtain xs where
    xs: "dl_list (sort_UEs example_mac) = Inr xs"
    "set xs = {ue. ue < NUMBER_OF_UE_MAX \<and> UE_RNTI example_mac ue \<noteq> NOT_A_RNTI \<and>
       ul_out_of_sync (UE_sched_ctrl example_mac ue) \<noteq> 1 \<and>
       phy_stats_exist example_mac (UE_RNTI example_mac ue)}"
    "\<forall>ue \<in> set xs. ue_round example_mac ue \<le> ue_round example_mac (xs ! 0)" by blast
  let ?P = "\<lambda>ue. UE_RNTI example_mac ue \<noteq> NOT_A_RNTI \<and>
       ul_out_of_sync (UE_sched_ctrl example_mac ue) \<noteq> 1 \<and>
       phy_stats_exist example_mac (UE_RNTI example_mac ue)"
  have "set xs = set (filter ?P [0..<NUMBER_OF_UE_MAX])" unfolding xs(2) by auto
  also have "filter ?P [0..<NUMBER_OF_UE_MAX] = [0, 1]" by code_simp
  finally have "set xs = {0, 1}" by simp
  with xs show ?thesis by blast
qed

end
