(* ===== verification/DlSlicing.thy ===== *)
theory DlSlicing
  imports DlPre
begin

text \<open>
  What the slicing algorithm of the downlink pre-processor guarantees: which groups one UE takes of its
  window, that the windows of the UEs of a list follow each other without overlap, what happens when
  they run past the last group, and the state the reset leaves for it. The definitions are in \<open>DlPre\<close>.
\<close>

section \<open>Facts about the slicing algorithm\<close>

definition rows_ok :: "nat \<Rightarrow> mac \<times> dl_tables \<Rightarrow> bool" where
  "rows_ok cc st \<longleftrightarrow> length (rballoc_sub (snd st) cc) = N_RBG_MAX \<and>
     length (MIMO_mode (snd st) cc) = N_RBG_MAX \<and>
     (\<forall>ue. length (rballoc_sub_UE (UE_sched_ctrl (fst st) ue) cc) = N_RBG_MAX)"

definition group_ok :: "int \<Rightarrow> bool" where
  "group_ok k \<longleftrightarrow> 0 \<le> k \<and> k < int N_RBG_MAX"

text \<open>The marking of one group, without the tests.\<close>

definition mark_one :: "int \<Rightarrow> nat \<Rightarrow> nat \<Rightarrow> int \<Rightarrow> mac \<times> dl_tables \<Rightarrow> mac \<times> dl_tables" where
  "mark_one unit cc ue k st = (case st of (s, t) \<Rightarrow>
     (upd_sched ue (\<lambda>c. c\<lparr>rballoc_sub_UE := (rballoc_sub_UE c)
          (cc := (rballoc_sub_UE c cc)[nat k := 1]),
        pre_nb_available_rbs := (pre_nb_available_rbs c)
          (cc := pre_nb_available_rbs c cc + word_of_int unit)\<rparr>) s,
      t\<lparr>rballoc_sub := (rballoc_sub t)(cc := (rballoc_sub t cc)[nat k := 1]),
        MIMO_mode := (MIMO_mode t)(cc := (MIMO_mode t cc)[nat k := 1]),
        nb_rbs_remaining := upd2 (nb_rbs_remaining t) cc ue
          (nb_rbs_remaining t cc ue - word_of_int unit)\<rparr>))"

lemma mark_one_simps [simp]:
  "rballoc_sub (snd (mark_one unit cc ue k st)) c =
     (if c = cc then (rballoc_sub (snd st) cc)[nat k := 1] else rballoc_sub (snd st) c)"
  "MIMO_mode (snd (mark_one unit cc ue k st)) c =
     (if c = cc then (MIMO_mode (snd st) cc)[nat k := 1] else MIMO_mode (snd st) c)"
  "nb_rbs_remaining (snd (mark_one unit cc ue k st)) =
     upd2 (nb_rbs_remaining (snd st)) cc ue (nb_rbs_remaining (snd st) cc ue - word_of_int unit)"
  "nb_rbs_required (snd (mark_one unit cc ue k st)) = nb_rbs_required (snd st)"
  "rballoc_sub_UE (UE_sched_ctrl (fst (mark_one unit cc ue k st)) u) c =
     (if u = ue \<and> c = cc then (rballoc_sub_UE (UE_sched_ctrl (fst st) ue) cc)[nat k := 1]
      else rballoc_sub_UE (UE_sched_ctrl (fst st) u) c)"
  "pre_nb_available_rbs (UE_sched_ctrl (fst (mark_one unit cc ue k st)) u) c =
     (if u = ue \<and> c = cc then pre_nb_available_rbs (UE_sched_ctrl (fst st) ue) cc + word_of_int unit
      else pre_nb_available_rbs (UE_sched_ctrl (fst st) u) c)"
  by (simp_all add: mark_one_def split: prod.splits)

lemma my_rbg_mark:
  assumes "rows_ok cc st" and "group_ok k"
  shows "my_rbg unit cc ue k st = Inr
    (if rballoc_sub (snd st) cc ! nat k = 0 \<and> nb_rbs_remaining (snd st) cc ue > 0
     then mark_one unit cc ue k st else st)"
proof -
  obtain s t where st: "st = (s, t)" by (cases st)
  from assms st have r: "in_range (rballoc_sub t cc) k" "in_range (MIMO_mode t cc) k"
    "in_range (rballoc_sub_UE (UE_sched_ctrl s ue) cc) k"
    by (simp_all add: rows_ok_def group_ok_def in_range_def)
  then have a: "aget (rballoc_sub t cc) k = Inr (rballoc_sub t cc ! nat k)"
    and b: "upd_row (rballoc_sub t) cc k 1
      = Inr ((rballoc_sub t)(cc := (rballoc_sub t cc)[nat k := 1]))"
    and c: "upd_row (rballoc_sub_UE (UE_sched_ctrl s ue)) cc k 1
      = Inr ((rballoc_sub_UE (UE_sched_ctrl s ue))
          (cc := (rballoc_sub_UE (UE_sched_ctrl s ue) cc)[nat k := 1]))"
    and d: "upd_row (MIMO_mode t) cc k 1
      = Inr ((MIMO_mode t)(cc := (MIMO_mode t cc)[nat k := 1]))"
    by (simp_all add: aget_def upd_row_def aset_def)
  show ?thesis
    unfolding my_rbg_def mark_one_def st prod.case a b c d bindE_Inr upd_sched_def by simp
qed

lemma rows_ok_mark [simp]: "rows_ok cc (mark_one unit c ue k st) = rows_ok cc st"
  by (auto simp: rows_ok_def)

text \<open>The groups a UE takes from a list of free ones.\<close>

fun my_take :: "int \<Rightarrow> u16 \<Rightarrow> int list \<Rightarrow> int list" where
  "my_take unit rem [] = []"
| "my_take unit rem (k # ks) =
     (if rem > 0 then k # my_take unit (rem - word_of_int unit) ks else [])"

lemma my_take_0 [simp]: "my_take unit 0 ks = []"
  by (cases ks) auto

definition free_groups :: "dl_tables \<Rightarrow> nat \<Rightarrow> int list \<Rightarrow> int list" where
  "free_groups t cc ks = filter (\<lambda>k. rballoc_sub t cc ! nat k = 0) ks"

lemma my_window:
  assumes "rows_ok cc st" and "\<forall>k \<in> set ks. group_ok k" and "distinct ks"
  shows "foldE (my_rbg unit cc ue) ks st = Inr (fold (mark_one unit cc ue)
    (my_take unit (nb_rbs_remaining (snd st) cc ue) (free_groups (snd st) cc ks)) st)"
  using assms
proof (induction ks arbitrary: st)
  case Nil
  then show ?case by (simp add: free_groups_def)
next
  case (Cons k ks)
  let ?rem = "nb_rbs_remaining (snd st) cc ue"
  have run: "my_rbg unit cc ue k st = Inr
      (if rballoc_sub (snd st) cc ! nat k = 0 \<and> ?rem > 0 then mark_one unit cc ue k st else st)"
    using Cons.prems by (intro my_rbg_mark) auto
  have IH: "foldE (my_rbg unit cc ue) ks st' = Inr (fold (mark_one unit cc ue)
      (my_take unit (nb_rbs_remaining (snd st') cc ue) (free_groups (snd st') cc ks)) st')"
    if "rows_ok cc st'" for st'
    using Cons.prems that by (intro Cons.IH) auto
  have same: "free_groups (snd (mark_one unit cc ue k st)) cc ks = free_groups (snd st) cc ks"
    unfolding free_groups_def
  proof (rule filter_cong [OF refl])
    fix x assume "x \<in> set ks"
    with Cons.prems have "x \<noteq> k" "group_ok x" "group_ok k" by auto
    then have "nat x \<noteq> nat k" by (simp add: group_ok_def eq_nat_nat_iff)
    then show "(rballoc_sub (snd (mark_one unit cc ue k st)) cc ! nat x = 0)
        = (rballoc_sub (snd st) cc ! nat x = 0)" by simp
  qed
  show ?case
  proof (cases "rballoc_sub (snd st) cc ! nat k = 0 \<and> ?rem > 0")
    case True
    then have "free_groups (snd st) cc (k # ks) = k # free_groups (snd st) cc ks"
      by (simp add: free_groups_def)
    with True run IH [of "mark_one unit cc ue k st"] Cons.prems(1) same show ?thesis by simp
  next
    case False
    then have "my_take unit ?rem (free_groups (snd st) cc (k # ks))
        = my_take unit ?rem (free_groups (snd st) cc ks)"
      by (auto simp: free_groups_def word_gt_0)
    with run IH [of st] Cons.prems(1) show ?thesis
      by (simp only: foldE.simps bindE_Inr if_not_P [OF False])
  qed
qed

text \<open>How many groups the count-down takes.\<close>

lemma my_take_prefix: "\<exists>n. my_take unit rem ks = take n ks"
proof (induction ks arbitrary: rem)
  case Nil
  then show ?case by simp
next
  case (Cons k ks)
  from Cons.IH [of "rem - word_of_int unit"] obtain n where
    "my_take unit (rem - word_of_int unit) ks = take n ks" ..
  then have "my_take unit rem (k # ks) = take (if rem > 0 then Suc n else 0) (k # ks)" by simp
  then show ?case ..
qed

lemma my_take_subset: "set (my_take unit rem ks) \<subseteq> set ks"
  by (metis my_take_prefix set_take_subset)

lemma my_take_distinct: "distinct ks \<Longrightarrow> distinct (my_take unit rem ks)"
  by (metis my_take_prefix distinct_take)

lemma my_take_all:
  "\<forall>m < length ks. rem \<noteq> of_nat m * word_of_int unit \<Longrightarrow> my_take unit rem ks = ks"
proof (induction ks arbitrary: rem)
  case Nil
  then show ?case by simp
next
  case (Cons k ks)
  from Cons.prems have "rem \<noteq> 0" by (metis length_greater_0_conv list.distinct(1) mult_zero_left of_nat_0)
  moreover have "\<forall>m < length ks. rem - word_of_int unit \<noteq> of_nat m * word_of_int unit"
  proof (intro allI impI)
    fix m assume "m < length ks"
    then have "rem \<noteq> of_nat (Suc m) * word_of_int unit" by (intro Cons.prems [rule_format]) simp
    then show "rem - word_of_int unit \<noteq> of_nat m * word_of_int unit"
      by (simp add: algebra_simps diff_eq_eq)
  qed
  ultimately show ?case using Cons.IH by (simp add: word_gt_0)
qed

lemma my_take_some:
  "rem = of_nat m * word_of_int unit \<Longrightarrow> \<forall>j < m. rem \<noteq> of_nat j * word_of_int unit \<Longrightarrow>
   my_take unit rem ks = take m ks"
proof (induction m arbitrary: rem ks)
  case 0
  then show ?case by simp
next
  case (Suc m)
  from Suc.prems(2) have nz: "rem \<noteq> 0" by (metis mult_zero_left of_nat_0 zero_less_Suc)
  have "rem - word_of_int unit = of_nat m * word_of_int unit"
    using Suc.prems(1) by (simp add: algebra_simps)
  moreover have "\<forall>j < m. rem - word_of_int unit \<noteq> of_nat j * word_of_int unit"
  proof (intro allI impI)
    fix j assume "j < m"
    then have "rem \<noteq> of_nat (Suc j) * word_of_int unit" by (intro Suc.prems(2) [rule_format]) simp
    then show "rem - word_of_int unit \<noteq> of_nat j * word_of_int unit"
      by (simp add: algebra_simps diff_eq_eq)
  qed
  ultimately have IH: "my_take unit (rem - word_of_int unit) ks' = take m ks'" for ks'
    by (rule Suc.IH)
  then show ?case using nz by (cases ks) (simp_all add: word_gt_0)
qed

text \<open>
  In plain numbers, for block units up to 4: a multiple of the unit is served exactly, or as far as the
  free groups go; any other need passes zero without meeting it and takes every free group.
\<close>

lemma unit_multiple:
  fixes rem :: u16
  assumes "0 < unit" and "unit \<le> 4" and "m \<le> 16000"
  shows "rem = of_nat m * word_of_int unit \<longleftrightarrow> uint rem = int m * unit"
proof -
  have b: "0 \<le> int m * unit" "int m * unit \<le> 16000 * 4"
    using assms mult_mono [of "int m" 16000 unit 4] by auto
  have "uint (of_nat m * word_of_int unit :: u16) = int m * unit"
  proof -
    have "of_nat m * word_of_int unit = (word_of_int (int m * unit) :: u16)" by simp
    moreover have "uint (word_of_int (int m * unit) :: u16) = int m * unit"
      using b by (simp only: uint_word_of_int) (simp add: take_bit_int_eq_self take_bit_eq_mod)
    ultimately show ?thesis by (simp only:)
  qed
  then show ?thesis by (metis word_uint_eqI)
qed

lemma my_take_count:
  fixes rem :: u16
  assumes "0 < unit" and "unit \<le> 4" and "length ks \<le> 25"
  shows "my_take unit rem ks =
    (if unit dvd uint rem then take (nat (uint rem div unit)) ks else ks)"
proof (cases "unit dvd uint rem \<and> uint rem div unit < 16000")
  case True
  then obtain q where q: "uint rem = unit * q" by (auto elim: dvdE)
  let ?m = "nat (uint rem div unit)"
  have d: "uint rem div unit = q" using q assms(1) by simp
  have "0 \<le> q" using q assms(1) by (metis uint_ge_0 zero_le_mult_iff not_le)
  then have m: "int ?m = q" and "?m \<le> 16000" using d True by auto
  then have eq: "rem = of_nat ?m * word_of_int unit"
    using unit_multiple [OF assms(1,2), of ?m rem] q by (simp add: mult.commute)
  have "\<forall>j < ?m. rem \<noteq> of_nat j * word_of_int unit"
  proof (intro allI impI)
    fix j assume j: "j < ?m"
    then have "int j * unit \<noteq> uint rem" using m q assms(1) by auto
    then show "rem \<noteq> of_nat j * word_of_int unit"
      using unit_multiple [OF assms(1,2), of j rem] j \<open>?m \<le> 16000\<close> by auto
  qed
  with eq have "my_take unit rem ks = take ?m ks" by (rule my_take_some)
  with True show ?thesis by simp
next
  case False
  have "\<forall>m < length ks. rem \<noteq> of_nat m * word_of_int unit"
  proof (intro allI impI)
    fix m assume "m < length ks"
    then have m: "m \<le> 25" using assms(3) by simp
    have "uint rem \<noteq> int m * unit"
    proof
      assume e: "uint rem = int m * unit"
      then have "uint rem div unit = int m" using assms(1) by simp
      with e m False show False by simp
    qed
    then show "rem \<noteq> of_nat m * word_of_int unit"
      using unit_multiple [OF assms(1,2), of m rem] m by simp
  qed
  then have "my_take unit rem ks = ks" by (rule my_take_all)
  with False assms(3) show ?thesis by (cases "unit dvd uint rem") auto
qed

text \<open>What the scheduler keeps: everything but the control blocks, and in those the synchronisation.\<close>

definition same_lists :: "mac \<Rightarrow> mac \<Rightarrow> bool" where
  "same_lists s s' \<longleftrightarrow> s' = s\<lparr>UE_sched_ctrl := UE_sched_ctrl s'\<rparr> \<and>
     (\<forall>u. ul_out_of_sync (UE_sched_ctrl s' u) = ul_out_of_sync (UE_sched_ctrl s u))"

lemma same_lists_refl [simp]: "same_lists s s"
  by (simp add: same_lists_def)

lemma same_lists_fields:
  assumes "same_lists s s'"
  shows "UE_template s' = UE_template s" "pCC_id s' = pCC_id s" "active s' = active s"
    "numactiveCCs s' = numactiveCCs s" "ordered_CCids s' = ordered_CCids s"
    "phy_stats s' = phy_stats s" "next_dl s' = next_dl s" "head s' = head s"
    "vrb_map s' = vrb_map s" "next_ul s' = next_ul s" "head_ul s' = head_ul s"
proof -
  obtain f where "s' = s\<lparr>UE_sched_ctrl := f\<rparr>" using assms unfolding same_lists_def by blast
  then show "UE_template s' = UE_template s" "pCC_id s' = pCC_id s" "active s' = active s"
    "numactiveCCs s' = numactiveCCs s" "ordered_CCids s' = ordered_CCids s"
    "phy_stats s' = phy_stats s" "next_dl s' = next_dl s" "head s' = head s"
    "vrb_map s' = vrb_map s" "next_ul s' = next_ul s" "head_ul s' = head_ul s" by simp_all
qed

lemma same_lists_trans: "same_lists s t \<Longrightarrow> same_lists t u \<Longrightarrow> same_lists s u"
  unfolding same_lists_def by (metis mac.surjective mac.update_convs(7))

lemma same_lists_RNTI: "same_lists s s' \<Longrightarrow> UE_RNTI s' ue = UE_RNTI s ue"
  by (simp add: UE_RNTI_eq same_lists_fields)

lemma same_lists_ccs: "same_lists s s' \<Longrightarrow> active_ccs s' ue = active_ccs s ue"
  by (simp add: active_ccs_def UE_num_active_CC_def same_lists_fields)

lemma same_lists_find: "same_lists s s' \<Longrightarrow> find_UE_id s' r = find_UE_id s r"
  by (rule find_UE_id_cong) (simp add: ue_matches_def same_lists_fields)

lemma same_lists_skip: "same_lists s s' \<Longrightarrow> skip_ue s' ue = skip_ue s ue"
proof -
  assume a: "same_lists s s'"
  have "phy_stats_exist s' r = phy_stats_exist s r" for r
    by (simp add: phy_stats_exist_def same_lists_find [OF a] same_lists_ccs [OF a]
        same_lists_fields [OF a])
  with a show ?thesis by (simp add: skip_ue_def same_lists_RNTI [OF a]) (simp add: same_lists_def)
qed

lemma same_lists_sched: "(\<And>c. ul_out_of_sync (f c) = ul_out_of_sync c) \<Longrightarrow>
   same_lists s (upd_sched ue f s)"
  by (simp add: same_lists_def upd_sched_def)

lemma same_lists_mark: "same_lists (fst st) (fst (mark_one unit cc ue k st))"
  by (cases st) (simp add: mark_one_def same_lists_sched)

text \<open>The groups that are taken on a carrier, and those a UE owns there.\<close>

definition taken :: "mac \<times> dl_tables \<Rightarrow> nat \<Rightarrow> int set" where
  "taken st cc = {k. group_ok k \<and> rballoc_sub (snd st) cc ! nat k \<noteq> 0}"

definition owned :: "mac \<times> dl_tables \<Rightarrow> nat \<Rightarrow> nat \<Rightarrow> int set" where
  "owned st cc ue = {k. group_ok k \<and> rballoc_sub_UE (UE_sched_ctrl (fst st) ue) cc ! nat k \<noteq> 0}"

lemma group_nat_eq: "group_ok k \<Longrightarrow> group_ok j \<Longrightarrow> nat j = nat k \<longleftrightarrow> j = k"
  by (simp add: group_ok_def eq_nat_nat_iff)

lemma taken_mark:
  assumes "rows_ok cc st" and "group_ok k"
  shows "taken (mark_one unit cc ue k st) c = (if c = cc then insert k (taken st cc) else taken st c)"
proof -
  have l: "nat k < length (rballoc_sub (snd st) cc)"
    using assms by (auto simp: rows_ok_def group_ok_def)
  have "group_ok j \<and> (rballoc_sub (snd st) cc)[nat k := 1] ! nat j \<noteq> 0 \<longleftrightarrow>
      j = k \<or> group_ok j \<and> rballoc_sub (snd st) cc ! nat j \<noteq> 0" for j
    using assms(2) l group_nat_eq [of k j] by (cases "j = k") auto
  then show ?thesis by (auto simp: taken_def)
qed

lemma owned_mark:
  assumes "rows_ok cc st" and "group_ok k"
  shows "owned (mark_one unit cc ue k st) c u
    = (if u = ue \<and> c = cc then insert k (owned st cc ue) else owned st c u)"
proof -
  let ?r = "rballoc_sub_UE (UE_sched_ctrl (fst st) ue) cc"
  have l: "nat k < length ?r" using assms by (auto simp: rows_ok_def group_ok_def)
  have "group_ok j \<and> ?r[nat k := 1] ! nat j \<noteq> 0 \<longleftrightarrow> j = k \<or> group_ok j \<and> ?r ! nat j \<noteq> 0" for j
    using assms(2) l group_nat_eq [of k j] by (cases "j = k") auto
  then show ?thesis by (auto simp: owned_def)
qed

text \<open>The effect of marking a list of groups.\<close>

lemma mark_groups_all:
  fixes unit :: int and cc ue :: nat and st :: "mac \<times> dl_tables"
  assumes "rows_ok cc st" and "\<forall>k \<in> set G. group_ok k"
  defines "st' \<equiv> fold (mark_one unit cc ue) G st"
  shows "(\<forall>c. taken st' c = (if c = cc then taken st cc \<union> set G else taken st c))
    \<and> (\<forall>c u. owned st' c u = (if u = ue \<and> c = cc then owned st cc ue \<union> set G else owned st c u))
    \<and> (\<forall>c u. pre_nb_available_rbs (UE_sched_ctrl (fst st') u) c
        = (if u = ue \<and> c = cc
           then pre_nb_available_rbs (UE_sched_ctrl (fst st) ue) cc
             + of_nat (length G) * word_of_int unit
           else pre_nb_available_rbs (UE_sched_ctrl (fst st) u) c))
    \<and> (\<forall>d. rows_ok d st' = rows_ok d st) \<and> same_lists (fst st) (fst st')
    \<and> nb_rbs_required (snd st') = nb_rbs_required (snd st)"
  unfolding st'_def using assms(1,2)
proof (induction G arbitrary: st)
  case Nil
  then show ?case by simp
next
  case (Cons k G st)
  let ?st = "mark_one unit cc ue k st"
  have ok: "rows_ok cc st" "group_ok k" "rows_ok cc ?st" "\<forall>k \<in> set G. group_ok k"
    using Cons.prems by auto
  note IH = Cons.IH [OF ok(3,4)]
  note step = taken_mark [OF ok(1,2), of unit ue] owned_mark [OF ok(1,2), of unit ue]
  have "same_lists (fst st) (fst (fold (mark_one unit cc ue) G ?st))"
    using IH same_lists_mark by (blast intro: same_lists_trans)
  with IH step show ?case by (simp add: algebra_simps)
qed

lemmas mark_groups = mark_groups_all [THEN conjunct1]
  mark_groups_all [THEN conjunct2, THEN conjunct1]
  mark_groups_all [THEN conjunct2, THEN conjunct2, THEN conjunct1]
  mark_groups_all [THEN conjunct2, THEN conjunct2, THEN conjunct2, THEN conjunct1]
  mark_groups_all [THEN conjunct2, THEN conjunct2, THEN conjunct2, THEN conjunct2, THEN conjunct1]
  mark_groups_all [THEN conjunct2, THEN conjunct2, THEN conjunct2, THEN conjunct2, THEN conjunct2]

text \<open>
  The effect of a UE on one carrier: it takes the groups \<open>G\<close>, which are the first free ones of its
  window that its need allows.
\<close>

definition cc_groups ::
  "(nat \<Rightarrow> int) \<Rightarrow> int \<Rightarrow> int \<Rightarrow> nat \<Rightarrow> nat \<Rightarrow> dl_tables \<Rightarrow> int list" where
  "cc_groups unit first quota ue cc t =
     my_take (unit cc) (nb_rbs_required t cc ue)
       (free_groups t cc [first..first + quota - 1])"

definition window_ok :: "int \<Rightarrow> int \<Rightarrow> bool" where
  "window_ok first quota \<longleftrightarrow> 0 \<le> first \<and> first + quota \<le> int N_RBG_MAX"

lemma window_groups: "window_ok first quota \<Longrightarrow> \<forall>k \<in> set [first..first + quota - 1]. group_ok k"
  by (auto simp: window_ok_def group_ok_def)

lemma cc_groups_sub:
  "set (cc_groups unit first quota ue cc t)
     \<subseteq> {k \<in> {first..<first + quota}. rballoc_sub t cc ! nat k = 0}"
  using my_take_subset [of "unit cc" "nb_rbs_required t cc ue"
      "free_groups t cc [first..first + quota - 1]"]
  by (auto simp: cc_groups_def free_groups_def)

lemma my_cc_effect:
  assumes rows: "\<And>c. rows_ok c st" and win: "window_ok first quota"
  shows "\<exists>st'. my_cc ph unit first quota ue cc st = Inr st' \<and> (\<forall>c. rows_ok c st')
    \<and> same_lists (fst st) (fst st') \<and> nb_rbs_required (snd st') = nb_rbs_required (snd st)
    \<and> (\<forall>c. taken st' c = taken st c \<union>
          (if c = cc then set (cc_groups unit first quota ue cc (snd st)) else {}))
    \<and> (\<forall>c u. owned st' c u = owned st c u \<union>
          (if u = ue \<and> c = cc then set (cc_groups unit first quota ue cc (snd st)) else {}))
    \<and> (\<forall>c u. pre_nb_available_rbs (UE_sched_ctrl (fst st') u) c =
          pre_nb_available_rbs (UE_sched_ctrl (fst st) u) c +
          (if u = ue \<and> c = cc
           then of_nat (length (cc_groups unit first quota ue cc (snd st))) * word_of_int (unit cc)
           else 0))"
proof -
  obtain s t where st: "st = (s, t)" by (cases st)
  let ?s = "if get_transmission_mode ph cc (UE_RNTI s ue) = 5
    then upd_sched ue (\<lambda>c. c\<lparr>dl_pow_off := (dl_pow_off c)(cc := 1)\<rparr>) s else s"
  let ?t = "t\<lparr>nb_rbs_remaining := upd2 (nb_rbs_remaining t) cc ue (nb_rbs_required t cc ue)\<rparr>"
  let ?ks = "[first..first + quota - 1]" and ?G = "cc_groups unit first quota ue cc t"
  have row: "rballoc_sub_UE (UE_sched_ctrl ?s u) c = rballoc_sub_UE (UE_sched_ctrl s u) c"
    and pre: "pre_nb_available_rbs (UE_sched_ctrl ?s u) c = pre_nb_available_rbs (UE_sched_ctrl s u) c"
    for u c by auto
  have rows': "rows_ok c (?s, ?t)" for c using rows [of c] row by (simp add: rows_ok_def st)
  have own: "owned (?s, ?t) c u = owned st c u" and tak: "taken (?s, ?t) c = taken st c" for c u
    unfolding st owned_def taken_def fst_conv snd_conv row by simp_all
  have lists: "same_lists s ?s" by (simp add: same_lists_sched)
  have G: "\<forall>k \<in> set ?G. group_ok k"
    using cc_groups_sub [of unit first quota ue cc t] window_groups [OF win] by auto
  have "my_cc ph unit first quota ue cc st
      = foldE (my_rbg (unit cc) cc ue) ?ks (?s, ?t)"
    by (simp add: my_cc_def st Let_def)
  also have "\<dots> = Inr (fold (mark_one (unit cc) cc ue)
      (my_take (unit cc) (nb_rbs_remaining (snd (?s, ?t)) cc ue)
        (free_groups (snd (?s, ?t)) cc ?ks)) (?s, ?t))"
    by (rule my_window [OF rows' window_groups [OF win]]) simp
  also have "free_groups (snd (?s, ?t)) cc ?ks = free_groups t cc ?ks" by (simp add: free_groups_def)
  also have "nb_rbs_remaining (snd (?s, ?t)) cc ue = nb_rbs_required t cc ue" by simp
  finally have run: "my_cc ph unit first quota ue cc st
      = Inr (fold (mark_one (unit cc) cc ue) ?G (?s, ?t))"
    unfolding cc_groups_def .
  note m = mark_groups [OF rows' [of cc] G, where unit = "unit cc" and ue = ue, rule_format]
  let ?st' = "fold (mark_one (unit cc) cc ue) ?G (?s, ?t)"
  have "same_lists (fst st) (fst ?st')" using lists m(5) by (auto simp: st intro: same_lists_trans)
  moreover have "rows_ok c ?st'" for c using m(4) rows' by simp
  moreover have "taken ?st' c = taken st c \<union> (if c = cc then set ?G else {})" for c
    by (simp add: m(1) tak)
  moreover have "owned ?st' c u = owned st c u \<union> (if u = ue \<and> c = cc then set ?G else {})" for c u
    by (simp add: m(2) own)
  moreover have "nb_rbs_required (snd ?st') = nb_rbs_required (snd st)" using m(6) by (simp add: st)
  moreover have "pre_nb_available_rbs (UE_sched_ctrl (fst ?st') u) c =
      pre_nb_available_rbs (UE_sched_ctrl (fst st) u) c +
      (if u = ue \<and> c = cc then of_nat (length ?G) * word_of_int (unit cc) else 0)" for c u
    unfolding m(3) fst_conv pre by (simp add: st)
  ultimately show ?thesis using run by (simp add: st)
qed

text \<open>
  One UE, and then all of them. \<open>grown W ue\<close> says that between two states only \<open>ue\<close> gained groups, and
  only groups of the window \<open>W\<close> that were free.
\<close>

definition grown :: "int set \<Rightarrow> nat \<Rightarrow> mac \<times> dl_tables \<Rightarrow> mac \<times> dl_tables \<Rightarrow> bool" where
  "grown W ue st st' \<longleftrightarrow> (\<forall>c. rows_ok c st') \<and> same_lists (fst st) (fst st') \<and>
     nb_rbs_required (snd st') = nb_rbs_required (snd st) \<and>
     (\<forall>c. taken st c \<subseteq> taken st' c \<and> taken st' c \<subseteq> taken st c \<union> W) \<and>
     (\<forall>c. owned st c ue \<subseteq> owned st' c ue \<and>
          owned st' c ue \<subseteq> owned st c ue \<union> (W - taken st c)) \<and>
     (\<forall>c u. u \<noteq> ue \<longrightarrow> owned st' c u = owned st c u \<and>
          pre_nb_available_rbs (UE_sched_ctrl (fst st') u) c
            = pre_nb_available_rbs (UE_sched_ctrl (fst st) u) c)"

lemma grown_refl: "(\<And>c. rows_ok c st) \<Longrightarrow> grown W ue st st"
  by (simp add: grown_def)

lemma grown_trans: "grown W ue st st' \<Longrightarrow> grown W ue st' st'' \<Longrightarrow> grown W ue st st''"
proof -
  assume a: "grown W ue st st'" and b: "grown W ue st' st''"
  from a b have "same_lists (fst st) (fst st'')" by (auto simp: grown_def intro: same_lists_trans)
  moreover from a b have "taken st c \<subseteq> taken st'' c" "taken st'' c \<subseteq> taken st c \<union> W" for c
    unfolding grown_def by blast+
  moreover from a b have "owned st c ue \<subseteq> owned st'' c ue" 
    "owned st'' c ue \<subseteq> owned st c ue \<union> (W - taken st c)" for c
    unfolding grown_def by blast+
  ultimately show ?thesis using a b by (simp add: grown_def)
qed

lemma cc_groups_free:
  assumes "window_ok first quota"
  shows "set (cc_groups unit first quota ue cc (snd st)) \<subseteq> {first..<first + quota} - taken st cc"
  using cc_groups_sub [of unit first quota ue cc "snd st"] by (auto simp: taken_def)

lemma my_cc_grown:
  assumes "\<And>c. rows_ok c st" and "window_ok first quota"
  shows "\<exists>st'. my_cc ph unit first quota ue cc st = Inr st' \<and> grown {first..<first + quota} ue st st'"
proof -
  from my_cc_effect [OF assms, of ph unit ue cc] obtain st' where
    "my_cc ph unit first quota ue cc st = Inr st'" "\<forall>c. rows_ok c st'"
    "same_lists (fst st) (fst st')" "nb_rbs_required (snd st') = nb_rbs_required (snd st)"
    "\<forall>c. taken st' c = taken st c \<union>
       (if c = cc then set (cc_groups unit first quota ue cc (snd st)) else {})"
    "\<forall>c u. owned st' c u = owned st c u \<union>
       (if u = ue \<and> c = cc then set (cc_groups unit first quota ue cc (snd st)) else {})"
    "\<forall>c u. pre_nb_available_rbs (UE_sched_ctrl (fst st') u) c =
       pre_nb_available_rbs (UE_sched_ctrl (fst st) u) c +
       (if u = ue \<and> c = cc
        then of_nat (length (cc_groups unit first quota ue cc (snd st))) * word_of_int (unit cc)
        else 0)" by blast
  moreover note cc_groups_free [OF assms(2), of unit ue cc st]
  ultimately show ?thesis unfolding grown_def by (intro exI [of _ st'] conjI) auto
qed

lemma my_ccs_grown:
  assumes "\<And>c. rows_ok c st" and "window_ok first quota"
  shows "\<exists>st'. foldE (my_cc ph unit first quota ue) ccs st = Inr st'
    \<and> grown {first..<first + quota} ue st st'"
proof (rule foldE_total)
  show "grown {first..<first + quota} ue st st" by (rule grown_refl [OF assms(1)])
next
  fix cc st1 assume g: "grown {first..<first + quota} ue st st1"
  then have "rows_ok c st1" for c by (simp add: grown_def)
  from my_cc_grown [OF this assms(2), of ph unit ue cc] grown_trans [OF g]
  show "\<exists>st2. my_cc ph unit first quota ue cc st1 = Inr st2
    \<and> grown {first..<first + quota} ue st st2" by blast
qed

definition slice_width :: "global_infos \<Rightarrow> mac \<Rightarrow> nat \<Rightarrow> int" where
  "slice_width g s ue = (if skip_ue s ue then 0
     else c_div (UE_RNTI_process_function_downlink g (int ue)) 3)"

text \<open>The start of the window of a UE relative to the start of the list.\<close>

fun slice_offset :: "(nat \<Rightarrow> int) \<Rightarrow> nat list \<Rightarrow> nat \<Rightarrow> int" where
  "slice_offset f [] ue = 0"
| "slice_offset f (x # xs) ue = (if ue = x then 0 else f x + slice_offset f xs ue)"

definition window :: "(nat \<Rightarrow> int) \<Rightarrow> int \<Rightarrow> nat list \<Rightarrow> nat \<Rightarrow> int set" where
  "window f b xs ue = {b + slice_offset f xs ue..<b + slice_offset f xs ue + f ue}"

lemma slice_offset_bounds:
  "\<forall>x \<in> set xs. 0 \<le> f x \<Longrightarrow> ue \<in> set xs \<Longrightarrow>
   0 \<le> slice_offset f xs ue \<and> slice_offset f xs ue + f ue \<le> sum_list (map f xs)"
proof (induction xs)
  case Nil
  then show ?case by simp
next
  case (Cons x xs)
  have "0 \<le> sum_list (map f xs)" using Cons.prems(1) by (intro sum_list_nonneg) auto
  with Cons show ?case by auto
qed

lemma slice_offset_order:
  "\<forall>x \<in> set xs. 0 \<le> f x \<Longrightarrow> u \<in> set xs \<Longrightarrow> v \<in> set xs \<Longrightarrow> u \<noteq> v \<Longrightarrow>
   slice_offset f xs u + f u \<le> slice_offset f xs v \<or> slice_offset f xs v + f v \<le> slice_offset f xs u"
proof (induction xs)
  case Nil
  then show ?case by simp
next
  case (Cons x xs)
  consider "u = x" "v \<in> set xs" | "v = x" "u \<in> set xs" | "u \<noteq> x" "v \<noteq> x" using Cons.prems by auto
  then show ?case
  proof cases
    case 1
    with Cons.prems slice_offset_bounds [of xs f v] show ?thesis by auto
  next
    case 2
    with Cons.prems slice_offset_bounds [of xs f u] show ?thesis by auto
  next
    case 3
    with Cons show ?thesis by auto
  qed
qed

lemma windows_disjoint:
  assumes "\<forall>x \<in> set xs. 0 \<le> f x" and "u \<in> set xs" and "v \<in> set xs" and "u \<noteq> v"
  shows "window f b xs u \<inter> window f b xs v = {}"
  using slice_offset_order [OF assms] by (auto simp: window_def)

lemma slice_width_same: "same_lists s s' \<Longrightarrow> slice_width g s' = slice_width g s"
  by (rule ext) (simp add: slice_width_def same_lists_skip)

lemma my_ue_grown:
  assumes "\<And>c. rows_ok c st" and "window_ok first (slice_width g (fst st) ue)"
  shows "\<exists>st'. my_ue g ph unit ue (first, st) = Inr (first + slice_width g (fst st) ue, st')
    \<and> grown {first..<first + slice_width g (fst st) ue} ue st st'"
proof (cases "skip_ue (fst st) ue")
  case True
  then have "my_ue g ph unit ue (first, st) = Inr (first + slice_width g (fst st) ue, st)"
    by (cases st) (simp add: my_ue_def slice_width_def)
  with grown_refl [OF assms(1)] show ?thesis by blast
next
  case False
  let ?q = "c_div (UE_RNTI_process_function_downlink g (int ue)) 3"
  have q: "slice_width g (fst st) ue = ?q" using False by (simp add: slice_width_def)
  from my_ccs_grown [OF assms(1) assms(2) [unfolded q], of ph unit ue "active_ccs (fst st) ue"]
  obtain st' where
    run: "foldE (my_cc ph unit first ?q ue) (active_ccs (fst st) ue) st = Inr st'"
    and g: "grown {first..<first + ?q} ue st st'" by blast
  have "my_ue g ph unit ue (first, st) = Inr (first + ?q, st')"
    using run False by (cases st; cases st') (simp add: my_ue_def)
  with g q show ?thesis by auto
qed

text \<open>What all UEs of a list gain, each in its own window.\<close>

definition sliced :: "(nat \<Rightarrow> int) \<Rightarrow> int \<Rightarrow> nat list \<Rightarrow> mac \<times> dl_tables \<Rightarrow> mac \<times> dl_tables \<Rightarrow> bool" where
  "sliced f b xs st st' \<longleftrightarrow> (\<forall>c. rows_ok c st') \<and> same_lists (fst st) (fst st') \<and>
     nb_rbs_required (snd st') = nb_rbs_required (snd st) \<and>
     (\<forall>c. taken st c \<subseteq> taken st' c \<and>
        taken st' c \<subseteq> taken st c \<union> {b..<b + sum_list (map f xs)}) \<and>
     (\<forall>c. \<forall>u. u \<notin> set xs \<longrightarrow> owned st' c u = owned st c u \<and>
        pre_nb_available_rbs (UE_sched_ctrl (fst st') u) c
          = pre_nb_available_rbs (UE_sched_ctrl (fst st) u) c) \<and>
     (\<forall>c. \<forall>u \<in> set xs. owned st c u \<subseteq> owned st' c u \<and>
        owned st' c u \<subseteq> owned st c u \<union> (window f b xs u - taken st c))"

lemma my_ues:
  assumes "\<And>c. rows_ok c st" and "distinct xs" and "\<forall>x \<in> set xs. 0 \<le> f x"
    and "0 \<le> b" and "b + sum_list (map f xs) \<le> int N_RBG_MAX" and "f = slice_width g (fst st)"
  shows "\<exists>st'. foldE (my_ue g ph unit) xs (b, st) = Inr (b + sum_list (map f xs), st')
    \<and> sliced f b xs st st'"
  using assms
proof (induction xs arbitrary: b st)
  case Nil
  then show ?case by (simp add: sliced_def)
next
  case (Cons x xs)
  have rest: "0 \<le> sum_list (map f xs)" using Cons.prems(3) by (intro sum_list_nonneg) auto
  with Cons.prems have "window_ok b (slice_width g (fst st) x)" by (simp add: window_ok_def)
  from my_ue_grown [OF Cons.prems(1) this, of ph unit] obtain st1 where
    r1: "my_ue g ph unit x (b, st) = Inr (b + f x, st1)"
    and g1: "grown {b..<b + f x} x st st1"
    using Cons.prems(6) by auto
  have lists: "same_lists (fst st) (fst st1)" using g1 by (simp add: grown_def)
  have "\<exists>st2. foldE (my_ue g ph unit) xs (b + f x, st1)
      = Inr (b + f x + sum_list (map f xs), st2) \<and> sliced f (b + f x) xs st1 st2"
  proof (rule Cons.IH)
    show "rows_ok c st1" for c using g1 by (simp add: grown_def)
    show "f = slice_width g (fst st1)" using Cons.prems(6) slice_width_same [OF lists] by simp
  qed (use Cons.prems rest in auto)
  then obtain st2 where
    r2: "foldE (my_ue g ph unit) xs (b + f x, st1) = Inr (b + f x + sum_list (map f xs), st2)"
    and s2: "sliced f (b + f x) xs st1 st2" by blast
  have wx: "window f b (x # xs) x = {b..<b + f x}" by (simp add: window_def)
  have wu: "window f b (x # xs) u = window f (b + f x) xs u" if "u \<noteq> x" for u
    using that by (simp add: window_def add.assoc)
  have nx: "x \<notin> set xs" using Cons.prems(2) by simp
  have "sliced f b (x # xs) st st2"
    unfolding sliced_def
  proof (intro conjI allI ballI impI)
    fix c u
    show "rows_ok c st2" using s2 by (simp add: sliced_def)
    show "taken st c \<subseteq> taken st2 c" using s2 g1 unfolding sliced_def grown_def by blast
    have "taken st2 c \<subseteq> taken st1 c \<union> {b + f x..<b + f x + sum_list (map f xs)}"
      and "taken st1 c \<subseteq> taken st c \<union> {b..<b + f x}"
      using s2 g1 by (simp_all add: sliced_def grown_def)
    moreover have "0 \<le> f x" using Cons.prems(3) by simp
    ultimately show "taken st2 c \<subseteq> taken st c \<union> {b..<b + sum_list (map f (x # xs))}"
      using rest by fastforce
    show "pre_nb_available_rbs (UE_sched_ctrl (fst st2) u) c
        = pre_nb_available_rbs (UE_sched_ctrl (fst st) u) c" if "u \<notin> set (x # xs)"
      using that s2 g1 unfolding sliced_def grown_def by auto
    show "owned st2 c u = owned st c u" if "u \<notin> set (x # xs)"
      using that s2 g1 unfolding sliced_def grown_def by auto
    show "owned st c u \<subseteq> owned st2 c u" if "u \<in> set (x # xs)"
    proof (cases "u = x")
      case True
      then show ?thesis using s2 g1 nx unfolding sliced_def grown_def by simp
    next
      case False
      with that have "owned st1 c u \<subseteq> owned st2 c u" using s2 by (simp add: sliced_def)
      moreover have "owned st1 c u = owned st c u" using g1 False by (simp add: grown_def)
      ultimately show ?thesis by simp
    qed
    show "owned st2 c u \<subseteq> owned st c u \<union> (window f b (x # xs) u - taken st c)"
      if "u \<in> set (x # xs)"
    proof (cases "u = x")
      case True
      have "owned st2 c x = owned st1 c x" using s2 nx by (simp add: sliced_def)
      then show ?thesis using g1 unfolding grown_def True wx by simp
    next
      case False
      with that have "owned st2 c u \<subseteq> owned st1 c u \<union> (window f (b + f x) xs u - taken st1 c)"
        using s2 by (simp add: sliced_def)
      moreover have "owned st1 c u = owned st c u" "taken st c \<subseteq> taken st1 c"
        using g1 False by (simp_all add: grown_def)
      ultimately show ?thesis unfolding wu [OF False] by blast
    qed
  next
    show "same_lists (fst st) (fst st2)" using lists s2 by (auto simp: sliced_def intro: same_lists_trans)
    show "nb_rbs_required (snd st2) = nb_rbs_required (snd st)"
      using g1 s2 by (simp add: sliced_def grown_def)
  qed
  with r1 r2 show ?case by (intro exI [of _ st2]) (simp add: add.assoc)
qed

text \<open>One UE on one carrier in the middle of the list: exactly what it gets.\<close>

lemma foldE_split: "foldE f (xs @ y # ys) s = bindE (foldE f xs s) (\<lambda>t. bindE (f y t) (foldE f ys))"
  by (simp add: foldE_append bindE_def split: sum.split)

lemma slice_offset_split:
  "u \<notin> set ps \<Longrightarrow> slice_offset f (ps @ u # qs) u = sum_list (map f ps)"
  by (induction ps) auto

lemma cc_groups_same:
  assumes "window_ok first quota" and "taken st1 cc \<inter> {first..<first + quota} = taken st cc \<inter> {first..<first + quota}"
    and "nb_rbs_required (snd st1) = nb_rbs_required (snd st)"
  shows "cc_groups unit first quota ue cc (snd st1) = cc_groups unit first quota ue cc (snd st)"
proof -
  have "free_groups (snd st1) cc [first..first + quota - 1]
      = free_groups (snd st) cc [first..first + quota - 1]"
    unfolding free_groups_def
  proof (rule filter_cong [OF refl])
    fix k assume k: "k \<in> set [first..first + quota - 1]"
    then have "group_ok k" using window_groups [OF assms(1)] by simp
    moreover have "k \<in> {first..<first + quota}" using k by simp
    then have "k \<in> taken st1 cc \<longleftrightarrow> k \<in> taken st cc" using assms(2) by blast
    ultimately show "(rballoc_sub (snd st1) cc ! nat k = 0) = (rballoc_sub (snd st) cc ! nat k = 0)"
      unfolding taken_def mem_Collect_eq by blast
  qed
  then show ?thesis by (simp add: cc_groups_def assms(3))
qed

lemma my_ue_single:
  assumes "\<And>c. rows_ok c st" and "window_ok first (slice_width g (fst st) ue)"
    and "\<not> skip_ue (fst st) ue" and "active_ccs (fst st) ue = [cc]"
  shows "\<exists>st'. my_ue g ph unit ue (first, st) = Inr (first + slice_width g (fst st) ue, st')
    \<and> grown {first..<first + slice_width g (fst st) ue} ue st st'
    \<and> owned st' cc ue = owned st cc ue \<union>
        set (cc_groups unit first (slice_width g (fst st) ue) ue cc (snd st))
    \<and> pre_nb_available_rbs (UE_sched_ctrl (fst st') ue) cc =
        pre_nb_available_rbs (UE_sched_ctrl (fst st) ue) cc +
        of_nat (length (cc_groups unit first (slice_width g (fst st) ue) ue cc (snd st)))
          * word_of_int (unit cc)"
proof -
  let ?q = "c_div (UE_RNTI_process_function_downlink g (int ue)) 3"
  have q: "slice_width g (fst st) ue = ?q" using assms(3) by (simp add: slice_width_def)
  note win = assms(2) [unfolded q]
  from my_cc_effect [OF assms(1) win, of ph unit ue cc] obtain st' where
    run: "my_cc ph unit first ?q ue cc st = Inr st'" and e: "(\<forall>c u. owned st' c u = owned st c u \<union>
          (if u = ue \<and> c = cc then set (cc_groups unit first ?q ue cc (snd st)) else {}))"
    "(\<forall>c u. pre_nb_available_rbs (UE_sched_ctrl (fst st') u) c =
          pre_nb_available_rbs (UE_sched_ctrl (fst st) u) c +
          (if u = ue \<and> c = cc
           then of_nat (length (cc_groups unit first ?q ue cc (snd st))) * word_of_int (unit cc)
           else 0))" by blast
  have g: "grown {first..<first + ?q} ue st st'"
    using my_cc_grown [OF assms(1) win, of ph unit ue cc] run by auto
  have "my_ue g ph unit ue (first, st) = Inr (first + ?q, st')"
    using run assms(3,4) by (cases st; cases st') (simp add: my_ue_def)
  with e g q show ?thesis by auto
qed

lemma my_ues_single:
  assumes rows: "\<And>c. rows_ok c st" and d: "distinct xs" and nn: "\<forall>x \<in> set xs. 0 \<le> f x"
    and sum: "sum_list (map f xs) \<le> int N_RBG_MAX" and f: "f = slice_width g (fst st)"
    and u: "u \<in> set xs" "\<not> skip_ue (fst st) u" "active_ccs (fst st) u = [cc]"
    and run: "foldE (my_ue g ph unit) xs (0, st) = Inr (e, st')"
  defines "G \<equiv> cc_groups unit (slice_offset f xs u) (f u) u cc (snd st)"
  shows "owned st' cc u = owned st cc u \<union> set G \<and>
    pre_nb_available_rbs (UE_sched_ctrl (fst st') u) cc =
      pre_nb_available_rbs (UE_sched_ctrl (fst st) u) cc + of_nat (length G) * word_of_int (unit cc)"
proof -
  from u(1) obtain ps qs where xs: "xs = ps @ u # qs" by (auto simp: in_set_conv_decomp)
  let ?b = "sum_list (map f ps)"
  have nu: "u \<notin> set ps" "u \<notin> set qs" using d xs by auto
  have b: "0 \<le> ?b" "0 \<le> f u" "0 \<le> sum_list (map f qs)"
    using nn xs by (auto intro!: sum_list_nonneg)
  have off: "slice_offset f xs u = ?b" using nu xs by (simp add: slice_offset_split)
  have "\<exists>st1. foldE (my_ue g ph unit) ps (0, st) = Inr (0 + ?b, st1) \<and> sliced f 0 ps st st1"
    by (rule my_ues [OF rows]) (use d nn sum xs b f in auto)
  then obtain st1 where r1: "foldE (my_ue g ph unit) ps (0, st) = Inr (?b, st1)"
    and s1: "sliced f 0 ps st st1" by auto
  have lists: "same_lists (fst st) (fst st1)" using s1 by (simp add: sliced_def)
  have f1: "slice_width g (fst st1) = f" using f slice_width_same [OF lists] by simp
  have win: "window_ok ?b (f u)" using sum xs b by (simp add: window_ok_def)
  have rows1: "rows_ok c st1" for c using s1 by (simp add: sliced_def)
  have "\<not> skip_ue (fst st1) u" "active_ccs (fst st1) u = [cc]"
    using u lists by (simp_all add: same_lists_skip same_lists_ccs)
  from my_ue_single [OF rows1 _ this, of ?b g ph unit] win f1 obtain st2 where
    r2: "my_ue g ph unit u (?b, st1) = Inr (?b + f u, st2)"
    and g2: "grown {?b..<?b + f u} u st1 st2"
    and o2: "owned st2 cc u = owned st1 cc u \<union> set (cc_groups unit ?b (f u) u cc (snd st1))"
    and p2: "pre_nb_available_rbs (UE_sched_ctrl (fst st2) u) cc =
        pre_nb_available_rbs (UE_sched_ctrl (fst st1) u) cc +
        of_nat (length (cc_groups unit ?b (f u) u cc (snd st1))) * word_of_int (unit cc)" by auto
  have rows2: "rows_ok c st2" for c using g2 by (simp add: grown_def)
  have f2: "f = slice_width g (fst st2)"
    using f1 g2 slice_width_same [of "fst st1" "fst st2" g] by (simp add: grown_def)
  have "\<exists>st3. foldE (my_ue g ph unit) qs (?b + f u, st2)
      = Inr (?b + f u + sum_list (map f qs), st3) \<and> sliced f (?b + f u) qs st2 st3"
    by (rule my_ues [OF rows2]) (use d nn sum xs b f2 in auto)
  then obtain st3 where r3: "foldE (my_ue g ph unit) qs (?b + f u, st2)
      = Inr (?b + f u + sum_list (map f qs), st3)" and s3: "sliced f (?b + f u) qs st2 st3" by blast
  have "st3 = st'" using run r1 r2 r3 by (simp add: xs foldE_split)
  have same: "taken st1 cc \<inter> {?b..<?b + f u} = taken st cc \<inter> {?b..<?b + f u}"
    using s1 b unfolding sliced_def by fastforce
  have "cc_groups unit ?b (f u) u cc (snd st1) = G"
    unfolding G_def off using s1 by (intro cc_groups_same [OF win same]) (simp add: sliced_def)
  then show ?thesis
    using s1 s3 o2 p2 nu unfolding \<open>st3 = st'\<close> sliced_def by simp
qed

text \<open>A window that runs past the last group: the read of the group map leaves the array.\<close>

lemma my_window_overflow:
  assumes "rows_ok cc st" and "0 \<le> first" and "first \<le> int N_RBG_MAX"
    and "int N_RBG_MAX < first + quota"
  shows "foldE (my_rbg unit cc ue) [first..first + quota - 1] st = Inl OutOfBounds"
proof -
  let ?ks = "[first..int N_RBG_MAX - 1]"
  have ks: "[first..first + quota - 1] = ?ks @ int N_RBG_MAX # [int N_RBG_MAX + 1..first + quota - 1]"
    using assms by (intro upto_split3) auto
  have ok: "\<forall>k \<in> set ?ks. group_ok k" using assms(2) by (auto simp: group_ok_def)
  let ?st = "fold (mark_one unit cc ue) (my_take unit (nb_rbs_remaining (snd st) cc ue)
      (free_groups (snd st) cc ?ks)) st"
  have run: "foldE (my_rbg unit cc ue) ?ks st = Inr ?st" by (rule my_window [OF assms(1) ok]) simp
  have "set (my_take unit (nb_rbs_remaining (snd st) cc ue) (free_groups (snd st) cc ?ks)) \<subseteq> set ?ks"
    using my_take_subset [of unit "nb_rbs_remaining (snd st) cc ue" "free_groups (snd st) cc ?ks"]
    by (auto simp: free_groups_def)
  then have "rows_ok cc ?st" using mark_groups(4) [OF assms(1), rule_format] ok assms(1) by blast
  then have "my_rbg unit cc ue (int N_RBG_MAX) ?st = Inl OutOfBounds"
    by (auto simp: my_rbg_def rows_ok_def aget_def in_range_def split: prod.splits)
  with run show ?thesis unfolding ks by (simp add: foldE_split)
qed

lemma my_ue_overflow:
  assumes "\<And>c. rows_ok c st" and "0 \<le> first" and "first \<le> int N_RBG_MAX"
    and "int N_RBG_MAX < first + slice_width g (fst st) ue" and "active_ccs (fst st) ue \<noteq> []"
  shows "my_ue g ph unit ue (first, st) = Inl OutOfBounds"
proof -
  obtain s t where st: "st = (s, t)" by (cases st)
  from assms(3,4) have sk: "\<not> skip_ue s ue" by (auto simp: slice_width_def st)
  let ?q = "c_div (UE_RNTI_process_function_downlink g (int ue)) 3"
  have q: "slice_width g s ue = ?q" using sk by (simp add: slice_width_def)
  from assms(5) obtain cc ccs where ccs: "active_ccs s ue = cc # ccs"
    unfolding st fst_conv by (cases "active_ccs s ue") auto
  let ?s = "if get_transmission_mode ph cc (UE_RNTI s ue) = 5
    then upd_sched ue (\<lambda>c. c\<lparr>dl_pow_off := (dl_pow_off c)(cc := 1)\<rparr>) s else s"
  let ?t = "t\<lparr>nb_rbs_remaining := upd2 (nb_rbs_remaining t) cc ue (nb_rbs_required t cc ue)\<rparr>"
  have "rows_ok cc (?s, ?t)" using assms(1) [of cc] by (simp add: rows_ok_def st)
  from my_window_overflow [OF this assms(2,3), of ?q "unit cc" ue] assms(4) q
  have "my_cc ph unit first ?q ue cc (s, t) = Inl OutOfBounds"
    unfolding st by (simp add: my_cc_def Let_def)
  with sk ccs show ?thesis by (simp add: my_ue_def st)
qed

section \<open>The concrete subframe\<close>

lemma example_rows: "rows_ok c (example_mac, example_tables)"
  by (simp add: rows_ok_def example_sched zero_sched_ctrl_def example_tables_def)

lemma example_owned: "owned (example_mac, example_tables) c u = {}"
  by (auto simp: owned_def group_ok_def example_sched zero_sched_ctrl_def nat_less_iff)

lemma example_width: "map (slice_width (Initialization Global_Info_static) example_mac) [0, 1] = [3, 3]"
  by code_simp

section \<open>Properties\<close>

text \<open>C1. Slice isolation: when the quotas of the listed UEs are not negative and their windows fit in
  the 25 groups, the slicing algorithm returns, and on every carrier each UE owns only groups of its
  own window, which starts where the windows of the UEs before it end, is a third of its quota wide
  and excludes groups already taken; no group belongs to two UEs.\<close>

theorem slices_isolated:
  assumes "\<And>c. rows_ok c (s, t)" and "\<And>c u. owned (s, t) c u = {}" and "dl_list s = Inr xs"
    and "\<And>u. u \<in> set xs \<Longrightarrow> 0 \<le> slice_width g s u"
    and "sum_list (map (slice_width g s) xs) \<le> int N_RBG_MAX"
  shows "\<exists>st'. dlsch_my_scheduler_pre_processor g ph unit (s, t) = Inr st'
    \<and> (\<forall>c. \<forall>u \<in> set xs. owned st' c u \<subseteq> {slice_offset (slice_width g s) xs u
          ..<slice_offset (slice_width g s) xs u + slice_width g s u} - taken (s, t) c)
    \<and> (\<forall>c. \<forall>u \<in> set xs. card (owned st' c u) \<le> nat (slice_width g s u))
    \<and> (\<forall>c. \<forall>u \<in> set xs. \<forall>v \<in> set xs. u \<noteq> v \<longrightarrow> owned st' c u \<inter> owned st' c v = {})"
proof -
  let ?f = "slice_width g s"
  have "\<exists>st'. foldE (my_ue g ph unit) xs (0, (s, t)) = Inr (0 + sum_list (map ?f xs), st')
      \<and> sliced ?f 0 xs (s, t) st'"
    by (rule my_ues [OF assms(1)]) (use assms dl_list_distinct in auto)
  then obtain st' where run: "foldE (my_ue g ph unit) xs (0, s, t) = Inr (sum_list (map ?f xs), st')"
    and sl: "sliced ?f 0 xs (s, t) st'" by auto
  have "dlsch_my_scheduler_pre_processor g ph unit (s, t) = Inr st'"
    using assms(3) run by (cases st') (simp add: dlsch_my_scheduler_pre_processor_def)
  moreover have own: "owned st' c u \<subseteq> window ?f 0 xs u - taken (s, t) c" if "u \<in> set xs" for c u
    using sl that assms(2) by (simp add: sliced_def)
  moreover have "card (owned st' c u) \<le> nat (?f u)" if "u \<in> set xs" for c u
  proof -
    have "card (owned st' c u) \<le> card (window ?f 0 xs u)"
      using own [OF that] by (intro card_mono) (auto simp: window_def)
    then show ?thesis by (simp add: window_def)
  qed
  moreover have "owned st' c u \<inter> owned st' c v = {}"
    if "u \<in> set xs" "v \<in> set xs" "u \<noteq> v" for c u v
    using own [OF that(1)] own [OF that(2)] windows_disjoint [of xs ?f u v 0] that assms(4) by blast
  ultimately show ?thesis by (auto simp: window_def)
qed

theorem slices_isolated_witness:
  "\<exists>st'. dlsch_my_scheduler_pre_processor (Initialization Global_Info_static) example_phy
      (\<lambda>_. 2) (example_mac, example_tables) = Inr st' \<and> owned st' 0 0 \<inter> owned st' 0 1 = {}"
proof -
  let ?g = "Initialization Global_Info_static"
  have w: "slice_width ?g example_mac 0 = 3" "slice_width ?g example_mac 1 = 3"
    using example_width by simp_all
  have nn: "0 \<le> slice_width ?g example_mac u" if "u \<in> set [0, 1]" for u using that w by auto
  have "sum_list (map (slice_width ?g example_mac) [0, 1]) \<le> int N_RBG_MAX"
    using w by (simp add: N_RBG_MAX_def)
  from slices_isolated [OF example_rows example_owned example_list nn this, of example_phy "\<lambda>_. 2"]
  show ?thesis by auto
qed

text \<open>C10. What one UE gets exactly: on its only carrier, a UE whose need is a multiple of the block unit
  takes the first free groups of its window that cover the need, or all of them; a UE whose need is
  not a multiple takes every free group of its window, because the unsigned count-down passes zero.
  Its available blocks grow by the unit for every group.\<close>

theorem slice_allocation_exact:
  assumes "\<And>c. rows_ok c (s, t)" and "\<And>c u. owned (s, t) c u = {}" and "dl_list s = Inr xs"
    and "\<And>u. u \<in> set xs \<Longrightarrow> 0 \<le> slice_width g s u"
    and "sum_list (map (slice_width g s) xs) \<le> int N_RBG_MAX"
    and "ue \<in> set xs" and "\<not> skip_ue s ue" and "active_ccs s ue = [cc]"
    and "0 < unit cc" and "unit cc \<le> 4"
    and "dlsch_my_scheduler_pre_processor g ph unit (s, t) = Inr st'"
  defines "first \<equiv> slice_offset (slice_width g s) xs ue"
    and "need \<equiv> uint (nb_rbs_required t cc ue)"
  defines "F \<equiv> filter (\<lambda>k. rballoc_sub t cc ! nat k = 0) [first..first + slice_width g s ue - 1]"
  defines "G \<equiv> if unit cc dvd need then take (nat (need div unit cc)) F else F"
  shows "owned st' cc ue = set G
    \<and> pre_nb_available_rbs (UE_sched_ctrl (fst st') ue) cc
        = pre_nb_available_rbs (UE_sched_ctrl s ue) cc + of_nat (length G) * word_of_int (unit cc)"
proof -
  let ?f = "slice_width g s"
  have d: "distinct xs" and nn: "\<forall>x \<in> set xs. 0 \<le> ?f x"
    using assms(3,4) by (auto dest: dl_list_distinct)
  from assms(3,11) obtain e where run: "foldE (my_ue g ph unit) xs (0, s, t) = Inr (e, st')"
    by (auto simp: dlsch_my_scheduler_pre_processor_def elim!: bindE_eq_InrE)
  have "0 \<le> first" "first + ?f ue \<le> int N_RBG_MAX"
    using slice_offset_bounds [OF nn assms(6)] assms(5) by (auto simp: first_def)
  then have "length [first..first + ?f ue - 1] \<le> 25" by (simp add: N_RBG_MAX_def)
  then have "length F \<le> 25"
    unfolding F_def using length_filter_le order_trans by blast
  then have "cc_groups unit first (?f ue) ue cc t = G"
    unfolding cc_groups_def G_def need_def F_def free_groups_def
    by (rule my_take_count [OF assms(9,10)])
  with my_ues_single [OF assms(1) d nn assms(5) _ assms(6) _ _ run, of cc] assms(2,7,8)
  show ?thesis by (simp add: first_def)
qed

theorem slice_allocation_exact_witness:
  "\<exists>st'. dlsch_my_scheduler_pre_processor (Initialization Global_Info_static) example_phy
      (\<lambda>_. 2) (example_mac, example_tables) = Inr st' \<and> owned st' 0 1 = {3, 4}
      \<and> pre_nb_available_rbs (UE_sched_ctrl (fst st') 1) 0 = 4"
proof -
  let ?g = "Initialization Global_Info_static" and ?w = "slice_width (Initialization Global_Info_static) example_mac"
  have w: "?w 0 = 3" "?w 1 = 3" using example_width by simp_all
  have nn: "0 \<le> ?w u" if "u \<in> set [0, 1]" for u using that w by auto
  have sum: "sum_list (map ?w [0, 1]) \<le> int N_RBG_MAX" using w by (simp add: N_RBG_MAX_def)
  have "\<exists>st'. foldE (my_ue ?g example_phy (\<lambda>_. 2)) [0, 1] (0, example_mac, example_tables)
      = Inr (0 + sum_list (map ?w [0, 1]), st') \<and> sliced ?w 0 [0, 1] (example_mac, example_tables) st'"
    by (rule my_ues [OF example_rows]) (use nn sum in auto)
  then obtain st' where r: "dlsch_my_scheduler_pre_processor ?g example_phy (\<lambda>_. 2)
      (example_mac, example_tables) = Inr st'"
    by (auto simp: dlsch_my_scheduler_pre_processor_def example_list)
  have sk: "\<not> skip_ue example_mac 1" and cc: "active_ccs example_mac 1 = [0]" by code_simp+
  have u: "1 \<in> set [0, 1 :: nat]" and unit: "0 < (2 :: int)" "(2 :: int) \<le> 4" by simp_all
  have off: "slice_offset ?w [0, 1] 1 = 3" using w by simp
  have F: "filter (\<lambda>k. rballoc_sub example_tables 0 ! nat k = 0) [3..3 + 3 - 1] = [3, 4, 5]" by code_simp
  have need: "uint (nb_rbs_required example_tables 0 1) = 4" by (simp add: example_tables_def)
  have pre: "pre_nb_available_rbs (UE_sched_ctrl example_mac 1) 0 = 0"
    by (simp add: example_sched zero_sched_ctrl_def)
  from slice_allocation_exact [OF example_rows example_owned example_list nn sum u sk cc unit r]
  have "owned st' 0 1 = {3, 4} \<and> pre_nb_available_rbs (UE_sched_ctrl (fst st') 1) 0 = 4"
    unfolding off w F need pre by simp
  with r show ?thesis by blast
qed

text \<open>C28. When the quotas before a UE fit in the 25 groups and its own window does not, the slicing
  algorithm reads the group map outside its array: the quotas the hypervisor sends are not checked
  against the number of groups.\<close>

theorem slice_window_overflow:
  assumes "\<And>c. rows_ok c (s, t)" and "dl_list s = Inr (ps @ ue # qs)"
    and "\<And>u. u \<in> set ps \<Longrightarrow> 0 \<le> slice_width g s u"
    and "sum_list (map (slice_width g s) ps) \<le> int N_RBG_MAX"
    and "int N_RBG_MAX < sum_list (map (slice_width g s) ps) + slice_width g s ue"
    and "active_ccs s ue \<noteq> []"
  shows "dlsch_my_scheduler_pre_processor g ph unit (s, t) = Inl OutOfBounds"
proof -
  let ?f = "slice_width g s" and ?b = "sum_list (map (slice_width g s) ps)"
  have b: "0 \<le> ?b" using assms(3) by (intro sum_list_nonneg) auto
  have d: "distinct ps" using dl_list_distinct [OF assms(2)] by simp
  have "\<exists>st'. foldE (my_ue g ph unit) ps (0, (s, t)) = Inr (0 + ?b, st') \<and> sliced ?f 0 ps (s, t) st'"
    by (rule my_ues [OF assms(1) d]) (use assms(3,4) in auto)
  then obtain st1 where r1: "foldE (my_ue g ph unit) ps (0, s, t) = Inr (?b, st1)"
    and s1: "sliced ?f 0 ps (s, t) st1" by auto
  have lists: "same_lists s (fst st1)" and rows: "\<And>c. rows_ok c st1"
    using s1 by (simp_all add: sliced_def)
  have "my_ue g ph unit ue (?b, st1) = Inl OutOfBounds"
    using assms(4,5,6) b slice_width_same [OF lists, of g] same_lists_ccs [OF lists, of ue]
    by (intro my_ue_overflow [OF rows]) auto
  with r1 show ?thesis
    by (simp add: dlsch_my_scheduler_pre_processor_def assms(2) foldE_split)
qed

theorem slice_window_overflow_witness:
  "dlsch_my_scheduler_pre_processor (set_quota 1 10 90 (Initialization Global_Info_static))
      example_phy (\<lambda>_. 2) (example_mac, example_tables) = Inl OutOfBounds"
proof -
  let ?w = "slice_width (set_quota 1 10 90 (Initialization Global_Info_static)) example_mac"
  have "map ?w [0, 1] = [3, 30]" by code_simp
  then have w: "?w 0 = 3" "?w 1 = 30" by simp_all
  have l: "dl_list example_mac = Inr ([0] @ 1 # [])" by (simp add: example_list)
  have cc: "active_ccs example_mac 1 \<noteq> []" by code_simp
  show ?thesis
    by (rule slice_window_overflow [OF example_rows l _ _ _ cc]) (use w in \<open>auto simp: N_RBG_MAX_def\<close>)
qed

end
