(* ===== verification/DlReset.thy ===== *)
theory DlReset
  imports DlSlicing
begin

text \<open>
  What the reset of the downlink pre-processor leaves behind for the allocation: the map of groups that
  common messages and the protected centre of subframe 0 occupy, an empty allocation of the UE, and the
  periodic timing advance. The definitions are in \<open>DlPre\<close>.
\<close>

section \<open>Facts about the reset\<close>

lemma vrb_taken_ok:
  "0 \<le> c \<Longrightarrow> c + int n \<le> int (length vm) \<Longrightarrow>
   vrb_taken vm c n = Inr (\<exists>j < n. vm ! nat (c + int j) \<noteq> 0)"
proof (induction n arbitrary: c)
  case 0
  then show ?case by simp
next
  case (Suc n)
  have r: "aget vm c = Inr (vm ! nat c)" using Suc.prems by (simp add: aget_def in_range_def)
  have "(\<exists>j < Suc n. vm ! nat (c + int j) \<noteq> 0)
      \<longleftrightarrow> vm ! nat c \<noteq> 0 \<or> (\<exists>j < n. vm ! nat (c + 1 + int j) \<noteq> 0)"
    unfolding Ex_less_Suc2 by (simp add: add.commute add.left_commute)
  with Suc.IH [of "c + 1"] Suc.prems r show ?case by simp
qed

text \<open>Is group \<open>i\<close> occupied before any UE is served.\<close>

definition reserved ::
  "u8 list \<Rightarrow> int \<Rightarrow> int \<Rightarrow> nat \<times> nat \<Rightarrow> int \<times> int \<Rightarrow> int \<Rightarrow> bool" where
  "reserved vm n_rbg subframe sizes sf0 i \<longleftrightarrow>
     subframe = 0 \<and> fst sf0 \<le> i \<and> i \<le> snd sf0 \<or>
     (\<exists>j < (if i = n_rbg - 1 then snd sizes else fst sizes). vm ! nat (i * int (fst sizes) + int j) \<noteq> 0)"

definition reset_one :: "nat \<Rightarrow> nat \<Rightarrow> u8 \<Rightarrow> int \<Rightarrow> mac \<times> dl_tables \<Rightarrow> mac \<times> dl_tables" where
  "reset_one cc ue v i st = (case st of (s, t) \<Rightarrow>
     (upd_sched ue (\<lambda>c. c\<lparr>rballoc_sub_UE := (rballoc_sub_UE c)
         (cc := (rballoc_sub_UE c cc)[nat i := 0])\<rparr>) s,
      t\<lparr>rballoc_sub := (rballoc_sub t)(cc := (rballoc_sub t cc)[nat i := v]),
        MIMO_mode := (MIMO_mode t)(cc := (MIMO_mode t cc)[nat i := 2])\<rparr>))"

lemma reset_one_simps [simp]:
  "rballoc_sub (snd (reset_one cc ue v i st)) c =
     (if c = cc then (rballoc_sub (snd st) cc)[nat i := v] else rballoc_sub (snd st) c)"
  "MIMO_mode (snd (reset_one cc ue v i st)) c =
     (if c = cc then (MIMO_mode (snd st) cc)[nat i := 2] else MIMO_mode (snd st) c)"
  "rballoc_sub_UE (UE_sched_ctrl (fst (reset_one cc ue v i st)) u) c =
     (if u = ue \<and> c = cc then (rballoc_sub_UE (UE_sched_ctrl (fst st) ue) cc)[nat i := 0]
      else rballoc_sub_UE (UE_sched_ctrl (fst st) u) c)"
  "pre_nb_available_rbs (UE_sched_ctrl (fst (reset_one cc ue v i st)) u)
     = pre_nb_available_rbs (UE_sched_ctrl (fst st) u)"
  "dl_pow_off (UE_sched_ctrl (fst (reset_one cc ue v i st)) u)
     = dl_pow_off (UE_sched_ctrl (fst st) u)"
  "ta_timer (UE_sched_ctrl (fst (reset_one cc ue v i st)) u) = ta_timer (UE_sched_ctrl (fst st) u)"
  "ta_update (UE_sched_ctrl (fst (reset_one cc ue v i st)) u) = ta_update (UE_sched_ctrl (fst st) u)"
  "nb_rbs_required (snd (reset_one cc ue v i st)) = nb_rbs_required (snd st)"
  "nb_rbs_remaining (snd (reset_one cc ue v i st)) = nb_rbs_remaining (snd st)"
  "vrb_map (fst (reset_one cc ue v i st)) = vrb_map (fst st)"
  "phy_stats (fst (reset_one cc ue v i st)) = phy_stats (fst st)"
  by (simp_all add: reset_one_def upd_sched_def split: prod.splits)

lemma rows_ok_reset_one [simp]: "rows_ok c (reset_one cc ue v i st) = rows_ok c st"
  by (auto simp: rows_ok_def)

text \<open>The block map reaches to the last block of the last group.\<close>

definition map_covers :: "u8 list \<Rightarrow> int \<Rightarrow> nat \<times> nat \<Rightarrow> bool" where
  "map_covers vm n_rbg sizes \<longleftrightarrow> snd sizes \<le> fst sizes \<and>
     (n_rbg - 1) * int (fst sizes) + int (snd sizes) \<le> int (length vm)"

lemma map_covers_group:
  assumes "map_covers vm n_rbg sizes" and "0 \<le> i" and "i < n_rbg"
  shows "i * int (fst sizes) + int (if i = n_rbg - 1 then snd sizes else fst sizes)
    \<le> int (length vm)"
proof (cases "i = n_rbg - 1")
  case True
  with assms show ?thesis by (simp add: map_covers_def)
next
  case False
  then have "(i + 1) * int (fst sizes) \<le> (n_rbg - 1) * int (fst sizes)"
    using assms(3) by (intro mult_right_mono) auto
  with False assms show ?thesis by (simp add: map_covers_def distrib_right)
qed

lemma reset_rbg_ok:
  assumes "rows_ok cc st" and "group_ok i" and "i < n_rbg"
    and "map_covers (vrb_map (fst st) cc) n_rbg sizes"
  shows "reset_rbg cc ue n_rbg subframe sizes sf0 i st =
    Inr (reset_one cc ue
      (if reserved (vrb_map (fst st) cc) n_rbg subframe sizes sf0 i then 1 else 0) i st)"
proof -
  obtain s t where st: "st = (s, t)" by (cases st)
  obtain lo hi where sf: "sf0 = (lo, hi)" by (cases sf0)
  obtain sz szl where sizes: "sizes = (sz, szl)" by (cases sizes)
  let ?v = "if subframe = 0 \<and> lo \<le> i \<and> i \<le> hi then 1 else 0 :: u8"
  let ?rs = "(rballoc_sub t)(cc := (rballoc_sub t cc)[nat i := ?v])"
  from assms(1,2) st have r: "in_range (rballoc_sub t cc) i" "in_range (MIMO_mode t cc) i"
    "in_range (rballoc_sub_UE (UE_sched_ctrl s ue) cc) i"
    by (auto simp: rows_ok_def group_ok_def in_range_def)
  then have a: "upd_row (rballoc_sub_UE (UE_sched_ctrl s ue)) cc i 0
      = Inr ((rballoc_sub_UE (UE_sched_ctrl s ue))
          (cc := (rballoc_sub_UE (UE_sched_ctrl s ue) cc)[nat i := 0]))"
    and b: "upd_row (rballoc_sub t) cc i ?v = Inr ?rs"
    and c: "upd_row ?rs cc i 1 = Inr (?rs(cc := (?rs cc)[nat i := 1]))"
    and d: "upd_row (MIMO_mode t) cc i 2 = Inr ((MIMO_mode t)(cc := (MIMO_mode t cc)[nat i := 2]))"
    by (simp_all add: upd_row_def aset_def)
  have "0 \<le> i * int sz" using assms(2) by (simp add: group_ok_def)
  with map_covers_group [OF assms(4) _ assms(3)] assms(2)
  have v: "vrb_taken (vrb_map s cc) (i * int sz) (if i = n_rbg - 1 then szl else sz)
      = Inr (\<exists>j < (if i = n_rbg - 1 then szl else sz). vrb_map s cc ! nat (i * int sz + int j) \<noteq> 0)"
    by (intro vrb_taken_ok) (auto simp: sizes st group_ok_def)
  show ?thesis
    unfolding reset_rbg_def reset_one_def st sf sizes prod.case Let_def a b v bindE_Inr reserved_def
      fst_conv snd_conv
    by (simp add: c d upd_sched_def split del: if_split split: if_split_asm)
       (auto simp: c d)
qed

lemma reset_groups:
  assumes "rows_ok cc st" and "\<forall>i \<in> set ks. group_ok i \<and> i < n_rbg"
    and "map_covers (vrb_map (fst st) cc) n_rbg sizes"
  shows "foldE (reset_rbg cc ue n_rbg subframe sizes sf0) ks st =
    Inr (fold (\<lambda>i. reset_one cc ue
      (if reserved (vrb_map (fst st) cc) n_rbg subframe sizes sf0 i then 1 else 0) i) ks st)"
  using assms
proof (induction ks arbitrary: st)
  case Nil
  then show ?case by simp
next
  case (Cons i ks)
  let ?v = "if reserved (vrb_map (fst st) cc) n_rbg subframe sizes sf0 i then 1 else 0 :: u8"
  have "reset_rbg cc ue n_rbg subframe sizes sf0 i st = Inr (reset_one cc ue ?v i st)"
    using Cons.prems by (intro reset_rbg_ok) auto
  moreover note Cons.IH [of "reset_one cc ue ?v i st"]
  ultimately show ?case using Cons.prems by simp
qed

text \<open>The rows after the loop.\<close>

lemma fold_reset_rows:
  "rballoc_sub (snd (fold (\<lambda>i. reset_one cc ue (v i) i) ks st)) cc
     = fold (\<lambda>i row. row[nat i := v i]) ks (rballoc_sub (snd st) cc)"
  "MIMO_mode (snd (fold (\<lambda>i. reset_one cc ue (v i) i) ks st)) cc
     = fold (\<lambda>i row. row[nat i := 2]) ks (MIMO_mode (snd st) cc)"
  "rballoc_sub_UE (UE_sched_ctrl (fst (fold (\<lambda>i. reset_one cc ue (v i) i) ks st)) ue) cc
     = fold (\<lambda>i row. row[nat i := 0]) ks (rballoc_sub_UE (UE_sched_ctrl (fst st) ue) cc)"
  by (induction ks arbitrary: st) simp_all

lemma fold_reset_other:
  "pre_nb_available_rbs (UE_sched_ctrl (fst (fold (\<lambda>i. reset_one cc ue (v i) i) ks st)) u)
     = pre_nb_available_rbs (UE_sched_ctrl (fst st) u)"
  "dl_pow_off (UE_sched_ctrl (fst (fold (\<lambda>i. reset_one cc ue (v i) i) ks st)) u)
     = dl_pow_off (UE_sched_ctrl (fst st) u)"
  "ta_timer (UE_sched_ctrl (fst (fold (\<lambda>i. reset_one cc ue (v i) i) ks st)) u)
     = ta_timer (UE_sched_ctrl (fst st) u)"
  "ta_update (UE_sched_ctrl (fst (fold (\<lambda>i. reset_one cc ue (v i) i) ks st)) u)
     = ta_update (UE_sched_ctrl (fst st) u)"
  "nb_rbs_required (snd (fold (\<lambda>i. reset_one cc ue (v i) i) ks st)) = nb_rbs_required (snd st)"
  "phy_stats (fst (fold (\<lambda>i. reset_one cc ue (v i) i) ks st)) = phy_stats (fst st)"
  "u \<noteq> ue \<Longrightarrow> rballoc_sub_UE (UE_sched_ctrl (fst (fold (\<lambda>i. reset_one cc ue (v i) i) ks st)) u)
     = rballoc_sub_UE (UE_sched_ctrl (fst st) u)"
  by (induction ks arbitrary: st) (simp_all add: fun_eq_iff)

lemma fold_update_nth:
  "distinct ks \<Longrightarrow> \<forall>i \<in> set ks. 0 \<le> i \<and> nat i < length row \<Longrightarrow> 0 \<le> k \<Longrightarrow> nat k < length row \<Longrightarrow>
   fold (\<lambda>i row. row[nat i := v i]) ks row ! nat k = (if k \<in> set ks then v k else row ! nat k)"
proof (induction ks arbitrary: row)
  case Nil
  then show ?case by simp
next
  case (Cons i ks)
  have "nat i = nat k \<longleftrightarrow> i = k" using Cons.prems by auto
  with Cons show ?case by (auto simp: nth_list_update)
qed

lemma group_upto:
  assumes "n_rbg \<le> int N_RBG_MAX"
  shows "\<forall>i \<in> set [0..n_rbg - 1]. group_ok i \<and> i < n_rbg"
  using assms by (auto simp: group_ok_def)

lemma fold_reset_values:
  fixes v :: "int \<Rightarrow> u8" and ue :: nat
  assumes "rows_ok cc st" and "n_rbg \<le> int N_RBG_MAX" and "i \<in> {0..<n_rbg}"
  defines "st' \<equiv> fold (\<lambda>i. reset_one cc ue (v i) i) [0..n_rbg - 1] st"
  shows "rballoc_sub_UE (UE_sched_ctrl (fst st') ue) cc ! nat i = 0
    \<and> MIMO_mode (snd st') cc ! nat i = 2 \<and> rballoc_sub (snd st') cc ! nat i = v i"
proof -
  have g: "nat i < N_RBG_MAX" "0 \<le> i" "i \<in> set [0..n_rbg - 1]" using assms(2,3) by auto
  have l: "\<forall>j \<in> set [0..n_rbg - 1]. 0 \<le> j \<and> nat j < N_RBG_MAX" using assms(2) by auto
  have rows: "length (rballoc_sub (snd st) cc) = N_RBG_MAX" "length (MIMO_mode (snd st) cc) = N_RBG_MAX"
    "length (rballoc_sub_UE (UE_sched_ctrl (fst st) ue) cc) = N_RBG_MAX"
    using assms(1) by (auto simp: rows_ok_def)
  have "fold (\<lambda>i row. row[nat i := f i]) [0..n_rbg - 1] row ! nat i = f i"
    if "length row = N_RBG_MAX" for f and row :: "u8 list"
    using fold_update_nth [of "[0..n_rbg - 1]" row i f] g l that by simp
  then show ?thesis unfolding st'_def fold_reset_rows using rows by simp
qed

text \<open>The state before the loop over the groups.\<close>

lemma reset_prepared:
  assumes "phy_stats s cc (UE_RNTI s ue) = Some stats"
  shows "\<exists>s3 t1.
    (\<forall>n_rbg. dlsch_scheduler_pre_processor_reset ph subframe ue cc n_rbg (s, t) =
       bindE (rbg_sizes (N_RB_DL ph cc)) (\<lambda>sizes. bindE (sf0_limits n_rbg) (\<lambda>sf0.
       foldE (reset_rbg cc ue n_rbg subframe sizes sf0) [0..n_rbg - 1] (s3, t1))))
    \<and> (\<forall>c. rows_ok c (s3, t1) = rows_ok c (s, t))
    \<and> (\<forall>u. rballoc_sub_UE (UE_sched_ctrl s3 u) = rballoc_sub_UE (UE_sched_ctrl s u))
    \<and> vrb_map s3 = vrb_map s \<and> nb_rbs_required t1 cc ue = 0
    \<and> pre_nb_available_rbs (UE_sched_ctrl s3 ue) cc = 0
    \<and> (ta_timer (UE_sched_ctrl s ue) = 0 \<longrightarrow> ta_timer (UE_sched_ctrl s3 ue) = 20
        \<and> phy_stats s3 cc (UE_RNTI s ue) = Some (stats\<lparr>timing_advance_update := 0\<rparr>)
        \<and> (N_RB_DL ph cc = 25 \<longrightarrow> ta_update (UE_sched_ctrl s3 ue)
             = sint (word_of_int (c_div (timing_advance_update stats) 4) :: 16 word)))
    \<and> (ta_timer (UE_sched_ctrl s ue) \<noteq> 0 \<longrightarrow>
        ta_timer (UE_sched_ctrl s3 ue) = ta_timer (UE_sched_ctrl s ue) - 1
        \<and> phy_stats s3 = phy_stats s \<and> ta_update (UE_sched_ctrl s3 ue) = 0)"
proof -
  let ?r = "UE_RNTI s ue" and ?c = "UE_sched_ctrl s ue"
  obtain pid rnd where h: "get_ue_active_harq_pid ph cc ?r (harq_pid ?c cc, harq_round ?c cc) = (pid, rnd)"
    by (cases "get_ue_active_harq_pid ph cc ?r (harq_pid ?c cc, harq_round ?c cc)")
  let ?s1 = "upd_sched ue (\<lambda>c. c\<lparr>harq_pid := (harq_pid c)(cc := pid),
                    harq_round := (harq_round c)(cc := rnd)\<rparr>) s"
  let ?s3 = "upd_sched ue (\<lambda>c. c\<lparr>pre_nb_available_rbs := (pre_nb_available_rbs c)(cc := 0),
                    dl_pow_off := (dl_pow_off c)(cc := 2)\<rparr>) (reset_ta ph cc ue ?r stats ?s1)"
  let ?t1 = "t\<lparr>nb_rbs_required := upd2 (nb_rbs_required t) cc ue 0,
                    nb_rbs_remaining := upd2 (nb_rbs_remaining t) cc ue 0\<rparr>"
  have row: "rballoc_sub_UE (UE_sched_ctrl ?s3 u) = rballoc_sub_UE (UE_sched_ctrl s u)" for u
    by (simp add: reset_ta_def upd_stats_def upd_sched_def)
  show ?thesis
  proof (intro exI [of _ ?s3] exI [of _ ?t1] conjI allI)
    show "dlsch_scheduler_pre_processor_reset ph subframe ue cc n_rbg (s, t) =
       bindE (rbg_sizes (N_RB_DL ph cc)) (\<lambda>sizes. bindE (sf0_limits n_rbg) (\<lambda>sf0.
       foldE (reset_rbg cc ue n_rbg subframe sizes sf0) [0..n_rbg - 1] (?s3, ?t1)))" for n_rbg
      by (simp add: dlsch_scheduler_pre_processor_reset_def assms Let_def h)
    show "rows_ok c (?s3, ?t1) = rows_ok c (s, t)" for c using row by (simp add: rows_ok_def)
    show "rballoc_sub_UE (UE_sched_ctrl ?s3 u) = rballoc_sub_UE (UE_sched_ctrl s u)" for u by (rule row)
  qed (auto simp: reset_ta_def upd_stats_def upd_sched_def assms ta_divisor_def)
qed

lemma sint_ta:
  assumes "\<bar>x\<bar> < 2 ^ 15"
  shows "sint (word_of_int (c_div x 4) :: 16 word) = c_div x 4"
proof -
  have "\<bar>x\<bar> div 4 \<le> \<bar>x\<bar>" by simp
  then have "\<bar>c_div x 4\<bar> < 2 ^ 15" using assms by (auto simp: c_div_def abs_mult abs_sgn_eq)
  then show ?thesis by (simp add: signed_of_int signed_take_bit_int_eq_self abs_less_iff)
qed

lemma reset_runs:
  assumes "phy_stats s cc (UE_RNTI s ue) = Some stats" and "rows_ok cc (s, t)"
    and "rbg_sizes (N_RB_DL ph cc) = Inr sizes" and "sf0_limits n_rbg = Inr sf0"
    and "map_covers (vrb_map s cc) n_rbg sizes"
  shows "\<exists>s' t'. dlsch_scheduler_pre_processor_reset ph subframe ue cc n_rbg (s, t) = Inr (s', t')"
proof -
  obtain s3 t1 where run: "\<forall>n_rbg. dlsch_scheduler_pre_processor_reset ph subframe ue cc n_rbg (s, t) =
       bindE (rbg_sizes (N_RB_DL ph cc)) (\<lambda>sizes. bindE (sf0_limits n_rbg) (\<lambda>sf0.
       foldE (reset_rbg cc ue n_rbg subframe sizes sf0) [0..n_rbg - 1] (s3, t1)))"
    and p: "\<forall>c. rows_ok c (s3, t1) = rows_ok c (s, t)" "vrb_map s3 = vrb_map s"
    using reset_prepared [OF assms(1), of ph subframe t] by blast
  have rows: "rows_ok cc (s3, t1)" using assms(2) p(1) by simp
  have n: "n_rbg \<le> int N_RBG_MAX"
    using assms(4) by (auto simp: sf0_limits_def N_RBG_MAX_def split: if_splits)
  show ?thesis
    using reset_groups [OF rows group_upto [OF n], of sizes ue subframe sf0] assms(5)
    by (simp add: run assms(3,4) p(2))
qed

section \<open>Properties\<close>

text \<open>C30. After the reset of a UE that the physical layer knows, its allocation is empty and its need is
  zero, and a group of the carrier is marked occupied exactly if it lies in the protected centre of
  subframe 0 or one of its blocks carries a common message.\<close>

theorem reset_clears_and_reserves:
  assumes "phy_stats s cc (UE_RNTI s ue) = Some stats" and "\<And>c. rows_ok c (s, t)"
    and "rbg_sizes (N_RB_DL ph cc) = Inr sizes" and "sf0_limits n_rbg = Inr sf0"
    and "map_covers (vrb_map s cc) n_rbg sizes"
  shows "\<exists>s' t'. dlsch_scheduler_pre_processor_reset ph subframe ue cc n_rbg (s, t) = Inr (s', t')
    \<and> nb_rbs_required t' cc ue = 0 \<and> pre_nb_available_rbs (UE_sched_ctrl s' ue) cc = 0
    \<and> (\<forall>i \<in> {0..<n_rbg}. rballoc_sub_UE (UE_sched_ctrl s' ue) cc ! nat i = 0
        \<and> MIMO_mode t' cc ! nat i = 2
        \<and> rballoc_sub t' cc ! nat i =
            (if reserved (vrb_map s cc) n_rbg subframe sizes sf0 i then 1 else 0))
    \<and> (\<forall>u. u \<noteq> ue \<longrightarrow> rballoc_sub_UE (UE_sched_ctrl s' u) = rballoc_sub_UE (UE_sched_ctrl s u))"
proof -
  obtain s3 t1 where run: "\<forall>n_rbg. dlsch_scheduler_pre_processor_reset ph subframe ue cc n_rbg (s, t) =
       bindE (rbg_sizes (N_RB_DL ph cc)) (\<lambda>sizes. bindE (sf0_limits n_rbg) (\<lambda>sf0.
       foldE (reset_rbg cc ue n_rbg subframe sizes sf0) [0..n_rbg - 1] (s3, t1)))"
    and p: "\<forall>c. rows_ok c (s3, t1) = rows_ok c (s, t)"
      "\<forall>u. rballoc_sub_UE (UE_sched_ctrl s3 u) = rballoc_sub_UE (UE_sched_ctrl s u)"
      "vrb_map s3 = vrb_map s" "nb_rbs_required t1 cc ue = 0"
      "pre_nb_available_rbs (UE_sched_ctrl s3 ue) cc = 0"
    using reset_prepared [OF assms(1), of ph subframe t] by blast
  have rows: "rows_ok cc (s3, t1)" using assms(2) p(1) by simp
  have n: "n_rbg \<le> int N_RBG_MAX"
    using assms(4) by (auto simp: sf0_limits_def N_RBG_MAX_def split: if_splits)
  let ?v = "\<lambda>i. if reserved (vrb_map s cc) n_rbg subframe sizes sf0 i then 1 else 0 :: u8"
  let ?st' = "fold (\<lambda>i. reset_one cc ue (?v i) i) [0..n_rbg - 1] (s3, t1)"
  have "dlsch_scheduler_pre_processor_reset ph subframe ue cc n_rbg (s, t) = Inr ?st'"
    using reset_groups [OF rows group_upto [OF n], of sizes ue subframe sf0] assms(5)
    by (simp add: run assms(3,4) p(3))
  moreover have "nb_rbs_required (snd ?st') cc ue = 0"
    "pre_nb_available_rbs (UE_sched_ctrl (fst ?st') ue) cc = 0"
    unfolding fold_reset_other by (simp_all add: p)
  moreover have "rballoc_sub_UE (UE_sched_ctrl (fst ?st') ue) cc ! nat i = 0
        \<and> MIMO_mode (snd ?st') cc ! nat i = 2 \<and> rballoc_sub (snd ?st') cc ! nat i = ?v i"
    if "i \<in> {0..<n_rbg}" for i
    using fold_reset_values [OF rows n that, of ue ?v] .
  moreover have "rballoc_sub_UE (UE_sched_ctrl (fst ?st') u) = rballoc_sub_UE (UE_sched_ctrl s u)"
    if "u \<noteq> ue" for u
    unfolding fold_reset_other(7) [OF that] fst_conv using p(2) by blast
  ultimately show ?thesis by (cases ?st') auto
qed

theorem reset_clears_and_reserves_witness:
  "\<exists>s' t'. dlsch_scheduler_pre_processor_reset example_phy 0 1 0 13 (example_mac, example_tables)
      = Inr (s', t') \<and> rballoc_sub t' 0 ! 5 = 1 \<and> rballoc_sub t' 0 ! 9 = 0"
proof -
  have st: "phy_stats example_mac 0 (UE_RNTI example_mac 1)
      = Some \<lparr>DL_cqi = 9, dlsch_mcs1 = 0, timing_advance_update = 0\<rparr>" by code_simp
  have sz: "rbg_sizes (N_RB_DL example_phy 0) = Inr (2, 1)"
    by (simp add: rbg_sizes_def example_phy_def)
  have lim: "sf0_limits 13 = Inr (4, 7)" by (simp add: sf0_limits_def)
  have vm: "vrb_map example_mac 0 = replicate 100 0"
    by (simp add: example_mac_def example_added fill_slot_def upd_template_def)
       (simp add: mac_top_init_def)
  have cov: "map_covers (vrb_map example_mac 0) 13 (2, 1)" by (simp add: map_covers_def vm)
  have "reserved (vrb_map example_mac 0) 13 0 (2, 1) (4, 7) 5"
    by (simp_all add: reserved_def)
  moreover have "\<not> reserved (vrb_map example_mac 0) 13 0 (2, 1) (4, 7) 9"
  proof -
    have "replicate 100 (0 :: u8) ! nat (18 + int j) = 0" if "j < 2" for j
      using that by (intro nth_replicate) linarith
    then show ?thesis by (auto simp: reserved_def vm)
  qed
  moreover from reset_clears_and_reserves [OF st example_rows sz lim cov, of 0] obtain s' t' where
    r: "dlsch_scheduler_pre_processor_reset example_phy 0 1 0 13 (example_mac, example_tables)
      = Inr (s', t')"
    and v: "\<forall>i \<in> {0..<13}. rballoc_sub_UE (UE_sched_ctrl s' 1) 0 ! nat i = 0
        \<and> MIMO_mode t' 0 ! nat i = 2 \<and> rballoc_sub t' 0 ! nat i =
            (if reserved (vrb_map example_mac 0) 13 0 (2, 1) (4, 7) i then 1 else 0)" by blast
  ultimately show ?thesis using bspec [OF v, of 5] bspec [OF v, of 9] r by auto
qed

text \<open>The timing advance of a UE is measured every 20 subframes: when its timer has run out the
  measurement, scaled down to the carrier and truncated, becomes the update, the measurement is
  cleared and the timer restarts; otherwise the timer counts down and no update is sent.\<close>

theorem reset_timing_advance:
  assumes "phy_stats s cc (UE_RNTI s ue) = Some stats"
    and "dlsch_scheduler_pre_processor_reset ph subframe ue cc n_rbg (s, t) = Inr (s', t')"
    and "\<And>c. rows_ok c (s, t)" and "rbg_sizes (N_RB_DL ph cc) = Inr sizes"
    and "map_covers (vrb_map s cc) n_rbg sizes"
  shows "(if ta_timer (UE_sched_ctrl s ue) = 0
          then ta_timer (UE_sched_ctrl s' ue) = 20
            \<and> phy_stats s' cc (UE_RNTI s ue) = Some (stats\<lparr>timing_advance_update := 0\<rparr>)
            \<and> (N_RB_DL ph cc = 25 \<and> \<bar>timing_advance_update stats\<bar> < 2 ^ 15 \<longrightarrow>
                ta_update (UE_sched_ctrl s' ue) = c_div (timing_advance_update stats) 4)
          else ta_timer (UE_sched_ctrl s' ue) = ta_timer (UE_sched_ctrl s ue) - 1
            \<and> phy_stats s' = phy_stats s \<and> ta_update (UE_sched_ctrl s' ue) = 0)"
proof -
  obtain s3 t1 where run: "\<forall>n_rbg. dlsch_scheduler_pre_processor_reset ph subframe ue cc n_rbg (s, t) =
       bindE (rbg_sizes (N_RB_DL ph cc)) (\<lambda>sizes. bindE (sf0_limits n_rbg) (\<lambda>sf0.
       foldE (reset_rbg cc ue n_rbg subframe sizes sf0) [0..n_rbg - 1] (s3, t1)))"
    and p: "\<forall>c. rows_ok c (s3, t1) = rows_ok c (s, t)" "vrb_map s3 = vrb_map s"
    and ta: "ta_timer (UE_sched_ctrl s ue) = 0 \<Longrightarrow> ta_timer (UE_sched_ctrl s3 ue) = 20
      \<and> phy_stats s3 cc (UE_RNTI s ue) = Some (stats\<lparr>timing_advance_update := 0\<rparr>)
      \<and> (N_RB_DL ph cc = 25 \<longrightarrow> ta_update (UE_sched_ctrl s3 ue)
           = sint (word_of_int (c_div (timing_advance_update stats) 4) :: 16 word))"
      "ta_timer (UE_sched_ctrl s ue) \<noteq> 0 \<Longrightarrow>
      ta_timer (UE_sched_ctrl s3 ue) = ta_timer (UE_sched_ctrl s ue) - 1
      \<and> phy_stats s3 = phy_stats s \<and> ta_update (UE_sched_ctrl s3 ue) = 0"
    using reset_prepared [OF assms(1), of ph subframe t] by blast
  have rows: "rows_ok cc (s3, t1)" using assms(3) p(1) by simp
  from assms(2) obtain sf0 where sf: "sf0_limits n_rbg = Inr sf0"
    by (auto simp: run assms(4) elim!: bindE_eq_InrE)
  then have n: "n_rbg \<le> int N_RBG_MAX" by (auto simp: sf0_limits_def N_RBG_MAX_def split: if_splits)
  let ?v = "\<lambda>i. if reserved (vrb_map s cc) n_rbg subframe sizes sf0 i then 1 else 0 :: u8"
  have "fold (\<lambda>i. reset_one cc ue (?v i) i) [0..n_rbg - 1] (s3, t1) = (s', t')"
    using reset_groups [OF rows group_upto [OF n], of sizes ue subframe sf0] assms(2,5)
    by (simp add: run assms(4) sf p(2))
  then have s': "s' = fst (fold (\<lambda>i. reset_one cc ue (?v i) i) [0..n_rbg - 1] (s3, t1))"
    by (simp only: fst_conv)
  have keep: "ta_timer (UE_sched_ctrl s' ue) = ta_timer (UE_sched_ctrl s3 ue)"
    "ta_update (UE_sched_ctrl s' ue) = ta_update (UE_sched_ctrl s3 ue)"
    "phy_stats s' = phy_stats s3"
    unfolding s' fold_reset_other by simp_all
  show ?thesis unfolding keep using ta sint_ta by auto
qed

theorem reset_timing_advance_witness:
  "\<exists>s' t'. dlsch_scheduler_pre_processor_reset example_phy 1 1 0 13 (example_mac, example_tables)
      = Inr (s', t') \<and> ta_timer (UE_sched_ctrl s' 1) = 20"
proof -
  have st: "phy_stats example_mac 0 (UE_RNTI example_mac 1)
      = Some \<lparr>DL_cqi = 9, dlsch_mcs1 = 0, timing_advance_update = 0\<rparr>" by code_simp
  have sz: "rbg_sizes (N_RB_DL example_phy 0) = Inr (2, 1)"
    by (simp add: rbg_sizes_def example_phy_def)
  have lim: "sf0_limits 13 = Inr (4, 7)" by (simp add: sf0_limits_def)
  have vm: "vrb_map example_mac 0 = replicate 100 0"
    by (simp add: example_mac_def example_added fill_slot_def upd_template_def)
       (simp add: mac_top_init_def)
  have cov: "map_covers (vrb_map example_mac 0) 13 (2, 1)" by (simp add: map_covers_def vm)
  obtain s' t' where r: "dlsch_scheduler_pre_processor_reset example_phy 1 1 0 13
      (example_mac, example_tables) = Inr (s', t')"
    using reset_runs [OF st example_rows sz lim cov, of 1] by blast
  have "ta_timer (UE_sched_ctrl example_mac 1) = 0" by (simp add: example_sched zero_sched_ctrl_def)
  with reset_timing_advance [OF st r example_rows sz cov] r show ?thesis by auto
qed

end
