(* ===== verification/UlPre.thy ===== *)
theory UlPre
  imports DlPre
begin

text \<open>
  The uplink pre-processor of \<open>LAYER2/MAC/pre_processor.c\<close>: the choice of a coding scheme and of a
  number of resource blocks for every UE that has data to send (\<open>assign_max_mcs_min_rb\<close>), the order
  of the UEs (\<open>sort_ue_ul\<close>), and the slicing algorithm, which cuts the blocks of a UE down to the
  uplink quota of its slice (\<open>ulsch_scheduler_pre_processor\<close>).
\<close>

section \<open>The interface to the physical layer\<close>

text \<open>
  The functions of \<open>mac_xface\<close> that the uplink uses, and the RRC status. \<open>N_RB_UL\<close> and \<open>Ncp\<close> are of the
  frame parameters of a carrier.
\<close>

record ul_if =
  N_RB_UL :: "nat \<Rightarrow> u8"
  Ncp :: "nat \<Rightarrow> nat"
  get_TBS_UL :: "nat \<Rightarrow> nat \<Rightarrow> u32"
  estimate_ue_tx_power :: "u32 \<Rightarrow> nat \<Rightarrow> nat \<Rightarrow> int"
  get_ul_harq_pid :: "nat \<Rightarrow> u16 \<Rightarrow> u8 \<times> u8 \<Rightarrow> u8 \<times> u8"
  ul_rrc_status :: "u16 \<Rightarrow> nat"

text \<open>The numbers of resource blocks an uplink allocation can have (\<open>eNB_scheduler_ulsch.c\<close>).\<close>

definition rb_table :: "nat list" where
  "rb_table = [1, 2, 3, 4, 5, 6, 8, 9, 10, 12, 15, 16, 18, 20, 24, 25, 27, 30, 32, 36, 40, 45, 48, 50,
     54, 60, 72, 75, 80, 81, 90, 96, 100]"

section \<open>The best coding scheme and the fewest blocks\<close>

text \<open>
  The two loops, for a UE with power headroom \<open>phr\<close> and \<open>buf\<close> bytes to send. The first lowers the coding
  scheme until the power suffices and the block is not larger than the buffer, the second adds
  blocks. The transport block and the power are those of the last values tried.
\<close>

definition ul_tbs :: "ul_if \<Rightarrow> nat \<Rightarrow> nat \<Rightarrow> u32" where
  "ul_tbs ph mcs idx = get_TBS_UL ph mcs (rb_table ! idx)"

definition ul_power :: "ul_if \<Rightarrow> nat \<Rightarrow> nat \<Rightarrow> nat \<Rightarrow> int" where
  "ul_power ph cc mcs idx = estimate_ue_tx_power ph (ul_tbs ph mcs idx) (rb_table ! idx) (Ncp ph cc)"

function lower_mcs :: "ul_if \<Rightarrow> nat \<Rightarrow> int \<Rightarrow> u32 \<Rightarrow> nat \<Rightarrow> nat" where
  "lower_mcs ph cc phr buf mcs =
     (if (phr - ul_power ph cc mcs 2 < 0 \<or> ul_tbs ph mcs 2 > buf) \<and> mcs > 3
      then lower_mcs ph cc phr buf (mcs - 1) else mcs)"
  by pat_completeness auto
termination by (relation "measure (\<lambda>(_, _, _, _, mcs). mcs)") auto

function raise_rbs :: "ul_if \<Rightarrow> nat \<Rightarrow> int \<Rightarrow> u32 \<Rightarrow> int \<Rightarrow> nat \<Rightarrow> nat \<Rightarrow> nat" where
  "raise_rbs ph cc phr buf avail_rb mcs idx =
     (if ul_tbs ph mcs idx < buf \<and> int (rb_table ! idx) < avail_rb \<and>
         phr - ul_power ph cc mcs idx > 0 \<and> idx < 32
      then raise_rbs ph cc phr buf avail_rb mcs (idx + 1) else idx)"
  by pat_completeness auto
termination by (relation "measure (\<lambda>(_, _, _, _, _, _, idx). 32 - idx)") auto

declare lower_mcs.simps [simp del] raise_rbs.simps [simp del]

text \<open>The two corrections of the index.\<close>

definition fit_index :: "int \<Rightarrow> nat \<Rightarrow> nat" where
  "fit_index avail_rb idx =
     (let i = (if int (rb_table ! idx) > avail_rb - 1 then idx - 1 else idx)
      in if rb_table ! i < 3 then 2 else i)"

section \<open>Assignment to the UEs\<close>

definition active_ulccs :: "mac \<Rightarrow> nat \<Rightarrow> nat list" where
  "active_ulccs s ue = map (\<lambda>n. ordered_ULCCids s n ue) [0..<numactiveULCCs s ue]"

text \<open>The blocks left to the data channel of a carrier.\<close>

definition ul_avail :: "ul_if \<Rightarrow> (nat \<Rightarrow> u16) \<Rightarrow> nat \<Rightarrow> int" where
  "ul_avail ph first_rb cc = uint (N_RB_UL ph cc) - uint (first_rb cc)"

text \<open>One carrier of a UE. The coding scheme is not reset between the carriers.\<close>

definition assign_ul_cc ::
  "ul_if \<Rightarrow> (nat \<Rightarrow> u16) \<Rightarrow> nat \<Rightarrow> nat \<Rightarrow> nat \<times> mac \<Rightarrow> (nat \<times> mac) res" where
  "assign_ul_cc ph first_rb ue cc st =
     (case st of (mcs, s) \<Rightarrow>
      if \<not> cc < MAX_NUM_CCs then Inl Abort
      else
        (let t = UE_template s cc ue; buf = ul_total_buffer t; phr = phr_info t;
             left = ul_avail ph first_rb cc
         in if buf > 0 then
              (let mcs' = lower_mcs ph cc phr buf mcs;
                   idx = raise_rbs ph cc phr buf left mcs' 2;
                   idx' = fit_index left idx
               in Inr (mcs', upd_template cc ue (\<lambda>t. t\<lparr>ue_tx_power := ul_power ph cc mcs' idx,
                     pre_assigned_mcs_ul := of_nat mcs', pre_allocated_rb_table_index_ul := int idx',
                     pre_allocated_nb_rb_ul := of_nat (rb_table ! idx')\<rparr>) s))
            else if UE_is_to_be_scheduled (ul_rrc_status ph) s cc ue then
              Inr (mcs, upd_template cc ue (\<lambda>t. t\<lparr>pre_allocated_rb_table_index_ul := 2,
                     pre_allocated_nb_rb_ul := 3\<rparr>) s)
            else
              Inr (mcs, upd_template cc ue (\<lambda>t. t\<lparr>pre_allocated_rb_table_index_ul := - 1,
                     pre_allocated_nb_rb_ul := 0\<rparr>) s)))"

definition assign_ul_ue :: "ul_if \<Rightarrow> (nat \<Rightarrow> u16) \<Rightarrow> nat \<Rightarrow> mac \<Rightarrow> mac res" where
  "assign_ul_ue ph first_rb ue s =
     (if \<not> active s ue then Inr s
      else if skip_ue s ue then Inr s
      else
        (let mcs = (if phr_received (UE_sched_ctrl s ue) = 1 then 20 else 10)
         in bindE (foldE (assign_ul_cc ph first_rb ue) (active_ulccs s ue) (mcs, s))
              (\<lambda>(_, s'). Inr s')))"

definition assign_max_mcs_min_rb :: "ul_if \<Rightarrow> (nat \<Rightarrow> u16) \<Rightarrow> mac \<Rightarrow> mac res" where
  "assign_max_mcs_min_rb ph first_rb s = foldE (assign_ul_ue ph first_rb) [0..<NUMBER_OF_UE_MAX] s"

section \<open>The order of the UEs\<close>

definition ue_ul_compare :: "mac \<Rightarrow> nat \<Rightarrow> nat \<Rightarrow> int" where
  "ue_ul_compare s ue1 ue2 =
     (let round1 = ue_round s ue1; round2 = ue_round s ue2;
          t1 = UE_template s (UE_PCCID s ue1) ue1; t2 = UE_template s (UE_PCCID s ue2) ue2
      in if round1 > round2 then - 1
         else if round1 < round2 then 1
         else if ul_buffer_info t1 ! 0 > ul_buffer_info t2 ! 0 then - 1
         else if ul_buffer_info t1 ! 0 < ul_buffer_info t2 ! 0 then 1
         else if ul_total_buffer t1 > ul_total_buffer t2 then - 1
         else if ul_total_buffer t1 < ul_total_buffer t2 then 1
         else if pre_assigned_mcs_ul t1 > pre_assigned_mcs_ul t2 then - 1
         else if pre_assigned_mcs_ul t1 < pre_assigned_mcs_ul t2 then 1
         else 0)"

definition sort_ue_ul :: "mac \<Rightarrow> mac" where
  "sort_ue_ul s =
     (let xs = qsort_r (ue_ul_compare s) (filter (\<lambda>ue. \<not> skip_ue s ue) [0..<NUMBER_OF_UE_MAX])
      in s\<lparr>next_ul := write_links xs (next_ul s), head_ul := list_head xs\<rparr>)"

text \<open>The UEs of the uplink list, in order.\<close>

definition ul_list :: "mac \<Rightarrow> nat list res" where
  "ul_list s =
     (case walk NUMBER_OF_UE_MAX (next_ul s) (head_ul s) of Some xs \<Rightarrow> Inr xs | None \<Rightarrow> Inl Diverges)"

section \<open>The slicing algorithm\<close>

text \<open>
  The locals of the function: the process number and the round are declared outside the loops and
  overwritten by each call; \<open>nb_allocated_rbs\<close> has an entry for each carrier and UE.
\<close>

record ul_locals =
  ul_pid :: u8
  ul_round :: u8
  nb_allocated_rbs :: "nat \<Rightarrow> nat \<Rightarrow> u16"
  total_allocated_rbs :: "nat \<Rightarrow> u16"

text \<open>Step 1 clears the totals and the entries of the listed UEs.\<close>

definition ul_clear :: "nat list \<Rightarrow> ul_locals \<Rightarrow> ul_locals" where
  "ul_clear xs l =
     fold (\<lambda>cc l. fold (\<lambda>ue l. l\<lparr>nb_allocated_rbs := upd2 (nb_allocated_rbs l) cc ue 0\<rparr>) xs
                    (l\<lparr>total_allocated_rbs := (total_allocated_rbs l)(cc := 0)\<rparr>))
       [0..<MAX_NUM_CCs] l"

text \<open>
  Step 3, one carrier of a UE with the quota \<open>quota\<close> (\<open>assigned_uRB\<close>). A retransmission keeps the
  number of blocks of the first transmission.
\<close>

definition ul_alloc_cc :: "ul_if \<Rightarrow> mac \<Rightarrow> int \<Rightarrow> nat \<Rightarrow> nat \<Rightarrow> ul_locals \<Rightarrow> ul_locals res" where
  "ul_alloc_cc ph s quota ue cc l =
     (let (pid, rnd) = get_ul_harq_pid ph cc (UE_RNTI s ue) (ul_pid l, ul_round l);
          t = UE_template s cc ue
      in if \<not> cc < MAX_NUM_CCs then Inl OutOfBounds
         else
           bindE (if rnd > 0 then aget (nb_rb_ul t) (uint pid)
                  else Inr (word_of_int (min (uint (pre_allocated_nb_rb_ul t)) quota)))
             (\<lambda>n. Inr (l\<lparr>ul_pid := pid, ul_round := rnd,
                   nb_allocated_rbs := upd2 (nb_allocated_rbs l) cc ue n,
                   total_allocated_rbs := (total_allocated_rbs l)
                     (cc := total_allocated_rbs l cc + n)\<rparr>)))"

definition ul_alloc_ue :: "global_infos \<Rightarrow> ul_if \<Rightarrow> mac \<Rightarrow> nat \<Rightarrow> ul_locals \<Rightarrow> ul_locals res" where
  "ul_alloc_ue g ph s ue l =
     (let assigned_uRB = UE_RNTI_process_function_uplink g (int ue)
      in if skip_ue s ue then Inr l
         else foldE (ul_alloc_cc ph s assigned_uRB ue) (active_ulccs s ue) l)"

text \<open>
  Step 4 writes the result to the templates, twice; the number of remaining blocks that it computes
  is not used.
\<close>

definition ul_commit_ue :: "ul_locals \<Rightarrow> nat \<Rightarrow> mac \<Rightarrow> mac" where
  "ul_commit_ue l ue s =
     (if skip_ue s ue then s
      else fold (\<lambda>cc. upd_template cc ue
               (\<lambda>t. t\<lparr>pre_allocated_nb_rb_ul := ucast (nb_allocated_rbs l cc ue)\<rparr>))
             (active_ulccs s ue) s)"

definition ulsch_scheduler_pre_processor ::
  "global_infos \<Rightarrow> ul_if \<Rightarrow> (nat \<Rightarrow> u16) \<Rightarrow> ul_locals \<Rightarrow> mac \<Rightarrow> mac res" where
  "ulsch_scheduler_pre_processor g ph first_rb l0 s =
     bindE (assign_max_mcs_min_rb ph first_rb s) (\<lambda>s1.
     let s2 = sort_ue_ul s1 in
     bindE (ul_list s2) (\<lambda>xs.
     bindE (foldE (ul_alloc_ue g ph s2) xs (ul_clear xs l0)) (\<lambda>l.
     Inr (fold (ul_commit_ue l) (xs @ xs) s2))))"

section \<open>The two loops\<close>

lemma lower_mcs_spec:
  "lower_mcs ph cc phr buf mcs \<le> mcs \<and> min mcs 3 \<le> lower_mcs ph cc phr buf mcs \<and>
   (lower_mcs ph cc phr buf mcs > 3 \<longrightarrow>
      ul_power ph cc (lower_mcs ph cc phr buf mcs) 2 \<le> phr \<and>
      ul_tbs ph (lower_mcs ph cc phr buf mcs) 2 \<le> buf)"
proof (induction ph cc phr buf mcs rule: lower_mcs.induct)
  case (1 ph cc phr buf mcs)
  show ?case
  proof (cases "(phr - ul_power ph cc mcs 2 < 0 \<or> ul_tbs ph mcs 2 > buf) \<and> mcs > 3")
    case True
    with 1 have "lower_mcs ph cc phr buf (mcs - 1) \<le> mcs - 1"
      "min (mcs - 1) 3 \<le> lower_mcs ph cc phr buf (mcs - 1)"
      "lower_mcs ph cc phr buf (mcs - 1) > 3 \<longrightarrow>
        ul_power ph cc (lower_mcs ph cc phr buf (mcs - 1)) 2 \<le> phr \<and>
        ul_tbs ph (lower_mcs ph cc phr buf (mcs - 1)) 2 \<le> buf" by blast+
    moreover have "lower_mcs ph cc phr buf mcs = lower_mcs ph cc phr buf (mcs - 1)"
      using True by (subst lower_mcs.simps) simp
    ultimately show ?thesis using True by auto
  next
    case False
    then have "lower_mcs ph cc phr buf mcs = mcs" by (subst lower_mcs.simps) (simp only: if_False)
    with False show ?thesis by auto
  qed
qed

text \<open>Where the second loop stops, and that it did not stop earlier.\<close>

definition may_raise :: "ul_if \<Rightarrow> nat \<Rightarrow> int \<Rightarrow> u32 \<Rightarrow> int \<Rightarrow> nat \<Rightarrow> nat \<Rightarrow> bool" where
  "may_raise ph cc phr buf left mcs idx =
     (ul_tbs ph mcs idx < buf \<and> int (rb_table ! idx) < left \<and>
      phr - ul_power ph cc mcs idx > 0 \<and> idx < 32)"

lemma raise_rbs_spec:
  "idx \<le> raise_rbs ph cc phr buf left mcs idx \<and>
   (idx \<le> 32 \<longrightarrow> raise_rbs ph cc phr buf left mcs idx \<le> 32) \<and>
   \<not> may_raise ph cc phr buf left mcs (raise_rbs ph cc phr buf left mcs idx) \<and>
   (\<forall>i. idx \<le> i \<and> i < raise_rbs ph cc phr buf left mcs idx \<longrightarrow> may_raise ph cc phr buf left mcs i)"
proof (induction ph cc phr buf left mcs idx rule: raise_rbs.induct)
  case (1 ph cc phr buf left mcs idx)
  show ?case
  proof (cases "may_raise ph cc phr buf left mcs idx")
    case True
    then have eq: "raise_rbs ph cc phr buf left mcs idx = raise_rbs ph cc phr buf left mcs (idx + 1)"
      by (subst raise_rbs.simps) (simp add: may_raise_def)
    have "idx < 32" using True by (simp add: may_raise_def)
    moreover note IH = 1 [OF True [unfolded may_raise_def]]
    moreover have "may_raise ph cc phr buf left mcs i"
      if "idx \<le> i" "i < raise_rbs ph cc phr buf left mcs (idx + 1)" for i
      using IH that True by (cases "i = idx") auto
    ultimately show ?thesis unfolding eq by auto
  next
    case False
    then have "raise_rbs ph cc phr buf left mcs idx = idx"
      unfolding may_raise_def by (subst raise_rbs.simps) (simp only: if_False)
    with False show ?thesis by auto
  qed
qed

lemma length_rb_table [simp]: "length rb_table = 33"
  by (simp add: rb_table_def)

lemma rb_table_props: "sorted_wrt (<) rb_table" "\<forall>n \<in> set rb_table. n \<le> 100"
  by (simp_all add: rb_table_def)

lemma rb_table_less: "i < j \<Longrightarrow> j \<le> 32 \<Longrightarrow> rb_table ! i < rb_table ! j"
  using rb_table_props(1) by (simp add: sorted_wrt_iff_nth_less)

lemma rb_table_le: "i \<le> 32 \<Longrightarrow> rb_table ! i \<le> 100"
  using rb_table_props(2) nth_mem [of i rb_table] by simp

lemma rb_table_2: "rb_table ! 2 = 3"
  by (simp add: rb_table_def)

text \<open>The index after the corrections, which is only ever lowered by one.\<close>

lemma fit_index_spec:
  assumes "2 \<le> idx" and "idx \<le> 32"
  shows "2 \<le> fit_index left idx \<and> fit_index left idx \<le> idx \<and>
    (fit_index left idx = idx \<or> int (rb_table ! (fit_index left idx + 1)) > left - 1) \<and>
    (int (rb_table ! (fit_index left idx)) \<le> max 3 (left - 1) \<or> int (rb_table ! (idx - 1)) > left - 1)"
proof (cases "idx = 2")
  case True
  have "rb_table ! 1 = 2" by (simp add: rb_table_def)
  then show ?thesis by (simp add: True fit_index_def rb_table_2 Let_def)
next
  case False
  with assms have "rb_table ! 2 < rb_table ! idx" by (intro rb_table_less) auto
  moreover have "rb_table ! 2 \<le> rb_table ! (idx - 1)"
  proof (cases "idx = 3")
    case False
    with \<open>idx \<noteq> 2\<close> assms have "2 < idx - 1" "idx - 1 \<le> 32" by linarith+
    then show ?thesis using rb_table_less [of 2 "idx - 1"] by linarith
  qed simp
  ultimately have "rb_table ! idx > 3" "\<not> rb_table ! (idx - 1) < 3"
    by (auto simp: rb_table_2)
  with False assms show ?thesis by (auto simp: fit_index_def Let_def)
qed

text \<open>What the two loops and the corrections choose together.\<close>

definition ul_choice :: "ul_if \<Rightarrow> nat \<Rightarrow> int \<Rightarrow> u32 \<Rightarrow> int \<Rightarrow> nat \<Rightarrow> nat \<Rightarrow> bool" where
  "ul_choice ph cc phr buf left m idx =
     (2 \<le> idx \<and> idx \<le> 32 \<and> int (rb_table ! idx) \<le> max 3 (left - 1) \<and>
      (ul_tbs ph m idx \<ge> buf \<or> ul_power ph cc m idx \<ge> phr \<or> idx = 32 \<or>
       int (rb_table ! (idx + 1)) > left - 1) \<and>
      (\<forall>i. 2 \<le> i \<and> i < idx \<longrightarrow> ul_tbs ph m i < buf \<and> ul_power ph cc m i < phr))"

lemma ul_choice_loops:
  "ul_choice ph cc phr buf left m (fit_index left (raise_rbs ph cc phr buf left m 2))"
proof -
  let ?r = "raise_rbs ph cc phr buf left m 2"
  let ?f = "fit_index left ?r"
  have r: "2 \<le> ?r" "?r \<le> 32" "\<not> may_raise ph cc phr buf left m ?r"
    "\<And>i. 2 \<le> i \<Longrightarrow> i < ?r \<Longrightarrow> may_raise ph cc phr buf left m i"
    using raise_rbs_spec [of 2 ph cc phr buf left m] by auto
  have f: "2 \<le> ?f" "?f \<le> ?r" "?f = ?r \<or> int (rb_table ! (?f + 1)) > left - 1"
    "int (rb_table ! ?f) \<le> max 3 (left - 1) \<or> int (rb_table ! (?r - 1)) > left - 1"
    using fit_index_spec [OF r(1,2)] by auto
  have fits: "int (rb_table ! ?f) \<le> max 3 (left - 1)"
  proof (cases "?r = 2")
    case True
    with f have "?f = 2" by simp
    then show ?thesis by (simp add: rb_table_2)
  next
    case False
    with r have "may_raise ph cc phr buf left m (?r - 1)" by (intro r(4)) linarith+
    with f(4) show ?thesis by (simp add: may_raise_def)
  qed
  have "ul_tbs ph m ?f \<ge> buf \<or> ul_power ph cc m ?f \<ge> phr \<or> ?f = 32 \<or>
       int (rb_table ! (?f + 1)) > left - 1"
  proof (cases "?f = ?r")
    case True
    have "int (rb_table ! (?f + 1)) > left - 1" if "int (rb_table ! ?f) \<ge> left" "?f \<noteq> 32"
      using that rb_table_less [of ?f "?f + 1"] True r(2) by simp
    with r(2,3) True show ?thesis by (auto simp: may_raise_def not_less)
  qed (use f(3) in blast)
  moreover have "ul_tbs ph m i < buf \<and> ul_power ph cc m i < phr" if "2 \<le> i" "i < ?f" for i
    using r(4) [of i] that f(2) by (simp add: may_raise_def)
  ultimately show ?thesis using f(1,2) r(2) fits by (auto simp: ul_choice_def)
qed

section \<open>What the assignment leaves alone\<close>

text \<open>The state without the four fields the pre-processor computes.\<close>

definition bare :: "ue_template \<Rightarrow> ue_template" where
  "bare t = t\<lparr>ue_tx_power := 0, pre_assigned_mcs_ul := 0, pre_allocated_rb_table_index_ul := 0,
     pre_allocated_nb_rb_ul := 0\<rparr>"

definition ul_rest :: "mac \<Rightarrow> mac" where
  "ul_rest s = s\<lparr>UE_template := (\<lambda>cc ue. bare (UE_template s cc ue))\<rparr>"

lemma bare_simps [simp]:
  "rnti (bare t) = rnti t" "ul_total_buffer (bare t) = ul_total_buffer t"
  "phr_info (bare t) = phr_info t" "nb_rb_ul (bare t) = nb_rb_ul t" "configured (bare t) = configured t"
  by (simp_all add: bare_def)

lemma ul_rest_simps [simp]:
  "UE_template (ul_rest s) cc ue = bare (UE_template s cc ue)" "active (ul_rest s) = active s"
  "UE_sched_ctrl (ul_rest s) = UE_sched_ctrl s" "numactiveULCCs (ul_rest s) = numactiveULCCs s"
  "ordered_ULCCids (ul_rest s) = ordered_ULCCids s" "pCC_id (ul_rest s) = pCC_id s"
  "phy_stats (ul_rest s) = phy_stats s" "numactiveCCs (ul_rest s) = numactiveCCs s"
  "ordered_CCids (ul_rest s) = ordered_CCids s"
  by (simp_all add: ul_rest_def)

lemma UE_RNTI_rest: "UE_RNTI (ul_rest s) ue = UE_RNTI s ue"
  by (simp add: UE_RNTI_def UE_PCCID_def)

lemma find_UE_id_rest: "find_UE_id (ul_rest s) r = find_UE_id s r"
  by (simp add: find_UE_id_def ue_matches_def [abs_def] UE_PCCID_def)

lemma skip_ue_rest: "skip_ue (ul_rest s) ue = skip_ue s ue"
  by (simp add: skip_ue_def phy_stats_exist_def active_ccs_def UE_RNTI_rest find_UE_id_rest
      UE_num_active_CC_def Let_def)

lemma active_ulccs_rest: "active_ulccs (ul_rest s) ue = active_ulccs s ue"
  by (simp add: active_ulccs_def)

lemma same_rest:
  assumes "ul_rest s' = ul_rest s"
  shows "skip_ue s' ue = skip_ue s ue" "active s' = active s" "active_ulccs s' ue = active_ulccs s ue"
    "UE_sched_ctrl s' = UE_sched_ctrl s" "UE_RNTI s' ue = UE_RNTI s ue"
    "nb_rb_ul (UE_template s' cc ue) = nb_rb_ul (UE_template s cc ue)"
  using assms skip_ue_rest active_ulccs_rest ul_rest_simps UE_RNTI_rest bare_simps by metis+

lemma ul_rest_upd_template:
  assumes "\<And>t. bare (f t) = bare t"
  shows "ul_rest (upd_template cc ue f s) = ul_rest s"
  using assms by (simp add: ul_rest_def upd_template_def upd2_def fun_eq_iff)

text \<open>One UE is assigned without touching the others.\<close>

lemma assign_ul_cc_frame:
  assumes "assign_ul_cc ph first_rb ue cc (m, s) = Inr (m', s')"
  shows "ul_rest s' = ul_rest s \<and> (\<forall>u c. u \<noteq> ue \<longrightarrow> UE_template s' c u = UE_template s c u)"
  using assms unfolding assign_ul_cc_def
  by (auto simp: Let_def upd2_def bare_def intro!: ul_rest_upd_template split: if_splits)

lemma assign_ul_ue_frame:
  assumes "assign_ul_ue ph first_rb ue s = Inr s'"
  shows "ul_rest s' = ul_rest s \<and> (\<forall>u c. u \<noteq> ue \<longrightarrow> UE_template s' c u = UE_template s c u)"
proof (cases "active s ue \<and> \<not> skip_ue s ue")
  case True
  with assms obtain m m' where
    fold: "foldE (assign_ul_cc ph first_rb ue) (active_ulccs s ue) (m, s) = Inr (m', s')"
    by (auto simp: assign_ul_ue_def Let_def bindE_eq_Inr)
  let ?P = "\<lambda>(m :: nat, t). ul_rest t = ul_rest s \<and> (\<forall>u c. u \<noteq> ue \<longrightarrow> UE_template t c u = UE_template s c u)"
  have "?P (m', s')"
  proof (rule foldE_invariant [OF fold])
    fix x and a b :: "nat \<times> mac"
    assume "?P a" and "assign_ul_cc ph first_rb ue x a = Inr b"
    then show "?P b" using assign_ul_cc_frame by (cases a; cases b) fastforce
  qed simp
  then show ?thesis by simp
qed (use assms in \<open>auto simp: assign_ul_ue_def split: if_splits\<close>)

text \<open>The whole loop, seen from one UE.\<close>

lemma assign_max_mcs_min_rb_frame:
  assumes "assign_max_mcs_min_rb ph first_rb s = Inr s'"
  shows "ul_rest s' = ul_rest s"
  using assms unfolding assign_max_mcs_min_rb_def
  by (rule foldE_invariant) (use assign_ul_ue_frame in \<open>fastforce+\<close>)

lemma assign_max_mcs_min_rb_ue:
  assumes "assign_max_mcs_min_rb ph first_rb s = Inr s'" and "ue < NUMBER_OF_UE_MAX"
  obtains u v where "ul_rest u = ul_rest s" and "assign_ul_ue ph first_rb ue u = Inr v"
    and "\<And>cc. UE_template u cc ue = UE_template s cc ue"
    and "\<And>cc. UE_template s' cc ue = UE_template v cc ue"
proof -
  let ?V = "\<lambda>s. (ul_rest s, \<lambda>cc. UE_template s cc ue)"
  have "\<exists>u v. ?V u = ?V s \<and> assign_ul_ue ph first_rb ue u = Inr v \<and> ?V s' = ?V v"
    by (rule foldE_local [OF assms(1) [unfolded assign_max_mcs_min_rb_def]])
       (use assms(2) in \<open>auto dest!: assign_ul_ue_frame\<close>)
  then show thesis by (auto simp: fun_eq_iff intro: that)
qed

text \<open>A UE with one uplink carrier, as every UE has in this build.\<close>

lemma assign_one_carrier:
  assumes run: "assign_max_mcs_min_rb ph first_rb s = Inr s'" and ue: "ue < NUMBER_OF_UE_MAX"
    and cand: "active s ue" "\<not> skip_ue s ue" and one: "active_ulccs s ue = [cc]"
  shows "\<exists>u v m. ul_rest u = ul_rest s \<and> UE_template u cc ue = UE_template s cc ue \<and>
    assign_ul_cc ph first_rb ue cc (if phr_received (UE_sched_ctrl s ue) = 1 then 20 else 10, u)
      = Inr (m, v) \<and>
    UE_template s' cc ue = UE_template v cc ue"
proof -
  obtain u v where u: "ul_rest u = ul_rest s" "assign_ul_ue ph first_rb ue u = Inr v"
    "UE_template u cc ue = UE_template s cc ue" "UE_template s' cc ue = UE_template v cc ue"
    using assign_max_mcs_min_rb_ue [OF run ue] by metis
  with cand one same_rest [OF u(1)] show ?thesis
    by (auto simp: assign_ul_ue_def Let_def bindE_eq_Inr)
qed

section \<open>The order and the list\<close>

definition ul_keys :: "mac \<Rightarrow> nat \<Rightarrow> int list" where
  "ul_keys s ue = (let t = UE_template s (UE_PCCID s ue) ue in
     [ue_round s ue, uint (ul_buffer_info t ! 0), uint (ul_total_buffer t),
      uint (pre_assigned_mcs_ul t)])"

lemma ue_ul_compare_lex: "ue_ul_compare s a b = lex_desc (ul_keys s a) (ul_keys s b)"
  by (simp add: ue_ul_compare_def ul_keys_def Let_def word_less_def)

interpretation ul_order: comparison "ue_ul_compare s" for s
  by (rule comparison_lex [where keys = "ul_keys s"])
     (auto simp: ue_ul_compare_lex ul_keys_def Let_def)

lemma ul_list_sorted: "ul_list (sort_ue_ul s) = Inr (qsort_r (ue_ul_compare s) (listed s))"
proof -
  let ?xs = "qsort_r (ue_ul_compare s) (listed s)"
  have "chain (write_links ?xs (next_ul s)) (list_head ?xs) ?xs"
    by (rule chain_write_links) simp
  then have "walk NUMBER_OF_UE_MAX (write_links ?xs (next_ul s)) (list_head ?xs) = Some ?xs"
    by (rule walk_chain) simp
  then show ?thesis by (simp add: ul_list_def sort_ue_ul_def listed_def Let_def)
qed

lemma sort_ue_ul_simps [simp]:
  "UE_template (sort_ue_ul s) = UE_template s" "UE_sched_ctrl (sort_ue_ul s) = UE_sched_ctrl s"
  "active_ulccs (sort_ue_ul s) ue = active_ulccs s ue" "UE_RNTI (sort_ue_ul s) ue = UE_RNTI s ue"
  "next_dl (sort_ue_ul s) = next_dl s" "head (sort_ue_ul s) = head s"
  by (simp_all add: sort_ue_ul_def Let_def active_ulccs_def UE_RNTI_def UE_PCCID_def)

lemma skip_ue_sort_ue_ul [simp]: "skip_ue (sort_ue_ul s) ue = skip_ue s ue"
  by (simp add: sort_ue_ul_def Let_def skip_ue_def phy_stats_exist_def active_ccs_def UE_RNTI_def
      UE_PCCID_def find_UE_id_def ue_matches_def [abs_def] UE_num_active_CC_def)

section \<open>The cut to the quota\<close>

text \<open>Whatever the locals hold, the allocation of this carrier of this UE is \<open>n\<close>.\<close>

definition settles :: "ul_if \<Rightarrow> mac \<Rightarrow> int \<Rightarrow> nat \<Rightarrow> nat \<Rightarrow> u16 \<Rightarrow> bool" where
  "settles ph s quota ue cc n =
     (\<forall>l l'. ul_alloc_cc ph s quota ue cc l = Inr l' \<longrightarrow> nb_allocated_rbs l' cc ue = n)"

lemma settles_first:
  assumes "\<And>p. snd (get_ul_harq_pid ph cc (UE_RNTI s ue) p) = 0"
  shows "settles ph s quota ue cc
    (word_of_int (min (uint (pre_allocated_nb_rb_ul (UE_template s cc ue))) quota))"
  unfolding settles_def
proof (intro allI impI)
  fix l l' assume "ul_alloc_cc ph s quota ue cc l = Inr l'"
  then show "nb_allocated_rbs l' cc ue =
      word_of_int (min (uint (pre_allocated_nb_rb_ul (UE_template s cc ue))) quota)"
    using assms [of "(ul_pid l, ul_round l)"]
    by (auto simp: ul_alloc_cc_def Let_def upd2_def split: prod.splits if_splits)
qed

lemma settles_again:
  assumes "\<And>p. get_ul_harq_pid ph cc (UE_RNTI s ue) p = (pid, rnd)" and "rnd > 0"
    and "aget (nb_rb_ul (UE_template s cc ue)) (uint pid) = Inr n"
  shows "settles ph s quota ue cc n"
  using assms by (auto simp: settles_def ul_alloc_cc_def Let_def upd2_def split: if_splits)

lemma ul_alloc_cc_other:
  assumes "ul_alloc_cc ph s quota ue cc l = Inr l'" and "u \<noteq> ue \<or> c \<noteq> cc"
  shows "nb_allocated_rbs l' c u = nb_allocated_rbs l c u"
  using assms by (auto simp: ul_alloc_cc_def Let_def upd2_def bindE_eq_Inr split: prod.splits if_splits)

lemma ul_alloc_ue_other:
  assumes "ul_alloc_ue g ph s ue l = Inr l'" and "u \<noteq> ue"
  shows "nb_allocated_rbs l' c u = nb_allocated_rbs l c u"
proof (cases "skip_ue s ue")
  case False
  with assms(1) have "foldE (ul_alloc_cc ph s (UE_RNTI_process_function_uplink g (int ue)) ue)
      (active_ulccs s ue) l = Inr l'"
    by (simp add: ul_alloc_ue_def Let_def)
  then show ?thesis
    by (rule foldE_invariant) (use ul_alloc_cc_other assms(2) in \<open>fastforce+\<close>)
qed (use assms in \<open>simp add: ul_alloc_ue_def\<close>)

lemma ul_alloc_ue_settled:
  assumes "ul_alloc_ue g ph s ue l = Inr l'" and "\<not> skip_ue s ue" and "cc \<in> set (active_ulccs s ue)"
    and n: "settles ph s (UE_RNTI_process_function_uplink g (int ue)) ue cc n"
  shows "nb_allocated_rbs l' cc ue = n"
proof -
  let ?f = "ul_alloc_cc ph s (UE_RNTI_process_function_uplink g (int ue)) ue"
  from assms(3) obtain ys zs where "active_ulccs s ue = ys @ cc # zs" by (auto dest: split_list)
  with assms(1,2) obtain u v where "?f cc u = Inr v" and rest: "foldE ?f zs v = Inr l'"
    by (auto simp: ul_alloc_ue_def Let_def foldE_append bindE_eq_Inr)
  with n have "nb_allocated_rbs v cc ue = n" by (simp add: settles_def)
  with rest show ?thesis
  proof (rule foldE_invariant)
    fix c a b assume "nb_allocated_rbs a cc ue = n" and "?f c a = Inr b"
    then show "nb_allocated_rbs b cc ue = n"
      using n ul_alloc_cc_other [of ph s _ ue c a b ue cc] by (cases "c = cc") (auto simp: settles_def)
  qed
qed

lemma ul_alloc_settled:
  assumes "foldE (ul_alloc_ue g ph s) xs l = Inr l'" and "distinct xs" and "ue \<in> set xs"
    and "\<not> skip_ue s ue" and "cc \<in> set (active_ulccs s ue)"
    and n: "settles ph s (UE_RNTI_process_function_uplink g (int ue)) ue cc n"
  shows "nb_allocated_rbs l' cc ue = n"
proof -
  have "\<exists>u v. nb_allocated_rbs u cc ue = nb_allocated_rbs l cc ue \<and> ul_alloc_ue g ph s ue u = Inr v \<and>
      nb_allocated_rbs l' cc ue = nb_allocated_rbs v cc ue"
    by (rule foldE_local [OF assms(1,2,3)]) (simp add: ul_alloc_ue_other)
  then show ?thesis using ul_alloc_ue_settled [OF _ assms(4,5) n] by auto
qed

text \<open>The result reaches the template and stays there.\<close>

abbreviation committed :: "ul_locals \<Rightarrow> nat \<Rightarrow> nat \<Rightarrow> mac \<Rightarrow> bool" where
  "committed l cc ue t \<equiv>
     pre_allocated_nb_rb_ul (UE_template t cc ue) = ucast (nb_allocated_rbs l cc ue)"

lemma ul_commit_keeps:
  "ul_rest (ul_commit_ue l u t) = ul_rest t
   \<and> pre_assigned_mcs_ul (UE_template (ul_commit_ue l u t) cc ue)
       = pre_assigned_mcs_ul (UE_template t cc ue)
   \<and> (committed l cc ue t \<longrightarrow> committed l cc ue (ul_commit_ue l u t))"
proof -
  let ?g = "\<lambda>c. upd_template c u (\<lambda>t. t\<lparr>pre_allocated_nb_rb_ul := ucast (nb_allocated_rbs l c u)\<rparr>)"
  let ?P = "\<lambda>s. ul_rest s = ul_rest t
   \<and> pre_assigned_mcs_ul (UE_template s cc ue) = pre_assigned_mcs_ul (UE_template t cc ue)
   \<and> (committed l cc ue t \<longrightarrow> committed l cc ue s)"
  have "?P (fold ?g (active_ulccs t u) t)"
  proof (rule fold_invariant)
    fix c s assume "?P s"
    moreover have "ul_rest (?g c s) = ul_rest s" by (rule ul_rest_upd_template) (simp add: bare_def)
    ultimately show "?P (?g c s)" by (auto simp: upd2_def)
  qed simp
  then show ?thesis by (simp add: ul_commit_ue_def)
qed

lemma ul_commit_ue_commits:
  assumes "\<not> skip_ue t ue" and "cc \<in> set (active_ulccs t ue)"
  shows "committed l cc ue (ul_commit_ue l ue t)"
proof -
  let ?g = "\<lambda>c. upd_template c ue (\<lambda>t. t\<lparr>pre_allocated_nb_rb_ul := ucast (nb_allocated_rbs l c ue)\<rparr>)"
  from assms(2) obtain ys zs where "active_ulccs t ue = ys @ cc # zs" by (auto dest: split_list)
  moreover have "committed l cc ue (fold ?g zs (?g cc (fold ?g ys t)))"
    by (rule fold_invariant) (auto simp: upd2_def)
  ultimately show ?thesis using assms(1) by (simp add: ul_commit_ue_def)
qed

lemma ul_commit_all:
  assumes "ue \<in> set xs" and "\<not> skip_ue s ue" and "cc \<in> set (active_ulccs s ue)"
  shows "committed l cc ue (fold (ul_commit_ue l) (xs @ xs) s)"
proof -
  from assms(1) obtain ys zs where "xs @ xs = ys @ ue # zs" by (auto dest: split_list)
  moreover have rest: "ul_rest (fold (ul_commit_ue l) ys s) = ul_rest s"
    by (rule fold_invariant) (simp_all add: ul_commit_keeps)
  have "committed l cc ue (ul_commit_ue l ue (fold (ul_commit_ue l) ys s))"
    using assms(2,3) same_rest [OF rest] by (intro ul_commit_ue_commits) simp_all
  then have "committed l cc ue (fold (ul_commit_ue l) zs (ul_commit_ue l ue (fold (ul_commit_ue l) ys s)))"
    by (rule fold_invariant) (simp add: ul_commit_keeps)
  ultimately show ?thesis by simp
qed

text \<open>The pre-processor as a whole, for one carrier of one UE.\<close>

lemma ulsch_settled:
  assumes run: "ulsch_scheduler_pre_processor g ph first_rb l0 s = Inr s'"
    and assign: "assign_max_mcs_min_rb ph first_rb s = Inr s1"
    and ue: "ue < NUMBER_OF_UE_MAX" "\<not> skip_ue s ue" "cc \<in> set (active_ulccs s ue)"
    and n: "settles ph s1 (UE_RNTI_process_function_uplink g (int ue)) ue cc n"
  shows "pre_allocated_nb_rb_ul (UE_template s' cc ue) = ucast n"
proof -
  let ?s2 = "sort_ue_ul s1" let ?xs = "qsort_r (ue_ul_compare s1) (listed s1)"
  from run obtain l where l: "foldE (ul_alloc_ue g ph ?s2) ?xs (ul_clear ?xs l0) = Inr l"
    and s': "s' = fold (ul_commit_ue l) (?xs @ ?xs) ?s2"
    by (auto simp: ulsch_scheduler_pre_processor_def assign ul_list_sorted Let_def bindE_eq_Inr)
  have rest: "ul_rest s1 = ul_rest s" using assign by (rule assign_max_mcs_min_rb_frame)
  have ue2: "ue \<in> set ?xs" "\<not> skip_ue ?s2 ue" "cc \<in> set (active_ulccs ?s2 ue)"
    using ue same_rest [OF rest] by simp_all
  have "settles ph ?s2 (UE_RNTI_process_function_uplink g (int ue)) ue cc n"
    using n by (simp add: settles_def ul_alloc_cc_def)
  then have "nb_allocated_rbs l cc ue = n" using ue2 by (intro ul_alloc_settled [OF l]) simp_all
  with ul_commit_all [OF ue2] show ?thesis unfolding s' by metis
qed

text \<open>The pre-processor does not fail when the carriers and process numbers are in range.\<close>

definition ul_ready :: "mac \<Rightarrow> bool" where
  "ul_ready s \<longleftrightarrow> (\<forall>ue. \<forall>cc \<in> set (active_ulccs s ue).
     cc < MAX_NUM_CCs \<and> length (nb_rb_ul (UE_template s cc ue)) = 8)"

lemma ul_ready_rest: "ul_rest s' = ul_rest s \<Longrightarrow> ul_ready s' = ul_ready s"
  using same_rest [of s' s] by (simp add: ul_ready_def)

lemma assign_ul_ue_total:
  assumes "ul_ready s"
  shows "\<exists>s'. assign_ul_ue ph first_rb ue s = Inr s'"
proof (cases "active s ue \<and> \<not> skip_ue s ue")
  case True
  let ?mcs = "if phr_received (UE_sched_ctrl s ue) = 1 then 20 else 10"
  have "\<exists>st. foldE (assign_ul_cc ph first_rb ue) (active_ulccs s ue) (?mcs, s) = Inr st \<and> True"
    by (rule foldE_total) (use assms in \<open>auto simp: ul_ready_def assign_ul_cc_def Let_def\<close>)
  with True show ?thesis by (auto simp: assign_ul_ue_def Let_def)
qed (auto simp: assign_ul_ue_def)

lemma assign_total:
  assumes "ul_ready s"
  shows "\<exists>s'. assign_max_mcs_min_rb ph first_rb s = Inr s' \<and> ul_ready s'"
  unfolding assign_max_mcs_min_rb_def
proof (rule foldE_total [where P = ul_ready, OF assms])
  fix ue u assume "ul_ready u"
  then obtain v where "assign_ul_ue ph first_rb ue u = Inr v" using assign_ul_ue_total by blast
  with \<open>ul_ready u\<close> show "\<exists>v. assign_ul_ue ph first_rb ue u = Inr v \<and> ul_ready v"
    using assign_ul_ue_frame ul_ready_rest by blast
qed

lemma ul_alloc_total:
  assumes "ul_ready s" and "\<And>cc r p. uint (fst (get_ul_harq_pid ph cc r p)) < 8"
  shows "\<exists>l'. foldE (ul_alloc_ue g ph s) xs l = Inr l'"
proof -
  have cc: "\<exists>l'. ul_alloc_cc ph s q ue cc l = Inr l' \<and> True" if "cc \<in> set (active_ulccs s ue)" for q ue cc l
    using that assms(1) assms(2) [of cc "UE_RNTI s ue" "(ul_pid l, ul_round l)"]
    by (auto simp: ul_ready_def ul_alloc_cc_def Let_def aget_def in_range_def split: prod.splits)
  have "\<exists>l'. ul_alloc_ue g ph s ue l = Inr l' \<and> True" for ue l
    using foldE_total [where P = "\<lambda>_. True" and f = "ul_alloc_cc ph s _ ue", OF _ cc]
    by (simp add: ul_alloc_ue_def Let_def)
  then have "\<exists>l'. foldE (ul_alloc_ue g ph s) xs l = Inr l' \<and> True" by (intro foldE_total) simp_all
  then show ?thesis by simp
qed

lemma ulsch_runs:
  assumes "ul_ready s" and "\<And>cc r p. uint (fst (get_ul_harq_pid ph cc r p)) < 8"
  shows "\<exists>s1 s'. assign_max_mcs_min_rb ph first_rb s = Inr s1 \<and>
    ulsch_scheduler_pre_processor g ph first_rb l0 s = Inr s'"
proof -
  from assms(1) obtain s1 where s1: "assign_max_mcs_min_rb ph first_rb s = Inr s1" "ul_ready s1"
    using assign_total by blast
  then have "ul_ready (sort_ue_ul s1)" by (simp add: ul_ready_def)
  then have "\<exists>l. foldE (ul_alloc_ue g ph (sort_ue_ul s1)) xs l1 = Inr l" for xs l1
    by (rule ul_alloc_total) (use assms(2) in blast)
  then show ?thesis
    using s1(1) by (simp add: ulsch_scheduler_pre_processor_def ul_list_sorted Let_def bindE_eq_Inr)
qed

lemma ulsch_rest:
  assumes "ulsch_scheduler_pre_processor g ph first_rb l0 s = Inr s'"
  shows "ul_rest s' = (ul_rest s)\<lparr>next_ul := next_ul s', head_ul := head_ul s'\<rparr>"
proof -
  from assms obtain s1 l xs where run: "assign_max_mcs_min_rb ph first_rb s = Inr s1"
    and s': "s' = fold (ul_commit_ue l) xs (sort_ue_ul s1)"
    by (auto simp: ulsch_scheduler_pre_processor_def Let_def bindE_eq_Inr simp del: fold_append)
  have "ul_rest s' = ul_rest (sort_ue_ul s1)"
    unfolding s' by (rule fold_invariant) (simp_all add: ul_commit_keeps)
  also have "\<dots> = (ul_rest s1)\<lparr>next_ul := next_ul (sort_ue_ul s1), head_ul := head_ul (sort_ue_ul s1)\<rparr>"
    by (cases s1) (simp add: sort_ue_ul_def ul_rest_def Let_def)
  finally have eq: "ul_rest s' = (ul_rest s)\<lparr>next_ul := next_ul (sort_ue_ul s1),
      head_ul := head_ul (sort_ue_ul s1)\<rparr>"
    by (simp add: assign_max_mcs_min_rb_frame [OF run])
  have "next_ul (ul_rest s') = next_ul s'" "head_ul (ul_rest s') = head_ul s'"
    by (simp_all add: ul_rest_def)
  with eq show ?thesis by simp
qed

section \<open>A concrete subframe\<close>

text \<open>The two UEs of \<open>example_mac\<close>, the first with 100 bytes to send, on a carrier of 25 blocks.\<close>

definition example_ul :: mac where
  "example_ul = upd_template 0 0 (\<lambda>t. t\<lparr>ul_total_buffer := 100, phr_info := 40\<rparr>) example_mac"

definition example_ul_phy :: ul_if where
  "example_ul_phy = \<lparr>N_RB_UL = (\<lambda>_. 25), Ncp = (\<lambda>_. 0),
     get_TBS_UL = (\<lambda>mcs n. of_nat (mcs * n)), estimate_ue_tx_power = (\<lambda>tbs n _. int n),
     get_ul_harq_pid = (\<lambda>_ _ _. (0, 0)), ul_rrc_status = (\<lambda>_. 4)\<rparr>"

definition example_locals :: ul_locals where
  "example_locals = \<lparr>ul_pid = 0, ul_round = 0, nb_allocated_rbs = (\<lambda>_ _. 0),
     total_allocated_rbs = (\<lambda>_. 0)\<rparr>"

lemma example_ul_facts:
  "active example_ul 0" "\<not> skip_ue example_ul 0" "active_ulccs example_ul 0 = [0]"
  "ul_total_buffer (UE_template example_ul 0 0) = 100" "phr_info (UE_template example_ul 0 0) = 40"
  by code_simp+

lemma example_ul_sched: "UE_sched_ctrl example_ul ue = zero_sched_ctrl"
  by (simp add: example_ul_def example_sched)

lemma fill_slot_ul:
  "nb_rb_ul (UE_template (fill_slot cc r h u s) c ue) = nb_rb_ul (UE_template s c ue)"
  "active_ulccs (fill_slot 0 r h u s) ue = (if ue = u then [0] else active_ulccs s ue)"
  by (simp_all add: fill_slot_def upd2_def active_ulccs_def)

lemma example_ul_ready: "ul_ready example_ul"
proof -
  have init: "nb_rb_ul (UE_template mac_top_init c ue) = replicate 8 0" "active_ulccs mac_top_init ue = []"
    for c ue by (simp_all add: mac_top_init_def zero_template_def active_ulccs_def)
  have rb: "nb_rb_ul (UE_template example_ul c ue) = nb_rb_ul (UE_template example_mac c ue)" for c ue
    by (simp add: example_ul_def upd2_def)
  have ccs: "active_ulccs example_ul ue = active_ulccs (snd (add_new_ue 0 71 0 (snd (add_new_ue 0 70 0 mac_top_init)))) ue"
    for ue by (simp add: example_ul_def example_mac_def active_ulccs_def)
  have tm: "UE_template example_mac = UE_template (snd (add_new_ue 0 71 0 (snd (add_new_ue 0 70 0 mac_top_init))))"
    by (simp add: example_mac_def)
  show ?thesis
    by (simp add: ul_ready_def rb ccs tm example_added fill_slot_ul init MAX_NUM_CCs_def)
qed

section \<open>Properties\<close>

text \<open>C31. For every active UE with one uplink carrier and data to send, the assignment ends with a coding
  scheme from 3 to 20 (10 when no power headroom is known), and a block count from the table of legal
  sizes, at least three and otherwise below the number of blocks that the carrier has left. Every smaller legal size
  is too small for the buffer and stays below the power headroom; the count that is chosen is either enough for the
  buffer, or the first that reaches the headroom (which it may exceed: the loop tests the power before it goes on
  to the next size, and does not go back), or the largest that fits the carrier. A coding scheme above 3 means that
  three blocks keep the power and the buffer.\<close>

theorem assign_max_mcs_min_rb_fits:
  assumes run: "assign_max_mcs_min_rb ph first_rb s = Inr s'"
    and cand: "active s ue" "\<not> skip_ue s ue" "ue < NUMBER_OF_UE_MAX"
    and one: "active_ulccs s ue = [cc]" and data: "ul_total_buffer (UE_template s cc ue) > 0"
  defines "t \<equiv> UE_template s' cc ue" and "buf \<equiv> ul_total_buffer (UE_template s cc ue)"
    and "phr \<equiv> phr_info (UE_template s cc ue)"
    and "left \<equiv> uint (N_RB_UL ph cc) - uint (first_rb cc)"
  shows "\<exists>m idx. pre_assigned_mcs_ul t = of_nat m \<and> pre_allocated_rb_table_index_ul t = int idx
    \<and> unat (pre_allocated_nb_rb_ul t) = rb_table ! idx
    \<and> 3 \<le> m \<and> m \<le> (if phr_received (UE_sched_ctrl s ue) = 1 then 20 else 10)
    \<and> 2 \<le> idx \<and> idx \<le> 32 \<and> int (rb_table ! idx) \<le> max 3 (left - 1)
    \<and> (get_TBS_UL ph m (rb_table ! idx) \<ge> buf \<or> ul_power ph cc m idx \<ge> phr \<or> idx = 32 \<or>
        int (rb_table ! (idx + 1)) > left - 1)
    \<and> (\<forall>i. 2 \<le> i \<and> i < idx \<longrightarrow>
        get_TBS_UL ph m (rb_table ! i) < buf \<and> ul_power ph cc m i < phr)
    \<and> (m > 3 \<longrightarrow> ul_power ph cc m 2 \<le> phr \<and> get_TBS_UL ph m 3 \<le> buf)"
proof -
  let ?start = "if phr_received (UE_sched_ctrl s ue) = 1 then 20 else (10 :: nat)"
  let ?m = "lower_mcs ph cc phr buf ?start"
  let ?idx = "fit_index left (raise_rbs ph cc phr buf left ?m 2)"
  from assign_one_carrier [OF run cand(3,1,2) one] obtain u v m where
    u: "UE_template u cc ue = UE_template s cc ue" "UE_template s' cc ue = UE_template v cc ue"
    and step: "assign_ul_cc ph first_rb ue cc (?start, u) = Inr (m, v)" by blast
  then have t: "pre_assigned_mcs_ul t = of_nat ?m" "pre_allocated_rb_table_index_ul t = int ?idx"
    "pre_allocated_nb_rb_ul t = of_nat (rb_table ! ?idx)"
    using data unfolding t_def buf_def phr_def left_def
    by (auto simp: assign_ul_cc_def ul_avail_def Let_def upd2_def split: if_splits)
  have choice: "ul_choice ph cc phr buf left ?m ?idx" by (rule ul_choice_loops)
  then have "rb_table ! ?idx \<le> 100" by (intro rb_table_le) (simp add: ul_choice_def)
  then have "unat (pre_allocated_nb_rb_ul t) = rb_table ! ?idx"
    unfolding t(3) by (simp add: unsigned_of_nat take_bit_nat_eq_self)
  moreover have "3 \<le> ?m" "?m \<le> ?start"
    "?m > 3 \<longrightarrow> ul_power ph cc ?m 2 \<le> phr \<and> get_TBS_UL ph ?m 3 \<le> buf"
    using lower_mcs_spec [of ph cc phr buf ?start] by (auto simp: ul_tbs_def rb_table_2 split: if_splits)
  ultimately show ?thesis
    using t(1,2) choice by (intro exI [of _ ?m] exI [of _ ?idx]) (simp add: ul_choice_def ul_tbs_def)
qed

theorem assign_max_mcs_min_rb_fits_witness:
  "\<exists>s' m idx. assign_max_mcs_min_rb example_ul_phy (\<lambda>_. 1) example_ul = Inr s' \<and>
     pre_assigned_mcs_ul (UE_template s' 0 0) = of_nat m \<and>
     unat (pre_allocated_nb_rb_ul (UE_template s' 0 0)) = rb_table ! idx \<and> 3 \<le> m \<and> m \<le> 10 \<and>
     2 \<le> idx \<and> idx \<le> 32 \<and> int (rb_table ! idx) \<le> 23"
proof -
  from assign_total [OF example_ul_ready] obtain s' where
    run: "assign_max_mcs_min_rb example_ul_phy (\<lambda>_. 1) example_ul = Inr s'" by blast
  have "uint (N_RB_UL example_ul_phy 0) - uint (1 :: u16) = 24" by (simp add: example_ul_phy_def)
  then show ?thesis
    using assign_max_mcs_min_rb_fits [OF run example_ul_facts(1,2) _ example_ul_facts(3)]
      example_ul_facts(4) example_ul_sched [of 0] run
    by (fastforce simp: NUMBER_OF_UE_MAX_def zero_sched_ctrl_def)
qed

text \<open>
  The count that is chosen can need more power than the UE has: with a headroom of 7, where a block costs 1, six
  blocks are not enough for the buffer, and the next legal size, eight, is taken.
\<close>

theorem assign_exceeds_headroom:
  "\<exists>s'. assign_max_mcs_min_rb example_ul_phy (\<lambda>_. 1) (upd_template 0 0 (\<lambda>t. t\<lparr>phr_info := 7\<rparr>) example_ul) = Inr s' \<and>
     pre_assigned_mcs_ul (UE_template s' 0 0) = 10 \<and> pre_allocated_nb_rb_ul (UE_template s' 0 0) = 8 \<and>
     ul_power example_ul_phy 0 10 6 = 8 \<and> rb_table ! 6 = 8 \<and>
     phr_info (UE_template (upd_template 0 0 (\<lambda>t. t\<lparr>phr_info := 7\<rparr>) example_ul) 0 0) = 7"
proof -
  let ?s = "upd_template 0 0 (\<lambda>t. t\<lparr>phr_info := 7\<rparr>) example_ul"
  have run: "(case assign_max_mcs_min_rb example_ul_phy (\<lambda>_. 1) ?s of Inl _ \<Rightarrow> False
      | Inr s' \<Rightarrow> pre_assigned_mcs_ul (UE_template s' 0 0) = 10 \<and> pre_allocated_nb_rb_ul (UE_template s' 0 0) = 8)"
    by code_simp
  have "ul_power example_ul_phy 0 10 6 = 8" "rb_table ! 6 = 8" "phr_info (UE_template ?s 0 0) = 7" by code_simp+
  with run show ?thesis by (auto split: sum.splits)
qed

text \<open>C8. The slicing of the uplink: a UE that is listed and makes a first transmission is given the
  smaller of the blocks the assignment chose and the quota of its slice, as a byte. So under a quota
  that is not negative it never gets more blocks than the quota or than it asked for, and exactly
  what it asked for when the quota covers it.\<close>

theorem ulsch_blocks_within_quota:
  assumes run: "ulsch_scheduler_pre_processor g ph first_rb l0 s = Inr s'"
    and assign: "assign_max_mcs_min_rb ph first_rb s = Inr s1"
    and ue: "ue < NUMBER_OF_UE_MAX" "\<not> skip_ue s ue" "cc \<in> set (active_ulccs s ue)"
    and first: "\<forall>p. snd (get_ul_harq_pid ph cc (UE_RNTI s ue) p) = 0"
  defines "need \<equiv> uint (pre_allocated_nb_rb_ul (UE_template s1 cc ue))"
    and "given \<equiv> pre_allocated_nb_rb_ul (UE_template s' cc ue)"
    and "quota \<equiv> UE_RNTI_process_function_uplink g (int ue)"
  shows "given = word_of_int (min need quota) \<and> (0 \<le> quota \<longrightarrow> uint given = min need quota)"
proof -
  have rnti: "UE_RNTI s1 ue = UE_RNTI s ue"
    using same_rest(5) [OF assign_max_mcs_min_rb_frame [OF assign]] .
  have "settles ph s1 quota ue cc (word_of_int (min need quota))"
    unfolding need_def by (rule settles_first) (simp only: rnti first)
  then have "given = ucast (word_of_int (min need quota) :: u16)"
    unfolding given_def quota_def by (rule ulsch_settled [OF run assign ue])
  then have eq: "given = word_of_int (min need quota)"
    by (simp add: word_uint_eq_iff uint_word_of_int unsigned_ucast_eq take_bit_eq_mod mod_mod_cancel)
  have "uint given = min need quota" if "0 \<le> quota"
  proof -
    have "0 \<le> need" "need < 256"
      unfolding need_def using uint_lt2p [of "pre_allocated_nb_rb_ul (UE_template s1 cc ue)"] by simp_all
    with that show ?thesis unfolding eq by (simp add: uint_word_of_int min_def)
  qed
  with eq show ?thesis by blast
qed

theorem ulsch_blocks_within_quota_witness:
  "\<exists>s' s1. ulsch_scheduler_pre_processor (Initialization Global_Info_static) example_ul_phy (\<lambda>_. 1)
       example_locals example_ul = Inr s' \<and>
     assign_max_mcs_min_rb example_ul_phy (\<lambda>_. 1) example_ul = Inr s1 \<and>
     uint (pre_allocated_nb_rb_ul (UE_template s' 0 0))
       = min (uint (pre_allocated_nb_rb_ul (UE_template s1 0 0))) 10"
proof -
  let ?g = "Initialization Global_Info_static"
  have "uint (fst (get_ul_harq_pid example_ul_phy cc r p)) < 8" for cc r p
    by (simp add: example_ul_phy_def)
  with ulsch_runs [OF example_ul_ready] obtain s1 s' where
    s1: "assign_max_mcs_min_rb example_ul_phy (\<lambda>_. 1) example_ul = Inr s1"
    and s': "ulsch_scheduler_pre_processor ?g example_ul_phy (\<lambda>_. 1) example_locals example_ul = Inr s'"
    by blast
  have quota: "UE_RNTI_process_function_uplink ?g (int 0) = 10" by code_simp
  have "snd (get_ul_harq_pid example_ul_phy cc r p) = 0" for cc r p
    by (simp add: example_ul_phy_def)
  then show ?thesis
    using ulsch_blocks_within_quota [OF s' s1, of 0 0] example_ul_facts(2,3) s' s1
    unfolding quota by (auto simp: NUMBER_OF_UE_MAX_def)
qed

text \<open>C28. A retransmission in the uplink keeps the number of blocks recorded for its HARQ process,
  whatever the quota of the slice is by now.\<close>

theorem ulsch_retransmission_keeps_blocks:
  assumes run: "ulsch_scheduler_pre_processor g ph first_rb l0 s = Inr s'"
    and assign: "assign_max_mcs_min_rb ph first_rb s = Inr s1"
    and ue: "ue < NUMBER_OF_UE_MAX" "\<not> skip_ue s ue" "cc \<in> set (active_ulccs s ue)"
    and again: "\<forall>p. get_ul_harq_pid ph cc (UE_RNTI s ue) p = (pid, rnd)" "rnd > 0"
    and blocks: "aget (nb_rb_ul (UE_template s cc ue)) (uint pid) = Inr n"
  shows "pre_allocated_nb_rb_ul (UE_template s' cc ue) = ucast n"
proof -
  note rest = same_rest [OF assign_max_mcs_min_rb_frame [OF assign]]
  have "settles ph s1 (UE_RNTI_process_function_uplink g (int ue)) ue cc n"
    by (rule settles_again [where pid = pid and rnd = rnd]) (simp_all only: rest again blocks)
  then show ?thesis by (rule ulsch_settled [OF run assign ue])
qed

text \<open>The example with a process that is retransmitted.\<close>

definition example_ul_again :: ul_if where
  "example_ul_again = example_ul_phy\<lparr>get_ul_harq_pid := (\<lambda>_ _ _. (3, 1))\<rparr>"

theorem ulsch_retransmission_keeps_blocks_witness:
  "\<exists>s'. ulsch_scheduler_pre_processor (Initialization Global_Info_static) example_ul_again (\<lambda>_. 1)
       example_locals example_ul = Inr s' \<and>
     pre_allocated_nb_rb_ul (UE_template s' 0 0) = 0"
proof -
  let ?g = "Initialization Global_Info_static"
  have "uint (fst (get_ul_harq_pid example_ul_again cc r p)) < 8" for cc r p
    by (simp add: example_ul_again_def)
  with ulsch_runs [OF example_ul_ready] obtain s1 s' where
    s1: "assign_max_mcs_min_rb example_ul_again (\<lambda>_. 1) example_ul = Inr s1"
    and s': "ulsch_scheduler_pre_processor ?g example_ul_again (\<lambda>_. 1) example_locals example_ul = Inr s'"
    by blast
  have again: "\<forall>p. get_ul_harq_pid example_ul_again 0 r p = (3, 1)" for r
    by (simp add: example_ul_again_def)
  have n: "aget (nb_rb_ul (UE_template example_ul 0 0)) (uint (3 :: u8)) = Inr 0" by code_simp
  show ?thesis
    using ulsch_retransmission_keeps_blocks [OF s' s1 _ _ _ again _ n] example_ul_facts(2,3) s'
    by (simp add: NUMBER_OF_UE_MAX_def)
qed

text \<open>The uplink pre-processor never fails when the carriers of the UEs are in range and the
  physical layer reports process numbers below eight; it changes nothing but the four fields of the
  templates that hold the assignment, and the uplink list.\<close>

theorem ulsch_pre_processor_total:
  assumes "\<forall>ue. \<forall>cc \<in> set (active_ulccs s ue).
      cc < MAX_NUM_CCs \<and> length (nb_rb_ul (UE_template s cc ue)) = 8"
    and "\<forall>cc r p. uint (fst (get_ul_harq_pid ph cc r p)) < 8"
  shows "\<exists>s'. ulsch_scheduler_pre_processor g ph first_rb l0 s = Inr s' \<and>
    ul_rest s' = (ul_rest s)\<lparr>next_ul := next_ul s', head_ul := head_ul s'\<rparr>"
proof -
  from assms(1) have "ul_ready s" by (simp add: ul_ready_def)
  then show ?thesis using ulsch_runs assms(2) ulsch_rest by metis
qed

theorem ulsch_pre_processor_total_witness:
  "\<exists>s'. ulsch_scheduler_pre_processor (Initialization Global_Info_static) example_ul_phy (\<lambda>_. 1)
     example_locals example_ul = Inr s'"
proof -
  have "\<forall>cc r p. uint (fst (get_ul_harq_pid example_ul_phy cc r p)) < 8"
    by (simp add: example_ul_phy_def)
  from ulsch_pre_processor_total [OF example_ul_ready [unfolded ul_ready_def] this]
  show ?thesis by blast
qed

text \<open>The sorting of the uplink leaves a proper list of the known, synchronised UEs, each once,
  ordered by retransmission round, then data of the first logical channel group, total data and coding
  scheme, the largest first; the downlink list is not touched.\<close>

theorem sort_ue_ul_orders:
  "\<exists>xs. ul_list (sort_ue_ul s) = Inr xs \<and> distinct xs
    \<and> set xs = {ue. ue < NUMBER_OF_UE_MAX \<and> UE_RNTI s ue \<noteq> NOT_A_RNTI \<and>
          ul_out_of_sync (UE_sched_ctrl s ue) \<noteq> 1 \<and> phy_stats_exist s (UE_RNTI s ue)}
    \<and> sorted_wrt (\<lambda>a b. ue_ul_compare s a b \<le> 0) xs
    \<and> (\<forall>ue \<in> set xs. ue_round s ue \<le> ue_round s (xs ! 0))
    \<and> next_dl (sort_ue_ul s) = next_dl s \<and> head (sort_ue_ul s) = head s"
proof -
  let ?xs = "qsort_r (ue_ul_compare s) (listed s)"
  have "ue_round s ue \<le> ue_round s (?xs ! 0)" if "ue \<in> set ?xs" for ue
  proof -
    have "?xs \<noteq> []" using that by (metis empty_iff list.set(1))
    moreover have "ue_ul_compare s (hd ?xs) ue \<le> 0"
      using that by (intro ul_order.first_is_best) simp
    ultimately show ?thesis
      by (auto simp: ue_ul_compare_def Let_def hd_conv_nth split: if_splits)
  qed
  moreover have "set ?xs = {ue. ue < NUMBER_OF_UE_MAX \<and> UE_RNTI s ue \<noteq> NOT_A_RNTI \<and>
          ul_out_of_sync (UE_sched_ctrl s ue) \<noteq> 1 \<and> phy_stats_exist s (UE_RNTI s ue)}"
    by (auto simp: skip_ue_def split: if_splits)
  ultimately show ?thesis
    using ul_order.sorted_qsort [of s "listed s"]
    by (intro exI [of _ ?xs] conjI) (simp_all add: ul_list_sorted del: set_qsort_r)
qed

theorem sort_ue_ul_orders_witness:
  "\<exists>xs. ul_list (sort_ue_ul example_ul) = Inr xs \<and> set xs = {0, 1} \<and>
     ue_round example_ul 1 \<le> ue_round example_ul (xs ! 0)"
proof -
  from sort_ue_ul_orders [of example_ul] obtain xs where
    xs: "ul_list (sort_ue_ul example_ul) = Inr xs"
    "set xs = {ue. ue < NUMBER_OF_UE_MAX \<and> UE_RNTI example_ul ue \<noteq> NOT_A_RNTI \<and>
       ul_out_of_sync (UE_sched_ctrl example_ul ue) \<noteq> 1 \<and>
       phy_stats_exist example_ul (UE_RNTI example_ul ue)}"
    "\<forall>ue \<in> set xs. ue_round example_ul ue \<le> ue_round example_ul (xs ! 0)" by blast
  let ?P = "\<lambda>ue. UE_RNTI example_ul ue \<noteq> NOT_A_RNTI \<and>
       ul_out_of_sync (UE_sched_ctrl example_ul ue) \<noteq> 1 \<and>
       phy_stats_exist example_ul (UE_RNTI example_ul ue)"
  have "set xs = set (filter ?P [0..<NUMBER_OF_UE_MAX])" unfolding xs(2) by auto
  also have "filter ?P [0..<NUMBER_OF_UE_MAX] = [0, 1]" by code_simp
  finally have "set xs = {0, 1}" by simp
  with xs show ?thesis by blast
qed

end
