(* ===== verification/RlcUm.thy ===== *)
theory RlcUm
  imports Prelude
begin

text \<open>
  The state of an unacknowledged-mode RLC entity (\<open>LAYER2/RLC/UM_v9.3.0\<close>, the receiving side), its
  configuration (\<open>rlc_um_control_primitives.c\<close>), its state machine (\<open>rlc_um_fsm.c\<close>) and the tests of
  the reordering window (\<open>rlc_um_dar.c\<close>).

  Sequence numbers are \<open>int\<close>: the code keeps them in \<open>uint16_t\<close> and \<open>int16_t\<close> variables and mixes the two;
  the invariant of the receiver (theory \<open>RlcUmDar\<close>) shows that they stay between 0 and 1023, so that no
  conversion changes a value. The remainder is that of C, which is negative for a negative dividend.
\<close>

section \<open>The entity\<close>

datatype rlc_state = RLC_NULL_STATE | RLC_DATA_TRANSFER_READY_STATE | RLC_LOCAL_SUSPEND_STATE

text \<open>
  \<open>output_sdu\<close> is \<open>output_sdu_in_construction\<close> with the bytes written to it: \<open>None\<close> is the null pointer,
  and \<open>output_sdu_size_to_write\<close> is the length. \<open>dar_buffer\<close> has 1024 entries, each a received PDU or
  null; it is allocated when the entity is initialised. \<open>delivered\<close> records the calls of
  \<open>rlc_data_ind\<close>, oldest first. The transmitting side and the statistics of the sender are not here.
\<close>

record rlc_um =
  initialized :: bool
  protocol_state :: rlc_state
  is_data_plane :: bool
  is_mxch :: bool
  vt_us :: int
  vr_ur :: int
  vr_ux :: int
  vr_uh :: int
  running :: bool
  timed_out :: bool
  ms_time_out :: u32
  ms_start :: u32
  ms_duration :: u32
  tx_sn_length :: nat
  rx_sn_length :: nat
  tx_header_min :: nat
  rx_header_min :: nat
  tx_sn_modulo :: int
  rx_sn_modulo :: int
  tx_um_window_size :: int
  rx_um_window_size :: int
  output_sdu :: "u8 list option"
  dar_buffer :: "nat \<Rightarrow> u8 list option"
  last_reassemblied_sn :: int
  last_reassemblied_missing_sn :: int
  missing_sn_detected :: bool
  first_pdu :: bool
  stat_rx_pdcp_sdu :: u32
  stat_rx_pdcp_bytes :: u32
  stat_rx_data_pdus_duplicate :: u32
  stat_rx_data_bytes_duplicate :: u32
  stat_rx_data_pdu :: u32
  stat_rx_data_bytes :: u32
  stat_rx_data_pdu_dropped :: u32
  stat_rx_data_bytes_dropped :: u32
  stat_rx_data_pdu_out_of_window :: u32
  stat_rx_data_bytes_out_of_window :: u32
  stat_timer_reordering_timed_out :: u32
  delivered :: "u8 list list"

text \<open>An access to the buffer; before the initialisation the buffer itself is a null pointer.\<close>

definition dar_get :: "rlc_um \<Rightarrow> int \<Rightarrow> u8 list option res" where
  "dar_get e sn =
     (if \<not> initialized e then Inl NullDeref
      else if 0 \<le> sn \<and> sn < 1024 then Inr (dar_buffer e (nat sn)) else Inl OutOfBounds)"

definition dar_set :: "int \<Rightarrow> u8 list option \<Rightarrow> rlc_um \<Rightarrow> rlc_um res" where
  "dar_set sn p e =
     (if \<not> initialized e then Inl NullDeref
      else if 0 \<le> sn \<and> sn < 1024
      then Inr (e\<lparr>dar_buffer := (dar_buffer e)(nat sn := p)\<rparr>) else Inl OutOfBounds)"

section \<open>Initialisation and configuration\<close>

definition zero_rlc_um :: rlc_um where
  "zero_rlc_um = \<lparr>initialized = False, protocol_state = RLC_NULL_STATE, is_data_plane = False,
     is_mxch = False, vt_us = 0, vr_ur = 0, vr_ux = 0, vr_uh = 0, running = False, timed_out = False,
     ms_time_out = 0, ms_start = 0, ms_duration = 0, tx_sn_length = 0, rx_sn_length = 0,
     tx_header_min = 0, rx_header_min = 0, tx_sn_modulo = 0, rx_sn_modulo = 0,
     tx_um_window_size = 0, rx_um_window_size = 0, output_sdu = None, dar_buffer = (\<lambda>_. None),
     last_reassemblied_sn = 0, last_reassemblied_missing_sn = 0, missing_sn_detected = False,
     first_pdu = False, stat_rx_pdcp_sdu = 0, stat_rx_pdcp_bytes = 0,
     stat_rx_data_pdus_duplicate = 0, stat_rx_data_bytes_duplicate = 0, stat_rx_data_pdu = 0,
     stat_rx_data_bytes = 0, stat_rx_data_pdu_dropped = 0, stat_rx_data_bytes_dropped = 0,
     stat_rx_data_pdu_out_of_window = 0, stat_rx_data_bytes_out_of_window = 0,
     stat_timer_reordering_timed_out = 0, delivered = []\<rparr>"

definition rlc_um_init :: "rlc_um \<Rightarrow> rlc_um" where
  "rlc_um_init e =
     (if initialized e then e
      else zero_rlc_um\<lparr>rx_sn_length := 10, rx_header_min := 2, tx_sn_length := 10,
             tx_header_min := 2, first_pdu := True, initialized := True, delivered := delivered e\<rparr>)"

definition rlc_um_reset_state_variables :: "rlc_um \<Rightarrow> rlc_um" where
  "rlc_um_reset_state_variables e = e\<lparr>vt_us := 0, vr_ur := 0, vr_ux := 0, vr_uh := 0\<rparr>"

definition rlc_um_init_timer_reordering :: "u32 \<Rightarrow> rlc_um \<Rightarrow> rlc_um" where
  "rlc_um_init_timer_reordering d e =
     e\<lparr>running := False, ms_time_out := 0, ms_start := 0, ms_duration := d, timed_out := False\<rparr>"

text \<open>A length of zero leaves that direction as it is; any other length than 5 and 10 is refused.\<close>

definition rlc_um_configure :: "u32 \<Rightarrow> nat \<Rightarrow> nat \<Rightarrow> bool \<Rightarrow> rlc_um \<Rightarrow> rlc_um" where
  "rlc_um_configure timer rx_len tx_len mxch e =
     (if rx_len \<notin> {0, 5, 10} then e
      else
        (let e1 = (if rx_len = 10 then e\<lparr>rx_sn_length := 10, rx_sn_modulo := 1024,
                       rx_um_window_size := 512, rx_header_min := 2\<rparr>
                   else if rx_len = 5 then e\<lparr>rx_sn_length := 5, rx_sn_modulo := 32,
                       rx_um_window_size := 16, rx_header_min := 1\<rparr> else e)
         in if tx_len \<notin> {0, 5, 10} then e1
            else
              (let e2 = (if tx_len = 10 then e1\<lparr>tx_sn_length := 10, tx_sn_modulo := 1024,
                             tx_um_window_size := 512, tx_header_min := 2\<rparr>
                         else if tx_len = 5 then e1\<lparr>tx_sn_length := 5, tx_sn_modulo := 32,
                             tx_um_window_size := 16, tx_header_min := 1\<rparr> else e1);
                   e3 = (if mxch then e2\<lparr>tx_um_window_size := 0, rx_um_window_size := 0\<rparr> else e2)
               in rlc_um_reset_state_variables ((rlc_um_init_timer_reordering timer
                    (e3\<lparr>is_mxch := mxch, last_reassemblied_sn := rx_sn_modulo e3 - 1,
                        last_reassemblied_missing_sn := rx_sn_modulo e3 - 1,
                        missing_sn_detected := False\<rparr>))\<lparr>first_pdu := True\<rparr>))))"

definition rlc_um_set_debug_infos :: "bool \<Rightarrow> rlc_um \<Rightarrow> rlc_um" where
  "rlc_um_set_debug_infos srb e = e\<lparr>is_data_plane := \<not> srb\<rparr>"

section \<open>The state machine\<close>

datatype rlc_um_event = CONFIG_REQ_ENTER_NULL_STATE | CONFIG_REQ_ENTER_DATA_TRANSFER_READY_STATE
  | CRLC_SUSPEND_REQ | CRLC_SUSPEND_CNF | CRLC_RESUME_REQ

text \<open>
  The events are the five codes of \<open>rlc_um_constants.h\<close>. An event that is not expected in the null state
  ends the program (\<open>macphy_exit\<close>); elsewhere it is refused.
\<close>

definition rlc_um_fsm_notify_event :: "rlc_um_event \<Rightarrow> rlc_um \<Rightarrow> (bool \<times> rlc_um) res" where
  "rlc_um_fsm_notify_event ev e =
     (case protocol_state e of
        RLC_NULL_STATE \<Rightarrow>
          (case ev of
             CONFIG_REQ_ENTER_DATA_TRANSFER_READY_STATE \<Rightarrow>
               Inr (True, e\<lparr>protocol_state := RLC_DATA_TRANSFER_READY_STATE\<rparr>)
           | _ \<Rightarrow> Inl Abort)
      | RLC_DATA_TRANSFER_READY_STATE \<Rightarrow>
          (case ev of
             CONFIG_REQ_ENTER_NULL_STATE \<Rightarrow> Inr (True, e\<lparr>protocol_state := RLC_NULL_STATE\<rparr>)
           | CRLC_SUSPEND_REQ \<Rightarrow> Inr (True, e\<lparr>protocol_state := RLC_LOCAL_SUSPEND_STATE\<rparr>)
           | CRLC_SUSPEND_CNF \<Rightarrow> Inr (True, e\<lparr>protocol_state := RLC_LOCAL_SUSPEND_STATE\<rparr>)
           | _ \<Rightarrow> Inr (False, e))
      | RLC_LOCAL_SUSPEND_STATE \<Rightarrow>
          (case ev of
             CONFIG_REQ_ENTER_NULL_STATE \<Rightarrow> Inr (True, e\<lparr>protocol_state := RLC_NULL_STATE\<rparr>)
           | CRLC_RESUME_REQ \<Rightarrow> Inr (True, e\<lparr>protocol_state := RLC_DATA_TRANSFER_READY_STATE\<rparr>)
           | _ \<Rightarrow> Inr (False, e)))"

text \<open>The configuration of an entity that exists.\<close>

definition config_req_rlc_um :: "u32 \<Rightarrow> nat \<Rightarrow> bool \<Rightarrow> bool \<Rightarrow> rlc_um \<Rightarrow> rlc_um res" where
  "config_req_rlc_um timer sn_len mxch srb e =
     bindE (rlc_um_fsm_notify_event CONFIG_REQ_ENTER_DATA_TRANSFER_READY_STATE (rlc_um_init e))
       (\<lambda>(ok, e1). Inr (if ok then rlc_um_configure timer sn_len sn_len mxch
                                     (rlc_um_set_debug_infos srb e1) else e1))"

section \<open>The reordering window\<close>

definition rlc_um_in_window :: "rlc_um \<Rightarrow> int \<Rightarrow> int \<Rightarrow> int \<Rightarrow> int" where
  "rlc_um_in_window e lower sn higher =
     (let modulus = vr_uh e - rx_um_window_size e;
          lo = c_rem (lower - modulus) (rx_sn_modulo e);
          hi = c_rem (higher - modulus) (rx_sn_modulo e);
          s = c_rem (sn - modulus) (rx_sn_modulo e)
      in if lo > s then - 2
         else if hi < s then - 1
         else if lo = s then (if hi = s then 3 else 1)
         else if hi = s then 2
         else 0)"

definition rlc_um_in_reordering_window :: "rlc_um \<Rightarrow> int \<Rightarrow> int" where
  "rlc_um_in_reordering_window e sn =
     (let modulus = vr_uh e - rx_um_window_size e;
          sn_mod = c_rem (sn - modulus) (rx_sn_modulo e)
      in if 0 \<le> sn_mod \<and> sn_mod < rx_um_window_size e then 0 else - 1)"

section \<open>Sequence numbers modulo twice the window\<close>

text \<open>
  The arithmetic of the window, for any modulus that is twice the window size. The code reduces a
  number relative to the lower edge of the window with C's remainder, which is negative for some
  numbers outside the window. What matters of a number is how far it is behind \<open>VR(UH)\<close>.
\<close>

locale sn_space =
  fixes M W :: int
  assumes window: "0 < W" and modulus: "M = 2 * W"
begin

abbreviation sn :: "int \<Rightarrow> bool" where
  "sn x \<equiv> 0 \<le> x \<and> x < M"

lemma M_pos: "0 < M"
  using window modulus by simp

lemma succ: "sn x \<Longrightarrow> c_rem (x + 1) M = (x + 1) mod M \<and> sn ((x + 1) mod M)"
  using M_pos by simp

lemma distance_cases:
  assumes "sn uh" and "sn x"
  shows "(uh - x) mod M = (if x \<le> uh then uh - x else uh - x + M)"
proof (cases "x \<le> uh")
  case False
  have "(uh - x) mod M = (uh - x + M) mod M" by simp
  also have "\<dots> = uh - x + M" using False assms by (intro mod_pos_pos_trivial) auto
  finally show ?thesis using False by simp
qed (use assms in auto)

lemma rem_cases:
  assumes "sn uh" and "sn x"
  shows "c_rem (x - (uh - W)) M =
    (if x - uh + W < M then x - uh + W else x - uh + W - M)"
proof -
  have eq: "x - (uh - W) = x - uh + W" by simp
  consider "x - uh + W < 0" | "0 \<le> x - uh + W" "x - uh + W < M" | "M \<le> x - uh + W" by linarith
  then show ?thesis
  proof cases
    case 1
    then have "\<bar>x - uh + W\<bar> < M" using assms window modulus by linarith
    with 1 show ?thesis unfolding eq using M_pos by (simp add: c_rem_small)
  next
    case 2
    then show ?thesis unfolding eq using M_pos by simp
  next
    case 3
    have "(x - uh + W) mod M = (x - uh + W - M) mod M" by simp
    also have "\<dots> = x - uh + W - M" using 3 assms window modulus by (intro mod_pos_pos_trivial) linarith+
    finally show ?thesis unfolding eq using 3 M_pos by simp
  qed
qed

text \<open>The position the code computes, by the distance behind \<open>VR(UH)\<close>.\<close>

lemma position:
  assumes "sn uh" and "sn x"
  shows "(uh - x) mod M \<le> W \<Longrightarrow> c_rem (x - (uh - W)) M = W - (uh - x) mod M"
    and "(uh - x) mod M > W \<Longrightarrow> c_rem (x - (uh - W)) M < 0 \<or> c_rem (x - (uh - W)) M > W"
  unfolding rem_cases [OF assms] distance_cases [OF assms] using assms window modulus
  by (auto split: if_splits)

lemma lower_edge: "c_rem (uh - W - (uh - W)) M = 0"
  using M_pos by simp

end

interpretation sn5: sn_space 32 16
  by unfold_locales simp_all

interpretation sn10: sn_space 1024 512
  by unfold_locales simp_all

text \<open>An entity that receives with one of the two lengths of a sequence number.\<close>

definition rx_configured :: "rlc_um \<Rightarrow> bool" where
  "rx_configured e \<longleftrightarrow> initialized e \<and>
     (rx_sn_length e = 5 \<and> rx_sn_modulo e = 32 \<and> rx_um_window_size e = 16 \<or>
      rx_sn_length e = 10 \<and> rx_sn_modulo e = 1024 \<and> rx_um_window_size e = 512)"

definition is_sn :: "rlc_um \<Rightarrow> int \<Rightarrow> bool" where
  "is_sn e x \<longleftrightarrow> 0 \<le> x \<and> x < rx_sn_modulo e"

definition behind :: "rlc_um \<Rightarrow> int \<Rightarrow> int" where
  "behind e x = (vr_uh e - x) mod rx_sn_modulo e"

definition rx_position :: "rlc_um \<Rightarrow> int \<Rightarrow> int" where
  "rx_position e x = c_rem (x - (vr_uh e - rx_um_window_size e)) (rx_sn_modulo e)"

text \<open>The facts of the two instances, for a configured entity.\<close>

lemma rx_position_behind:
  assumes "rx_configured e" and "is_sn e (vr_uh e)" and "is_sn e x"
  shows "behind e x \<le> rx_um_window_size e \<Longrightarrow> rx_position e x = rx_um_window_size e - behind e x"
    and "behind e x > rx_um_window_size e \<Longrightarrow>
      rx_position e x < 0 \<or> rx_position e x > rx_um_window_size e"
  using assms sn5.position [of "vr_uh e" x] sn10.position [of "vr_uh e" x]
  by (auto simp: rx_configured_def is_sn_def behind_def rx_position_def)

lemma rx_space:
  assumes "rx_configured e"
  shows "0 < rx_um_window_size e" "rx_sn_modulo e = 2 * rx_um_window_size e" "0 < rx_sn_modulo e"
    "rx_sn_modulo e \<le> 1024" "initialized e"
  using assms by (auto simp: rx_configured_def)

lemma behind_range:
  assumes "rx_configured e"
  shows "0 \<le> behind e x" "behind e x < rx_sn_modulo e"
  using rx_space [OF assms] by (simp_all add: behind_def)

lemma behind_uh [simp]: "behind e (vr_uh e) = 0"
  by (simp add: behind_def)

lemma behind_cases:
  assumes "rx_configured e" and "is_sn e (vr_uh e)" and "is_sn e x"
  shows "behind e x = (if x \<le> vr_uh e then vr_uh e - x else vr_uh e - x + rx_sn_modulo e)"
  using assms sn5.distance_cases [of "vr_uh e" x] sn10.distance_cases [of "vr_uh e" x]
  by (auto simp: rx_configured_def is_sn_def behind_def)

lemma behind_eq_0:
  assumes "rx_configured e" and "is_sn e (vr_uh e)" and "is_sn e x"
  shows "behind e x = 0 \<longleftrightarrow> x = vr_uh e"
  using behind_cases [OF assms] assms(2,3) by (auto simp: is_sn_def split: if_splits)

lemma behind_inj:
  assumes "rx_configured e" and "is_sn e (vr_uh e)" and "is_sn e x" and "is_sn e y"
    and "behind e x = behind e y"
  shows "x = y"
  using assms(5) behind_cases [OF assms(1,2,3)] behind_cases [OF assms(1,2,4)] assms(2-4)
  by (auto simp: is_sn_def split: if_splits)

text \<open>The next number is one less behind.\<close>

lemma rx_succ:
  assumes "rx_configured e" and "is_sn e x"
  shows "c_rem (x + 1) (rx_sn_modulo e) = (x + 1) mod rx_sn_modulo e"
    and "is_sn e ((x + 1) mod rx_sn_modulo e)"
  using assms sn5.succ sn10.succ by (auto simp: rx_configured_def is_sn_def)

lemma behind_succ:
  assumes "rx_configured e" and "behind e x > 0"
  shows "behind e ((x + 1) mod rx_sn_modulo e) = behind e x - 1"
proof -
  have "behind e ((x + 1) mod rx_sn_modulo e) = (vr_uh e - (x + 1)) mod rx_sn_modulo e"
    by (simp add: behind_def mod_diff_right_eq)
  also have "\<dots> = ((vr_uh e - x) mod rx_sn_modulo e - 1) mod rx_sn_modulo e"
    by (simp add: mod_diff_left_eq algebra_simps)
  also have "\<dots> = behind e x - 1"
    using assms behind_range [OF assms(1), of x] by (simp add: behind_def)
  finally show ?thesis .
qed

section \<open>The tests of the window, by the distance behind \<open>VR(UH)\<close>\<close>

lemma in_reordering_window_iff:
  assumes "rx_configured e" and "is_sn e (vr_uh e)" and "is_sn e x"
  shows "rlc_um_in_reordering_window e x =
    (if 0 < behind e x \<and> behind e x \<le> rx_um_window_size e then 0 else - 1)"
  using rx_position_behind [OF assms] rx_space(1) [OF assms(1)] behind_range(1) [OF assms(1), of x]
  by (cases "behind e x \<le> rx_um_window_size e")
     (auto simp: rlc_um_in_reordering_window_def Let_def rx_position_def)

lemma in_window_position:
  "rlc_um_in_window e lo x hi =
     (let l = rx_position e lo; s = rx_position e x; h = rx_position e hi
      in if l > s then - 2 else if h < s then - 1
         else if l = s then (if h = s then 3 else 1) else if h = s then 2 else 0)"
  by (simp add: rlc_um_in_window_def rx_position_def Let_def)

lemma discard_iff:
  assumes "rx_configured e" and "is_sn e (vr_uh e)" and "is_sn e x" and "is_sn e (vr_ur e)"
    and "behind e (vr_ur e) \<le> rx_um_window_size e"
  shows "rlc_um_in_window e (vr_uh e - rx_um_window_size e) x (vr_ur e) \<in> {0, 1} \<longleftrightarrow>
    behind e (vr_ur e) < behind e x \<and> behind e x \<le> rx_um_window_size e"
proof -
  have "rx_position e (vr_uh e - rx_um_window_size e) = 0"
    using rx_space(3) [OF assms(1)] by (simp add: rx_position_def)
  with rx_position_behind [OF assms(1,2,3)] rx_position_behind(1) [OF assms(1,2,4,5)]
  show ?thesis
    using behind_range(1) [OF assms(1), of x] behind_range(1) [OF assms(1), of "vr_ur e"] assms(5)
    by (cases "behind e x \<le> rx_um_window_size e") (auto simp: in_window_position Let_def)
qed

lemma duplicate_iff:
  assumes "rx_configured e" and "is_sn e (vr_uh e)" and "is_sn e x" and "is_sn e (vr_ur e)"
    and "behind e (vr_ur e) \<le> rx_um_window_size e"
  shows "rlc_um_in_window e (vr_ur e) x (vr_uh e) = 0 \<longleftrightarrow>
    0 < behind e x \<and> behind e x < behind e (vr_ur e)"
proof -
  have "rx_position e (vr_uh e) = rx_um_window_size e"
    using rx_position_behind(1) [OF assms(1,2,2)] rx_space(1) [OF assms(1)] by simp
  with rx_position_behind [OF assms(1,2,3)] rx_position_behind(1) [OF assms(1,2,4,5)]
  show ?thesis
    using behind_range(1) [OF assms(1), of x] assms(5)
    by (cases "behind e x \<le> rx_um_window_size e") (auto simp: in_window_position Let_def)
qed

lemma gap_iff:
  assumes "rx_configured e" and "is_sn e (vr_uh e)" and "is_sn e (vr_ur e)"
    and "behind e (vr_ur e) \<le> rx_um_window_size e"
  shows "rlc_um_in_window e (vr_ur e) (vr_uh e) (vr_uh e) = 2 \<longleftrightarrow> vr_ur e \<noteq> vr_uh e"
proof -
  have "rx_position e (vr_uh e) = rx_um_window_size e"
    using rx_position_behind(1) [OF assms(1,2,2)] rx_space(1) [OF assms(1)] by simp
  with rx_position_behind(1) [OF assms] show ?thesis
    using behind_range(1) [OF assms(1), of "vr_ur e"] behind_eq_0 [OF assms(1-3)] assms(4)
    by (auto simp: in_window_position Let_def)
qed

lemma passed_iff:
  assumes "rx_configured e" and "is_sn e (vr_uh e)" and "is_sn e (vr_ur e)" and "is_sn e x"
    and "behind e (vr_ur e) \<le> rx_um_window_size e" and "behind e x \<le> rx_um_window_size e"
  shows "rlc_um_in_window e (vr_ur e) x (vr_uh e) \<in> {- 2, 1} \<longleftrightarrow>
    behind e (vr_ur e) \<le> behind e x \<and> behind e x > 0"
proof -
  have "rx_position e (vr_uh e) = rx_um_window_size e"
    using rx_position_behind(1) [OF assms(1,2,2)] rx_space(1) [OF assms(1)] by simp
  with rx_position_behind(1) [OF assms(1,2,3,5)] rx_position_behind(1) [OF assms(1,2,4,6)]
  show ?thesis
    using behind_range(1) [OF assms(1), of x] behind_range(1) [OF assms(1), of "vr_ur e"]
    by (auto simp: in_window_position Let_def)
qed

end
