(* ===== verification/RlcUmReassembly.thy ===== *)
theory RlcUmReassembly
  imports RlcUm
begin

text \<open>
  The reassembly of SDUs from the PDUs of an unacknowledged-mode RLC entity: the length indicators of
  a PDU (\<open>rlc_um_read_length_indicators\<close>), the SDU under construction (\<open>rlc_um_reassembly.c\<close>) and the
  body of the loop of \<open>rlc_um_try_reassembly\<close> (\<open>rlc_um_dar.c\<close>), which takes one PDU out of the buffer.

  A PDU is the list of its bytes. A pointer into it is an offset; an access past its end is
  \<open>OutOfBounds\<close>. Getting a memory block for an SDU is taken to succeed (the pool ends the program when
  it is empty).
\<close>

section \<open>Length indicators\<close>

definition RLC_UM_SEGMENT_NB_MAX_LI_PER_PDU :: nat where "RLC_UM_SEGMENT_NB_MAX_LI_PER_PDU = 128"

definition li_first :: "u8 \<Rightarrow> u8 \<Rightarrow> nat" where
  "li_first b1 b2 = unat (push_bit 4 (ucast (and b1 0x7F) :: u32) + drop_bit 4 (ucast (and b2 0xF0)))"

definition li_second :: "u8 \<Rightarrow> u8 \<Rightarrow> nat" where
  "li_second b2 b3 = unat (push_bit 8 (ucast (and b2 0x07) :: u32) + ucast b3)"

text \<open>
  The loop reads two indicators, of twelve bits each with their extension bit, from three bytes.
  \<open>lis\<close> are the indicators written to \<open>li_array\<close>, which has 128 entries, and \<open>sz\<close> is the size of the
  data that remains. The test on the number of indicators comes after they are written. The result
  is true with the indicators and the size when the loop ends, false when that test fails.
\<close>

definition put_li :: "nat \<Rightarrow> nat list \<Rightarrow> nat list res" where
  "put_li li lis =
     (if length lis < RLC_UM_SEGMENT_NB_MAX_LI_PER_PDU then Inr (lis @ [li]) else Inl OutOfBounds)"

lemma put_li_eq_Inr:
  "put_li li lis = Inr lis' \<longleftrightarrow> length lis < RLC_UM_SEGMENT_NB_MAX_LI_PER_PDU \<and> lis' = lis @ [li]"
  by (auto simp: put_li_def)

function read_lis :: "u8 list \<Rightarrow> int \<Rightarrow> nat list \<Rightarrow> int \<Rightarrow> (bool \<times> nat list \<times> int) res" where
  "read_lis pdu off lis sz =
     bindE (aget pdu off) (\<lambda>b1.
     bindE (aget pdu (off + 1)) (\<lambda>b2.
     let li1 = li_first b1 b2; size1 = sz - int li1 - 2 in
     bindE (put_li li1 lis) (\<lambda>lis1.
     if bit b1 7 then
       bindE (aget pdu (off + 2)) (\<lambda>b3.
       let li2 = li_second b2 b3; size2 = size1 - int li2 - 1 in
       bindE (put_li li2 lis1) (\<lambda>lis2.
       if length lis2 > RLC_UM_SEGMENT_NB_MAX_LI_PER_PDU then Inr (False, lis2, size2)
       else if bit b2 3 then read_lis pdu (off + 3) lis2 size2
       else Inr (True, lis2, size2)))
     else if length lis1 > RLC_UM_SEGMENT_NB_MAX_LI_PER_PDU then Inr (False, lis1, size1)
     else Inr (True, lis1, size1))))"
  by pat_completeness auto
termination
  by (relation "measure (\<lambda>(_, _, lis, _). RLC_UM_SEGMENT_NB_MAX_LI_PER_PDU - length lis)")
     (auto simp: put_li_eq_Inr)

declare read_lis.simps [simp del]

text \<open>
  The result is \<open>None\<close> for the return value -1, and else the indicators, the offset of the data and its
  size.
\<close>

definition rlc_um_read_length_indicators ::
  "u8 list \<Rightarrow> int \<Rightarrow> int \<Rightarrow> (nat list \<times> int \<times> int) option res" where
  "rlc_um_read_length_indicators pdu off sz =
     bindE (read_lis pdu off [] sz) (\<lambda>(ok, lis, size').
       Inr (if ok \<and> size' > 0 then Some (lis, off + (int (length lis) * 3 + 1) div 2, size') else None))"

section \<open>The SDU under construction\<close>

definition rlc_um_clear_rx_sdu :: "rlc_um \<Rightarrow> rlc_um" where
  "rlc_um_clear_rx_sdu e = e\<lparr>output_sdu := map_option (\<lambda>_. []) (output_sdu e)\<rparr>"

definition sdu_max_size :: "rlc_um \<Rightarrow> int" where
  "sdu_max_size e = (if is_data_plane e then 9000 else 2000)"

definition rlc_um_reassembly :: "u8 list \<Rightarrow> int \<Rightarrow> int \<Rightarrow> rlc_um \<Rightarrow> rlc_um res" where
  "rlc_um_reassembly pdu off len e =
     (if len \<le> 0 then Inr e
      else
        (let sdu = (case output_sdu e of None \<Rightarrow> [] | Some xs \<Rightarrow> xs) in
         if int (length sdu) + len \<le> sdu_max_size e then
           (if 0 \<le> off \<and> off + len \<le> int (length pdu)
            then Inr (e\<lparr>output_sdu := Some (sdu @ take (nat len) (drop (nat off) pdu))\<rparr>)
            else Inl OutOfBounds)
         else Inr (e\<lparr>output_sdu := Some []\<rparr>)))"

definition rlc_um_send_sdu :: "rlc_um \<Rightarrow> rlc_um" where
  "rlc_um_send_sdu e =
     (case output_sdu e of
        None \<Rightarrow> e
      | Some sdu \<Rightarrow>
          if sdu \<noteq> [] then
            e\<lparr>stat_rx_pdcp_sdu := stat_rx_pdcp_sdu e + 1,
              stat_rx_pdcp_bytes := stat_rx_pdcp_bytes e + of_nat (length sdu),
              delivered := delivered e @ [sdu], output_sdu := None\<rparr>
          else e)"

section \<open>One PDU\<close>

definition drop_pdu :: "u8 list \<Rightarrow> rlc_um \<Rightarrow> rlc_um" where
  "drop_pdu pdu e = e\<lparr>stat_rx_data_pdu_dropped := stat_rx_data_pdu_dropped e + 1,
     stat_rx_data_bytes_dropped := stat_rx_data_bytes_dropped e + of_nat (length pdu)\<rparr>"

text \<open>The header: the extension bit, the framing information and the length of the fixed part.\<close>

definition pdu_header :: "rlc_um \<Rightarrow> u8 list \<Rightarrow> (bool \<times> nat \<times> int) res" where
  "pdu_header e pdu =
     bindE (aget pdu 0) (\<lambda>b1.
       if rx_sn_length e = 10
       then Inr (bit b1 2, unat (drop_bit 3 (and b1 0x18)), 2)
       else Inr (bit b1 5, unat (drop_bit 6 (and b1 0xC0)), 1))"

text \<open>A PDU without length indicators; \<open>fi\<close> is the framing information.\<close>

definition consume_plain :: "u8 list \<Rightarrow> nat \<Rightarrow> int \<Rightarrow> int \<Rightarrow> rlc_um \<Rightarrow> rlc_um res" where
  "consume_plain pdu fi off sz e =
     (if fi = 0 then
        bindE (rlc_um_reassembly pdu off sz (rlc_um_clear_rx_sdu e)) (\<lambda>e1.
        Inr ((rlc_um_send_sdu e1)\<lparr>missing_sn_detected := False\<rparr>))
      else if fi = 1 then
        bindE (rlc_um_reassembly pdu off sz (rlc_um_clear_rx_sdu e)) (\<lambda>e1.
        Inr (e1\<lparr>missing_sn_detected := False\<rparr>))
      else if fi = 2 then
        (if \<not> missing_sn_detected e then
           bindE (rlc_um_reassembly pdu off sz e) (\<lambda>e1.
           Inr ((rlc_um_send_sdu e1)\<lparr>missing_sn_detected := False\<rparr>))
         else Inr ((drop_pdu pdu e)\<lparr>missing_sn_detected := False\<rparr>))
      else if fi = 3 then
        (if \<not> missing_sn_detected e then rlc_um_reassembly pdu off sz e
         else Inr (drop_pdu pdu (e\<lparr>missing_sn_detected := True\<rparr>)))
      else Inl Abort)"

text \<open>The loop that takes the SDUs that end in the PDU; the result is the offset of the rest.\<close>

fun take_segments :: "u8 list \<Rightarrow> nat list \<Rightarrow> int \<Rightarrow> rlc_um \<Rightarrow> (int \<times> rlc_um) res" where
  "take_segments pdu [] off e = Inr (off, e)"
| "take_segments pdu (li # lis) off e =
     bindE (rlc_um_reassembly pdu off (int li) e) (\<lambda>e1.
     take_segments pdu lis (off + int li) (rlc_um_send_sdu e1))"

text \<open>After a loss the first segment is dropped; the code reads \<open>li_array[0]\<close>, the first indicator.\<close>

definition skip_first :: "nat list \<Rightarrow> int \<Rightarrow> rlc_um \<Rightarrow> nat list \<times> int \<times> rlc_um" where
  "skip_first lis off e =
     (if missing_sn_detected e
      then (tl lis, off + int (lis ! 0),
            e\<lparr>stat_rx_data_bytes_dropped := stat_rx_data_bytes_dropped e + of_nat (lis ! 0)\<rparr>)
      else (lis, off, e))"

definition consume_segments ::
  "u8 list \<Rightarrow> nat \<Rightarrow> nat list \<Rightarrow> int \<Rightarrow> int \<Rightarrow> rlc_um \<Rightarrow> rlc_um res" where
  "consume_segments pdu fi lis off sz e =
     (if fi = 0 \<or> fi = 1 then
        bindE (take_segments pdu lis off (rlc_um_clear_rx_sdu e)) (\<lambda>(off', e1).
        bindE (if sz > 0
               then bindE (rlc_um_reassembly pdu off' sz e1) (\<lambda>e2.
                      Inr (if fi = 0 then rlc_um_send_sdu e2 else e2))
               else Inr e1) (\<lambda>e3.
        Inr (e3\<lparr>missing_sn_detected := False\<rparr>)))
      else if fi = 2 \<or> fi = 3 then
        (case skip_first lis off e of (lis', off1, e0) \<Rightarrow>
         bindE (take_segments pdu lis' off1 e0) (\<lambda>(off', e1).
         bindE (if sz > 0
                then bindE (rlc_um_reassembly pdu off' sz e1) (\<lambda>e2.
                       Inr (if fi = 2 then rlc_um_send_sdu e2 else e2))
                else if fi = 3 then Inl Abort else Inr e1) (\<lambda>e3.
         Inr (e3\<lparr>missing_sn_detected := False\<rparr>))))
      else Inr ((drop_pdu pdu e)\<lparr>missing_sn_detected := True\<rparr>))"

definition consume_pdu :: "u8 list \<Rightarrow> rlc_um \<Rightarrow> rlc_um res" where
  "consume_pdu pdu e =
     bindE (pdu_header e pdu) (\<lambda>(ext, fi, hdr).
     let sz = int (length pdu) - hdr in
     if sz < 0 then Inl Abort
     else if \<not> ext then consume_plain pdu fi hdr sz e
     else
       bindE (rlc_um_read_length_indicators pdu hdr sz) (\<lambda>r.
       case r of
         Some (lis, off, size') \<Rightarrow> consume_segments pdu fi lis off size' e
       | None \<Rightarrow> Inr ((drop_pdu pdu e)\<lparr>missing_sn_detected := True\<rparr>)))"

text \<open>One pass of the loop of \<open>rlc_um_try_reassembly\<close>, for the sequence number \<open>sn\<close>.\<close>

definition reassemble_sn :: "int \<Rightarrow> rlc_um \<Rightarrow> rlc_um res" where
  "reassemble_sn sn e =
     bindE (dar_get e sn) (\<lambda>p.
     case p of
       Some pdu \<Rightarrow>
         (let e1 = (if c_rem (last_reassemblied_sn e + 1) (rx_sn_modulo e) \<noteq> sn
                    then rlc_um_clear_rx_sdu e else e)
          in bindE (consume_pdu pdu (e1\<lparr>last_reassemblied_sn := sn\<rparr>)) (dar_set sn None))
     | None \<Rightarrow>
         Inr (rlc_um_clear_rx_sdu (e\<lparr>last_reassemblied_missing_sn := sn, missing_sn_detected := True\<rparr>)))"

section \<open>What the reassembly leaves alone\<close>

text \<open>The entity without the SDU under construction, the buffer, the counters and what was delivered.\<close>

definition core :: "rlc_um \<Rightarrow> rlc_um" where
  "core e = e\<lparr>output_sdu := None, dar_buffer := (\<lambda>_. None), last_reassemblied_sn := 0,
     last_reassemblied_missing_sn := 0, missing_sn_detected := False, stat_rx_pdcp_sdu := 0,
     stat_rx_pdcp_bytes := 0, stat_rx_data_pdu_dropped := 0, stat_rx_data_bytes_dropped := 0,
     delivered := []\<rparr>"

lemma core_simps [simp]:
  "initialized (core e) = initialized e" "rx_sn_length (core e) = rx_sn_length e"
  "rx_sn_modulo (core e) = rx_sn_modulo e" "rx_um_window_size (core e) = rx_um_window_size e"
  "vr_ur (core e) = vr_ur e" "vr_ux (core e) = vr_ux e" "vr_uh (core e) = vr_uh e"
  "running (core e) = running e" "is_data_plane (core e) = is_data_plane e"
  "ms_start (core e) = ms_start e" "ms_time_out (core e) = ms_time_out e"
  "ms_duration (core e) = ms_duration e" "protocol_state (core e) = protocol_state e"
  by (simp_all add: core_def)

lemma same_core:
  assumes "core e' = core e"
  shows "initialized e' = initialized e" "rx_sn_length e' = rx_sn_length e"
    "rx_sn_modulo e' = rx_sn_modulo e" "rx_um_window_size e' = rx_um_window_size e"
    "vr_ur e' = vr_ur e" "vr_ux e' = vr_ux e" "vr_uh e' = vr_uh e" "running e' = running e"
    "is_data_plane e' = is_data_plane e" "ms_start e' = ms_start e"
    "ms_time_out e' = ms_time_out e" "ms_duration e' = ms_duration e"
    "protocol_state e' = protocol_state e"
  using assms core_simps by metis+

lemma same_core_window:
  assumes "core e' = core e"
  shows "rx_configured e' = rx_configured e" "is_sn e' x = is_sn e x" "behind e' x = behind e x"
    "rlc_um_in_window e' a x b = rlc_um_in_window e a x b"
    "rlc_um_in_reordering_window e' x = rlc_um_in_reordering_window e x"
  using same_core [OF assms]
  by (simp_all add: rx_configured_def is_sn_def behind_def rlc_um_in_window_def
      rlc_um_in_reordering_window_def Let_def)

abbreviation same_rx :: "rlc_um \<Rightarrow> rlc_um \<Rightarrow> bool" where
  "same_rx e e' \<equiv> core e' = core e \<and> dar_buffer e' = dar_buffer e"

lemma same_rx_steps [simp]:
  "same_rx e (rlc_um_clear_rx_sdu e)" "same_rx e (rlc_um_send_sdu e)" "same_rx e (drop_pdu pdu e)"
  by (auto simp: rlc_um_clear_rx_sdu_def rlc_um_send_sdu_def drop_pdu_def core_def split: option.splits)

lemma same_rx_updates [simp]:
  "same_rx e (e\<lparr>missing_sn_detected := b\<rparr>)" "same_rx e (e\<lparr>last_reassemblied_sn := i\<rparr>)"
  "same_rx e (e\<lparr>last_reassemblied_missing_sn := i\<rparr>)" "same_rx e (e\<lparr>stat_rx_data_bytes_dropped := n\<rparr>)"
  "same_rx e (e\<lparr>output_sdu := x\<rparr>)"
  by (auto simp: core_def)

lemma same_rx_reassembly: "rlc_um_reassembly pdu off len e = Inr e' \<Longrightarrow> same_rx e e'"
  by (auto simp: rlc_um_reassembly_def Let_def core_def split: if_splits)

lemma same_rx_segments: "take_segments pdu lis off e = Inr (off', e') \<Longrightarrow> same_rx e e'"
proof (induction lis arbitrary: off e)
  case Nil
  then show ?case by simp
next
  case (Cons li lis)
  then obtain e1 where "rlc_um_reassembly pdu off (int li) e = Inr e1"
    and "take_segments pdu lis (off + int li) (rlc_um_send_sdu e1) = Inr (off', e')"
    by (auto elim: bindE_eq_InrE)
  with Cons.IH same_rx_reassembly same_rx_steps(2) show ?case by metis
qed

lemma same_rx_skip: "skip_first lis off e = (lis', off', e') \<Longrightarrow> same_rx e e'"
  by (auto simp: skip_first_def split: if_splits)

lemma same_rx_plain: "consume_plain pdu fi off sz e = Inr e' \<Longrightarrow> same_rx e e'"
  by (auto simp: consume_plain_def bindE_eq_Inr dest!: same_rx_reassembly split: if_splits)

lemma same_rx_consume_segments:
  assumes "consume_segments pdu fi lis off sz e = Inr e'"
  shows "same_rx e e'"
  using assms unfolding consume_segments_def
  by (auto simp: bindE_eq_Inr dest!: same_rx_reassembly same_rx_segments same_rx_skip
      split: if_splits prod.splits)

lemma same_rx_consume:
  assumes "consume_pdu pdu e = Inr e'"
  shows "same_rx e e'"
  using assms unfolding consume_pdu_def
  by (auto simp: bindE_eq_Inr Let_def dest!: same_rx_plain same_rx_consume_segments
      split: if_splits prod.splits option.splits)

text \<open>A pass of the loop empties one place of the buffer.\<close>

lemma reassemble_sn_frame:
  assumes "reassemble_sn sn e = Inr e'"
  shows "core e' = core e \<and> dar_buffer e' = (dar_buffer e)(nat sn := None) \<and> 0 \<le> sn \<and> sn < 1024"
proof -
  from assms obtain p where p: "dar_get e sn = Inr p" by (auto simp: reassemble_sn_def bindE_eq_Inr)
  then have sn: "0 \<le> sn" "sn < 1024" "p = dar_buffer e (nat sn)" "initialized e"
    by (auto simp: dar_get_def split: if_splits)
  show ?thesis
  proof (cases p)
    case None
    with assms p sn show ?thesis by (auto simp: reassemble_sn_def)
  next
    case (Some pdu)
    let ?e1 = "(if c_rem (last_reassemblied_sn e + 1) (rx_sn_modulo e) \<noteq> sn
                then rlc_um_clear_rx_sdu e else e)\<lparr>last_reassemblied_sn := sn\<rparr>"
    have "same_rx e ?e1" by (auto simp: rlc_um_clear_rx_sdu_def core_def)
    moreover from Some assms p obtain e2 where "consume_pdu pdu ?e1 = Inr e2"
      and "dar_set sn None e2 = Inr e'"
      by (auto simp: reassemble_sn_def bindE_eq_Inr Let_def)
    moreover from this have "same_rx ?e1 e2" by (intro same_rx_consume)
    ultimately show ?thesis using sn by (auto simp: dar_set_def core_def split: if_splits)
  qed
qed

end
