(* ===== verification/RlcUmDar.thy ===== *)
theory RlcUmDar
  imports RlcUmReassembly
begin

text \<open>
  Duplicate avoidance and reordering of an unacknowledged-mode RLC entity (\<open>rlc_um_dar.c\<close>,
  \<open>rlc_um_receiver.c\<close>): the loop that reassembles a range of sequence numbers, the reordering timer, and
  the reception of a PDU.

  The lock of the buffer is free when a PDU is received; the timer only tries to take it, and
  whether it gets it is an argument. \<open>now\<close> is the time in milliseconds of the protocol context.
\<close>

section \<open>Reassembly of a range\<close>

text \<open>
  The loop ends before \<open>end_sn\<close> or before \<open>VR(UH)\<close>, whichever comes first. A loop that has seen as many
  numbers as there are, and has met neither, never ends.
\<close>

fun reassembly_loop :: "nat \<Rightarrow> int \<Rightarrow> int \<Rightarrow> rlc_um \<Rightarrow> rlc_um res" where
  "reassembly_loop fuel end_sn sn e =
     bindE (reassemble_sn sn e) (\<lambda>e1.
     let sn' = c_rem (sn + 1) (rx_sn_modulo e1) in
     if sn' = vr_uh e1 \<or> sn' = end_sn then Inr e1
     else (case fuel of 0 \<Rightarrow> Inl Diverges | Suc f \<Rightarrow> reassembly_loop f end_sn sn' e1))"

declare reassembly_loop.simps [simp del]

definition rlc_um_try_reassembly :: "int \<Rightarrow> int \<Rightarrow> rlc_um \<Rightarrow> rlc_um res" where
  "rlc_um_try_reassembly start_sn end_sn e =
     (let m = rx_sn_modulo e;
          end' = (if end_sn < 0 then end_sn + m else end_sn);
          start' = (if start_sn < 0 then start_sn + m else start_sn)
      in if start' = end' then Inr e else reassembly_loop (nat m) end' start' e)"

section \<open>The reordering timer\<close>

definition rlc_um_stop_and_reset_timer_reordering :: "rlc_um \<Rightarrow> rlc_um" where
  "rlc_um_stop_and_reset_timer_reordering e =
     e\<lparr>running := False, ms_time_out := 0, ms_start := 0, timed_out := False\<rparr>"

definition rlc_um_start_timer_reordering :: "u32 \<Rightarrow> rlc_um \<Rightarrow> rlc_um" where
  "rlc_um_start_timer_reordering now e =
     (let e1 = e\<lparr>timed_out := False\<rparr> in
      if ms_duration e1 > 0
      then e1\<lparr>running := True, ms_time_out := now + ms_duration e1, ms_start := now\<rparr> else e1)"

text \<open>The two cases of the expiry test: the interval does or does not wrap around.\<close>

definition timer_expired :: "u32 \<Rightarrow> rlc_um \<Rightarrow> bool" where
  "timer_expired now e =
     ((ms_start e < ms_time_out e \<and> (now \<ge> ms_time_out e \<or> now < ms_start e)) \<or>
      (ms_start e > ms_time_out e \<and> now < ms_start e \<and> now \<ge> ms_time_out e))"

text \<open>
  \<open>VR(UR)\<close> moves over the PDUs that are in the buffer. The loop of the timer stops at the first gap
  only; the loop of the reception also at \<open>VR(UH)\<close>.
\<close>

fun skip_received :: "nat \<Rightarrow> rlc_um \<Rightarrow> int \<Rightarrow> int res" where
  "skip_received fuel e sn =
     bindE (dar_get e sn) (\<lambda>p.
       if p = None then Inr sn
       else (case fuel of 0 \<Rightarrow> Inl Diverges
             | Suc f \<Rightarrow> skip_received f e (c_rem (sn + 1) (rx_sn_modulo e))))"

fun skip_received_below :: "nat \<Rightarrow> rlc_um \<Rightarrow> int \<Rightarrow> int res" where
  "skip_received_below fuel e sn =
     (let sn' = c_rem (sn + 1) (rx_sn_modulo e) in
      bindE (dar_get e sn') (\<lambda>p.
        if p = None \<or> sn' = vr_uh e then Inr sn'
        else (case fuel of 0 \<Rightarrow> Inl Diverges | Suc f \<Rightarrow> skip_received_below f e sn')))"

declare skip_received.simps [simp del] skip_received_below.simps [simp del]

text \<open>The remainder by a modulus of zero, before any configuration, is undefined.\<close>

definition timer_action :: "u32 \<Rightarrow> rlc_um \<Rightarrow> rlc_um res" where
  "timer_action now e =
     (if rx_sn_modulo e = 0 then Inl Undefined
      else
        (let old_vr_ur = vr_ur e in
         bindE (skip_received (nat (rx_sn_modulo e)) e (vr_ux e)) (\<lambda>ur.
         bindE (rlc_um_try_reassembly old_vr_ur ur (e\<lparr>vr_ur := ur\<rparr>)) (\<lambda>e1.
         Inr (if rlc_um_in_window e1 (vr_ur e1) (vr_uh e1) (vr_uh e1) = 2
              then (rlc_um_start_timer_reordering now e1)\<lparr>vr_ux := vr_uh e1\<rparr>
              else rlc_um_stop_and_reset_timer_reordering e1)))))"

definition rlc_um_check_timer_dar_time_out :: "u32 \<Rightarrow> bool \<Rightarrow> rlc_um \<Rightarrow> rlc_um res" where
  "rlc_um_check_timer_dar_time_out now lock_free e =
     (if running e \<and> timer_expired now e then
        (let e1 = e\<lparr>stat_timer_reordering_timed_out := stat_timer_reordering_timed_out e + 1\<rparr>
         in if lock_free then timer_action now e1 else Inr e1)
      else Inr e)"

section \<open>Reception of a PDU\<close>

definition pdu_sn :: "rlc_um \<Rightarrow> u8 list \<Rightarrow> int res" where
  "pdu_sn e pdu =
     bindE (aget pdu 0) (\<lambda>b1.
       if rx_sn_length e = 10 then
         bindE (aget pdu 1) (\<lambda>b2. Inr (uint (push_bit 8 (ucast (and b1 3) :: u32) + ucast b2)))
       else if rx_sn_length e = 5 then Inr (uint (and b1 0x1F))
       else Inl Undefined)"

text \<open>
  The update of the variables after a PDU outside the reordering window was stored. \<open>in_window\<close> is the
  new lower edge of the window; the second test reads it only when the first has set it.
\<close>

definition advance_window :: "int \<Rightarrow> rlc_um \<Rightarrow> rlc_um res" where
  "advance_window sn e =
     (let e1 = e\<lparr>vr_uh := c_rem (sn + 1) (rx_sn_modulo e)\<rparr> in
      if rlc_um_in_reordering_window e1 (vr_ur e1) \<noteq> 0 then
        (let w = vr_uh e1 - rx_um_window_size e1;
             edge = (if w < 0 then w + rx_sn_modulo e1 else w)
         in bindE (rlc_um_try_reassembly (vr_ur e1) edge e1) (\<lambda>e2.
            Inr (if rlc_um_in_reordering_window e2 (vr_ur e2) < 0 then e2\<lparr>vr_ur := edge\<rparr> else e2)))
      else Inr e1)"

text \<open>The delivery of what has become complete.\<close>

definition deliver_ready :: "int \<Rightarrow> rlc_um \<Rightarrow> rlc_um res" where
  "deliver_ready sn e =
     (if sn = vr_ur e then
        bindE (dar_get e (vr_ur e)) (\<lambda>p.
        if p \<noteq> None then
          bindE (skip_received_below (nat (rx_sn_modulo e)) e (vr_ur e)) (\<lambda>ur.
          rlc_um_try_reassembly sn ur (e\<lparr>vr_ur := ur\<rparr>))
        else Inr e)
      else Inr e)"

text \<open>The three last steps, which stop and start the timer.\<close>

definition update_timer :: "u32 \<Rightarrow> rlc_um \<Rightarrow> rlc_um" where
  "update_timer now e =
     (let e1 = (if running e \<and> vr_uh e \<noteq> vr_ux e \<and> rlc_um_in_reordering_window e (vr_ux e) < 0
                then rlc_um_stop_and_reset_timer_reordering e else e);
          e2 = (if running e1 \<and> rlc_um_in_window e1 (vr_ur e1) (vr_ux e1) (vr_uh e1) \<in> {- 2, 1}
                then rlc_um_stop_and_reset_timer_reordering e1 else e1)
      in if \<not> running e2 \<and> rlc_um_in_window e2 (vr_ur e2) (vr_uh e2) (vr_uh e2) = 2
         then (rlc_um_start_timer_reordering now e2)\<lparr>vr_ux := vr_uh e2\<rparr> else e2)"

definition count_out_of_window :: "u8 list \<Rightarrow> rlc_um \<Rightarrow> rlc_um" where
  "count_out_of_window pdu e =
     e\<lparr>stat_rx_data_pdu_out_of_window := stat_rx_data_pdu_out_of_window e + 1,
       stat_rx_data_bytes_out_of_window := stat_rx_data_bytes_out_of_window e + of_nat (length pdu)\<rparr>"

definition count_duplicate :: "u8 list \<Rightarrow> rlc_um \<Rightarrow> rlc_um" where
  "count_duplicate pdu e =
     e\<lparr>stat_rx_data_pdus_duplicate := stat_rx_data_pdus_duplicate e + 1,
       stat_rx_data_bytes_duplicate := stat_rx_data_bytes_duplicate e + of_nat (length pdu)\<rparr>"

text \<open>From the storing of the PDU on.\<close>

definition store_and_process :: "u32 \<Rightarrow> int \<Rightarrow> u8 list \<Rightarrow> rlc_um \<Rightarrow> rlc_um res" where
  "store_and_process now sn pdu e =
     bindE (dar_set sn (Some pdu) e) (\<lambda>e1.
     bindE (if rlc_um_in_reordering_window e1 sn < 0 then advance_window sn e1 else Inr e1) (\<lambda>e2.
     bindE (deliver_ready sn e2) (\<lambda>e3. Inr (update_timer now e3))))"

definition rlc_um_receive_process_dar :: "u32 \<Rightarrow> u8 list \<Rightarrow> rlc_um \<Rightarrow> rlc_um res" where
  "rlc_um_receive_process_dar now pdu e =
     bindE (pdu_sn e pdu) (\<lambda>sn.
     if rx_sn_modulo e = 0 then Inl Undefined
     else if rlc_um_in_window e (vr_uh e - rx_um_window_size e) sn (vr_ur e) \<in> {0, 1}
     then Inr (count_out_of_window pdu e)
     else
       bindE (dar_get e sn) (\<lambda>old.
       if old \<noteq> None then
         (if rlc_um_in_window e (vr_ur e) sn (vr_uh e) = 0 then Inr (count_duplicate pdu e)
          else bindE (dar_set sn None (count_duplicate pdu e)) (store_and_process now sn pdu))
       else store_and_process now sn pdu e))"

definition receive_tb :: "u32 \<Rightarrow> u8 list \<Rightarrow> rlc_um \<Rightarrow> rlc_um res" where
  "receive_tb now pdu e =
     (let e1 = e\<lparr>stat_rx_data_bytes := stat_rx_data_bytes e + of_nat (length pdu),
                 stat_rx_data_pdu := stat_rx_data_pdu e + 1\<rparr>
      in if length pdu > 0 then rlc_um_receive_process_dar now pdu e1 else Inr e1)"

definition rlc_um_receive :: "u32 \<Rightarrow> u8 list list \<Rightarrow> rlc_um \<Rightarrow> rlc_um res" where
  "rlc_um_receive now tbs e = foldE (receive_tb now) tbs e"

section \<open>Ranges of sequence numbers\<close>

definition sn_range :: "int \<Rightarrow> int \<Rightarrow> nat \<Rightarrow> int list" where
  "sn_range m a n = map (\<lambda>i. (a + int i) mod m) [0..<n]"

lemma sn_range_0 [simp]: "sn_range m a 0 = []"
  by (simp add: sn_range_def)

lemma sn_range_Suc: "sn_range m a (Suc n) = a mod m # sn_range m ((a + 1) mod m) n"
proof -
  have "(a + int (Suc i)) mod m = ((a + 1) mod m + int i) mod m" for i
    by (simp add: mod_add_left_eq mod_add_right_eq algebra_simps)
  then have "map (\<lambda>i. (a + int i) mod m) [Suc 0..<Suc n] = sn_range m ((a + 1) mod m) n"
    unfolding sn_range_def by (simp only: map_Suc_upt [symmetric] map_map o_def)
  then show ?thesis unfolding sn_range_def by (simp add: upt_conv_Cons del: upt_Suc)
qed

lemma is_sn_mod: "rx_configured e \<Longrightarrow> is_sn e (x mod rx_sn_modulo e)"
  using rx_space(3) by (simp add: is_sn_def)

lemma is_sn_mod_same: "is_sn e x \<Longrightarrow> x mod rx_sn_modulo e = x"
  by (simp add: is_sn_def)

lemma is_sn_bound: "rx_configured e \<Longrightarrow> is_sn e x \<Longrightarrow> 0 \<le> x \<and> x < 1024"
  using rx_space(4) by (fastforce simp: is_sn_def)

lemma behind_mod: "behind e (x mod rx_sn_modulo e) = behind e x"
  by (simp add: behind_def mod_diff_right_eq)

lemma behind_add:
  assumes "rx_configured e" and "0 \<le> i" and "i \<le> behind e a"
  shows "behind e (a + i) = behind e a - i"
proof -
  have "behind e (a + i) = ((vr_uh e - a) mod rx_sn_modulo e - i) mod rx_sn_modulo e"
    by (simp add: behind_def mod_diff_left_eq algebra_simps)
  also have "\<dots> = behind e a - i"
    using assms behind_range [OF assms(1), of a] by (simp add: behind_def)
  finally show ?thesis .
qed

text \<open>The numbers of a range that does not reach beyond \<open>VR(UH)\<close>, by their distance behind it.\<close>

lemma set_sn_range:
  assumes e: "rx_configured e" "is_sn e (vr_uh e)" and k: "int k \<le> behind e a"
  shows "set (sn_range (rx_sn_modulo e) a k)
    = {x. is_sn e x \<and> behind e a - int k < behind e x \<and> behind e x \<le> behind e a}"
    (is "?L = ?R")
proof (rule set_eqI, rule iffI)
  fix x assume "x \<in> ?L"
  then obtain i where i: "i < k" "x = (a + int i) mod rx_sn_modulo e" by (auto simp: sn_range_def)
  with k behind_add [OF e(1), of "int i" a] have "behind e x = behind e a - int i"
    by (simp add: behind_mod)
  with i is_sn_mod [OF e(1)] show "x \<in> ?R" by simp
next
  fix x assume x: "x \<in> ?R"
  define i where "i = nat (behind e a - behind e x)"
  have i: "i < k" "int i = behind e a - behind e x" using x unfolding i_def by auto
  with k behind_add [OF e(1), of "int i" a] have "behind e ((a + int i) mod rx_sn_modulo e) = behind e x"
    by (simp add: behind_mod)
  with behind_inj [OF e is_sn_mod [OF e(1)], of x] x have "(a + int i) mod rx_sn_modulo e = x"
    by blast
  with i(1) show "x \<in> ?L" by (force simp: sn_range_def)
qed

section \<open>The loop of the reassembly as a fold\<close>

lemma reassembly_loop_step:
  "reassembly_loop fuel stop x e = bindE (reassemble_sn x e) (\<lambda>e1.
     let y = c_rem (x + 1) (rx_sn_modulo e) in
     if y = vr_uh e \<or> y = stop then Inr e1
     else (case fuel of 0 \<Rightarrow> Inl Diverges | Suc f \<Rightarrow> reassembly_loop f stop y e1))"
proof (cases "reassemble_sn x e")
  case (Inr e1)
  then have "core e1 = core e" by (auto dest: reassemble_sn_frame)
  from same_core(3,7) [OF this] Inr show ?thesis
    by (subst reassembly_loop.simps) (simp add: Let_def split: nat.split)
qed (subst reassembly_loop.simps, simp)

lemma reassembly_loop_range:
  assumes "rx_configured e" and "is_sn e x" and "is_sn e stop" and "n \<le> fuel"
    and "(stop - x) mod rx_sn_modulo e = int (Suc n)"
    and "\<forall>i. 1 \<le> i \<and> i \<le> n \<longrightarrow> (x + int i) mod rx_sn_modulo e \<noteq> vr_uh e"
  shows "reassembly_loop fuel stop x e = foldE reassemble_sn (sn_range (rx_sn_modulo e) x (Suc n)) e"
  using assms
proof (induction n arbitrary: x e fuel)
  case 0
  have "(x + 1) mod rx_sn_modulo e = stop"
  proof -
    have "(x + (stop - x) mod rx_sn_modulo e) mod rx_sn_modulo e = stop mod rx_sn_modulo e"
      by (simp add: mod_add_right_eq)
    with 0 show ?thesis by (simp add: is_sn_mod_same)
  qed
  with 0 rx_succ [OF 0(1,2)] show ?case
    by (subst reassembly_loop_step) (simp add: sn_range_Suc is_sn_mod_same bindE_def Let_def split: sum.splits)
next
  case (Suc n)
  let ?m = "rx_sn_modulo e" let ?y = "(x + 1) mod ?m"
  have m: "0 < ?m" using rx_space(3) [OF Suc.prems(1)] .
  have y: "c_rem (x + 1) ?m = ?y" "is_sn e ?y" using rx_succ [OF Suc.prems(1,2)] by auto
  have "(stop - ?y) mod ?m = ((stop - x) mod ?m - 1) mod ?m"
    by (simp add: mod_diff_left_eq mod_diff_right_eq algebra_simps)
  also have "\<dots> = int (Suc n)"
  proof -
    have "int (Suc (Suc n)) < ?m" using Suc.prems(5) pos_mod_bound [OF m, of "stop - x"] by simp
    then show ?thesis unfolding Suc.prems(5) by simp
  qed
  finally have dist: "(stop - ?y) mod ?m = int (Suc n)" .
  then have "?y \<noteq> stop" by auto
  moreover have "?y \<noteq> vr_uh e" using Suc.prems(6) [rule_format, of 1] by simp
  moreover obtain f where f: "fuel = Suc f" "n \<le> f" using Suc.prems(4) by (cases fuel) auto
  ultimately have loop: "reassembly_loop fuel stop x e
      = bindE (reassemble_sn x e) (reassembly_loop f stop ?y)"
    by (subst reassembly_loop_step) (simp add: y(1) Let_def)
  have far: "\<forall>i. 1 \<le> i \<and> i \<le> n \<longrightarrow> (?y + int i) mod ?m \<noteq> vr_uh e"
  proof (intro allI impI)
    fix i assume "1 \<le> i \<and> i \<le> n"
    then have "(x + int (Suc i)) mod ?m \<noteq> vr_uh e" by (intro Suc.prems(6) [rule_format]) simp
    moreover have "(?y + int i) mod ?m = (x + int (Suc i)) mod ?m"
      by (simp add: mod_add_left_eq mod_add_right_eq algebra_simps)
    ultimately show "(?y + int i) mod ?m \<noteq> vr_uh e" by metis
  qed
  show ?case
  proof (cases "reassemble_sn x e")
    case (Inl err)
    with loop show ?thesis using Suc.prems(2) by (simp add: sn_range_Suc is_sn_mod_same)
  next
    case (Inr e1)
    then have core: "core e1 = core e" by (auto dest: reassemble_sn_frame)
    note eq = same_core [OF core] same_core_window [OF core]
    have "reassembly_loop f stop ?y e1 = foldE reassemble_sn (sn_range (rx_sn_modulo e1) ?y (Suc n)) e1"
      by (rule Suc.IH) (use Suc.prems(1,3) y(2) f(2) dist far in \<open>simp_all add: eq\<close>)
    with loop Inr show ?thesis
      using Suc.prems(2) by (simp add: sn_range_Suc [of _ x] is_sn_mod_same eq)
  qed
qed

lemma try_reassembly_range:
  assumes e: "rx_configured e" and a: "is_sn e a" and b: "is_sn e b"
    and far: "\<And>i. 1 \<le> i \<Longrightarrow> int i < (b - a) mod rx_sn_modulo e \<Longrightarrow> (a + int i) mod rx_sn_modulo e \<noteq> vr_uh e"
  shows "rlc_um_try_reassembly a b e
    = foldE reassemble_sn (sn_range (rx_sn_modulo e) a (nat ((b - a) mod rx_sn_modulo e))) e"
proof (cases "a = b")
  case True
  with a show ?thesis by (simp add: rlc_um_try_reassembly_def is_sn_def)
next
  case False
  let ?m = "rx_sn_modulo e"
  have m: "0 < ?m" using rx_space(3) [OF e] .
  have "(b - a) mod ?m \<noteq> 0"
    using False a b by (auto simp: is_sn_def mod_eq_dvd_iff [symmetric] dest!: mod_eq_dvd_iff [THEN iffD2])
  then have pos: "0 < (b - a) mod ?m" "(b - a) mod ?m < ?m" 
    using pos_mod_sign [OF m, of "b - a"] pos_mod_bound [OF m, of "b - a"] by linarith+
  define n where "n = nat ((b - a) mod ?m) - 1"
  have n: "(b - a) mod ?m = int (Suc n)" "n \<le> nat ?m" using pos unfolding n_def by linarith+
  have "reassembly_loop (nat ?m) b a e = foldE reassemble_sn (sn_range ?m a (Suc n)) e"
    by (rule reassembly_loop_range [OF e a b n(2,1)]) (use far n(1) in simp)
  moreover have "nat ((b - a) mod ?m) = Suc n" unfolding n(1) by simp
  ultimately show ?thesis using False a b by (simp add: rlc_um_try_reassembly_def is_sn_def)
qed

text \<open>A range within the window, in its order.\<close>

lemma range_length:
  assumes e: "rx_configured e" and le: "behind e b \<le> behind e a"
  shows "(b - a) mod rx_sn_modulo e = behind e a - behind e b"
proof -
  have "(b - a) mod rx_sn_modulo e = (behind e a - behind e b) mod rx_sn_modulo e"
    by (simp add: behind_def mod_diff_eq)
  also have "\<dots> = behind e a - behind e b"
    using le behind_range [OF e, of a] behind_range [OF e, of b] by simp
  finally show ?thesis .
qed

lemma try_reassembly_window:
  assumes e: "rx_configured e" and a: "is_sn e a" and b: "is_sn e b"
    and le: "behind e b \<le> behind e a"
  shows "rlc_um_try_reassembly a b e
    = foldE reassemble_sn (sn_range (rx_sn_modulo e) a (nat (behind e a - behind e b))) e"
proof -
  note len = range_length [OF e le]
  have "(a + int i) mod rx_sn_modulo e \<noteq> vr_uh e" if "int i < (b - a) mod rx_sn_modulo e" for i
  proof -
    have "behind e (a + int i) = behind e a - int i"
      using that len behind_range(1) [OF e, of b] by (intro behind_add [OF e]) linarith+
    with that len behind_range(1) [OF e, of b] have "behind e ((a + int i) mod rx_sn_modulo e) > 0"
      by (simp add: behind_mod)
    then show ?thesis by auto
  qed
  with try_reassembly_range [OF e a b] len show ?thesis by simp
qed

lemma reassemble_range_frame:
  assumes "foldE reassemble_sn xs e = Inr e'"
  shows "core e' = core e \<and> dar_buffer e' = (\<lambda>n. if int n \<in> set xs then None else dar_buffer e n)"
  using assms
proof (induction xs arbitrary: e)
  case Nil
  then show ?case by simp
next
  case (Cons x xs)
  then obtain e1 where e1: "reassemble_sn x e = Inr e1" "foldE reassemble_sn xs e1 = Inr e'"
    by (auto elim: bindE_eq_InrE)
  with Cons.IH reassemble_sn_frame [OF e1(1)] show ?case by (auto simp: fun_eq_iff)
qed

section \<open>The invariant of the receiver\<close>

text \<open>
  The PDUs in the buffer lie between \<open>VR(UR)\<close> and \<open>VR(UH)\<close>, at most half of the numbers apart, and a
  running timer guards a number after \<open>VR(UR)\<close>, or nothing is missing any more.
\<close>

definition rx_vars_ok :: "rlc_um \<Rightarrow> bool" where
  "rx_vars_ok e \<longleftrightarrow> rx_configured e \<and> is_sn e (vr_ur e) \<and> is_sn e (vr_ux e) \<and> is_sn e (vr_uh e) \<and>
     behind e (vr_ur e) \<le> rx_um_window_size e"

definition dar_ok :: "rlc_um \<Rightarrow> bool" where
  "dar_ok e \<longleftrightarrow> (\<forall>n. dar_buffer e n \<noteq> None \<longrightarrow>
     is_sn e (int n) \<and> 0 < behind e (int n) \<and> behind e (int n) \<le> behind e (vr_ur e))"

definition timer_ok :: "rlc_um \<Rightarrow> bool" where
  "timer_ok e \<longleftrightarrow> (running e \<longrightarrow>
     behind e (vr_ux e) < behind e (vr_ur e) \<or> vr_ux e = vr_uh e \<and> vr_ur e = vr_uh e)"

definition rx_ok :: "rlc_um \<Rightarrow> bool" where
  "rx_ok e \<longleftrightarrow> rx_vars_ok e \<and> dar_ok e \<and> timer_ok e"

lemma rx_vars_okD:
  assumes "rx_vars_ok e"
  shows "rx_configured e" "is_sn e (vr_ur e)" "is_sn e (vr_ux e)" "is_sn e (vr_uh e)"
    "behind e (vr_ur e) \<le> rx_um_window_size e"
  using assms by (auto simp: rx_vars_ok_def)

lemma dar_get_sn:
  assumes "rx_configured e" and "is_sn e x"
  shows "dar_get e x = Inr (dar_buffer e (nat x))"
  using is_sn_bound [OF assms] rx_space(5) [OF assms(1)] by (simp add: dar_get_def)

lemma dar_ok_uh: "dar_ok e \<Longrightarrow> is_sn e x \<Longrightarrow> behind e x = 0 \<Longrightarrow> dar_buffer e (nat x) = None"
  by (metis dar_ok_def is_sn_def int_nat_eq less_irrefl)

text \<open>The two loops over the PDUs that are there end at the next gap.\<close>

lemma skip_received_spec:
  assumes "rx_configured e" and "is_sn e (vr_uh e)" and "is_sn e x" and "dar_ok e"
    and "nat (behind e x) \<le> fuel"
  shows "\<exists>y. skip_received fuel e x = Inr y \<and> is_sn e y \<and> behind e y \<le> behind e x \<and>
    dar_buffer e (nat y) = None \<and>
    (\<forall>z. is_sn e z \<and> behind e y < behind e z \<and> behind e z \<le> behind e x \<longrightarrow> dar_buffer e (nat z) \<noteq> None)"
  using assms
proof (induction fuel arbitrary: x)
  case 0
  then have "dar_buffer e (nat x) = None"
    using behind_range(1) [OF 0(1), of x] by (intro dar_ok_uh) auto
  then have "skip_received 0 e x = Inr x"
    using dar_get_sn [OF 0(1,3)] by (subst skip_received.simps) simp
  with 0 \<open>dar_buffer e (nat x) = None\<close> show ?case by (intro exI [of _ x]) auto
next
  case (Suc fuel)
  note x = dar_get_sn [OF Suc.prems(1,3)]
  show ?case
  proof (cases "dar_buffer e (nat x)")
    case None
    with x have "skip_received (Suc fuel) e x = Inr x" by (subst skip_received.simps) simp
    with Suc.prems None show ?thesis by (intro exI [of _ x]) auto
  next
    case (Some p)
    let ?y = "(x + 1) mod rx_sn_modulo e"
    have pos: "behind e x > 0"
      using Some dar_ok_uh [OF Suc.prems(4,3)] behind_range(1) [OF Suc.prems(1), of x]
      by (cases "behind e x = 0") auto
    note y = rx_succ [OF Suc.prems(1,3)] behind_succ [OF Suc.prems(1) pos]
    have "\<exists>w. skip_received fuel e ?y = Inr w \<and> is_sn e w \<and> behind e w \<le> behind e ?y \<and>
      dar_buffer e (nat w) = None \<and>
      (\<forall>z. is_sn e z \<and> behind e w < behind e z \<and> behind e z \<le> behind e ?y \<longrightarrow> dar_buffer e (nat z) \<noteq> None)"
      by (rule Suc.IH) (use Suc.prems y in simp_all)
    then obtain w where w: "skip_received fuel e ?y = Inr w" "is_sn e w" "behind e w \<le> behind e ?y"
      "dar_buffer e (nat w) = None"
      "\<And>z. is_sn e z \<Longrightarrow> behind e w < behind e z \<Longrightarrow> behind e z \<le> behind e ?y \<Longrightarrow> dar_buffer e (nat z) \<noteq> None"
      by blast
    have "skip_received (Suc fuel) e x = Inr w"
      using x Some w(1) y(1) by (subst skip_received.simps) simp
    moreover have "dar_buffer e (nat z) \<noteq> None"
      if z: "is_sn e z" "behind e w < behind e z" "behind e z \<le> behind e x" for z
    proof (cases "behind e z = behind e x")
      case True
      with behind_inj [OF Suc.prems(1,2) z(1) Suc.prems(3)] Some show ?thesis by simp
    next
      case False
      with z w(5) y(3) show ?thesis by simp
    qed
    ultimately show ?thesis using w(2-4) y(3) by auto
  qed
qed

lemma skip_received_below_spec:
  assumes "rx_configured e" and "is_sn e (vr_uh e)" and "is_sn e x" and "behind e x > 0"
    and "nat (behind e x) \<le> Suc fuel"
  shows "\<exists>y. skip_received_below fuel e x = Inr y \<and> is_sn e y \<and> behind e y < behind e x \<and>
    (dar_buffer e (nat y) = None \<or> y = vr_uh e) \<and>
    (\<forall>z. is_sn e z \<and> behind e y < behind e z \<and> behind e z < behind e x \<longrightarrow> dar_buffer e (nat z) \<noteq> None)"
  using assms
proof (induction fuel arbitrary: x)
  case 0
  let ?y = "(x + 1) mod rx_sn_modulo e"
  note y = rx_succ [OF 0(1,3)] behind_succ [OF 0(1,4)]
  from 0 y have "behind e ?y = 0" by simp
  with behind_eq_0 [OF 0(1,2) y(2)] have "?y = vr_uh e" by simp
  moreover from this have "skip_received_below 0 e x = Inr ?y"
    using dar_get_sn [OF 0(1) y(2)] y(1) by (subst skip_received_below.simps) (simp add: Let_def)
  ultimately show ?case using 0 y by (intro exI [of _ ?y]) auto
next
  case (Suc fuel)
  let ?y = "(x + 1) mod rx_sn_modulo e"
  note y = rx_succ [OF Suc.prems(1,3)] behind_succ [OF Suc.prems(1,4)]
  note get = dar_get_sn [OF Suc.prems(1) y(2)]
  show ?case
  proof (cases "dar_buffer e (nat ?y) = None \<or> ?y = vr_uh e")
    case True
    with get have "skip_received_below (Suc fuel) e x = Inr ?y"
      by (subst skip_received_below.simps) (simp add: Let_def y(1))
    with Suc.prems True y show ?thesis by (intro exI [of _ ?y]) auto
  next
    case False
    with behind_eq_0 [OF Suc.prems(1,2) y(2)] behind_range(1) [OF Suc.prems(1), of ?y]
    have "behind e ?y > 0" by simp
    then have "\<exists>w. skip_received_below fuel e ?y = Inr w \<and> is_sn e w \<and> behind e w < behind e ?y \<and>
      (dar_buffer e (nat w) = None \<or> w = vr_uh e) \<and>
      (\<forall>z. is_sn e z \<and> behind e w < behind e z \<and> behind e z < behind e ?y \<longrightarrow> dar_buffer e (nat z) \<noteq> None)"
      using Suc.prems y by (intro Suc.IH) simp_all
    then obtain w where w: "skip_received_below fuel e ?y = Inr w" "is_sn e w"
      "behind e w < behind e ?y" "dar_buffer e (nat w) = None \<or> w = vr_uh e"
      "\<And>z. is_sn e z \<Longrightarrow> behind e w < behind e z \<Longrightarrow> behind e z < behind e ?y \<Longrightarrow> dar_buffer e (nat z) \<noteq> None"
      by blast
    have "skip_received_below (Suc fuel) e x = Inr w"
      using get False w(1) by (subst skip_received_below.simps) (auto simp: Let_def y(1))
    moreover have "dar_buffer e (nat z) \<noteq> None"
      if z: "is_sn e z" "behind e w < behind e z" "behind e z < behind e x" for z
    proof (cases "behind e z = behind e ?y")
      case True
      with behind_inj [OF Suc.prems(1,2) z(1) y(2)] False show ?thesis by simp
    next
      case neq: False
      with z w(5) y(3) show ?thesis by simp
    qed
    ultimately show ?thesis using w(2-4) y(3) by (intro exI [of _ w]) auto
  qed
qed

end
