(* ===== verification/RlcUmInvariant.thy ===== *)
theory RlcUmInvariant
  imports RlcUmDar
begin

text \<open>
  The invariant \<open>rx_ok\<close> of the receiver of an unacknowledged-mode entity is kept by the reception of a
  PDU and by the reordering timer, and both return whenever the PDUs involved are readable. Which
  numbers are reassembled, and in which order, comes out on the way.
\<close>

section \<open>Moving \<open>VR(UR)\<close> forward within the window\<close>

lemma window_vr_ur [simp]:
  "rx_configured (e\<lparr>vr_ur := u\<rparr>) = rx_configured e" "is_sn (e\<lparr>vr_ur := u\<rparr>) x = is_sn e x"
  "behind (e\<lparr>vr_ur := u\<rparr>) x = behind e x"
  by (simp_all add: rx_configured_def is_sn_def behind_def)

lemma move_ur:
  assumes vars: "rx_vars_ok e" and dar: "dar_ok e" and u: "is_sn e u" "behind e u \<le> behind e (vr_ur e)"
  shows "rlc_um_try_reassembly (vr_ur e) u (e\<lparr>vr_ur := u\<rparr>)
      = foldE reassemble_sn (sn_range (rx_sn_modulo e) (vr_ur e) (nat (behind e (vr_ur e) - behind e u)))
          (e\<lparr>vr_ur := u\<rparr>)"
    and "rlc_um_try_reassembly (vr_ur e) u (e\<lparr>vr_ur := u\<rparr>) = Inr e' \<Longrightarrow>
      core e' = core (e\<lparr>vr_ur := u\<rparr>) \<and> rx_vars_ok e' \<and> dar_ok e'"
proof -
  note v = rx_vars_okD [OF vars]
  let ?k = "nat (behind e (vr_ur e) - behind e u)"
  show eq: "rlc_um_try_reassembly (vr_ur e) u (e\<lparr>vr_ur := u\<rparr>)
      = foldE reassemble_sn (sn_range (rx_sn_modulo e) (vr_ur e) ?k) (e\<lparr>vr_ur := u\<rparr>)"
    using try_reassembly_window [of "e\<lparr>vr_ur := u\<rparr>" "vr_ur e" u] v u by simp
  assume "rlc_um_try_reassembly (vr_ur e) u (e\<lparr>vr_ur := u\<rparr>) = Inr e'"
  from reassemble_range_frame [OF this [unfolded eq]]
  have core: "core e' = core (e\<lparr>vr_ur := u\<rparr>)"
    and buf: "dar_buffer e' n = (if int n \<in> set (sn_range (rx_sn_modulo e) (vr_ur e) ?k)
        then None else dar_buffer e n)" for n
    by auto
  note c = same_core [OF core] same_core_window [OF core]
  have "int ?k \<le> behind e (vr_ur e)" using u(2) behind_range(1) [OF v(1), of u] by simp
  from set_sn_range [OF v(1,4) this] u(2)
  have range: "set (sn_range (rx_sn_modulo e) (vr_ur e) ?k)
      = {x. is_sn e x \<and> behind e u < behind e x \<and> behind e x \<le> behind e (vr_ur e)}"
    by simp
  have "rx_vars_ok e'" using v u by (simp add: rx_vars_ok_def c)
  moreover have "dar_ok e'"
    unfolding dar_ok_def
  proof (intro allI impI)
    fix n assume n: "dar_buffer e' n \<noteq> None"
    then have "dar_buffer e n \<noteq> None" "int n \<notin> set (sn_range (rx_sn_modulo e) (vr_ur e) ?k)"
      unfolding buf by (auto split: if_splits)
    with dar range show "is_sn e' (int n) \<and> 0 < behind e' (int n) \<and> behind e' (int n) \<le> behind e' (vr_ur e')"
      by (auto simp: dar_ok_def c)
  qed
  ultimately show "core e' = core (e\<lparr>vr_ur := u\<rparr>) \<and> rx_vars_ok e' \<and> dar_ok e'" using core by simp
qed

section \<open>The delivery of what has become complete\<close>

text \<open>
  Where \<open>VR(UR)\<close> ends: at the next gap if the number just received is \<open>VR(UR)\<close>, else where it was.
\<close>

lemma deliver_ready_range:
  assumes vars: "rx_vars_ok e" and dar: "dar_ok e" and sn: "dar_buffer e (nat sn) \<noteq> None"
  shows "\<exists>u. is_sn e u \<and> behind e u \<le> behind e (vr_ur e) \<and>
    (sn \<noteq> vr_ur e \<longrightarrow> u = vr_ur e) \<and> (sn = vr_ur e \<longrightarrow> dar_buffer e (nat u) = None \<and> behind e u < behind e sn) \<and>
    deliver_ready sn e = foldE reassemble_sn
      (sn_range (rx_sn_modulo e) (vr_ur e) (nat (behind e (vr_ur e) - behind e u))) (e\<lparr>vr_ur := u\<rparr>)"
proof (cases "sn = vr_ur e")
  case False
  then show ?thesis using rx_vars_okD [OF vars] by (intro exI [of _ "vr_ur e"]) (simp add: deliver_ready_def)
next
  case True
  note v = rx_vars_okD [OF vars]
  have "behind e sn > 0"
    using sn dar_ok_uh [OF dar, of sn] v(2) behind_range(1) [OF v(1), of sn] True by (cases "behind e sn = 0") auto
  moreover have "nat (behind e sn) \<le> Suc (nat (rx_sn_modulo e))"
    using behind_range [OF v(1), of sn] by linarith
  ultimately obtain u where u: "skip_received_below (nat (rx_sn_modulo e)) e sn = Inr u" "is_sn e u"
    "behind e u < behind e sn" "dar_buffer e (nat u) = None \<or> u = vr_uh e"
    using skip_received_below_spec [OF v(1,4), of sn] v(2) True by blast
  have gap: "dar_buffer e (nat u) = None" using u(4) dar_ok_uh [OF dar v(4)] by auto
  have "deliver_ready sn e = rlc_um_try_reassembly (vr_ur e) u (e\<lparr>vr_ur := u\<rparr>)"
    using sn dar_get_sn [OF v(1,2)] u(1) by (auto simp: deliver_ready_def True)
  with move_ur(1) [OF vars dar u(2)] u(2,3) gap True show ?thesis
    by (intro exI [of _ u]) simp
qed

lemma deliver_ready_ok:
  assumes "rx_vars_ok e" and "dar_ok e" and "dar_buffer e (nat sn) \<noteq> None"
    and "deliver_ready sn e = Inr e'"
  shows "rx_vars_ok e' \<and> dar_ok e' \<and> vr_uh e' = vr_uh e \<and> vr_ux e' = vr_ux e \<and> running e' = running e"
proof -
  from deliver_ready_range [OF assms(1-3)] obtain u where u: "is_sn e u" "behind e u \<le> behind e (vr_ur e)"
    and eq: "deliver_ready sn e = foldE reassemble_sn
      (sn_range (rx_sn_modulo e) (vr_ur e) (nat (behind e (vr_ur e) - behind e u))) (e\<lparr>vr_ur := u\<rparr>)" by blast
  with move_ur(1) [OF assms(1,2) u] assms(4)
  have "rlc_um_try_reassembly (vr_ur e) u (e\<lparr>vr_ur := u\<rparr>) = Inr e'" by simp
  from move_ur(2) [OF assms(1,2) u this] have "core e' = core (e\<lparr>vr_ur := u\<rparr>)" "rx_vars_ok e' \<and> dar_ok e'"
    by simp_all
  with same_core [OF this(1)] show ?thesis by simp
qed

section \<open>Moving the window\<close>

text \<open>
  A number outside the window moves \<open>VR(UH)\<close> by \<open>jump\<close>, which is at most the size of the window. What
  was less far behind \<open>VR(UH)\<close> is then further behind by that much.
\<close>

definition jump :: "rlc_um \<Rightarrow> int \<Rightarrow> int" where
  "jump e x = (if behind e x = 0 then 1 else rx_sn_modulo e + 1 - behind e x)"

lemma window_vr_uh [simp]:
  "rx_configured (e\<lparr>vr_uh := u\<rparr>) = rx_configured e" "is_sn (e\<lparr>vr_uh := u\<rparr>) x = is_sn e x"
  by (simp_all add: rx_configured_def is_sn_def)

lemma window_dar [simp]:
  "rx_configured (e\<lparr>dar_buffer := b\<rparr>) = rx_configured e" "is_sn (e\<lparr>dar_buffer := b\<rparr>) x = is_sn e x"
  "behind (e\<lparr>dar_buffer := b\<rparr>) x = behind e x" "rx_vars_ok (e\<lparr>dar_buffer := b\<rparr>) = rx_vars_ok e"
  "behind (e\<lparr>dar_buffer := b, vr_uh := u\<rparr>) x = behind (e\<lparr>vr_uh := u\<rparr>) x"
  by (simp_all add: rx_configured_def is_sn_def behind_def rx_vars_ok_def)

lemma jump_range:
  assumes "rx_configured e" and "behind e x = 0 \<or> behind e x > rx_um_window_size e"
  shows "1 \<le> jump e x" "jump e x \<le> rx_um_window_size e"
  using assms rx_space [OF assms(1)] behind_range [OF assms(1), of x] by (auto simp: jump_def)

lemma behind_jump:
  assumes e: "rx_configured e" and a: "behind e a + jump e x \<le> rx_sn_modulo e"
    and x: "behind e x = 0 \<or> behind e x > rx_um_window_size e"
  shows "behind (e\<lparr>vr_uh := (x + 1) mod rx_sn_modulo e\<rparr>) a
    = (if behind e a + jump e x = rx_sn_modulo e then 0 else behind e a + jump e x)"
proof -
  let ?m = "rx_sn_modulo e"
  have "behind (e\<lparr>vr_uh := (x + 1) mod ?m\<rparr>) a = (x + 1 - a) mod ?m"
    by (simp add: behind_def mod_diff_left_eq)
  also have "\<dots> = ((vr_uh e - a) mod ?m + (1 - (vr_uh e - x) mod ?m)) mod ?m"
  proof -
    have "((vr_uh e - a) mod ?m + (1 - (vr_uh e - x) mod ?m)) mod ?m
        = (vr_uh e - a + (1 - (vr_uh e - x))) mod ?m"
      by (metis mod_add_left_eq mod_add_right_eq mod_diff_right_eq)
    then show ?thesis by (simp add: algebra_simps)
  qed
  also have "\<dots> = (behind e a + jump e x) mod ?m"
  proof (cases "behind e x = 0")
    case False
    have "(behind e a + jump e x) mod ?m = (behind e a + (1 - behind e x) + ?m) mod ?m"
      using False by (simp add: jump_def algebra_simps)
    then show ?thesis by (simp add: behind_def)
  qed (simp add: behind_def jump_def)
  finally show ?thesis
    using a behind_range [OF e, of a] jump_range [OF e x] by (auto simp: not_le)
qed

lemma window_keeps_ur:
  assumes vars: "rx_vars_ok e" and x: "behind e x = 0 \<or> behind e x > rx_um_window_size e"
  shows "0 < behind (e\<lparr>vr_uh := (x + 1) mod rx_sn_modulo e\<rparr>) (vr_ur e) \<and>
      behind (e\<lparr>vr_uh := (x + 1) mod rx_sn_modulo e\<rparr>) (vr_ur e) \<le> rx_um_window_size e
    \<longleftrightarrow> behind e (vr_ur e) + jump e x \<le> rx_um_window_size e"
proof -
  note v = rx_vars_okD [OF vars]
  have "behind e (vr_ur e) + jump e x \<le> rx_sn_modulo e"
    using v(5) rx_space [OF v(1)] jump_range [OF v(1) x] by linarith
  from behind_jump [OF v(1) this x] show ?thesis
    using rx_space [OF v(1)] jump_range [OF v(1) x] behind_range(1) [OF v(1), of "vr_ur e"] by auto
qed

text \<open>
  The whole step as an equation: \<open>VR(UR)\<close> stays when it is still in the window, else the numbers up to
  the new edge are reassembled.
\<close>

definition dropped :: "rlc_um \<Rightarrow> int \<Rightarrow> int" where
  "dropped e x = behind e (vr_ur e) + jump e x - rx_um_window_size e"

lemma dropped_range:
  assumes vars: "rx_vars_ok e" and x: "behind e x = 0 \<or> behind e x > rx_um_window_size e"
  shows "dropped e x \<le> behind e (vr_ur e)" "dropped e x \<le> rx_um_window_size e"
  using rx_vars_okD [OF vars] jump_range [OF _ x] unfolding dropped_def by fastforce+

lemma advance_window_eq:
  assumes vars: "rx_vars_ok e" and x: "is_sn e x"
    and out: "behind e x = 0 \<or> behind e x > rx_um_window_size e"
  defines "u \<equiv> (x + 1) mod rx_sn_modulo e"
  shows "advance_window x (e\<lparr>dar_buffer := b\<rparr>) =
    (if dropped e x \<le> 0 then Inr (e\<lparr>dar_buffer := b, vr_uh := u\<rparr>)
     else bindE (foldE reassemble_sn (sn_range (rx_sn_modulo e) (vr_ur e) (nat (dropped e x)))
                  (e\<lparr>dar_buffer := b, vr_uh := u\<rparr>))
            (\<lambda>e2. Inr (e2\<lparr>vr_ur := (u - rx_um_window_size e) mod rx_sn_modulo e\<rparr>)))"
proof -
  let ?m = "rx_sn_modulo e" and ?w = "rx_um_window_size e" and ?d = "dropped e x"
  let ?e1 = "e\<lparr>dar_buffer := b, vr_uh := u\<rparr>" and ?edge = "(u - rx_um_window_size e) mod rx_sn_modulo e"
  note v = rx_vars_okD [OF vars]
  note sp = rx_space [OF v(1)]
  have u: "0 \<le> u" "u < ?m" using sp unfolding u_def by simp_all
  have succ: "c_rem (x + 1) ?m = u" using rx_succ(1) [OF v(1) x] unfolding u_def .
  have cfg: "rx_configured ?e1" "is_sn ?e1 (vr_uh ?e1)" "is_sn ?e1 (vr_ur ?e1)"
    using v u by (simp_all add: is_sn_def)
  have keep: "0 < behind ?e1 (vr_ur e) \<and> behind ?e1 (vr_ur e) \<le> ?w \<longleftrightarrow> ?d \<le> 0"
    using window_keeps_ur [OF vars out] unfolding dropped_def u_def by simp
  have win: "rlc_um_in_reordering_window ?e1 (vr_ur e) = (if ?d \<le> 0 then 0 else - 1)"
    using in_reordering_window_iff [OF cfg] keep by simp
  show ?thesis
  proof (cases "?d \<le> 0")
    case True
    with win show ?thesis by (simp add: advance_window_def succ Let_def)
  next
    case False
    have d: "0 < ?d" "?d \<le> ?w" "?d < ?m" using False dropped_range [OF vars out] sp by linarith+
    have edge: "(if u - ?w < 0 then u - ?w + ?m else u - ?w) = ?edge"
    proof (cases "u - ?w < 0")
      case True
      have "?edge = (u - ?w + ?m) mod ?m" by simp
      also have "\<dots> = u - ?w + ?m" using True u sp by (intro mod_pos_pos_trivial) linarith+
      finally show ?thesis using True by simp
    next
      case nonneg: False
      then have "?edge = u - ?w" using u sp by (intro mod_pos_pos_trivial) linarith+
      with nonneg show ?thesis by simp
    qed
    have b_ur: "(u - vr_ur e) mod ?m = (?d + ?w) mod ?m"
    proof -
      have "behind e (vr_ur e) + jump e x \<le> ?m" using d sp unfolding dropped_def by linarith
      from behind_jump [OF v(1) this out] show ?thesis
        using d sp unfolding dropped_def by (auto simp: behind_def u_def algebra_simps)
    qed
    have len: "(?edge - vr_ur e) mod ?m = ?d"
    proof -
      have "(?edge - vr_ur e) mod ?m = ((u - vr_ur e) mod ?m - ?w) mod ?m"
        by (simp add: mod_diff_left_eq algebra_simps)
      also have "\<dots> = ?d" unfolding b_ur using d by (simp add: mod_diff_left_eq)
      finally show ?thesis .
    qed
    have far: "(vr_ur e + int i) mod ?m \<noteq> u" if "1 \<le> i" "int i < ?d" for i
    proof
      assume "(vr_ur e + int i) mod ?m = u"
      then have "0 = (u - (vr_ur e + int i)) mod ?m"
        by (metis diff_self mod_0 mod_diff_right_eq mod_mod_trivial)
      also have "\<dots> = ((u - vr_ur e) mod ?m - int i) mod ?m"
        by (simp add: mod_diff_left_eq algebra_simps)
      also have "\<dots> = (?d + ?w - int i) mod ?m" unfolding b_ur by (simp add: mod_diff_left_eq)
      also have "\<dots> = ?d + ?w - int i" using that d sp by (intro mod_pos_pos_trivial) linarith+
      finally show False using that d sp by linarith
    qed
    have loop: "rlc_um_try_reassembly (vr_ur e) ?edge ?e1
        = foldE reassemble_sn (sn_range ?m (vr_ur e) (nat ?d)) ?e1"
      using try_reassembly_range [OF cfg(1), of "vr_ur e" ?edge] v(2) is_sn_mod [OF v(1)] far len by simp
    have "advance_window x (e\<lparr>dar_buffer := b\<rparr>)
        = bindE (rlc_um_try_reassembly (vr_ur e) ?edge ?e1) (\<lambda>e2.
            Inr (if rlc_um_in_reordering_window e2 (vr_ur e2) < 0 then e2\<lparr>vr_ur := ?edge\<rparr> else e2))"
      using edge win False by (simp add: advance_window_def succ Let_def cong: if_cong)
    also have "\<dots> = bindE (rlc_um_try_reassembly (vr_ur e) ?edge ?e1) (\<lambda>e2. Inr (e2\<lparr>vr_ur := ?edge\<rparr>))"
    proof (rule bindE_cong [OF refl])
      fix e2 assume "rlc_um_try_reassembly (vr_ur e) ?edge ?e1 = Inr e2"
      then have "core e2 = core ?e1" unfolding loop by (auto dest: reassemble_range_frame)
      with same_core(5) [OF this] same_core_window(5) [OF this] win False
      show "Inr (if rlc_um_in_reordering_window e2 (vr_ur e2) < 0 then e2\<lparr>vr_ur := ?edge\<rparr> else e2)
          = Inr (e2\<lparr>vr_ur := ?edge\<rparr>)" by simp
    qed
    finally show ?thesis using False by (simp add: loop)
  qed
qed

text \<open>The state after the window has moved.\<close>

lemma advance_window_ok:
  assumes vars: "rx_vars_ok e" and dar: "dar_ok e" and x: "is_sn e x"
    and out: "behind e x = 0 \<or> behind e x > rx_um_window_size e"
    and run: "advance_window x (e\<lparr>dar_buffer := (dar_buffer e)(nat x := Some pdu)\<rparr>) = Inr e'"
  shows "rx_vars_ok e' \<and> dar_ok e' \<and> vr_uh e' = (x + 1) mod rx_sn_modulo e \<and> vr_ux e' = vr_ux e \<and>
    running e' = running e \<and> dar_buffer e' (nat x) = Some pdu"
proof -
  let ?m = "rx_sn_modulo e" and ?w = "rx_um_window_size e" and ?uh = "(x + 1) mod rx_sn_modulo e"
  note v = rx_vars_okD [OF vars]
  note sp = rx_space [OF v(1)]
  note j = jump_range [OF v(1) out]
  note d = dropped_range [OF vars out]
  let ?e1 = "e\<lparr>dar_buffer := (dar_buffer e)(nat x := Some pdu), vr_uh := ?uh\<rparr>"
  have cfg: "rx_configured ?e1" "is_sn ?e1 (vr_uh ?e1)" "is_sn ?e1 (vr_ur ?e1)" "is_sn ?e1 (vr_ux ?e1)"
    using v is_sn_mod [OF v(1)] by simp_all
  have bx: "behind ?e1 x = 1" using sp by (simp add: behind_def mod_diff_left_eq)
  have beh: "behind ?e1 a = behind e a + jump e x"
    if "behind e a \<le> ?w" "behind e a + jump e x \<noteq> ?m" for a
    using behind_jump [OF v(1) _ out, of a] that j sp by simp
  have x_nat: "int (nat x) = x" using x by (simp add: is_sn_def)
  show ?thesis
  proof (cases "dropped e x \<le> 0")
    case True
    with run advance_window_eq [OF vars x out] have e': "e' = ?e1" by simp
    have ur: "behind ?e1 (vr_ur e) = behind e (vr_ur e) + jump e x"
      using True v(5) j sp unfolding dropped_def by (intro beh) linarith+
    have "dar_ok ?e1"
      unfolding dar_ok_def
    proof (intro allI impI)
      fix n assume n: "dar_buffer ?e1 n \<noteq> None"
      show "is_sn ?e1 (int n) \<and> 0 < behind ?e1 (int n) \<and> behind ?e1 (int n) \<le> behind ?e1 (vr_ur ?e1)"
      proof (cases "n = nat x")
        case eq: True
        with bx x ur j behind_range(1) [OF v(1), of "vr_ur e"] x_nat show ?thesis by simp
      next
        case False
        with n dar have "is_sn e (int n)" "0 < behind e (int n)" "behind e (int n) \<le> behind e (vr_ur e)"
          by (auto simp: dar_ok_def)
        moreover from this have "behind ?e1 (int n) = behind e (int n) + jump e x"
          using True v(5) j sp unfolding dropped_def by (intro beh) linarith+
        ultimately show ?thesis using ur j by simp
      qed
    qed
    moreover have "rx_vars_ok ?e1"
      using cfg ur True unfolding dropped_def by (simp add: rx_vars_ok_def)
    ultimately show ?thesis unfolding e' by simp
  next
    case False
    let ?edge = "(?uh - ?w) mod ?m"
    from run False advance_window_eq [OF vars x out] obtain e2 where
      e2: "foldE reassemble_sn (sn_range ?m (vr_ur e) (nat (dropped e x))) ?e1 = Inr e2"
      and e': "e' = e2\<lparr>vr_ur := ?edge\<rparr>"
      by (auto simp: bindE_eq_Inr)
    from reassemble_range_frame [OF e2]
    have core: "core e2 = core ?e1"
      and buf: "dar_buffer e2 n = (if int n \<in> set (sn_range ?m (vr_ur e) (nat (dropped e x))) then None
         else dar_buffer ?e1 n)" for n
      by auto
    note c = same_core [OF core] same_core_window [OF core]
    have range: "set (sn_range ?m (vr_ur e) (nat (dropped e x)))
        = {z. is_sn e z \<and> ?w - jump e x < behind e z \<and> behind e z \<le> behind e (vr_ur e)}"
      using set_sn_range [OF v(1,4), of "nat (dropped e x)" "vr_ur e"] d False
      unfolding dropped_def by simp
    have b_edge: "behind ?e1 ?edge = ?w"
      using sp by (simp add: behind_def mod_diff_right_eq)
    have "rx_vars_ok e'" using cfg b_edge is_sn_mod [OF v(1)] unfolding e' by (simp add: rx_vars_ok_def c)
    moreover have "dar_ok e'"
      unfolding dar_ok_def
    proof (intro allI impI)
      fix n assume "dar_buffer e' n \<noteq> None"
      then have n: "int n \<notin> set (sn_range ?m (vr_ur e) (nat (dropped e x)))" "dar_buffer ?e1 n \<noteq> None"
        unfolding e' by (auto simp: buf split: if_splits)
      have "is_sn e (int n) \<and> 0 < behind ?e1 (int n) \<and> behind ?e1 (int n) \<le> ?w"
      proof (cases "n = nat x")
        case True
        with bx x sp x_nat show ?thesis by simp
      next
        case neq: False
        with n(2) dar have o: "is_sn e (int n)" "0 < behind e (int n)" "behind e (int n) \<le> behind e (vr_ur e)"
          by (auto simp: dar_ok_def)
        with n(1) range have le: "behind e (int n) \<le> ?w - jump e x" by auto
        then have "behind ?e1 (int n) = behind e (int n) + jump e x"
          using j sp by (intro beh) linarith+
        with le o j show ?thesis by simp
      qed
      then show "is_sn e' (int n) \<and> 0 < behind e' (int n) \<and> behind e' (int n) \<le> behind e' (vr_ur e')"
        unfolding e' using b_edge by (simp add: c)
    qed
    moreover have "int (nat x) \<notin> set (sn_range ?m (vr_ur e) (nat (dropped e x)))"
      using out j v(5) x_nat by (auto simp: range)
    then have "dar_buffer e' (nat x) = Some pdu" unfolding e' by (simp add: buf)
    ultimately show ?thesis unfolding e' by (simp add: c)
  qed
qed

section \<open>The timer\<close>

lemma window_timer [simp]:
  "rx_vars_ok (rlc_um_stop_and_reset_timer_reordering e) = rx_vars_ok e"
  "dar_ok (rlc_um_stop_and_reset_timer_reordering e) = dar_ok e"
  "rx_vars_ok (rlc_um_start_timer_reordering now e) = rx_vars_ok e"
  "dar_ok (rlc_um_start_timer_reordering now e) = dar_ok e"
  "vr_ur (rlc_um_stop_and_reset_timer_reordering e) = vr_ur e"
  "vr_uh (rlc_um_stop_and_reset_timer_reordering e) = vr_uh e"
  "vr_ur (rlc_um_start_timer_reordering now e) = vr_ur e"
  "vr_uh (rlc_um_start_timer_reordering now e) = vr_uh e"
  "\<not> running (rlc_um_stop_and_reset_timer_reordering e)"
  by (simp_all add: rlc_um_stop_and_reset_timer_reordering_def rlc_um_start_timer_reordering_def Let_def
      rx_vars_ok_def dar_ok_def rx_configured_def is_sn_def behind_def)

text \<open>Both places that start the timer: it guards everything up to \<open>VR(UH)\<close>.\<close>

lemma guard_ok:
  assumes "rx_vars_ok e" and "dar_ok e"
  shows "rx_ok (if rlc_um_in_window e (vr_ur e) (vr_uh e) (vr_uh e) = 2
              then (rlc_um_start_timer_reordering now e)\<lparr>vr_ux := vr_uh e\<rparr>
              else rlc_um_stop_and_reset_timer_reordering e)"
proof (cases "vr_ur e = vr_uh e")
  case True
  note v = rx_vars_okD [OF assms(1)]
  from True gap_iff [OF v(1,4,2,5)] assms show ?thesis
    by (simp add: rx_ok_def timer_ok_def)
next
  case False
  note v = rx_vars_okD [OF assms(1)]
  let ?e = "(rlc_um_start_timer_reordering now e)\<lparr>vr_ux := vr_uh e\<rparr>"
  have "behind e (vr_ur e) > 0"
    using False behind_eq_0 [OF v(1,4,2)] behind_range(1) [OF v(1), of "vr_ur e"] by simp
  then have "rx_ok ?e"
    using assms v by (auto simp: rx_ok_def timer_ok_def rx_vars_ok_def dar_ok_def rx_configured_def
        is_sn_def behind_def rlc_um_start_timer_reordering_def Let_def)
  moreover have "rlc_um_in_window e (vr_ur e) (vr_uh e) (vr_uh e) = 2"
    using gap_iff [OF v(1,4,2,5)] False by simp
  ultimately show ?thesis by simp
qed

lemma update_timer_ok:
  assumes vars: "rx_vars_ok e" and dar: "dar_ok e"
  shows "rx_ok (update_timer now e)"
proof -
  note v = rx_vars_okD [OF vars]
  define e1 where "e1 = (if running e \<and> vr_uh e \<noteq> vr_ux e \<and> rlc_um_in_reordering_window e (vr_ux e) < 0
                then rlc_um_stop_and_reset_timer_reordering e else e)"
  have ok1: "rx_vars_ok e1" "dar_ok e1" using vars dar unfolding e1_def by simp_all
  note v1 = rx_vars_okD [OF ok1(1)]
  have ux: "behind e1 (vr_ux e1) \<le> rx_um_window_size e1" if "running e1"
  proof -
    from that have "e1 = e" unfolding e1_def by (auto split: if_splits)
    moreover from that have "vr_uh e = vr_ux e \<or> rlc_um_in_reordering_window e (vr_ux e) \<ge> 0"
      unfolding e1_def by (auto split: if_splits)
    moreover have "behind e (vr_ux e) = 0" if "vr_uh e = vr_ux e"
      using that behind_uh [of e] by simp
    ultimately show ?thesis
      using in_reordering_window_iff [OF v(1,4,3)] rx_space(1) [OF v(1)] by (auto split: if_splits)
  qed
  define e2 where "e2 = (if running e1 \<and> rlc_um_in_window e1 (vr_ur e1) (vr_ux e1) (vr_uh e1) \<in> {- 2, 1}
                then rlc_um_stop_and_reset_timer_reordering e1 else e1)"
  have ok2: "rx_vars_ok e2" "dar_ok e2" using ok1 unfolding e2_def by simp_all
  have t2: "timer_ok e2"
  proof (cases "running e2")
    case True
    then have e2: "e2 = e1" "running e1" unfolding e2_def by (auto split: if_splits)
    from True have "rlc_um_in_window e1 (vr_ur e1) (vr_ux e1) (vr_uh e1) \<notin> {- 2, 1}"
      unfolding e2_def by (auto split: if_splits)
    with passed_iff [OF v1(1,4,2,3,5) ux [OF e2(2)]]
    have "behind e1 (vr_ux e1) < behind e1 (vr_ur e1) \<or> behind e1 (vr_ux e1) = 0"
      using behind_range(1) [OF v1(1), of "vr_ux e1"] by linarith
    then have "timer_ok e1"
      using behind_eq_0 [OF v1(1,4,2)] behind_eq_0 [OF v1(1,4,3)] behind_range(1) [OF v1(1), of "vr_ur e1"]
      by (auto simp: timer_ok_def)
    with e2 show ?thesis by simp
  qed (simp add: timer_ok_def)
  have "update_timer now e = (if \<not> running e2 \<and> rlc_um_in_window e2 (vr_ur e2) (vr_uh e2) (vr_uh e2) = 2
         then (rlc_um_start_timer_reordering now e2)\<lparr>vr_ux := vr_uh e2\<rparr> else e2)"
    unfolding update_timer_def Let_def e2_def e1_def ..
  with guard_ok [OF ok2, of now] t2 ok2 show ?thesis by (auto simp: rx_ok_def split: if_splits)
qed

text \<open>
  The expiry of the timer: \<open>VR(UR)\<close> moves to the first number from \<open>VR(UX)\<close> on that was not received.
\<close>

lemma timer_action_range:
  assumes ok: "rx_ok e" and run: "running e"
  shows "\<exists>u. is_sn e u \<and> behind e u \<le> behind e (vr_ux e) \<and> behind e u \<le> behind e (vr_ur e) \<and>
    dar_buffer e (nat u) = None \<and>
    (\<forall>z. is_sn e z \<and> behind e u < behind e z \<and> behind e z \<le> behind e (vr_ux e) \<longrightarrow> dar_buffer e (nat z) \<noteq> None) \<and>
    timer_action now e = bindE (foldE reassemble_sn (sn_range (rx_sn_modulo e) (vr_ur e)
        (nat (behind e (vr_ur e) - behind e u))) (e\<lparr>vr_ur := u\<rparr>))
      (\<lambda>e1. Inr (if rlc_um_in_window e1 (vr_ur e1) (vr_uh e1) (vr_uh e1) = 2
                 then (rlc_um_start_timer_reordering now e1)\<lparr>vr_ux := vr_uh e1\<rparr>
                 else rlc_um_stop_and_reset_timer_reordering e1))"
proof -
  from ok have vars: "rx_vars_ok e" and dar: "dar_ok e" and "timer_ok e" by (auto simp: rx_ok_def)
  note v = rx_vars_okD [OF vars]
  from \<open>timer_ok e\<close> run have ux: "behind e (vr_ux e) \<le> behind e (vr_ur e)" by (auto simp: timer_ok_def)
  have "nat (behind e (vr_ux e)) \<le> nat (rx_sn_modulo e)"
    using behind_range [OF v(1), of "vr_ux e"] by linarith
  from skip_received_spec [OF v(1,4,3) dar this] obtain u where
    u: "skip_received (nat (rx_sn_modulo e)) e (vr_ux e) = Inr u" "is_sn e u"
    "behind e u \<le> behind e (vr_ux e)" "dar_buffer e (nat u) = None"
    "\<forall>z. is_sn e z \<and> behind e u < behind e z \<and> behind e z \<le> behind e (vr_ux e) \<longrightarrow> dar_buffer e (nat z) \<noteq> None"
    by blast
  then have le: "behind e u \<le> behind e (vr_ur e)" using ux by linarith
  have "rx_sn_modulo e \<noteq> 0" using rx_space(3) [OF v(1)] by simp
  with u(1) move_ur(1) [OF vars dar u(2) le] u(2-5) le show ?thesis
    by (intro exI [of _ u]) (simp add: timer_action_def)
qed

lemma timer_action_ok:
  assumes ok: "rx_ok e" and run: "running e" and res: "timer_action now e = Inr e'"
  shows "rx_ok e'"
proof -
  from ok have vars: "rx_vars_ok e" and dar: "dar_ok e" by (auto simp: rx_ok_def)
  from timer_action_range [OF ok run, of now] obtain u where
    u: "is_sn e u" "behind e u \<le> behind e (vr_ur e)"
    and eq: "timer_action now e = bindE (foldE reassemble_sn (sn_range (rx_sn_modulo e) (vr_ur e)
        (nat (behind e (vr_ur e) - behind e u))) (e\<lparr>vr_ur := u\<rparr>))
      (\<lambda>e1. Inr (if rlc_um_in_window e1 (vr_ur e1) (vr_uh e1) (vr_uh e1) = 2
                 then (rlc_um_start_timer_reordering now e1)\<lparr>vr_ux := vr_uh e1\<rparr>
                 else rlc_um_stop_and_reset_timer_reordering e1))" by blast
  from res [unfolded eq] move_ur(1) [OF vars dar u] obtain e1 where
    "rlc_um_try_reassembly (vr_ur e) u (e\<lparr>vr_ur := u\<rparr>) = Inr e1"
    and e': "e' = (if rlc_um_in_window e1 (vr_ur e1) (vr_uh e1) (vr_uh e1) = 2
                 then (rlc_um_start_timer_reordering now e1)\<lparr>vr_ux := vr_uh e1\<rparr>
                 else rlc_um_stop_and_reset_timer_reordering e1)"
    by (auto simp: bindE_eq_Inr)
  from move_ur(2) [OF vars dar u this(1)] guard_ok [of e1 now] show ?thesis unfolding e' by blast
qed

section \<open>The reception\<close>

lemma pdu_sn_is_sn:
  assumes "rx_configured e" and "pdu_sn e pdu = Inr x"
  shows "is_sn e x"
proof (cases "rx_sn_length e = 10")
  case True
  with assms(2) obtain b1 b2 :: u8 where
    x: "x = uint (push_bit 8 (ucast (and b1 3) :: u32) + ucast b2)"
    by (auto simp: pdu_sn_def bindE_eq_Inr)
  have "and b1 3 \<le> 3" by (rule word_and_le1)
  then have "uint (and b1 3) \<le> 3" by (simp add: word_le_def)
  then have "uint (push_bit 8 (ucast (and b1 3) :: u32)) \<le> 768"
    by (simp add: push_bit_eq_mult uint_word_ariths unsigned_ucast_eq take_bit_eq_mod)
  moreover have "uint (ucast b2 :: u32) < 256"
    using uint_lt2p [of b2] by (simp add: unsigned_ucast_eq take_bit_eq_mod)
  ultimately have "x < 1024"
    unfolding x uint_word_ariths(1)
    using zmod_le_nonneg_dividend [of "uint (push_bit 8 (ucast (and b1 3) :: u32)) + uint (ucast b2 :: u32)" "2 ^ LENGTH(32)"]
    by simp
  with assms(1) True show ?thesis unfolding x by (auto simp: is_sn_def rx_configured_def)
next
  case False
  with assms obtain b1 :: u8 where x: "x = uint (and b1 0x1F)" and m: "rx_sn_modulo e = 32"
    by (auto simp: pdu_sn_def bindE_eq_Inr rx_configured_def split: if_splits)
  have "and b1 0x1F \<le> 0x1F" by (rule word_and_le1)
  then have "x \<le> 31" unfolding x by (simp add: word_le_def)
  then show ?thesis unfolding x by (simp add: is_sn_def m)
qed

text \<open>Counting changes nothing that the invariant is about.\<close>

lemma rx_ok_count [simp]:
  "rx_ok (count_out_of_window pdu e) = rx_ok e" "rx_ok (count_duplicate pdu e) = rx_ok e"
  "rx_ok (e\<lparr>stat_rx_data_bytes := a\<rparr>) = rx_ok e" "rx_ok (e\<lparr>stat_rx_data_pdu := b\<rparr>) = rx_ok e"
  "rx_ok (e\<lparr>stat_timer_reordering_timed_out := c\<rparr>) = rx_ok e"
  by (simp_all add: count_out_of_window_def count_duplicate_def rx_ok_def rx_vars_ok_def dar_ok_def
      timer_ok_def rx_configured_def is_sn_def behind_def)

lemma dar_set_sn:
  assumes "rx_configured e" and "is_sn e x"
  shows "dar_set x p e = Inr (e\<lparr>dar_buffer := (dar_buffer e)(nat x := p)\<rparr>)"
  using is_sn_bound [OF assms] rx_space(5) [OF assms(1)] by (simp add: dar_set_def)

lemma dar_ok_store:
  assumes "dar_ok e" and "is_sn e x" and "0 < behind e x" and "behind e x \<le> behind e (vr_ur e)"
  shows "dar_ok (e\<lparr>dar_buffer := (dar_buffer e)(nat x := p)\<rparr>)"
  using assms unfolding dar_ok_def by (auto simp: is_sn_def split: if_splits)

text \<open>
  A stored PDU is one that is not between the lower edge of the window and \<open>VR(UR)\<close>. The window is
  moved first if needed.
\<close>

definition acceptable :: "rlc_um \<Rightarrow> int \<Rightarrow> bool" where
  "acceptable e x \<longleftrightarrow> is_sn e x \<and> \<not> (behind e (vr_ur e) < behind e x \<and> behind e x \<le> rx_um_window_size e)"

lemma store_window:
  assumes ok: "rx_vars_ok e" "dar_ok e" and x: "acceptable e x"
    and run: "(let e1 = e\<lparr>dar_buffer := (dar_buffer e)(nat x := Some pdu)\<rparr> in
      if rlc_um_in_reordering_window e1 x < 0 then advance_window x e1 else Inr e1) = Inr e2"
  shows "rx_vars_ok e2 \<and> dar_ok e2 \<and> vr_ux e2 = vr_ux e \<and> running e2 = running e \<and>
    dar_buffer e2 (nat x) = Some pdu"
proof -
  let ?e1 = "e\<lparr>dar_buffer := (dar_buffer e)(nat x := Some pdu)\<rparr>"
  note v = rx_vars_okD [OF ok(1)]
  have x: "is_sn e x" "\<not> (behind e (vr_ur e) < behind e x \<and> behind e x \<le> rx_um_window_size e)"
    using x by (auto simp: acceptable_def)
  have win: "rlc_um_in_reordering_window ?e1 x =
      (if 0 < behind e x \<and> behind e x \<le> rx_um_window_size e then 0 else - 1)"
    using in_reordering_window_iff [of ?e1 x] v x(1) by simp
  show ?thesis
  proof (cases "0 < behind e x \<and> behind e x \<le> rx_um_window_size e")
    case True
    with run win have "e2 = ?e1" by simp
    with ok dar_ok_store [OF ok(2) x(1)] True x(2) show ?thesis by auto
  next
    case False
    with run win have "advance_window x ?e1 = Inr e2" by simp
    moreover have "behind e x = 0 \<or> behind e x > rx_um_window_size e"
      using False behind_range(1) [OF v(1), of x] by linarith
    ultimately show ?thesis using advance_window_ok [OF ok x(1)] by blast
  qed
qed

lemma store_and_process_ok:
  assumes ok: "rx_vars_ok e" "dar_ok e" and x: "acceptable e x"
    and run: "store_and_process now x pdu e = Inr e'"
  shows "rx_ok e'"
proof -
  note v = rx_vars_okD [OF ok(1)]
  have "is_sn e x" using x by (simp add: acceptable_def)
  with run obtain e2 e3 where
    e2: "(let e1 = e\<lparr>dar_buffer := (dar_buffer e)(nat x := Some pdu)\<rparr> in
      if rlc_um_in_reordering_window e1 x < 0 then advance_window x e1 else Inr e1) = Inr e2"
    and e3: "deliver_ready x e2 = Inr e3" and e': "e' = update_timer now e3"
    by (auto simp: store_and_process_def dar_set_sn [OF v(1)] bindE_eq_Inr Let_def)
  from store_window [OF ok x e2] have "rx_vars_ok e2" "dar_ok e2" "dar_buffer e2 (nat x) \<noteq> None"
    by simp_all
  from deliver_ready_ok [OF this e3] update_timer_ok show ?thesis unfolding e' by blast
qed

text \<open>The three ways a PDU is treated.\<close>

lemma receive_cases:
  assumes ok: "rx_ok e" and sn: "pdu_sn e pdu = Inr x"
  shows "rlc_um_receive_process_dar now pdu e =
    (if \<not> acceptable e x then Inr (count_out_of_window pdu e)
     else if dar_buffer e (nat x) = None then store_and_process now x pdu e
     else if x \<noteq> vr_ur e then Inr (count_duplicate pdu e)
     else store_and_process now x pdu ((count_duplicate pdu e)\<lparr>dar_buffer := (dar_buffer e)(nat x := None)\<rparr>))"
proof -
  from ok have vars: "rx_vars_ok e" and dar: "dar_ok e" by (auto simp: rx_ok_def)
  note v = rx_vars_okD [OF vars]
  have x: "is_sn e x" using pdu_sn_is_sn [OF v(1) sn] .
  have m: "rx_sn_modulo e \<noteq> 0" using rx_space(3) [OF v(1)] by simp
  have discard: "rlc_um_in_window e (vr_uh e - rx_um_window_size e) x (vr_ur e) \<in> {0, 1} \<longleftrightarrow> \<not> acceptable e x"
    unfolding discard_iff [OF v(1,4) x v(2,5)] using x by (simp add: acceptable_def)
  have dup: "rlc_um_in_window e (vr_ur e) x (vr_uh e) = 0 \<longleftrightarrow> x \<noteq> vr_ur e" if "dar_buffer e (nat x) \<noteq> None"
  proof -
    from that dar x have "0 < behind e x" "behind e x \<le> behind e (vr_ur e)"
      by (auto simp: dar_ok_def is_sn_def)
    with duplicate_iff [OF v(1,4) x v(2,5)] behind_inj [OF v(1,4) x v(2)] show ?thesis by auto
  qed
  have set: "dar_set x None (count_duplicate pdu e)
      = Inr ((count_duplicate pdu e)\<lparr>dar_buffer := (dar_buffer e)(nat x := None)\<rparr>)"
    using is_sn_bound [OF v(1) x] rx_space(5) [OF v(1)] by (simp add: dar_set_def count_duplicate_def)
  show ?thesis
    unfolding rlc_um_receive_process_dar_def sn bindE_Inr discard using m dup dar_get_sn [OF v(1) x] set
    by auto
qed

lemma receive_ok:
  assumes ok: "rx_ok e" and run: "rlc_um_receive_process_dar now pdu e = Inr e'"
  shows "rx_ok e'"
proof -
  from run obtain x where sn: "pdu_sn e pdu = Inr x"
    by (auto simp: rlc_um_receive_process_dar_def bindE_eq_Inr)
  from ok have vars: "rx_vars_ok e" and dar: "dar_ok e" by (auto simp: rx_ok_def)
  let ?e0 = "(count_duplicate pdu e)\<lparr>dar_buffer := (dar_buffer e)(nat x := None)\<rparr>"
  have "rx_vars_ok ?e0" "acceptable ?e0 x = acceptable e x"
    using vars by (simp_all add: acceptable_def count_duplicate_def rx_vars_ok_def rx_configured_def
        is_sn_def behind_def)
  moreover have "dar_ok ?e0"
    using dar unfolding dar_ok_def by (simp add: count_duplicate_def is_sn_def behind_def)
  ultimately show ?thesis
    using run [unfolded receive_cases [OF ok sn]] ok vars dar
      store_and_process_ok [of e x now pdu e'] store_and_process_ok [of ?e0 x now pdu e']
    by (auto split: if_splits)
qed

lemma check_timer_ok:
  assumes "rx_ok e" and "rlc_um_check_timer_dar_time_out now free e = Inr e'"
  shows "rx_ok e'"
  using assms timer_action_ok [of "e\<lparr>stat_timer_reordering_timed_out := stat_timer_reordering_timed_out e + 1\<rparr>" now e']
  by (auto simp: rlc_um_check_timer_dar_time_out_def Let_def split: if_splits)

lemma receive_tb_ok: "rx_ok e \<Longrightarrow> receive_tb now pdu e = Inr e' \<Longrightarrow> rx_ok e'"
  using receive_ok [of "e\<lparr>stat_rx_data_bytes := stat_rx_data_bytes e + of_nat (length pdu),
      stat_rx_data_pdu := stat_rx_data_pdu e + 1\<rparr>" now pdu e']
  by (auto simp: receive_tb_def Let_def split: if_splits)

end
