(* ===== verification/Bytes.thy ===== *)
theory Bytes
  imports Prelude
begin

text \<open>
  Bytes and their fields, as natural numbers: what masks, shifts and the \<open>or\<close> of fields that do not
  overlap compute. The headers of the layer 2 protocols are read and written with these.
\<close>

section \<open>Fields of a word\<close>

lemma unat_mask: "unat (and b (mask n)) = unat b mod 2 ^ n" for b :: "'a::len word"
  by (simp add: unsigned_take_bit_eq flip: take_bit_eq_mask take_bit_eq_mod)

lemma unat_or:
  fixes x y :: "'a::len word"
  assumes "2 ^ n dvd unat x" and "unat y < 2 ^ n"
  shows "unat (or x y) = unat x + unat y"
proof -
  from assms(1) obtain k where k: "unat x = push_bit n k" by (auto simp: push_bit_eq_mult ac_simps elim: dvdE)
  have "take_bit n (unat y) = unat y" using assms(2) by (simp add: take_bit_eq_mod)
  then have "bit (unat y) i \<Longrightarrow> i < n" for i by (metis bit_take_bit_iff)
  then have "and (push_bit n k) (unat y) = 0" by (intro bit_eqI) (fastforce simp: bit_simps)
  then show ?thesis unfolding unsigned_or_eq k by (simp only: disjunctive_add_eq_or)
qed

lemma unat_of_nat_small [simp]: "n < 2 ^ LENGTH('a) \<Longrightarrow> unat (of_nat n :: 'a::len word) = n"
  by (simp add: unsigned_of_nat take_bit_eq_mod)

lemma byte_less: "unat (b :: u8) < 256"
  using unsigned_less [of b] by simp

lemma byte_mask:
  "unat (and b (0x7F :: u8)) = unat b mod 128" "unat (and b (0x1F :: u8)) = unat b mod 32"
  "unat (and b (0x0F :: u8)) = unat b mod 16" "unat (and b (0x07 :: u8)) = unat b mod 8"
  "unat (and b (3 :: u8)) = unat b mod 4"
  using unat_mask [of b 7] unat_mask [of b 5] unat_mask [of b 4] unat_mask [of b 3] unat_mask [of b 2]
  by (simp_all add: mask_eq_exp_minus_1)

lemma byte_shift: "unat (drop_bit n b) = unat b div 2 ^ n" for b :: u8
  by (subst unsigned_drop_bit_eq) (simp add: drop_bit_eq_div take_bit_eq_mod byte_less)

lemma byte_high: "and b (push_bit n (mask k)) = push_bit n (take_bit k (drop_bit n b))" for b :: u8
  by (rule bit_word_eqI) (auto simp: bit_simps simp del: push_bit_numeral push_bit_mask_eq)

lemma unat_ucast_up: "LENGTH('a::len) \<le> LENGTH('b::len) \<Longrightarrow> unat (ucast (b :: 'a word) :: 'b word) = unat b"
  using less_le_trans [OF unsigned_less [of b, where ?'a = nat] power_increasing [of "LENGTH('a)" "LENGTH('b)" 2]]
  by (simp add: unsigned_ucast_eq take_bit_eq_mod)

lemma bit_byte: "bit b n \<longleftrightarrow> odd (unat b div 2 ^ n)" for b :: u8
  by (metis bit_iff_odd bit_unsigned_iff possible_bit_nat)

end
