(* ===== verification/RlcUmPdu.thy ===== *)
theory RlcUmPdu
  imports Bytes RlcUmReassembly
begin

text \<open>
  The layout of a PDU: the list of length indicators that the sender writes is the one the receiver
  reads; a PDU can be taken apart exactly when its header and its length indicators can be read.
\<close>

section \<open>The bytes of the length indicators\<close>

text \<open>What the receiver reads, as numbers.\<close>

lemma li_first_unat: "li_first b1 b2 = unat b1 mod 128 * 16 + unat b2 div 16"
proof -
  let ?x = "ucast (and b1 0x7F) :: u32" and ?y = "ucast (and b2 0xF0) :: u32"
  have "unat ?x = unat b1 mod 128" by (simp add: unat_ucast_up byte_mask)
  then have x: "unat (push_bit 4 ?x) = unat b1 mod 128 * 16"
    by (subst unsigned_push_bit_eq) (simp add: push_bit_eq_mult take_bit_eq_mod)
  have eq: "(0xF0 :: u8) = push_bit 4 (mask 4)" by (simp add: mask_eq_exp_minus_1 push_bit_eq_mult)
  have "take_bit 4 (drop_bit 4 b2) = drop_bit 4 b2"
    unfolding word_unat_eq_iff unsigned_take_bit_eq using byte_less [of b2]
    by (simp add: byte_shift take_bit_eq_mod)
  then have "and b2 0xF0 = push_bit 4 (drop_bit 4 b2)" unfolding eq byte_high by simp
  then have "unat (and b2 0xF0) = unat b2 div 16 * 16"
    using byte_less [of b2] div_mult_mod_eq [of "unat b2" 16]
    by (simp only:) (subst unsigned_push_bit_eq, simp add: push_bit_eq_mult take_bit_eq_mod byte_shift)
  then have "unat ?y = unat b2 div 16 * 16" by (simp add: unat_ucast_up)
  then have y: "unat (drop_bit 4 ?y) = unat b2 div 16"
    using byte_less [of b2] by (subst unsigned_drop_bit_eq) (simp add: drop_bit_eq_div take_bit_eq_mod)
  have "unat b1 mod 128 < 128" "unat b2 div 16 \<le> unat b2" by simp_all
  then have "unat b1 mod 128 * 16 + unat b2 div 16 < 4294967296" using byte_less [of b2] by linarith
  with x y show ?thesis by (simp add: li_first_def unat_word_ariths)
qed

lemma li_second_unat: "li_second b2 b3 = unat b2 mod 8 * 256 + unat b3"
proof -
  let ?x = "ucast (and b2 0x07) :: u32"
  have "unat ?x = unat b2 mod 8" by (simp add: unat_ucast_up byte_mask)
  then have x: "unat (push_bit 8 ?x) = unat b2 mod 8 * 256"
    by (subst unsigned_push_bit_eq) (simp add: push_bit_eq_mult take_bit_eq_mod)
  have "unat b2 mod 8 < 8" by simp
  then have "unat b2 mod 8 * 256 + unat b3 < 4294967296" using byte_less [of b3] by linarith
  with x show ?thesis by (simp add: li_second_def unat_word_ariths unat_ucast_up)
qed

text \<open>
  Two indicators of eleven bits, each after its extension bit, take three bytes; a last single one
  takes two. The bytes are those that the sender's loop leaves behind (theory \<open>RlcUmSegment\<close>).
\<close>

definition li_byte1 :: "bool \<Rightarrow> nat \<Rightarrow> u8" where
  "li_byte1 ext li = or (if ext then 0x80 else 0) (of_nat (li div 16))"

definition li_byte2 :: "nat \<Rightarrow> u8" where
  "li_byte2 li = of_nat (li * 16)"

definition li_byte2_ext :: "nat \<Rightarrow> bool \<Rightarrow> nat \<Rightarrow> u8" where
  "li_byte2_ext li1 ext li2 = or (if ext then or (li_byte2 li1) 0x08 else li_byte2 li1) (of_nat (li2 div 256))"

definition li_byte3 :: "nat \<Rightarrow> u8" where
  "li_byte3 li = of_nat li"

fun encode_lis :: "nat list \<Rightarrow> u8 list" where
  "encode_lis [] = []"
| "encode_lis [a] = [li_byte1 False a, li_byte2 a]"
| "encode_lis (a # b # lis) = li_byte1 True a # li_byte2_ext a (lis \<noteq> []) b # li_byte3 b # encode_lis lis"

lemma length_encode_lis: "length (encode_lis lis) = (3 * length lis + 1) div 2"
  by (induction lis rule: encode_lis.induct) auto

text \<open>The bytes, as numbers.\<close>

lemma unat_li_byte1:
  assumes "li < 2048"
  shows "unat (li_byte1 ext li) = (if ext then 128 else 0) + li div 16"
  using assms unat_or [of 7 "0x80 :: u8" "of_nat (li div 16)"] by (simp add: li_byte1_def)

lemma unat_li_byte2: "unat (li_byte2 li) = li mod 16 * 16"
  unfolding li_byte2_def unsigned_of_nat take_bit_eq_mod
  using mod_mult_mult2 [of li 16 16] by simp

lemma unat_li_byte2_ext:
  assumes "li2 < 2048"
  shows "unat (li_byte2_ext li1 ext li2) = li1 mod 16 * 16 + (if ext then 8 else 0) + li2 div 256"
proof -
  have "unat (or (li_byte2 li1) 8) = unat (li_byte2 li1) + 8"
    using unat_or [of 4 "li_byte2 li1" 8] by (simp add: unat_li_byte2)
  moreover have "li2 div 256 < 8" using assms by simp
  ultimately show ?thesis
    using unat_or [of 3 "if ext then or (li_byte2 li1) 8 else li_byte2 li1" "of_nat (li2 div 256) :: u8"]
    by (auto simp: li_byte2_ext_def unat_li_byte2 intro: dvd_mult dvd_add)
qed

lemma unat_li_byte3: "unat (li_byte3 li) = li mod 256"
  by (simp add: li_byte3_def unsigned_of_nat take_bit_eq_mod)

text \<open>The receiver reads back what was written.\<close>

lemma decode_li_first:
  assumes "a < 2048" and "unat b2 div 16 = a mod 16"
  shows "li_first (li_byte1 ext a) b2 = a" and "bit (li_byte1 ext a) 7 = ext"
proof -
  have a: "a div 16 < 128" using assms(1) by (intro less_mult_imp_div_less) simp
  then have "((if ext then 128 else 0) + a div 16) mod 128 = a div 16"
    and "((if ext then 128 else 0) + a div 16) div 128 = (if ext then 1 else 0)"
    by (auto intro: div_nat_eqI)
  then show "li_first (li_byte1 ext a) b2 = a" "bit (li_byte1 ext a) 7 = ext"
    using assms by (simp_all add: li_first_unat unat_li_byte1 bit_byte)
qed

lemma decode_li_second:
  assumes "a < 2048" and "b < 2048"
  shows "li_second (li_byte2_ext a ext b) (li_byte3 b) = b" and "bit (li_byte2_ext a ext b) 3 = ext"
    and "unat (li_byte2_ext a ext b) div 16 = a mod 16"
proof -
  let ?k = "(if ext then 8 else 0) + b div 256"
  have u: "unat (li_byte2_ext a ext b) = a mod 16 * 16 + ?k"
    by (simp add: unat_li_byte2_ext [OF assms(2)])
  have "b div 256 < 8" using assms(2) by (intro less_mult_imp_div_less) simp
  then have k: "?k < 16" "?k div 8 = (if ext then 1 else 0)" by auto
  show "unat (li_byte2_ext a ext b) div 16 = a mod 16"
    using k(1) unfolding u by (intro div_nat_eqI) auto
  have eq: "a mod 16 * 16 + ?k = ?k + 8 * (2 * (a mod 16))" by simp
  have "(a mod 16 * 16 + ?k) mod 8 = ?k mod 8" unfolding eq by (rule mod_mult_self2)
  also have "\<dots> = b div 256" using \<open>b div 256 < 8\<close> by (cases ext) simp_all
  finally show "li_second (li_byte2_ext a ext b) (li_byte3 b) = b"
    unfolding li_second_unat u unat_li_byte3 by simp
  have "(a mod 16 * 16 + ?k) div 8 = 2 * (a mod 16) + ?k div 8"
    unfolding eq by (rule div_mult_self2) simp
  then show "bit (li_byte2_ext a ext b) 3 = ext" unfolding bit_byte u k(2) by simp
qed

section \<open>The round trip of the list of indicators\<close>

text \<open>The size that remains after the indicators and the bytes they announce.\<close>

definition li_cost :: "nat list \<Rightarrow> int" where
  "li_cost lis = int (sum_list lis) + int ((3 * length lis + 1) div 2)"

text \<open>One pass of the loop, which reads one or two indicators.\<close>

lemma read_lis_one:
  assumes "aget pdu off = Inr b1" and "aget pdu (off + 1) = Inr b2" and "\<not> bit b1 7"
    and "length lis < RLC_UM_SEGMENT_NB_MAX_LI_PER_PDU"
  shows "read_lis pdu off lis sz
    = Inr (True, lis @ [li_first b1 b2], sz - int (li_first b1 b2) - 2)"
  using assms by (subst read_lis.simps) (simp add: put_li_def Let_def)

lemma read_lis_two:
  assumes "aget pdu off = Inr b1" and "aget pdu (off + 1) = Inr b2" and "bit b1 7"
    and "aget pdu (off + 2) = Inr b3" and "Suc (length lis) < RLC_UM_SEGMENT_NB_MAX_LI_PER_PDU"
  shows "read_lis pdu off lis sz =
    (let lis' = lis @ [li_first b1 b2, li_second b2 b3];
         sz' = sz - int (li_first b1 b2) - int (li_second b2 b3) - 3
     in if bit b2 3 then read_lis pdu (off + 3) lis' sz' else Inr (True, lis', sz'))"
proof -
  have "sz - int (li_first b1 b2) - 2 - int (li_second b2 b3) - 1
      = sz - int (li_first b1 b2) - int (li_second b2 b3) - 3" by simp
  moreover have "\<not> RLC_UM_SEGMENT_NB_MAX_LI_PER_PDU < length (lis @ [li_first b1 b2, li_second b2 b3])"
    using assms(5) by simp
  ultimately show ?thesis
    by (subst read_lis.simps) (simp only: assms put_li_def Let_def bindE_Inr if_True if_False
        length_append_singleton Suc_lessD [OF assms(5)] append_assoc append_Cons append_Nil)
qed

lemma read_lis_encoded:
  assumes "lis \<noteq> []" and "\<forall>li \<in> set lis. li < 2048"
    and "length acc + length lis \<le> RLC_UM_SEGMENT_NB_MAX_LI_PER_PDU"
  shows "read_lis (pre @ encode_lis lis @ data) (int (length pre)) acc sz
    = Inr (True, acc @ lis, sz - li_cost lis)"
  using assms
proof (induction lis arbitrary: pre acc sz rule: encode_lis.induct)
  case 1
  then show ?case by simp
next
  case (2 a)
  let ?pdu = "pre @ encode_lis [a] @ data"
  have b: "aget ?pdu (int (length pre)) = Inr (li_byte1 False a)"
    "aget ?pdu (int (length pre) + 1) = Inr (li_byte2 a)"
    by (simp_all add: aget_def in_range_def nth_append nat_add_distrib)
  have "unat (li_byte2 a) div 16 = a mod 16" by (simp add: unat_li_byte2)
  with 2 decode_li_first [of a "li_byte2 a" False] read_lis_one [OF b, of acc sz]
  show ?case by (simp add: li_cost_def)
next
  case (3 a b lis)
  let ?pdu = "pre @ encode_lis (a # b # lis) @ data"
  let ?b1 = "li_byte1 True a" and ?b2 = "li_byte2_ext a (lis \<noteq> []) b"
  have b: "aget ?pdu (int (length pre)) = Inr ?b1"
    "aget ?pdu (int (length pre) + 1) = Inr ?b2"
    "aget ?pdu (int (length pre) + 2) = Inr (li_byte3 b)"
    by (simp_all add: aget_def in_range_def nth_append nat_add_distrib)
  have small: "a < 2048" "b < 2048" using 3 by simp_all
  note d2 = decode_li_second [OF small, of "lis \<noteq> []"]
  note d1 = decode_li_first [OF small(1) d2(3), of True]
  have "bit ?b1 7" using d1(2) by simp
  moreover have "Suc (length acc) < RLC_UM_SEGMENT_NB_MAX_LI_PER_PDU" using 3 by simp
  ultimately have step: "read_lis ?pdu (int (length pre)) acc sz
      = (if lis \<noteq> [] then read_lis ?pdu (int (length pre) + 3) (acc @ [a, b]) (sz - int a - int b - 3)
         else Inr (True, acc @ [a, b], sz - int a - int b - 3))"
    using read_lis_two [OF b(1,2) _ b(3), of acc sz] unfolding d1 d2 Let_def by blast
  show ?case
  proof (cases "lis = []")
    case True
    then show ?thesis unfolding step by (simp add: li_cost_def)
  next
    case False
    have "read_lis ((pre @ [?b1, ?b2, li_byte3 b]) @ encode_lis lis @ data)
        (int (length (pre @ [?b1, ?b2, li_byte3 b]))) (acc @ [a, b]) (sz - int a - int b - 3)
      = Inr (True, (acc @ [a, b]) @ lis, sz - int a - int b - 3 - li_cost lis)"
      using False 3 by (intro "3.IH") auto
    with False show ?thesis unfolding step by (simp add: li_cost_def ac_simps)
  qed
qed

section \<open>What the reader accepts\<close>

text \<open>The indicators read are those that the size accounts for.\<close>

lemma read_lis_size:
  assumes "read_lis pdu off lis sz = Inr (ok, lis', sz')"
  shows "\<exists>new. new \<noteq> [] \<and> lis' = lis @ new \<and> sz' = sz - li_cost new"
  using assms
proof (induction "RLC_UM_SEGMENT_NB_MAX_LI_PER_PDU - length lis" arbitrary: off lis sz rule: less_induct)
  case less
  obtain b1 b2 where b: "aget pdu off = Inr b1" "aget pdu (off + 1) = Inr b2"
    and put: "length lis < RLC_UM_SEGMENT_NB_MAX_LI_PER_PDU"
    using less(2) by (subst (asm) read_lis.simps) (auto simp: bindE_eq_Inr Let_def put_li_eq_Inr)
  show ?case
  proof (cases "bit b1 7")
    case False
    with less(2) b put show ?thesis
      by (subst (asm) read_lis.simps) (auto simp: put_li_def Let_def li_cost_def split: if_splits)
  next
    case True
    with less(2) b put obtain b3 where b3: "aget pdu (off + 2) = Inr b3"
      and put2: "Suc (length lis) < RLC_UM_SEGMENT_NB_MAX_LI_PER_PDU"
      by (subst (asm) read_lis.simps) (auto simp: bindE_eq_Inr Let_def put_li_def split: if_splits)
    let ?a = "li_first b1 b2" and ?c = "li_second b2 b3"
    note step = read_lis_two [OF b True b3 put2, of sz, unfolded Let_def]
    show ?thesis
    proof (cases "bit b2 3")
      case more: True
      have "RLC_UM_SEGMENT_NB_MAX_LI_PER_PDU - length (lis @ [?a, ?c])
          < RLC_UM_SEGMENT_NB_MAX_LI_PER_PDU - length lis" using put by simp
      from less(1) [OF this] less(2) step more
      obtain new where "new \<noteq> []" "lis' = (lis @ [?a, ?c]) @ new"
        "sz' = sz - int ?a - int ?c - 3 - li_cost new" by auto
      then show ?thesis
        by (intro exI [of _ "?a # ?c # new"]) (simp add: li_cost_def)
    next
      case False
      with less(2) step show ?thesis by (auto simp: li_cost_def)
    qed
  qed
qed

section \<open>PDUs that can be taken apart\<close>

text \<open>
  The header fits into the PDU, and the list of indicators, if there is one, can be read: it does not
  run over the end of the PDU nor over the 128 entries of \<open>li_array\<close>. An indicator may announce more than
  there is; such a PDU is dropped.
\<close>

definition header_bytes :: "nat \<Rightarrow> nat" where
  "header_bytes sn_len = (if sn_len = 10 then 2 else 1)"

definition readable :: "nat \<Rightarrow> u8 list \<Rightarrow> bool" where
  "readable sn_len pdu \<longleftrightarrow> header_bytes sn_len \<le> length pdu \<and>
     (bit (pdu ! 0) (if sn_len = 10 then 2 else 5) \<longrightarrow>
        (case read_lis pdu (int (header_bytes sn_len)) [] (int (length pdu) - int (header_bytes sn_len)) of
           Inl _ \<Rightarrow> False | Inr _ \<Rightarrow> True))"

lemma fi_range:
  "unat (drop_bit 3 (and b (0x18 :: u8))) < 4" "unat (drop_bit 6 (and b (0xC0 :: u8))) < 4"
  by (simp_all add: byte_mask)

lemma pdu_header_readable:
  assumes "readable (rx_sn_length e) pdu"
  shows "\<exists>fi < 4. pdu_header e pdu = Inr (bit (pdu ! 0) (if rx_sn_length e = 10 then 2 else 5), fi,
    int (header_bytes (rx_sn_length e)))"
proof -
  have "aget pdu 0 = Inr (pdu ! 0)"
    using assms by (auto simp: readable_def header_bytes_def aget_def in_range_def split: if_splits)
  then show ?thesis using fi_range [of "pdu ! 0"] by (auto simp: pdu_header_def header_bytes_def)
qed

lemma rlc_um_reassembly_total:
  assumes "0 \<le> off" and "off + len \<le> int (length pdu)"
  shows "\<exists>e'. rlc_um_reassembly pdu off len e = Inr e'"
  using assms by (auto simp: rlc_um_reassembly_def Let_def)

lemma take_segments_total:
  assumes "0 \<le> off" and "off + int (sum_list lis) \<le> int (length pdu)"
  shows "\<exists>e'. take_segments pdu lis off e = Inr (off + int (sum_list lis), e')"
  using assms
proof (induction lis arbitrary: off e)
  case Nil
  then show ?case by simp
next
  case (Cons li lis)
  then obtain e1 where "rlc_um_reassembly pdu off (int li) e = Inr e1"
    using rlc_um_reassembly_total [of off "int li" pdu e] by auto
  with Cons.IH [of "off + int li" "rlc_um_send_sdu e1"] Cons.prems show ?case
    by (auto simp: add.assoc)
qed

lemma consume_plain_total:
  assumes "0 \<le> off" and "off + sz \<le> int (length pdu)" and "fi < 4"
  shows "\<exists>e'. consume_plain pdu fi off sz e = Inr e'"
proof -
  have "\<exists>f'. rlc_um_reassembly pdu off sz f = Inr f'" for f
    by (rule rlc_um_reassembly_total [OF assms(1,2)])
  then obtain g where "rlc_um_reassembly pdu off sz f = Inr (g f)" for f by metis
  with assms(3) show ?thesis by (auto simp: consume_plain_def)
qed

lemma consume_segments_total:
  assumes off: "0 \<le> off" and fits: "off + int (sum_list lis) + sz \<le> int (length pdu)" and "0 < sz"
    and "lis \<noteq> []" and "fi < 4"
  shows "\<exists>e'. consume_segments pdu fi lis off sz e = Inr e'"
proof -
  have seg: "\<exists>g. \<forall>f. take_segments pdu xs o' f = Inr (o' + int (sum_list xs), g f)"
    if "0 \<le> o'" "o' + int (sum_list xs) \<le> int (length pdu)" for xs o'
    using take_segments_total [OF that] by metis
  have re: "\<exists>g. \<forall>f. rlc_um_reassembly pdu o' sz f = Inr (g f)"
    if "o' = off + int (sum_list lis)" for o'
    using rlc_um_reassembly_total [of o' sz pdu] off fits that by (metis add_nonneg_nonneg of_nat_0_le_iff)
  from re obtain g where g: "\<And>f. rlc_um_reassembly pdu (off + int (sum_list lis)) sz f = Inr (g f)" by blast
  from seg [OF off, of lis] fits \<open>0 < sz\<close> obtain h where
    h: "\<And>f. take_segments pdu lis off f = Inr (off + int (sum_list lis), h f)" by auto
  from \<open>lis \<noteq> []\<close> obtain a as where lis: "lis = a # as" by (cases lis) auto
  from seg [of "off + int a" as] off fits \<open>0 < sz\<close> obtain h' where
    h': "\<And>f. take_segments pdu as (off + int a) f = Inr (off + int (sum_list lis), h' f)"
    by (auto simp: lis add.assoc)
  from \<open>fi < 4\<close> consider "fi = 0 \<or> fi = 1" | "fi = 2 \<or> fi = 3" by linarith
  then show ?thesis
  proof cases
    case 1
    with \<open>0 < sz\<close> show ?thesis by (auto simp: consume_segments_def h g)
  next
    case 2
    show ?thesis
    proof (cases "missing_sn_detected e")
      case True
      with 2 \<open>0 < sz\<close> g show ?thesis by (auto simp: consume_segments_def skip_first_def lis h')
    next
      case False
      with 2 \<open>0 < sz\<close> show ?thesis by (auto simp: consume_segments_def skip_first_def h g)
    qed
  qed
qed

lemma readable_consume:
  assumes "readable (rx_sn_length e) pdu"
  shows "\<exists>e'. consume_pdu pdu e = Inr e'"
proof -
  let ?h = "int (header_bytes (rx_sn_length e))" and ?ext = "bit (pdu ! 0) (if rx_sn_length e = 10 then 2 else 5)"
  from pdu_header_readable [OF assms] obtain fi where fi: "fi < 4" "pdu_header e pdu = Inr (?ext, fi, ?h)" by blast
  have h: "?h \<le> int (length pdu)" using assms by (simp add: readable_def)
  show ?thesis
  proof (cases ?ext)
    case False
    with fi h consume_plain_total [of ?h "int (length pdu) - ?h" pdu fi e] show ?thesis
      by (simp add: consume_pdu_def Let_def)
  next
    case True
    with assms obtain ok lis sz where r: "read_lis pdu ?h [] (int (length pdu) - ?h) = Inr (ok, lis, sz)"
      by (auto simp: readable_def split: sum.splits)
    from read_lis_size [OF r] have sz: "lis \<noteq> []" "sz = int (length pdu) - ?h - li_cost lis" by auto
    show ?thesis
    proof (cases "ok \<and> sz > 0")
      case ok: True
      let ?off = "?h + (int (length lis) * 3 + 1) div 2"
      have "int ((3 * length lis + 1) div 2) = (int (length lis) * 3 + 1) div 2"
        by (simp add: zdiv_int mult.commute)
      then have "?off + int (sum_list lis) + sz \<le> int (length pdu)"
        unfolding sz(2) li_cost_def by simp
      moreover have "0 \<le> ?off" by (simp add: pos_imp_zdiv_nonneg_iff)
      ultimately obtain e' where "consume_segments pdu fi lis ?off sz e = Inr e'"
        using consume_segments_total [of ?off lis sz pdu fi e] ok sz(1) fi(1) by blast
      with fi h True r ok show ?thesis
        by (simp add: consume_pdu_def rlc_um_read_length_indicators_def Let_def)
    next
      case False
      with fi h True r show ?thesis
        by (auto simp: consume_pdu_def rlc_um_read_length_indicators_def Let_def)
    qed
  qed
qed

end
