(* ===== verification/RlcUmService.thy ===== *)
theory RlcUmService
  imports RlcUmInvariant RlcUmPdu
begin

text \<open>
  The receiver of an unacknowledged-mode entity as a state machine: it is configured, then receives
  PDUs and has its timer checked, in any order. The invariant holds in every state it reaches, and
  it never gets stuck on readable PDUs. The properties of the window, of the header decoding and of
  the timer are here too.
\<close>

section \<open>The steps\<close>

datatype rlc_event = Receive u32 "u8 list" | Timer_check u32 bool

fun rlc_step :: "rlc_event \<Rightarrow> rlc_um \<Rightarrow> rlc_um res" where
  "rlc_step (Receive now pdu) e = receive_tb now pdu e"
| "rlc_step (Timer_check now lock_free) e = rlc_um_check_timer_dar_time_out now lock_free e"

inductive rlc_reachable :: "rlc_um \<Rightarrow> bool" where
  configured: "len \<in> {5, 10} \<Longrightarrow> config_req_rlc_um timer len False srb zero_rlc_um = Inr e \<Longrightarrow> rlc_reachable e"
| step: "rlc_reachable e \<Longrightarrow> rlc_step ev e = Inr e' \<Longrightarrow> rlc_reachable e'"

fun_cases rlc_step_Receive: "rlc_step (Receive now pdu) e = Inr e'"
  and rlc_step_Timer: "rlc_step (Timer_check now lock_free) e = Inr e'"

lemma configured_entity:
  assumes "len \<in> {5, 10}" and "config_req_rlc_um timer len False srb zero_rlc_um = Inr e"
  shows "rx_ok e" "vr_ur e = 0" "vr_uh e = 0" "vr_ux e = 0" "dar_buffer e = (\<lambda>_. None)"
    "output_sdu e = None" "delivered e = []" "\<not> missing_sn_detected e" "rx_sn_length e = len"
    "last_reassemblied_sn e = rx_sn_modulo e - 1" "\<not> running e" "is_data_plane e = (\<not> srb)"
    "ms_duration e = timer"
  using assms
  by (auto simp: config_req_rlc_um_def rlc_um_fsm_notify_event_def rlc_um_init_def zero_rlc_um_def
      rlc_um_configure_def rlc_um_set_debug_infos_def rlc_um_init_timer_reordering_def
      rlc_um_reset_state_variables_def Let_def rx_ok_def rx_vars_ok_def rx_configured_def is_sn_def
      behind_def dar_ok_def timer_ok_def)

lemma rlc_step_ok: "rx_ok e \<Longrightarrow> rlc_step ev e = Inr e' \<Longrightarrow> rx_ok e'"
  by (cases ev) (auto intro: receive_tb_ok check_timer_ok)

lemma reachable_ok: "rlc_reachable e \<Longrightarrow> rx_ok e"
  by (induction rule: rlc_reachable.induct) (auto intro: configured_entity rlc_step_ok)

section \<open>Readable PDUs\<close>

definition buffer_readable :: "rlc_um \<Rightarrow> bool" where
  "buffer_readable e \<longleftrightarrow> (\<forall>n p. dar_buffer e n = Some p \<longrightarrow> readable (rx_sn_length e) p)"

lemma readable_sn:
  assumes "readable (rx_sn_length e) pdu" and "rx_configured e"
  shows "\<exists>x. pdu_sn e pdu = Inr x"
proof -
  have "pdu \<noteq> []" "rx_sn_length e = 10 \<longrightarrow> length pdu \<ge> 2"
    using assms(1) by (auto simp: readable_def header_bytes_def split: if_splits)
  with assms(2) show ?thesis
    by (auto simp: pdu_sn_def rx_configured_def aget_def in_range_def)
qed

lemma reassemble_sn_total:
  assumes "rx_configured e" and "is_sn e x" and "buffer_readable e"
  shows "\<exists>e'. reassemble_sn x e = Inr e'"
proof (cases "dar_buffer e (nat x)")
  case None
  then show ?thesis using dar_get_sn [OF assms(1,2)] by (simp add: reassemble_sn_def)
next
  case (Some pdu)
  let ?e1 = "(if c_rem (last_reassemblied_sn e + 1) (rx_sn_modulo e) \<noteq> x
                then rlc_um_clear_rx_sdu e else e)\<lparr>last_reassemblied_sn := x\<rparr>"
  have same: "same_rx e ?e1" by (auto simp: rlc_um_clear_rx_sdu_def core_def)
  then have "rx_sn_length ?e1 = rx_sn_length e" using same_core(2) by blast
  moreover have "readable (rx_sn_length e) pdu" using Some assms(3) by (simp add: buffer_readable_def)
  ultimately obtain e2 where e2: "consume_pdu pdu ?e1 = Inr e2" using readable_consume [of ?e1 pdu] by metis
  from same_rx_consume [OF e2] same have "core e2 = core e" by simp
  from same_core_window(1) [OF this] same_core_window(2) [OF this] assms(1,2)
  have "dar_set x None e2 = Inr (e2\<lparr>dar_buffer := (dar_buffer e2)(nat x := None)\<rparr>)"
    by (intro dar_set_sn) simp_all
  with Some e2 dar_get_sn [OF assms(1,2)] show ?thesis by (simp add: reassemble_sn_def Let_def)
qed

lemma reassemble_range_total:
  assumes "rx_configured e" and "\<forall>x \<in> set xs. is_sn e x" and "buffer_readable e"
  shows "\<exists>e'. foldE reassemble_sn xs e = Inr e'"
proof -
  let ?P = "\<lambda>f. core f = core e \<and> buffer_readable f"
  have "\<exists>e'. foldE reassemble_sn xs e = Inr e' \<and> ?P e'"
  proof (rule foldE_total)
    fix x f assume x: "x \<in> set xs" and f: "?P f"
    then have "core f = core e" by simp
    note c = same_core_window [OF this]
    from reassemble_sn_total [of f x] x f assms(1,2) obtain f' where f': "reassemble_sn x f = Inr f'"
      by (auto simp: c)
    from reassemble_sn_frame [OF this] have "core f' = core f"
      and buf: "dar_buffer f' = (dar_buffer f)(nat x := None)" by auto
    from same_core(2) [OF this(1)] buf f have "buffer_readable f'"
      by (auto simp: buffer_readable_def split: if_splits)
    with f' f \<open>core f' = core f\<close> show "\<exists>f'. reassemble_sn x f = Inr f' \<and> ?P f'" by auto
  qed (use assms in auto)
  then show ?thesis by blast
qed

lemma sn_range_is_sn: "rx_configured e \<Longrightarrow> \<forall>x \<in> set (sn_range (rx_sn_modulo e) a n). is_sn e x"
  by (auto simp: sn_range_def is_sn_mod)

lemma buffer_readable_upd [simp]:
  "buffer_readable (e\<lparr>vr_ur := u\<rparr>) = buffer_readable e" "buffer_readable (e\<lparr>vr_uh := u\<rparr>) = buffer_readable e"
  by (simp_all add: buffer_readable_def)

lemma buffer_readable_store:
  "buffer_readable e \<Longrightarrow> readable (rx_sn_length e) pdu \<Longrightarrow>
   buffer_readable (e\<lparr>dar_buffer := (dar_buffer e)(n := Some pdu)\<rparr>)"
  by (auto simp: buffer_readable_def split: if_splits)

lemma reassemble_range_readable:
  assumes "buffer_readable e" and "foldE reassemble_sn xs e = Inr e'"
  shows "buffer_readable e'"
  using reassemble_range_frame [OF assms(2)] same_core(2) [of e' e] assms(1)
  by (auto simp: buffer_readable_def split: if_splits)

lemma reassemble_range_total':
  assumes "rx_configured e" and "\<forall>x \<in> set xs. is_sn e x" and "buffer_readable e"
  shows "\<exists>e'. foldE reassemble_sn xs e = Inr e' \<and> buffer_readable e'"
  using reassemble_range_total [OF assms] reassemble_range_readable [OF assms(3)] by blast

lemma buffer_readable_timers [simp]:
  "buffer_readable (rlc_um_stop_and_reset_timer_reordering e) = buffer_readable e"
  "buffer_readable (rlc_um_start_timer_reordering now e) = buffer_readable e"
  "buffer_readable (e\<lparr>vr_ux := u\<rparr>) = buffer_readable e"
  "buffer_readable (update_timer now e) = buffer_readable e"
  "buffer_readable (count_duplicate pdu e) = buffer_readable e"
  "buffer_readable (count_out_of_window pdu e) = buffer_readable e"
  by (simp_all add: buffer_readable_def rlc_um_stop_and_reset_timer_reordering_def
      rlc_um_start_timer_reordering_def update_timer_def count_duplicate_def count_out_of_window_def Let_def)

section \<open>The receiver never gets stuck\<close>

lemma store_and_process_total:
  assumes ok: "rx_vars_ok e" "dar_ok e" and x: "acceptable e x"
    and rd: "buffer_readable e" "readable (rx_sn_length e) pdu"
  shows "\<exists>e'. store_and_process now x pdu e = Inr e' \<and> buffer_readable e'"
proof -
  note v = rx_vars_okD [OF ok(1)]
  let ?b = "(dar_buffer e)(nat x := Some pdu)"
  let ?e1 = "e\<lparr>dar_buffer := ?b\<rparr>"
  have sn: "is_sn e x" using x by (simp add: acceptable_def)
  have rd1: "buffer_readable ?e1" using rd by (rule buffer_readable_store)
  have "\<exists>e2. (if rlc_um_in_reordering_window ?e1 x < 0 then advance_window x ?e1 else Inr ?e1) = Inr e2
    \<and> buffer_readable e2"
  proof (cases "rlc_um_in_reordering_window ?e1 x < 0 \<and> dropped e x > 0")
    case True
    have out: "behind e x = 0 \<or> behind e x > rx_um_window_size e"
      using True in_reordering_window_iff [of ?e1 x] v sn behind_range(1) [OF v(1), of x]
      by (auto split: if_splits)
    let ?e2 = "?e1\<lparr>vr_uh := (x + 1) mod rx_sn_modulo e\<rparr>"
    have "\<exists>e3. foldE reassemble_sn (sn_range (rx_sn_modulo e) (vr_ur e) (nat (dropped e x))) ?e2 = Inr e3"
      using v(1) rd1 sn_range_is_sn [OF v(1)] by (intro reassemble_range_total) simp_all
    then obtain e3 where e3: "foldE reassemble_sn (sn_range (rx_sn_modulo e) (vr_ur e) (nat (dropped e x))) ?e2 = Inr e3"
      by blast
    moreover have "buffer_readable e3" using rd1 by (intro reassemble_range_readable [OF _ e3]) simp
    ultimately show ?thesis
      using True advance_window_eq [OF ok(1) sn out, of ?b] by (simp del: fun_upd_apply)
  next
    case False
    show ?thesis
    proof (cases "rlc_um_in_reordering_window ?e1 x < 0")
      case win: True
      then have out: "behind e x = 0 \<or> behind e x > rx_um_window_size e"
        using in_reordering_window_iff [of ?e1 x] v sn behind_range(1) [OF v(1), of x]
        by (auto split: if_splits)
      from win False rd1 advance_window_eq [OF ok(1) sn out, of ?b] show ?thesis
        by (simp del: fun_upd_apply)
    qed (use rd1 in auto)
  qed
  then obtain e2 where e2: "(if rlc_um_in_reordering_window ?e1 x < 0 then advance_window x ?e1 else Inr ?e1) = Inr e2"
    and rd2: "buffer_readable e2" by blast
  from store_window [OF ok x, of pdu e2] e2
  have ok2: "rx_vars_ok e2" "dar_ok e2" "dar_buffer e2 (nat x) \<noteq> None" by (simp_all add: Let_def)
  note v2 = rx_vars_okD [OF ok2(1)]
  from deliver_ready_range [OF ok2] obtain u where
    "deliver_ready x e2 = foldE reassemble_sn
      (sn_range (rx_sn_modulo e2) (vr_ur e2) (nat (behind e2 (vr_ur e2) - behind e2 u))) (e2\<lparr>vr_ur := u\<rparr>)"
    by blast
  moreover have "\<exists>e3. foldE reassemble_sn
      (sn_range (rx_sn_modulo e2) (vr_ur e2) (nat (behind e2 (vr_ur e2) - behind e2 u))) (e2\<lparr>vr_ur := u\<rparr>) = Inr e3 \<and> buffer_readable e3"
    using v2(1) rd2 sn_range_is_sn [OF v2(1)] by (intro reassemble_range_total') simp_all
  ultimately show ?thesis
    using e2 by (auto simp: store_and_process_def dar_set_sn [OF v(1) sn])
qed

lemma receive_total:
  assumes ok: "rx_ok e" and rd: "buffer_readable e" "readable (rx_sn_length e) pdu"
  shows "\<exists>e'. rlc_um_receive_process_dar now pdu e = Inr e' \<and> buffer_readable e'"
proof -
  from ok have vars: "rx_vars_ok e" and dar: "dar_ok e" by (auto simp: rx_ok_def)
  from readable_sn [OF rd(2) rx_vars_okD(1) [OF vars]] obtain x where sn: "pdu_sn e pdu = Inr x" by blast
  let ?e0 = "(count_duplicate pdu e)\<lparr>dar_buffer := (dar_buffer e)(nat x := None)\<rparr>"
  have "rx_vars_ok ?e0" "dar_ok ?e0" "acceptable ?e0 x = acceptable e x" "buffer_readable ?e0"
    "readable (rx_sn_length ?e0) pdu"
    using vars dar rd by (auto simp: acceptable_def count_duplicate_def rx_vars_ok_def rx_configured_def
        is_sn_def behind_def dar_ok_def buffer_readable_def split: if_splits)
  then show ?thesis
    unfolding receive_cases [OF ok sn]
    using vars dar rd store_and_process_total [of e x pdu now] store_and_process_total [of ?e0 x pdu now]
    by auto
qed

lemma timer_action_total:
  assumes ok: "rx_ok e" and run: "running e" and rd: "buffer_readable e"
  shows "\<exists>e'. timer_action now e = Inr e' \<and> buffer_readable e'"
proof -
  from ok have v: "rx_configured e" by (auto simp: rx_ok_def dest: rx_vars_okD)
  from timer_action_range [OF ok run, of now] obtain u where eq:
    "timer_action now e = bindE (foldE reassemble_sn (sn_range (rx_sn_modulo e) (vr_ur e)
        (nat (behind e (vr_ur e) - behind e u))) (e\<lparr>vr_ur := u\<rparr>))
      (\<lambda>e1. Inr (if rlc_um_in_window e1 (vr_ur e1) (vr_uh e1) (vr_uh e1) = 2
                 then (rlc_um_start_timer_reordering now e1)\<lparr>vr_ux := vr_uh e1\<rparr>
                 else rlc_um_stop_and_reset_timer_reordering e1))" by blast
  have "\<exists>e1. foldE reassemble_sn (sn_range (rx_sn_modulo e) (vr_ur e)
        (nat (behind e (vr_ur e) - behind e u))) (e\<lparr>vr_ur := u\<rparr>) = Inr e1 \<and> buffer_readable e1"
    using v rd sn_range_is_sn [OF v] by (intro reassemble_range_total') simp_all
  then show ?thesis unfolding eq by auto
qed

lemma rlc_step_total:
  assumes ok: "rx_ok e" and rd: "buffer_readable e"
    and ev: "\<And>now pdu. ev = Receive now pdu \<Longrightarrow> pdu = [] \<or> readable (rx_sn_length e) pdu"
  shows "\<exists>e'. rlc_step ev e = Inr e' \<and> buffer_readable e'"
proof (cases ev)
  case (Receive now pdu)
  let ?e = "e\<lparr>stat_rx_data_bytes := stat_rx_data_bytes e + of_nat (length pdu),
      stat_rx_data_pdu := stat_rx_data_pdu e + 1\<rparr>"
  have "buffer_readable ?e" using rd by (simp add: buffer_readable_def)
  with ok ev [OF Receive] receive_total [of ?e pdu now] show ?thesis
    by (auto simp: Receive receive_tb_def Let_def)
next
  case (Timer_check now free)
  let ?e = "e\<lparr>stat_timer_reordering_timed_out := stat_timer_reordering_timed_out e + 1\<rparr>"
  have "buffer_readable ?e" using rd by (simp add: buffer_readable_def)
  with ok rd timer_action_total [of ?e now] show ?thesis
    by (auto simp: Timer_check rlc_um_check_timer_dar_time_out_def Let_def)
qed

section \<open>The configuration does not change\<close>

abbreviation same_config :: "rlc_um \<Rightarrow> rlc_um \<Rightarrow> bool" where
  "same_config e e' \<equiv> rx_sn_length e' = rx_sn_length e \<and> rx_sn_modulo e' = rx_sn_modulo e \<and>
     rx_um_window_size e' = rx_um_window_size e \<and> is_data_plane e' = is_data_plane e \<and>
     protocol_state e' = protocol_state e"

lemma core_config: "core e' = core e \<Longrightarrow> same_config e e'"
  using same_core [of e' e] by simp

lemma reassembly_loop_config: "reassembly_loop fuel stop x e = Inr e' \<Longrightarrow> same_config e e'"
proof (induction fuel arbitrary: x e)
  case 0
  then show ?case
    by (subst (asm) reassembly_loop.simps)
       (auto simp: bindE_eq_Inr Let_def dest!: reassemble_sn_frame core_config split: if_splits)
next
  case (Suc fuel)
  from Suc.prems obtain e1 where e1: "reassemble_sn x e = Inr e1"
    and rest: "e' = e1 \<or> (\<exists>y. reassembly_loop fuel stop y e1 = Inr e')"
    by (subst (asm) reassembly_loop.simps) (auto simp: bindE_eq_Inr Let_def split: if_splits)
  have "same_config e e1" using reassemble_sn_frame [OF e1] core_config by blast
  with rest Suc.IH show ?case by metis
qed

lemma try_reassembly_config: "rlc_um_try_reassembly a b e = Inr e' \<Longrightarrow> same_config e e'"
  by (auto simp: rlc_um_try_reassembly_def Let_def dest: reassembly_loop_config split: if_splits)

lemma timers_config [simp]:
  "same_config e (rlc_um_stop_and_reset_timer_reordering e)"
  "same_config e (rlc_um_start_timer_reordering now e)"
  by (simp_all add: rlc_um_stop_and_reset_timer_reordering_def rlc_um_start_timer_reordering_def Let_def)

lemma update_timer_config [simp]: "same_config e (update_timer now e)"
proof -
  define e1 where "e1 = (if running e \<and> vr_uh e \<noteq> vr_ux e \<and> rlc_um_in_reordering_window e (vr_ux e) < 0
                then rlc_um_stop_and_reset_timer_reordering e else e)"
  define e2 where "e2 = (if running e1 \<and> rlc_um_in_window e1 (vr_ur e1) (vr_ux e1) (vr_uh e1) \<in> {- 2, 1}
                then rlc_um_stop_and_reset_timer_reordering e1 else e1)"
  have "same_config e e1" "same_config e1 e2" by (simp_all add: e1_def e2_def)
  then show ?thesis unfolding update_timer_def Let_def e1_def [symmetric] e2_def [symmetric] by simp
qed

lemma advance_window_config:
  assumes "advance_window x e = Inr e'"
  shows "same_config e e'"
proof -
  let ?e1 = "e\<lparr>vr_uh := c_rem (x + 1) (rx_sn_modulo e)\<rparr>"
  from assms consider "e' = ?e1"
    | edge e2 u where "rlc_um_try_reassembly (vr_ur ?e1) edge ?e1 = Inr e2" "e' = e2\<lparr>vr_ur := u\<rparr>"
    | edge where "rlc_um_try_reassembly (vr_ur ?e1) edge ?e1 = Inr e'"
    unfolding advance_window_def Let_def
    by (cases "rlc_um_in_reordering_window ?e1 (vr_ur ?e1) \<noteq> 0") (auto elim!: bindE_eq_InrE split: if_splits)
  then show ?thesis
    by cases (use try_reassembly_config [of _ _ ?e1] in force)+
qed

lemma deliver_ready_config: "deliver_ready x e = Inr e' \<Longrightarrow> same_config e e'"
  by (auto simp: deliver_ready_def bindE_eq_Inr dest!: try_reassembly_config split: if_splits)

lemma store_and_process_config:
  assumes "store_and_process now x pdu e = Inr e'"
  shows "same_config e e'"
proof -
  from assms obtain e1 e2 e3 where e: "dar_set x (Some pdu) e = Inr e1"
    "(if rlc_um_in_reordering_window e1 x < 0 then advance_window x e1 else Inr e1) = Inr e2"
    "deliver_ready x e2 = Inr e3" "e' = update_timer now e3"
    by (auto simp: store_and_process_def bindE_eq_Inr)
  have "same_config e e1" using e(1) by (auto simp: dar_set_def split: if_splits)
  moreover have "same_config e1 e2" using e(2) by (auto dest: advance_window_config split: if_splits)
  ultimately show ?thesis using deliver_ready_config [OF e(3)] e(4) by simp
qed

lemma timer_action_config: "timer_action now e = Inr e' \<Longrightarrow> same_config e e'"
  using timers_config(1,2)
  by (auto simp: timer_action_def Let_def bindE_eq_Inr dest!: try_reassembly_config split: if_splits)

lemma rlc_step_config:
  assumes "rlc_step ev e = Inr e'"
  shows "same_config e e'"
proof (cases ev)
  case (Receive now pdu)
  have *: "same_config f e'" if "rlc_um_receive_process_dar now pdu f = Inr e'" for f
  proof -
    from that consider "e' = count_out_of_window pdu f" | "e' = count_duplicate pdu f"
      | x g where "dar_set x None (count_duplicate pdu f) = Inr g" "store_and_process now x pdu g = Inr e'"
      | x where "store_and_process now x pdu f = Inr e'"
      by (auto simp: rlc_um_receive_process_dar_def bindE_eq_Inr split: if_splits)
    then show ?thesis
      by cases (auto simp: count_out_of_window_def count_duplicate_def dar_set_def
          dest!: store_and_process_config split: if_splits)
  qed
  from assms have "receive_tb now pdu e = Inr e'" unfolding Receive by simp
  then show ?thesis using * by (auto simp: receive_tb_def Let_def split: if_splits)
next
  case (Timer_check now free)
  with assms show ?thesis
    by (auto simp: rlc_um_check_timer_dar_time_out_def Let_def dest!: timer_action_config split: if_splits)
qed

section \<open>Runs\<close>

lemma rlc_reachable_run: "foldE rlc_step evs e = Inr e' \<Longrightarrow> rlc_reachable e \<Longrightarrow> rlc_reachable e'"
  by (erule foldE_invariant) (auto intro: rlc_reachable.step)

text \<open>All PDUs of the events are readable, or empty.\<close>

definition readable_event :: "nat \<Rightarrow> rlc_event \<Rightarrow> bool" where
  "readable_event sn_len ev =
     (case ev of Receive now pdu \<Rightarrow> pdu = [] \<or> readable sn_len pdu | Timer_check _ _ \<Rightarrow> True)"

lemma rlc_run_total:
  assumes "rx_ok e" and "buffer_readable e" and "\<forall>ev \<in> set evs. readable_event (rx_sn_length e) ev"
  shows "\<exists>e'. foldE rlc_step evs e = Inr e' \<and> rx_ok e' \<and> buffer_readable e' \<and> rx_sn_length e' = rx_sn_length e"
proof (rule foldE_total)
  fix ev f assume ev: "ev \<in> set evs"
    and f: "rx_ok f \<and> buffer_readable f \<and> rx_sn_length f = rx_sn_length e"
  have "readable_event (rx_sn_length f) ev" using ev f assms(3) by simp
  with rlc_step_total [of f ev] f obtain f' where f': "rlc_step ev f = Inr f'" "buffer_readable f'"
    by (cases ev) (auto simp: readable_event_def)
  from rlc_step_config [OF f'(1)] rlc_step_ok [OF _ f'(1)] f f' 
  show "\<exists>f'. rlc_step ev f = Inr f' \<and> rx_ok f' \<and> buffer_readable f' \<and> rx_sn_length f' = rx_sn_length e" by simp
qed (use assms in simp)

section \<open>Entities for the examples\<close>

definition um_entity :: "nat \<Rightarrow> rlc_um" where
  "um_entity sn_len = (case config_req_rlc_um 35 sn_len False False zero_rlc_um of Inr e \<Rightarrow> e | Inl _ \<Rightarrow> zero_rlc_um)"

definition um_run :: "nat \<Rightarrow> rlc_event list \<Rightarrow> rlc_um res" where
  "um_run sn_len evs = foldE rlc_step evs (um_entity sn_len)"

lemma um_entity:
  assumes "sn_len \<in> {5, 10}"
  shows "config_req_rlc_um 35 sn_len False False zero_rlc_um = Inr (um_entity sn_len)"
  by (simp add: um_entity_def config_req_rlc_um_def rlc_um_fsm_notify_event_def rlc_um_init_def zero_rlc_um_def)

lemma um_run_reachable: "sn_len \<in> {5, 10} \<Longrightarrow> um_run sn_len evs = Inr e \<Longrightarrow> rlc_reachable e"
  unfolding um_run_def using um_entity rlc_reachable.configured rlc_reachable_run by metis

end
