(* ===== verification/RlcUmReceiver.thy ===== *)
theory RlcUmReceiver
  imports RlcUmService
begin

text \<open>
  The properties of the receiver of an unacknowledged-mode entity: its window, its invariant, that it
  always returns on readable PDUs, what the expiry of its timer does, and the cases in which it does
  not do what it is meant to do.
\<close>

section \<open>The window\<close>

text \<open>C32.
  The tests of the receive window are what the standard says, for both lengths of a sequence number,
  although the code reduces with a remainder that can be negative: a number is in the reordering window
  when it is one of the \<open>W\<close> before \<open>VR(UH)\<close>; a PDU is discarded when its number is in the window and
  before \<open>VR(UR)\<close>; it is a duplicate when its place is taken and it lies between \<open>VR(UR)\<close> and \<open>VR(UH)\<close>; the timer
  is needed when \<open>VR(UR)\<close> is not \<open>VR(UH)\<close>.
\<close>

theorem rlc_um_window_tests:
  assumes "rx_configured e" and "is_sn e (vr_uh e)" and "is_sn e (vr_ur e)" and "is_sn e x"
    and "(vr_uh e - vr_ur e) mod rx_sn_modulo e \<le> rx_um_window_size e"
  defines "d \<equiv> (vr_uh e - x) mod rx_sn_modulo e" and "r \<equiv> (vr_uh e - vr_ur e) mod rx_sn_modulo e"
  shows "(rlc_um_in_reordering_window e x = 0 \<longleftrightarrow> 1 \<le> d \<and> d \<le> rx_um_window_size e) \<and>
    (rlc_um_in_window e (vr_uh e - rx_um_window_size e) x (vr_ur e) \<in> {0, 1} \<longleftrightarrow>
       r < d \<and> d \<le> rx_um_window_size e) \<and>
    (rlc_um_in_window e (vr_ur e) x (vr_uh e) = 0 \<longleftrightarrow> 0 < d \<and> d < r) \<and>
    (rlc_um_in_window e (vr_ur e) (vr_uh e) (vr_uh e) = 2 \<longleftrightarrow> vr_ur e \<noteq> vr_uh e)"
proof -
  have "behind e (vr_ur e) \<le> rx_um_window_size e" using assms(5) by (simp add: behind_def)
  with in_reordering_window_iff [OF assms(1,2,4)] discard_iff [OF assms(1,2,4,3)]
    duplicate_iff [OF assms(1,2,4,3)] gap_iff [OF assms(1,2,3)]
  show ?thesis unfolding d_def r_def behind_def [symmetric] by (simp add: int_one_le_iff_zero_less)
qed

lemma rlc_um_window_tests_witness:
  "let e = (um_entity 5)\<lparr>vr_ur := 30, vr_uh := 3\<rparr> in
    rlc_um_in_reordering_window e 31 = 0 \<and> rlc_um_in_window e (- 13) 29 30 \<in> {0, 1} \<and>
    rlc_um_in_window e 30 1 3 = 0 \<and> rlc_um_in_window e 30 3 3 = 2"
proof -
  let ?e = "(um_entity 5)\<lparr>vr_ur := 30, vr_uh := 3\<rparr>"
  have e: "rx_configured ?e" "rx_sn_modulo ?e = 32" "rx_um_window_size ?e = 16"
    using configured_entity(1) [OF _ um_entity [of 5]] configured_entity(9) [OF _ um_entity [of 5]]
    by (auto simp: rx_ok_def rx_vars_ok_def rx_configured_def)
  have "rlc_um_in_reordering_window ?e 31 = 0"
    using rlc_um_window_tests [of ?e 31] e by (simp add: is_sn_def)
  moreover have "rlc_um_in_window ?e (- 13) 29 30 \<in> {0, 1}"
    using rlc_um_window_tests [of ?e 29] e by (simp add: is_sn_def)
  moreover have "rlc_um_in_window ?e 30 1 3 = 0 \<and> rlc_um_in_window ?e 30 3 3 = 2"
    using rlc_um_window_tests [of ?e 1] e by (simp add: is_sn_def)
  ultimately show ?thesis by (simp add: Let_def)
qed

section \<open>The invariant\<close>

text \<open>C5.
  In every state that the receiver reaches from its configuration, whatever PDUs come in and whenever the
  timer is checked: the three state variables are sequence numbers, \<open>VR(UR)\<close> is at most the window size
  before \<open>VR(UH)\<close>, every PDU in the buffer has a number from \<open>VR(UR)\<close> to \<open>VR(UH) - 1\<close>, and a running timer
  waits for a number after \<open>VR(UR)\<close> unless nothing is missing.
\<close>

theorem rlc_um_receiver_invariant:
  assumes "rlc_reachable e"
  defines "dist \<equiv> \<lambda>x. (vr_uh e - x) mod rx_sn_modulo e"
  shows "rx_sn_modulo e = 2 * rx_um_window_size e \<and> rx_sn_modulo e = 2 ^ rx_sn_length e \<and>
    {vr_ur e, vr_ux e, vr_uh e} \<subseteq> {0..<rx_sn_modulo e} \<and> dist (vr_ur e) \<le> rx_um_window_size e \<and>
    (\<forall>n p. dar_buffer e n = Some p \<longrightarrow>
       int n < rx_sn_modulo e \<and> 1 \<le> dist (int n) \<and> dist (int n) \<le> dist (vr_ur e)) \<and>
    (running e \<longrightarrow> dist (vr_ux e) < dist (vr_ur e) \<or> vr_ux e = vr_uh e \<and> vr_ur e = vr_uh e)"
proof -
  from reachable_ok [OF assms(1)] have ok: "rx_vars_ok e" "dar_ok e" "timer_ok e" by (auto simp: rx_ok_def)
  have "int n < rx_sn_modulo e \<and> 1 \<le> dist (int n) \<and> dist (int n) \<le> dist (vr_ur e)"
    if "dar_buffer e n = Some p" for n p
    using ok(2) that unfolding dar_ok_def dist_def behind_def is_sn_def by (metis int_one_le_iff_zero_less option.distinct(1))
  with ok(1,3) show ?thesis
    by (auto simp: rx_vars_ok_def rx_configured_def is_sn_def timer_ok_def behind_def dist_def)
qed

lemma rlc_um_receiver_invariant_witness:
  "\<exists>e. um_run 5 [Receive 7 [1, 42], Receive 9 [3, 43]] = Inr e \<and> running e \<and>
    (vr_uh e - vr_ux e) mod 32 < (vr_uh e - vr_ur e) mod 32 \<and> vr_ur e \<noteq> vr_uh e"
proof -
  let ?r = "um_run 5 [Receive 7 [1, 42], Receive 9 [3, 43]]"
  have r: "map_sum id (\<lambda>e. (running e, vr_ur e, vr_uh e, rx_sn_modulo e)) ?r = Inr (True, 0, 4, 32)"
    by code_simp
  then obtain e where e: "?r = Inr e" by (cases ?r) auto
  with r have "running e" "vr_ur e = 0" "vr_uh e = 4" "rx_sn_modulo e = 32" by auto
  with rlc_um_receiver_invariant [OF um_run_reachable [OF _ e]] e show ?thesis by auto
qed

section \<open>It always returns\<close>

text \<open>C20.
  From the configuration on, any sequence of received PDUs and timer checks, at any times, is processed
  to its end, as long as every PDU has a header and a list of indicators that can be read: none of the
  loops over sequence numbers runs on, no access leaves the buffer or a PDU, and no assertion fails.
\<close>

theorem rlc_um_receive_returns:
  assumes "sn_len \<in> {5, 10}" and "config_req_rlc_um timer sn_len False srb zero_rlc_um = Inr e"
    and "\<forall>ev \<in> set evs. readable_event sn_len ev"
  shows "\<exists>e'. foldE rlc_step evs e = Inr e'"
proof -
  note c = configured_entity [OF assms(1,2)]
  have "buffer_readable e" by (simp add: buffer_readable_def c)
  from rlc_run_total [OF c(1) this] assms(3) c(9) show ?thesis by blast
qed

lemma rlc_um_receive_returns_witness:
  "\<exists>e'. foldE rlc_step [Receive 7 [0x41, 42], Timer_check 50 True, Receive 60 [0xA1, 0xFF, 0xF0, 9], Receive 61 []]
     (um_entity 5) = Inr e'"
proof (rule rlc_um_receive_returns [OF _ um_entity])
  show "\<forall>ev \<in> set [Receive 7 [0x41, 42], Timer_check 50 True, Receive 60 [0xA1, 0xFF, 0xF0, 9], Receive 61 []].
      readable_event 5 ev"
    by code_simp
qed simp_all

section \<open>The reordering timer\<close>

text \<open>
  A timer that was started at the time \<open>t0\<close> expires when its duration is over, and also at every time
  before \<open>t0\<close>. The time is that of the radio frame, which starts again from 0 after 10240 milliseconds:
  a timer that is running then fires at once.
\<close>

theorem rlc_um_timer_expires:
  assumes "0 < ms_duration e" and "unat t0 + unat (ms_duration e) < 2 ^ 32"
  shows "running (rlc_um_start_timer_reordering t0 e) \<and>
    (timer_expired now (rlc_um_start_timer_reordering t0 e) \<longleftrightarrow>
       unat t0 + unat (ms_duration e) \<le> unat now \<or> now < t0)"
proof -
  have "unat (t0 + ms_duration e) = unat t0 + unat (ms_duration e)"
    using assms(2) by (simp add: unat_word_ariths)
  moreover have "0 < unat (ms_duration e)" using assms(1) by (simp add: word_less_nat_alt)
  ultimately show ?thesis
    using assms(1) by (auto simp: rlc_um_start_timer_reordering_def timer_expired_def Let_def
        word_less_nat_alt word_le_nat_alt)
qed

lemma rlc_um_timer_expires_witness:
  "timer_expired 0 (rlc_um_start_timer_reordering 10235 (zero_rlc_um\<lparr>ms_duration := 35\<rparr>)) \<and>
   \<not> timer_expired 10239 (rlc_um_start_timer_reordering 10235 (zero_rlc_um\<lparr>ms_duration := 35\<rparr>))"
  using rlc_um_timer_expires [of "zero_rlc_um\<lparr>ms_duration := 35\<rparr>" 10235 0]
    rlc_um_timer_expires [of "zero_rlc_um\<lparr>ms_duration := 35\<rparr>" 10235 10239] by simp

text \<open>What the timer does, with the distances of an entity of the invariant.\<close>

lemma timer_action_effect:
  assumes ok: "rx_ok e" and run: "running e" and act: "timer_action now e = Inr e'"
  shows "dar_buffer e (nat (vr_ur e')) = None \<and> behind e (vr_ur e') \<le> behind e (vr_ux e) \<and>
    (\<forall>z. is_sn e z \<and> behind e (vr_ur e') < behind e z \<and> behind e z \<le> behind e (vr_ux e) \<longrightarrow>
       dar_buffer e (nat z) \<noteq> None) \<and>
    dar_buffer e' = (\<lambda>n. if behind e (vr_ur e') < behind e (int n) then None else dar_buffer e n) \<and>
    (\<exists>e1. foldE reassemble_sn (sn_range (rx_sn_modulo e) (vr_ur e)
        (nat (behind e (vr_ur e) - behind e (vr_ur e')))) (e\<lparr>vr_ur := vr_ur e'\<rparr>) = Inr e1 \<and>
       delivered e' = delivered e1) \<and>
    vr_uh e' = vr_uh e \<and> (running e' \<longleftrightarrow> vr_ur e' \<noteq> vr_uh e) \<and> (running e' \<longrightarrow> vr_ux e' = vr_uh e)"
proof -
  from ok have vars: "rx_vars_ok e" and dar: "dar_ok e" by (auto simp: rx_ok_def)
  note v = rx_vars_okD [OF vars]
  from timer_action_range [OF ok run, of now] obtain u where
    u: "is_sn e u" "behind e u \<le> behind e (vr_ux e)" "behind e u \<le> behind e (vr_ur e)" "dar_buffer e (nat u) = None"
      "\<forall>z. is_sn e z \<and> behind e u < behind e z \<and> behind e z \<le> behind e (vr_ux e) \<longrightarrow> dar_buffer e (nat z) \<noteq> None"
    and eq: "timer_action now e = bindE (foldE reassemble_sn (sn_range (rx_sn_modulo e) (vr_ur e)
        (nat (behind e (vr_ur e) - behind e u))) (e\<lparr>vr_ur := u\<rparr>))
      (\<lambda>e1. Inr (if rlc_um_in_window e1 (vr_ur e1) (vr_uh e1) (vr_uh e1) = 2
                 then (rlc_um_start_timer_reordering now e1)\<lparr>vr_ux := vr_uh e1\<rparr>
                 else rlc_um_stop_and_reset_timer_reordering e1))" by blast
  let ?xs = "sn_range (rx_sn_modulo e) (vr_ur e) (nat (behind e (vr_ur e) - behind e u))"
  from act eq obtain e1 where e1: "foldE reassemble_sn ?xs (e\<lparr>vr_ur := u\<rparr>) = Inr e1"
    and e': "e' = (if rlc_um_in_window e1 (vr_ur e1) (vr_uh e1) (vr_uh e1) = 2
                 then (rlc_um_start_timer_reordering now e1)\<lparr>vr_ux := vr_uh e1\<rparr>
                 else rlc_um_stop_and_reset_timer_reordering e1)" by (auto elim: bindE_eq_InrE)
  from reassemble_range_frame [OF e1] have core: "core e1 = core (e\<lparr>vr_ur := u\<rparr>)"
    and buf: "dar_buffer e1 = (\<lambda>n. if int n \<in> set ?xs then None else dar_buffer e n)"
    by (simp_all cong: if_cong)
  from same_core [OF core] have c: "vr_ur e1 = u" "vr_uh e1 = vr_uh e" "running e1 = running e" by simp_all
  have "rx_vars_ok e1 \<and> dar_ok e1" using move_ur [OF vars dar u(1,3)] e1 by simp
  then have "rlc_um_in_window e1 (vr_ur e1) (vr_uh e1) (vr_uh e1) = 2 \<longleftrightarrow> u \<noteq> vr_uh e"
    using gap_iff [of e1] rx_vars_okD [of e1] c by simp
  with e' c run have tail: "dar_buffer e' = dar_buffer e1" "delivered e' = delivered e1" "vr_ur e' = u"
    "vr_uh e' = vr_uh e" "running e' \<longleftrightarrow> u \<noteq> vr_uh e" "running e' \<longrightarrow> vr_ux e' = vr_uh e"
    by (auto simp: rlc_um_start_timer_reordering_def rlc_um_stop_and_reset_timer_reordering_def Let_def)
  have "int n \<in> set ?xs \<longleftrightarrow> behind e u < behind e (int n)" if "dar_buffer e n = Some p" for n p
    using that dar set_sn_range [OF v(1,4), of "nat (behind e (vr_ur e) - behind e u)" "vr_ur e"] u(3)
      behind_range(1) [OF v(1), of u] by (auto simp: dar_ok_def)
  then have "dar_buffer e' n = (if behind e u < behind e (int n) then None else dar_buffer e n)" for n
    by (cases "dar_buffer e n") (simp_all add: tail buf)
  then have "dar_buffer e' = (\<lambda>n. if behind e u < behind e (int n) then None else dar_buffer e n)" by blast
  with u(2,4,5) tail e1 show ?thesis by blast
qed

text \<open>C33.
  When the timer expires, \<open>VR(UR)\<close> goes to the first number from \<open>VR(UX)\<close> on that has not been received; the
  PDUs before it are reassembled in the order of their numbers and leave the buffer, and the others
  stay. If something is still missing the timer runs on for what is below the new \<open>VR(UX)\<close>, which is
  \<open>VR(UH)\<close>; else it stops.
\<close>

theorem rlc_um_timer_expiry:
  assumes "rlc_reachable e" and "running e" and "timer_expired now e"
    and "rlc_um_check_timer_dar_time_out now True e = Inr e'"
  defines "dist \<equiv> \<lambda>x. (vr_uh e - x) mod rx_sn_modulo e"
  shows "dar_buffer e (nat (vr_ur e')) = None \<and> dist (vr_ur e') \<le> dist (vr_ux e) \<and>
    (\<forall>n. int n < rx_sn_modulo e \<and> dist (vr_ur e') < dist (int n) \<and> dist (int n) \<le> dist (vr_ux e) \<longrightarrow>
       dar_buffer e n \<noteq> None) \<and>
    dar_buffer e' = (\<lambda>n. if dist (vr_ur e') < dist (int n) then None else dar_buffer e n) \<and>
    (\<exists>e1. foldE reassemble_sn
        (sn_range (rx_sn_modulo e) (vr_ur e) (nat (dist (vr_ur e) - dist (vr_ur e'))))
        (e\<lparr>stat_timer_reordering_timed_out := stat_timer_reordering_timed_out e + 1, vr_ur := vr_ur e'\<rparr>) = Inr e1 \<and>
       delivered e' = delivered e1) \<and>
    vr_uh e' = vr_uh e \<and> (running e' \<longleftrightarrow> vr_ur e' \<noteq> vr_uh e) \<and>
    (running e' \<longrightarrow> vr_ux e' = vr_uh e)"
proof -
  let ?e = "e\<lparr>stat_timer_reordering_timed_out := stat_timer_reordering_timed_out e + 1\<rparr>"
  have ok: "rx_ok ?e" using reachable_ok [OF assms(1)] by simp
  have dist: "dist = behind ?e" by (simp add: dist_def behind_def fun_eq_iff)
  have run: "running ?e" and act: "timer_action now ?e = Inr e'"
    using assms(2-4) by (auto simp: rlc_um_check_timer_dar_time_out_def Let_def)
  note eff = timer_action_effect [OF ok run act, folded dist]
  then have "\<forall>n. int n < rx_sn_modulo e \<and> dist (vr_ur e') < dist (int n) \<and> dist (int n) \<le> dist (vr_ux e) \<longrightarrow>
      dar_buffer e n \<noteq> None"
    by (auto simp: is_sn_def dest!: spec [of _ "int _"])
  with eff show ?thesis by (simp cong: if_cong)
qed

lemma rlc_um_timer_expiry_witness:
  "\<exists>e e'. um_run 5 [Receive 7 [0, 42], Receive 9 [2, 43], Receive 9 [4, 44]] = Inr e \<and>
    rlc_um_check_timer_dar_time_out 45 True e = Inr e' \<and> dar_buffer e (nat (vr_ur e')) = None \<and>
    vr_ur e' = 3 \<and> vr_ux e' = vr_uh e \<and> delivered e' = [[42], [43]]"
proof -
  let ?r = "um_run 5 [Receive 7 [0, 42], Receive 9 [2, 43], Receive 9 [4, 44]]"
  let ?r' = "bindE ?r (rlc_um_check_timer_dar_time_out 45 True)"
  have r: "map_sum id (\<lambda>e. (running e, timer_expired 45 e)) ?r = Inr (True, True)"
    by code_simp
  have r': "map_sum id (\<lambda>e. (vr_ur e, running e, delivered e)) ?r' = Inr (3, True, [[42], [43]])"
    by code_simp
  from r obtain e where e: "?r = Inr e" "running e" "timer_expired 45 e" by (cases ?r) auto
  from r' e(1) obtain e' where e': "rlc_um_check_timer_dar_time_out 45 True e = Inr e'" "vr_ur e' = 3"
    "running e'" "delivered e' = [[42], [43]]" by (cases ?r') auto
  from rlc_um_timer_expiry [OF um_run_reachable [OF _ e(1)] e(2,3) e'(1)] e(1) e' show ?thesis by auto
qed

section \<open>Where the code departs from the standard\<close>

text \<open>
  When a PDU outside the window moves the window, and \<open>VR(UR)\<close> with it to a number whose PDU is in the
  buffer, the standard has \<open>VR(UR)\<close> go on to the first number that is missing and delivers what is before
  it. The code does so only when that number is the one just received: here PDU 1 stays in the
  buffer, at \<open>VR(UR)\<close>, undelivered.
\<close>

theorem rlc_um_received_pdu_withheld:
  "\<exists>e. um_run 5 [Receive 0 [1, 42], Receive 1 [16, 43]] = Inr e \<and>
     vr_ur e = 1 \<and> dar_buffer e 1 = Some [1, 42] \<and> delivered e = []"
proof -
  let ?r = "um_run 5 [Receive 0 [1, 42], Receive 1 [16, 43]]"
  have r: "map_sum id (\<lambda>e. (vr_ur e, dar_buffer e 1, delivered e)) ?r = Inr (1, Some [1, 42], [])"
    by code_simp
  then show ?thesis by (cases ?r) auto
qed

text \<open>
  When the last gap closes while the timer runs, \<open>VR(UR)\<close>, \<open>VR(UX)\<close> and \<open>VR(UH)\<close> are all equal and the
  standard stops the timer, since \<open>VR(UX)\<close> is not above \<open>VR(UR)\<close>. The code compares with a window test that
  returns 3 when both edges are met, which it does not expect: the timer goes on running in any state
  in which nothing is missing.
\<close>

theorem rlc_um_timer_not_stopped:
  assumes "rx_vars_ok e" and "running e" and "vr_ux e = vr_uh e" and "vr_ur e = vr_uh e"
  shows "update_timer now e = e"
proof -
  have w: "rlc_um_in_window e (vr_uh e) (vr_uh e) (vr_uh e) = 3"
    by (simp add: rlc_um_in_window_def Let_def)
  with assms(2-4) show ?thesis by (simp add: update_timer_def Let_def)
qed

lemma rlc_um_timer_not_stopped_witness:
  "\<exists>e. um_run 5 [Receive 0 [1, 42], Receive 1 [0, 43]] = Inr e \<and> vr_ur e = vr_uh e \<and>
     delivered e = [[43], [42]] \<and> running e \<and> running (update_timer 2 e)"
proof -
  let ?r = "um_run 5 [Receive 0 [1, 42], Receive 1 [0, 43]]"
  have r: "map_sum id (\<lambda>e. (vr_ur e, vr_ux e, vr_uh e, running e, delivered e)) ?r
    = Inr (2, 2, 2, True, [[43], [42]])" by code_simp
  then obtain e where e: "?r = Inr e" "vr_ur e = 2" "vr_ux e = 2" "vr_uh e = 2" "running e"
    "delivered e = [[43], [42]]" by (cases ?r) auto
  have "rx_vars_ok e" using reachable_ok [OF um_run_reachable [OF _ e(1)]] by (simp add: rx_ok_def)
  from rlc_um_timer_not_stopped [OF this, of 2] e show ?thesis by simp
qed

text \<open>
  A list of indicators that does not end: every indicator has its extension bit set. The bound on
  their number is tested after the 129th has been written.
\<close>

lemma read_lis_unending:
  assumes "length acc \<le> 128" and "even (length acc)" and "int (length pre) \<le> off"
    and "3 * (128 - length acc) div 2 + 3 \<le> n - (nat off - length pre)"
  shows "read_lis (pre @ replicate n 0xFF) off acc sz = Inl OutOfBounds"
  using assms
proof (induction "128 - length acc" arbitrary: acc off sz rule: less_induct)
  case less
  let ?pdu = "pre @ replicate n (0xFF :: u8)"
  have b: "aget ?pdu off = Inr 0xFF" "aget ?pdu (off + 1) = Inr 0xFF" "aget ?pdu (off + 2) = Inr 0xFF"
    using less.prems by (auto simp: aget_def in_range_def nth_append)
  have bits: "bit (0xFF :: u8) 7" "bit (0xFF :: u8) 3" by (simp_all add: bit_numeral_rec)
  show ?case
  proof (cases "length acc = 128")
    case True
    then show ?thesis
      by (subst read_lis.simps) (simp add: b put_li_def RLC_UM_SEGMENT_NB_MAX_LI_PER_PDU_def Let_def)
  next
    case False
    have room: "Suc (length acc) < RLC_UM_SEGMENT_NB_MAX_LI_PER_PDU"
    proof -
      have "length acc \<noteq> 127" using less.prems(2) by auto
      with False less.prems(1) show ?thesis by (simp add: RLC_UM_SEGMENT_NB_MAX_LI_PER_PDU_def)
    qed
    let ?acc = "acc @ [li_first 0xFF 0xFF, li_second 0xFF 0xFF]"
    let ?sz = "sz - int (li_first 0xFF 0xFF) - int (li_second 0xFF 0xFF) - 3"
    have len: "length acc + 2 \<le> 128" using room by (simp add: RLC_UM_SEGMENT_NB_MAX_LI_PER_PDU_def)
    have "read_lis ?pdu (off + 3) ?acc ?sz = Inl OutOfBounds"
    proof (rule less.hyps)
      have "3 * (128 - length ?acc) = 3 * (128 - length acc) - 6" by simp
      then have "3 * (128 - length ?acc) div 2 + 3 = 3 * (128 - length acc) div 2"
        using len by linarith
      moreover have "nat (off + 3) = nat off + 3" using less.prems(3) by simp
      moreover have "length pre \<le> nat off" using less.prems(3) by simp
      ultimately show "3 * (128 - length ?acc) div 2 + 3 \<le> n - (nat (off + 3) - length pre)"
        using less.prems(4) by linarith
    qed (use less.prems len in auto)
    with read_lis_two [OF b(1,2) bits(1) b(3) room, of sz] bits(2) show ?thesis by (simp add: Let_def)
  qed
qed

text \<open>
  A PDU whose header announces indicators and that goes on with 195 or more bytes \<open>0xFF\<close> makes the
  receiver write past the 128 entries of \<open>li_array\<close> on the stack: the number of indicators is tested
  only after the next one is written, and against the wrong bound.
\<close>

theorem rlc_um_li_array_overflow:
  assumes "length h = header_bytes (rx_sn_length e)" and "195 \<le> n"
    and "bit (h ! 0) (if rx_sn_length e = 10 then 2 else 5)"
  shows "consume_pdu (h @ replicate n 0xFF) e = Inl OutOfBounds"
proof -
  let ?pdu = "h @ replicate n (0xFF :: u8)"
  have h: "0 < length h" using assms(1) by (simp add: header_bytes_def split: if_splits)
  then have "aget ?pdu 0 = Inr (h ! 0)" using assms(2) by (simp add: aget_def in_range_def nth_append)
  then obtain fi where "pdu_header e ?pdu = Inr (True, fi, int (length h))"
    using assms by (cases "rx_sn_length e = 10") (auto simp: pdu_header_def header_bytes_def)
  moreover have "read_lis ?pdu (int (length h)) [] sz = Inl OutOfBounds" for sz
    using assms(2) by (intro read_lis_unending) auto
  ultimately show ?thesis by (simp add: consume_pdu_def rlc_um_read_length_indicators_def Let_def)
qed

lemma rlc_um_li_array_overflow_witness:
  "consume_pdu ([0x20] @ replicate 195 0xFF) (um_entity 5) = Inl OutOfBounds"
proof (rule rlc_um_li_array_overflow)
  have "rx_sn_length (um_entity 5) = 5" by code_simp
  then show "length [0x20 :: u8] = header_bytes (rx_sn_length (um_entity 5))"
    and "bit ([0x20 :: u8] ! 0) (if rx_sn_length (um_entity 5) = 10 then 2 else 5)"
    by (simp_all add: header_bytes_def bit_numeral_rec)
qed simp

text \<open>
  A PDU with a bad list of indicators is dropped, but unlike a missing PDU it does not clear the SDU
  under construction. The next PDU then completes it with bytes of another SDU, and the
  receiver delivers an SDU that was never sent: here the first byte of one and the last of another.
\<close>

theorem rlc_um_corrupt_sdu:
  "\<exists>e. um_run 5 [Receive 0 [0x40, 1], Receive 1 [0x61, 0x7F, 0xF0, 2], Receive 2 [0xA2, 0, 0x10, 3, 4]] = Inr e \<and>
     delivered e = [[1, 4]]"
proof -
  let ?r = "um_run 5 [Receive 0 [0x40, 1], Receive 1 [0x61, 0x7F, 0xF0, 2], Receive 2 [0xA2, 0, 0x10, 3, 4]]"
  have r: "map_sum id delivered ?r = Inr [[1, 4]]" by code_simp
  then show ?thesis by (cases ?r) auto
qed

end
