(* ===== verification/RlcUmSegment.thy ===== *)
theory RlcUmSegment
  imports RlcUmPdu
begin

text \<open>
  The transmitting side of an unacknowledged-mode RLC entity: the queue of SDUs (\<open>rlc_um_data_req\<close> in
  \<open>rlc_um.c\<close>) and their segmentation into PDUs (\<open>rlc_um_segment.c\<close>).

  The code fills one PDU for every request of the MAC layer. A first loop counts the SDUs that end
  inside the PDU, since each but the last needs a length indicator before the data; a second loop
  copies the bytes and writes the indicators. The sizes are those of the code, as natural numbers
  and integers: the remaining size of a PDU is never negative (theory \<open>RlcUmFilling\<close>), so that the
  comparisons of signed and unsigned values do not change their meaning.
\<close>

section \<open>The queue\<close>

text \<open>
  \<open>sdu_data\<close> is the payload behind \<open>first_byte\<close>. The segments of an SDU that were sent are its first
  \<open>sdu_segmented_size\<close> bytes. The sizes have 16 bits in the code; they are at most the size of the payload,
  which is a field of 16 bits of the request too. The time is kept as the bits of the signed field.
\<close>

record um_sdu =
  sdu_data :: "u8 list"
  sdu_creation_time :: u32
  sdu_remaining_size :: nat
  sdu_segmented_size :: nat
  sdu_size :: nat

text \<open>The fields of \<open>rlc_um_entity_t\<close> of the transmitting side; \<open>pdus_to_mac_layer\<close> holds the PDUs made.\<close>

record um_tx =
  tx_state :: rlc_state
  tx_len :: nat
  tx_header_min_length :: nat
  tx_vt_us :: u16
  input_sdus :: "um_sdu list"
  buffer_occupancy :: int
  nb_bytes_requested_by_mac :: u32
  pdus_to_mac_layer :: "u8 list list"
  stat_tx_pdcp_sdu :: u32
  stat_tx_pdcp_bytes :: u32
  stat_tx_data_pdu :: u32
  stat_tx_data_bytes :: u32

definition new_sdu :: "u32 \<Rightarrow> u8 list \<Rightarrow> um_sdu" where
  "new_sdu frame payload = \<lparr>sdu_data = payload, sdu_creation_time = frame,
     sdu_remaining_size = length payload, sdu_segmented_size = 0, sdu_size = length payload\<rparr>"

definition rlc_um_data_req :: "u32 \<Rightarrow> u8 list \<Rightarrow> um_tx \<Rightarrow> um_tx" where
  "rlc_um_data_req frame payload t =
     t\<lparr>stat_tx_pdcp_sdu := stat_tx_pdcp_sdu t + 1,
       stat_tx_pdcp_bytes := stat_tx_pdcp_bytes t + of_nat (length payload),
       buffer_occupancy := buffer_occupancy t + int (length payload),
       input_sdus := input_sdus t @ [new_sdu frame payload]\<rparr>"

definition rlc_um_get_buffer_occupancy :: "um_tx \<Rightarrow> int" where
  "rlc_um_get_buffer_occupancy t = (if buffer_occupancy t > 0 then buffer_occupancy t else 0)"

section \<open>Memory\<close>

text \<open>\<open>memcpy\<close> into the block of a PDU, and out of the block of an SDU.\<close>

definition blit :: "u8 list \<Rightarrow> nat \<Rightarrow> u8 list \<Rightarrow> u8 list res" where
  "blit mem off xs =
     (if off + length xs \<le> length mem then Inr (take off mem @ xs @ drop (off + length xs) mem)
      else Inl OutOfBounds)"

definition sdu_bytes :: "um_sdu \<Rightarrow> nat \<Rightarrow> u8 list res" where
  "sdu_bytes s n =
     (if sdu_segmented_size s + n \<le> length (sdu_data s)
      then Inr (take n (drop (sdu_segmented_size s) (sdu_data s))) else Inl OutOfBounds)"

text \<open>
  A block for a PDU holds what was left in it; \<open>fresh\<close> is that content. The code clears the fixed
  part of the header and the two or three bytes after it.
\<close>

definition new_pdu :: "(nat \<Rightarrow> u8) \<Rightarrow> nat \<Rightarrow> u8 list" where
  "new_pdu fresh n = map (\<lambda>i. if i < 4 then 0 else fresh i) [0..<n]"

section \<open>Counting\<close>

text \<open>
  \<open>len\<close> is \<open>test_li_length_in_bytes\<close>: an indicator costs \<open>len XOR 3\<close> bytes, alternately two and one. The
  results are the number of indicators, the remaining size of the PDU, and the two variables that
  say that the last indicator is not needed because no SDU follows.
\<close>

fun count_sdus :: "um_sdu list \<Rightarrow> int \<Rightarrow> nat \<Rightarrow> nat \<Rightarrow> int \<Rightarrow> int \<times> nat \<Rightarrow> nat \<times> int \<times> int \<times> nat" where
  "count_sdus [] test len num remaining sub = (num, remaining, sub)"
| "count_sdus (s # ss) test len num remaining sub =
     (let r = int (sdu_remaining_size s); li = xor len 3 in
      if r > test then (num, remaining, (0, 0))
      else if r = test then (num, remaining, (0, 0))
      else if r + int li = test then (num, remaining - int li, (0, 0))
      else if r + int li < test
      then count_sdus ss (test - (r + int li)) li (Suc num) remaining (int li, 1)
      else (num, remaining - 1, (0, 0)))"

text \<open>With a 5 bit sequence number the size of the PDU is reduced together with the remaining size.\<close>

fun count_sdus_5 ::
  "um_sdu list \<Rightarrow> int \<Rightarrow> nat \<Rightarrow> nat \<Rightarrow> int \<Rightarrow> int \<Rightarrow> int \<times> nat \<Rightarrow> nat \<times> int \<times> int \<times> int \<times> nat" where
  "count_sdus_5 [] test len num remaining psize sub = (num, remaining, psize, sub)"
| "count_sdus_5 (s # ss) test len num remaining psize sub =
     (let r = int (sdu_remaining_size s); li = xor len 3 in
      if r > test then (num, remaining, psize, (0, 0))
      else if r = test then (num, remaining, psize, (0, 0))
      else if r + int li = test then (num, remaining - int li, psize - int li, (0, 0))
      else if r + int li < test
      then count_sdus_5 ss (test - (r + int li)) li (Suc num) remaining psize (int li, 1)
      else (num, remaining - 1, psize - 1, (0, 0)))"

section \<open>Filling\<close>

text \<open>
  \<open>f_data\<close> and \<open>f_eli\<close> are the places of the next data byte and of the current group of indicators in the
  block; \<open>f_num\<close> is \<open>fill_num_li\<close>, \<open>f_len\<close> is \<open>li_length_in_bytes\<close>, \<open>f_occupancy\<close> is \<open>buffer_occupancy\<close>, and
  \<open>f_last\<close> is \<open>fi_last_byte_pdu_is_last_byte_sdu\<close>.
\<close>

record filling =
  f_mem :: "u8 list"
  f_data :: nat
  f_eli :: nat
  f_len :: nat
  f_num :: nat
  f_remaining :: int
  f_occupancy :: int
  f_last :: bool

text \<open>
  The indicator of an SDU of \<open>r\<close> bytes. \<open>num\<close> is the number of indicators with it, and \<open>n_li\<close> the
  number of indicators of the PDU. The first of a pair sets its two bytes, the second is added to
  what is in the second byte.
\<close>

definition write_li :: "nat \<Rightarrow> nat \<Rightarrow> filling \<Rightarrow> filling res" where
  "write_li n_li r f =
     (let len = xor (f_len f) 3; num = Suc (f_num f); more_lis = (num \<noteq> n_li); eli = int (f_eli f) in
      if len = 2 then
        bindE (aset (f_mem f) eli (li_byte1 more_lis r)) (\<lambda>m1.
        bindE (aset m1 (eli + 1) (li_byte2 r)) (\<lambda>m2.
        Inr (f\<lparr>f_mem := m2, f_len := len, f_num := num\<rparr>)))
      else
        bindE (aget (f_mem f) (eli + 1)) (\<lambda>b2.
        bindE (aset (f_mem f) (eli + 1) (or (if more_lis then or b2 0x08 else b2) (of_nat (r div 256)))) (\<lambda>m1.
        bindE (aset m1 (eli + 2) (li_byte3 r)) (\<lambda>m2.
        Inr (f\<lparr>f_mem := m2, f_len := len, f_num := num, f_eli := f_eli f + 3\<rparr>)))))"

text \<open>The last branch contains \<open>assert(1!=1)\<close>. The result is the queue that is left.\<close>

fun fill_pdu :: "nat \<Rightarrow> um_sdu list \<Rightarrow> filling \<Rightarrow> (um_sdu list \<times> filling) res" where
  "fill_pdu n_li [] f = Inr ([], f)"
| "fill_pdu n_li (s # ss) f =
     (let r = sdu_remaining_size s; li = xor (f_len f) 3 in
      if int r > f_remaining f then
        bindE (sdu_bytes s (nat (f_remaining f))) (\<lambda>xs.
        bindE (blit (f_mem f) (f_data f) xs) (\<lambda>m.
        Inr (s\<lparr>sdu_remaining_size := r - nat (f_remaining f),
               sdu_segmented_size := sdu_segmented_size s + nat (f_remaining f)\<rparr> # ss,
             f\<lparr>f_mem := m, f_last := False, f_occupancy := f_occupancy f - f_remaining f,
               f_remaining := 0\<rparr>)))
      else if int r = f_remaining f then
        bindE (sdu_bytes s (nat (f_remaining f))) (\<lambda>xs.
        bindE (blit (f_mem f) (f_data f) xs) (\<lambda>m.
        Inr (ss, f\<lparr>f_mem := m, f_occupancy := f_occupancy f - int r, f_last := True, f_remaining := 0\<rparr>)))
      else if int r + int li < f_remaining f then
        bindE (sdu_bytes s r) (\<lambda>xs.
        bindE (blit (f_mem f) (f_data f) xs) (\<lambda>m.
        bindE (write_li n_li r (f\<lparr>f_mem := m, f_data := f_data f + r\<rparr>)) (\<lambda>f1.
        fill_pdu n_li ss (f1\<lparr>f_remaining := f_remaining f - (int r + int (f_len f1)),
                              f_occupancy := f_occupancy f - int r\<rparr>))))
      else Inl Abort)"

section \<open>The two segmentation functions\<close>

definition max_li_overhead :: "um_tx \<Rightarrow> int" where
  "max_li_overhead t =
     (let n = int (length (input_sdus t)) in
      if n \<le> 1 then 0 else (n - 1) * 3 div 2 + (n - 1) mod 2)"

text \<open>The comparison is one of unsigned integers of 32 bits.\<close>

definition pdu_size :: "um_tx \<Rightarrow> int" where
  "pdu_size t =
     (let nb = sint (nb_bytes_requested_by_mac t);
          need = uint (word_of_int (buffer_occupancy t + int (tx_header_min_length t) + max_li_overhead t) :: u32)
      in if uint (nb_bytes_requested_by_mac t) \<ge> need then need else nb)"

definition first_is_start :: "um_sdu list \<Rightarrow> bool" where
  "first_is_start ss = (case ss of [] \<Rightarrow> False | s # _ \<Rightarrow> sdu_remaining_size s = sdu_size s)"

definition framing_info :: "bool \<Rightarrow> bool \<Rightarrow> nat" where
  "framing_info first last' = (if first then 0 else 2) + (if last' then 0 else 1)"

definition rlc_um_segment_10 :: "(nat \<Rightarrow> u8) \<Rightarrow> um_tx \<Rightarrow> um_tx res" where
  "rlc_um_segment_10 fresh t =
     (if sint (nb_bytes_requested_by_mac t) < 3 \<or> input_sdus t = [] then Inr t
      else
        (let psize = pdu_size t;
             (num, rem1, sub, nsub) = count_sdus (input_sdus t) (psize - 2) 1 0 (psize - 2) (0, 0);
             (n_li, remaining) = (if nsub > 0 then (num - 1, rem1 - sub) else (num, rem1))
         in
         bindE (fill_pdu n_li (input_sdus t)
           \<lparr>f_mem = new_pdu fresh (nat psize), f_data = 2 + (n_li * 3 + 1) div 2, f_eli = 2, f_len = 1,
            f_num = 0, f_remaining = remaining, f_occupancy = buffer_occupancy t, f_last = False\<rparr>) (\<lambda>(rest, f).
         let fi = framing_info (first_is_start (input_sdus t)) (f_last f);
             b1 = or (or (of_nat (fi * 8)) (if f_num f > 0 then 0x04 else 0))
                     (ucast (and (drop_bit 8 (tx_vt_us t)) 0x03));
             b2 = ucast (and (tx_vt_us t) 0xFF);
             tb_size = psize - f_remaining f
         in
         bindE (aset (f_mem f) 0 b1) (\<lambda>m1.
         bindE (aset m1 1 b2) (\<lambda>m2.
         if tb_size > 0
         then Inr (t\<lparr>input_sdus := rest, buffer_occupancy := f_occupancy f, tx_vt_us := tx_vt_us t + 1,
                     pdus_to_mac_layer := pdus_to_mac_layer t @ [take (nat tb_size) m2]\<rparr>)
         else Inl Abort)))))"

definition rlc_um_segment_5 :: "(nat \<Rightarrow> u8) \<Rightarrow> um_tx \<Rightarrow> um_tx res" where
  "rlc_um_segment_5 fresh t =
     (if sint (nb_bytes_requested_by_mac t) < 2 \<or> input_sdus t = [] then Inr t
      else
        (let psize = pdu_size t;
             (num, rem1, size1, sub, nsub) =
               count_sdus_5 (input_sdus t) (psize - 1) 1 0 (psize - 1) psize (0, 0);
             (n_li, remaining) = (if nsub > 0 then (num - 1, rem1 - sub) else (num, rem1))
         in
         bindE (fill_pdu n_li (input_sdus t)
           \<lparr>f_mem = new_pdu fresh (nat psize), f_data = 1 + (n_li * 3 + 1) div 2, f_eli = 1, f_len = 1,
            f_num = 0, f_remaining = remaining, f_occupancy = buffer_occupancy t, f_last = False\<rparr>) (\<lambda>(rest, f).
         let fi = framing_info (first_is_start (input_sdus t)) (f_last f);
             b1 = or (or (of_nat (fi * 64)) (if f_num f > 0 then 0x20 else 0)) (ucast (and (tx_vt_us t) 0x1F));
             tb_size = size1 - f_remaining f
         in
         bindE (aset (f_mem f) 0 b1) (\<lambda>m1.
         if tb_size > 0
         then Inr (t\<lparr>input_sdus := rest, buffer_occupancy := f_occupancy f, tx_vt_us := tx_vt_us t + 1,
                     pdus_to_mac_layer := pdus_to_mac_layer t @ [take (nat tb_size) m1]\<rparr>)
         else Inl Abort))))"

text \<open>The two tests of the length are one after the other; a length is never both.\<close>

definition rlc_um_get_pdus :: "(nat \<Rightarrow> u8) \<Rightarrow> um_tx \<Rightarrow> um_tx res" where
  "rlc_um_get_pdus fresh t =
     (case tx_state t of
        RLC_DATA_TRANSFER_READY_STATE \<Rightarrow>
          bindE (if tx_len t = 10 then rlc_um_segment_10 fresh t else Inr t) (\<lambda>t1.
          if tx_len t1 = 5 then rlc_um_segment_5 fresh t1 else Inr t1)
      | _ \<Rightarrow> Inr t)"

end
