(* ===== verification/RlcUmFilling.thy ===== *)
theory RlcUmFilling
  imports RlcUmSegment
begin

text \<open>
  What the two loops of the segmentation do: the counting loop chooses how many SDUs end in the PDU,
  the filling loop leaves the list of their lengths and the bytes of the queue behind it.
\<close>

section \<open>The queue as bytes\<close>

definition sdu_ok :: "um_sdu \<Rightarrow> bool" where
  "sdu_ok s \<longleftrightarrow> length (sdu_data s) = sdu_size s \<and>
     sdu_segmented_size s + sdu_remaining_size s = sdu_size s \<and> 0 < sdu_remaining_size s"

text \<open>The bytes of an SDU that are still to be sent.\<close>

definition pending :: "um_sdu \<Rightarrow> u8 list" where
  "pending s = drop (sdu_segmented_size s) (sdu_data s)"

lemma length_pending [simp]: "sdu_ok s \<Longrightarrow> length (pending s) = sdu_remaining_size s"
  by (auto simp: sdu_ok_def pending_def)

definition advance_sdu :: "nat \<Rightarrow> um_sdu \<Rightarrow> um_sdu" where
  "advance_sdu n s = s\<lparr>sdu_remaining_size := sdu_remaining_size s - n, sdu_segmented_size := sdu_segmented_size s + n\<rparr>"

lemma xor_3 [simp]: "xor (Suc 0) 3 = 2" "xor (1 :: nat) 3 = 2" "xor (2 :: nat) 3 = Suc 0"
  by code_simp+

text \<open>
  The bytes that a number of SDUs take in a PDU with their indicators, and those of the whole queue,
  whose last SDU needs no indicator.
\<close>

fun lead :: "nat \<Rightarrow> um_sdu list \<Rightarrow> nat" where
  "lead len [] = 0"
| "lead len (s # ss) = sdu_remaining_size s + xor len 3 + lead (xor len 3) ss"

fun room :: "nat \<Rightarrow> um_sdu list \<Rightarrow> nat" where
  "room len [] = 0"
| "room len [s] = sdu_remaining_size s"
| "room len (s # s' # ss) = sdu_remaining_size s + xor len 3 + room (xor len 3) (s' # ss)"

lemma lead_sum:
  "lead 1 ss = sum_list (map sdu_remaining_size ss) + (3 * length ss + 1) div 2 \<and>
   lead 2 ss = sum_list (map sdu_remaining_size ss) + 3 * length ss div 2"
  by (induction ss) auto

lemma room_lead: "ss \<noteq> [] \<Longrightarrow> room len ss = lead len (butlast ss) + sdu_remaining_size (last ss)"
  by (induction len ss rule: room.induct) auto

section \<open>The counting loop\<close>

text \<open>
  The loop ends at an SDU: \<open>k\<close> SDUs end before it and have an indicator, \<open>part\<close> bytes of it go into the
  PDU, and \<open>slack\<close> bytes of the PDU are given back.
\<close>

lemma count_sdus_spec:
  assumes "ss \<noteq> []" and "\<forall>s \<in> set ss. 0 < sdu_remaining_size s" and "len = 1 \<or> len = 2"
    and "0 < test" and "test \<le> int (room len ss)"
  shows "\<exists>k part slack. k < length ss \<and> 0 < part \<and> part \<le> sdu_remaining_size (ss ! k) \<and> slack \<le> 2 \<and>
    (0 < slack \<longrightarrow> part = sdu_remaining_size (ss ! k)) \<and>
    test = int (lead len (take k ss) + part + slack) \<and>
    count_sdus ss test len num remaining sub = (num + k, remaining - int slack, 0, 0)"
  using assms
proof (induction ss arbitrary: test len num sub)
  case Nil
  then show ?case by simp
next
  case (Cons s ss)
  let ?r = "sdu_remaining_size s" and ?li = "xor len 3"
  have r: "0 < ?r" and li: "?li = 1 \<or> ?li = 2" using Cons.prems by auto
  consider "int ?r \<ge> test" | "int ?r + int ?li = test" | "int ?r + int ?li < test"
    | "int ?r < test" "test < int ?r + int ?li" by linarith
  then show ?case
  proof cases
    case 1
    then show ?thesis using Cons.prems by (intro exI [of _ 0] exI [of _ "nat test"] exI [of _ 0])
        (auto simp: Let_def)
  next
    case 2
    then show ?thesis using Cons.prems r li by (intro exI [of _ 0] exI [of _ ?r] exI [of _ ?li])
        (auto simp: Let_def)
  next
    case 3
    have ss: "ss \<noteq> []"
    proof
      assume "ss = []"
      with 3 Cons.prems(5) show False by simp
    qed
    then obtain s' ss' where ss': "ss = s' # ss'" by (cases ss) auto
    have "\<exists>k part slack. k < length ss \<and> 0 < part \<and> part \<le> sdu_remaining_size (ss ! k) \<and> slack \<le> 2 \<and>
      (0 < slack \<longrightarrow> part = sdu_remaining_size (ss ! k)) \<and>
      test - (int ?r + int ?li) = int (lead ?li (take k ss) + part + slack) \<and>
      count_sdus ss (test - (int ?r + int ?li)) ?li (Suc num) remaining (int ?li, 1)
        = (Suc num + k, remaining - int slack, 0, 0)"
      using Cons.prems 3 ss li by (intro Cons.IH) (auto simp: ss')
    then obtain k part slack where IH: "k < length ss" "0 < part" "part \<le> sdu_remaining_size (ss ! k)" "slack \<le> 2"
      "0 < slack \<longrightarrow> part = sdu_remaining_size (ss ! k)"
      "test - (int ?r + int ?li) = int (lead ?li (take k ss) + part + slack)"
      "count_sdus ss (test - (int ?r + int ?li)) ?li (Suc num) remaining (int ?li, 1)
        = (Suc num + k, remaining - int slack, 0, 0)" by blast
    then show ?thesis using 3
      by (intro exI [of _ "Suc k"] exI [of _ part] exI [of _ slack]) (auto simp: Let_def)
  next
    case 4
    then have "?li = 2" "test = int ?r + 1" using li by auto
    with 4 r show ?thesis
      by (intro exI [of _ 0] exI [of _ ?r] exI [of _ 1]) (auto simp: Let_def)
  qed
qed

lemma count_sdus_5_eq:
  "count_sdus_5 ss test len num remaining psize sub =
    (case count_sdus ss test len num remaining sub of
       (n, r, sub') \<Rightarrow> (n, r, psize - (remaining - r), sub'))"
  by (induction ss arbitrary: test len num sub) (simp_all add: Let_def)

section \<open>The filling loop\<close>

lemma blit_middle: "length D = length xs \<Longrightarrow> blit (A @ D @ B) (length A) xs = Inr (A @ xs @ B)"
  by (simp add: blit_def)

lemma sdu_bytes_pending: "sdu_ok s \<Longrightarrow> n \<le> sdu_remaining_size s \<Longrightarrow> sdu_bytes s n = Inr (take n (pending s))"
  by (auto simp: sdu_ok_def sdu_bytes_def pending_def)

text \<open>The rest of a list of indicators of which the first two bytes are there.\<close>

definition encode_odd :: "u8 \<Rightarrow> u8 \<Rightarrow> nat list \<Rightarrow> u8 list" where
  "encode_odd x y lis =
     (case lis of [] \<Rightarrow> [x, y]
      | b # lis' \<Rightarrow> x # or (if lis' \<noteq> [] then or y 0x08 else y) (of_nat (b div 256)) # li_byte3 b # encode_lis lis')"

lemma encode_lis_Cons: "encode_lis (a # lis) = encode_odd (li_byte1 (lis \<noteq> []) a) (li_byte2 a) lis"
  by (cases lis) (simp_all add: encode_odd_def li_byte2_ext_def)

lemma write_li_even:
  assumes "f_len f = 1" and "f_eli f = length P" and "f_mem f = P @ [x, y] @ R"
  shows "write_li n r f = Inr (f\<lparr>f_mem := P @ [li_byte1 (Suc (f_num f) \<noteq> n) r, li_byte2 r] @ R, f_len := 2,
    f_num := Suc (f_num f)\<rparr>)"
  using assms by (simp add: write_li_def Let_def aset_def in_range_def nat_add_distrib list_update_append)

lemma write_li_odd:
  assumes "f_len f = 2" and "f_eli f = length P" and "f_mem f = P @ [x, y, z] @ R"
  shows "write_li n r f = Inr (f\<lparr>f_mem := P @ [x, or (if Suc (f_num f) \<noteq> n then or y 0x08 else y) (of_nat (r div 256)),
    li_byte3 r] @ R, f_len := 1, f_num := Suc (f_num f), f_eli := length P + 3\<rparr>)"
  using assms by (simp add: write_li_def Let_def aset_def aget_def in_range_def nat_add_distrib list_update_append nth_append)

text \<open>
  What the loop is to write when \<open>k\<close> SDUs end before the last one: the lengths of the \<open>k\<close>, their bytes, and
  \<open>part\<close> bytes of the SDU after them.
\<close>

definition pdu_lis :: "um_sdu list \<Rightarrow> nat \<Rightarrow> nat list" where
  "pdu_lis ss k = map sdu_remaining_size (take k ss)"

definition pdu_bytes :: "um_sdu list \<Rightarrow> nat \<Rightarrow> nat \<Rightarrow> u8 list" where
  "pdu_bytes ss k part = concat (map pending (take k ss)) @ take part (pending (ss ! k))"

definition queue_left :: "um_sdu list \<Rightarrow> nat \<Rightarrow> nat \<Rightarrow> um_sdu list" where
  "queue_left ss k part =
     (if part = sdu_remaining_size (ss ! k) then drop (Suc k) ss
      else advance_sdu part (ss ! k) # drop (Suc k) ss)"

lemma pdu_Suc [simp]:
  "pdu_lis (s # ss) (Suc k) = sdu_remaining_size s # pdu_lis ss k"
  "pdu_bytes (s # ss) (Suc k) part = pending s @ pdu_bytes ss k part"
  "queue_left (s # ss) (Suc k) part = queue_left ss k part"
  by (simp_all add: pdu_lis_def pdu_bytes_def queue_left_def)

lemma length_pdu_lis: "k \<le> length ss \<Longrightarrow> length (pdu_lis ss k) = k"
  by (simp add: pdu_lis_def)

lemma length_pdu_bytes:
  assumes "\<forall>s \<in> set ss. sdu_ok s" and "k < length ss" and "part \<le> sdu_remaining_size (ss ! k)"
  shows "length (pdu_bytes ss k part) = sum_list (pdu_lis ss k) + part"
  using assms
proof (induction ss arbitrary: k)
  case Nil
  then show ?case by simp
next
  case (Cons s ss)
  then show ?case by (cases k) (auto simp: pdu_bytes_def pdu_lis_def)
qed

text \<open>
  The block is \<open>P\<close>, the place of the indicators to come, the bytes \<open>G\<close> already copied, the place \<open>D\<close> of the
  bytes to come, and the rest \<open>S\<close>. With an odd number of indicators before, the first two bytes of a
  group are \<open>x\<close> and \<open>y\<close>.
\<close>

definition li_prefix :: "nat \<Rightarrow> u8 \<Rightarrow> u8 \<Rightarrow> u8 list" where
  "li_prefix len x y = (if len = 1 then [] else [x, y])"

definition li_room :: "nat \<Rightarrow> nat \<Rightarrow> nat" where
  "li_room len k = (if len = 1 then (3 * k + 1) div 2 else 3 * k div 2)"

definition li_code :: "nat \<Rightarrow> u8 \<Rightarrow> u8 \<Rightarrow> nat list \<Rightarrow> u8 list" where
  "li_code len x y lis = (if len = 1 then encode_lis lis else encode_odd x y lis)"

definition fill_ready ::
  "filling \<Rightarrow> nat \<Rightarrow> u8 list \<Rightarrow> u8 \<Rightarrow> u8 \<Rightarrow> u8 list \<Rightarrow> u8 list \<Rightarrow> u8 list \<Rightarrow> u8 list \<Rightarrow> bool" where
  "fill_ready f k P x y L G D S \<longleftrightarrow>
     (f_len f = 1 \<or> f_len f = 2) \<and> f_eli f = length P \<and>
     f_mem f = P @ li_prefix (f_len f) x y @ L @ G @ D @ S \<and> length L = li_room (f_len f) k \<and>
     f_data f = length (P @ li_prefix (f_len f) x y @ L @ G)"

text \<open>One SDU that ends before the last one.\<close>

lemma fill_step:
  assumes ready: "fill_ready f (Suc k) P x y L G (D1 @ D2) S" and s: "sdu_ok s"
    and D1: "length D1 = sdu_remaining_size s"
    and rem: "int (sdu_remaining_size s) + int (xor (f_len f) 3) < f_remaining f"
    and n: "f_num f + Suc k = n"
  shows "\<exists>f' P' x' y' L'. fill_pdu n (s # ss) f = fill_pdu n ss f' \<and>
    fill_ready f' k P' x' y' L' (G @ pending s) D2 S \<and> f_len f' = xor (f_len f) 3 \<and>
    f_num f' = Suc (f_num f) \<and> f_occupancy f' = f_occupancy f - int (sdu_remaining_size s) \<and>
    f_remaining f' = f_remaining f - int (sdu_remaining_size s + xor (f_len f) 3) \<and>
    (\<forall>lis. (lis \<noteq> [] \<longleftrightarrow> k \<noteq> 0) \<longrightarrow>
       P' @ li_code (f_len f') x' y' lis = P @ li_code (f_len f) x y (sdu_remaining_size s # lis))"
proof -
  let ?r = "sdu_remaining_size s"
  let ?A = "P @ li_prefix (f_len f) x y @ L @ G"
  have mem: "f_mem f = ?A @ D1 @ D2 @ S" "f_data f = length ?A"
    using ready by (simp_all add: fill_ready_def)
  have pend: "sdu_bytes s ?r = Inr (pending s)" using sdu_bytes_pending [OF s, of ?r] s by simp
  have "length D1 = length (pending s)" using D1 s by simp
  from blit_middle [OF this, of ?A "D2 @ S"] mem have blit: "blit (f_mem f) (f_data f) (pending s) = Inr (?A @ pending s @ D2 @ S)"
    by simp
  let ?f1 = "f\<lparr>f_mem := ?A @ pending s @ D2 @ S, f_data := f_data f + ?r\<rparr>"
  have step: "fill_pdu n (s # ss) f = bindE (write_li n ?r ?f1) (\<lambda>f2.
      fill_pdu n ss (f2\<lparr>f_remaining := f_remaining f - (int ?r + int (f_len f2)), f_occupancy := f_occupancy f - int ?r\<rparr>))"
    using rem by (simp add: Let_def pend blit)
  have flag: "Suc (f_num f) \<noteq> n \<longleftrightarrow> k \<noteq> 0" using n by auto
  consider "f_len f = 1" | "f_len f = 2" using ready by (auto simp: fill_ready_def)
  then show ?thesis
  proof cases
    case 1
    have "(3 * Suc k + 1) div 2 = Suc (Suc (3 * k div 2))" by simp
    with ready 1 have "length L = Suc (Suc (3 * k div 2))" by (simp only: fill_ready_def li_room_def) simp
    then obtain l1 l2 L' where L: "L = l1 # l2 # L'" "length L' = 3 * k div 2"
      by (auto simp: length_Suc_conv)
    let ?b1 = "li_byte1 (k \<noteq> 0) ?r" and ?b2 = "li_byte2 ?r"
    have "write_li n ?r ?f1 = Inr (?f1\<lparr>f_mem := P @ [?b1, ?b2] @ L' @ G @ pending s @ D2 @ S, f_len := 2,
        f_num := Suc (f_num f)\<rparr>)"
      using write_li_even [of ?f1 P l1 l2 "L' @ G @ pending s @ D2 @ S" n ?r] 1 ready L(1) flag
      by (simp add: fill_ready_def li_prefix_def)
    with step 1 ready L s show ?thesis
      by (intro exI [of _ "?f1\<lparr>f_mem := P @ [?b1, ?b2] @ L' @ G @ pending s @ D2 @ S, f_len := 2,
          f_num := Suc (f_num f), f_remaining := f_remaining f - (int ?r + 2), f_occupancy := f_occupancy f - int ?r\<rparr>"]
          exI [of _ P] exI [of _ ?b1] exI [of _ ?b2] exI [of _ L'])
        (auto simp: fill_ready_def li_prefix_def li_room_def li_code_def encode_lis_Cons)
  next
    case 2
    have "3 * Suc k div 2 = Suc ((3 * k + 1) div 2)" by simp
    with ready 2 have "length L = Suc ((3 * k + 1) div 2)"
      by (simp only: fill_ready_def li_room_def) simp
    then obtain l L' where L: "L = l # L'" "length L' = (3 * k + 1) div 2"
      by (auto simp: length_Suc_conv)
    let ?b2 = "or (if k \<noteq> 0 then or y 0x08 else y) (of_nat (?r div 256))" and ?b3 = "li_byte3 ?r"
    have "write_li n ?r ?f1 = Inr (?f1\<lparr>f_mem := P @ [x, ?b2, ?b3] @ L' @ G @ pending s @ D2 @ S, f_len := 1,
        f_num := Suc (f_num f), f_eli := length P + 3\<rparr>)"
      using write_li_odd [of ?f1 P x y l "L' @ G @ pending s @ D2 @ S" n ?r] 2 ready L(1) flag
      by (simp add: fill_ready_def li_prefix_def)
    with step 2 ready L s show ?thesis
      by (intro exI [of _ "?f1\<lparr>f_mem := P @ [x, ?b2, ?b3] @ L' @ G @ pending s @ D2 @ S, f_len := 1,
          f_num := Suc (f_num f), f_eli := length P + 3, f_remaining := f_remaining f - (int ?r + 1),
          f_occupancy := f_occupancy f - int ?r\<rparr>"]
          exI [of _ "P @ [x, ?b2, ?b3]"] exI [of _ x] exI [of _ y] exI [of _ L'])
        (auto simp: fill_ready_def li_prefix_def li_room_def li_code_def encode_odd_def)
  qed
qed

text \<open>The SDU in which the PDU ends.\<close>

lemma fill_last:
  assumes ready: "fill_ready f 0 P x y L G D S" and s: "sdu_ok s"
    and part: "0 < part" "part \<le> sdu_remaining_size s" and D: "length D = part" and rem: "f_remaining f = int part"
  shows "\<exists>f'. fill_pdu n (s # ss) f = Inr (queue_left (s # ss) 0 part, f') \<and>
    f_mem f' = P @ li_prefix (f_len f) x y @ G @ take part (pending s) @ S \<and> f_remaining f' = 0 \<and>
    f_num f' = f_num f \<and> (f_last f' \<longleftrightarrow> part = sdu_remaining_size s) \<and> f_occupancy f' = f_occupancy f - int part"
proof -
  have L: "L = []" using ready by (auto simp: fill_ready_def li_room_def split: if_splits)
  let ?A = "P @ li_prefix (f_len f) x y @ G"
  have mem: "f_mem f = ?A @ D @ S" "f_data f = length ?A" using ready L by (simp_all add: fill_ready_def)
  have "length D = length (take part (pending s))" using D s part by simp
  from blit_middle [OF this, of ?A S] mem
  have "blit (f_mem f) (f_data f) (take part (pending s)) = Inr (?A @ take part (pending s) @ S)" by simp
  with sdu_bytes_pending [OF s part(2)] rem part show ?thesis
    by (auto simp: Let_def queue_left_def advance_sdu_def)
qed

lemma fill_pdu_spec:
  assumes "\<forall>s \<in> set ss. sdu_ok s" and "k < length ss" and "0 < part" and "part \<le> sdu_remaining_size (ss ! k)"
    and "fill_ready f k P x y L G D S" and "length D = length (pdu_bytes ss k part)"
    and "f_remaining f = int (lead (f_len f) (take k ss) + part)" and "f_num f + k = n"
  shows "\<exists>f'. fill_pdu n ss f = Inr (queue_left ss k part, f') \<and>
    f_mem f' = P @ li_code (f_len f) x y (pdu_lis ss k) @ G @ pdu_bytes ss k part @ S \<and>
    f_remaining f' = 0 \<and> f_num f' = n \<and> (f_last f' \<longleftrightarrow> part = sdu_remaining_size (ss ! k)) \<and>
    f_occupancy f' = f_occupancy f - int (length (pdu_bytes ss k part))"
  using assms
proof (induction ss arbitrary: f k P x y L G D)
  case Nil
  then show ?case by simp
next
  case (Cons s ss)
  have s: "sdu_ok s" using Cons.prems(1) by simp
  show ?case
  proof (cases k)
    case 0
    have "li_code (f_len f) x y [] = li_prefix (f_len f) x y"
      by (simp add: li_code_def li_prefix_def encode_odd_def)
    with Cons.prems 0 s fill_last [of f P x y L G D S s part n ss] show ?thesis
      by (auto simp: pdu_bytes_def pdu_lis_def)
  next
    case (Suc j)
    let ?r = "sdu_remaining_size s"
    have len: "length D = ?r + length (pdu_bytes ss j part)" using Cons.prems(6) Suc s by simp
    define D1 D2 where "D1 = take ?r D" and "D2 = drop ?r D"
    have D: "D = D1 @ D2" "length D1 = ?r" "length D2 = length (pdu_bytes ss j part)"
      using len by (simp_all add: D1_def D2_def)
    have rem: "f_remaining f = int ?r + int (xor (f_len f) 3) + int (lead (xor (f_len f) 3) (take j ss) + part)"
      using Cons.prems(7) Suc by simp
    have lt: "int ?r + int (xor (f_len f) 3) < f_remaining f" using rem Cons.prems(3) by simp
    have "fill_ready f (Suc j) P x y L G (D1 @ D2) S" using Cons.prems(5) Suc D(1) by simp
    from fill_step [OF this s D(2) lt, of n ss] Cons.prems(8) Suc obtain f1 P' x' y' L' where
      f1: "fill_pdu n (s # ss) f = fill_pdu n ss f1" "fill_ready f1 j P' x' y' L' (G @ pending s) D2 S"
      "f_len f1 = xor (f_len f) 3" "f_num f1 = Suc (f_num f)" "f_occupancy f1 = f_occupancy f - int ?r"
      "f_remaining f1 = f_remaining f - int (?r + xor (f_len f) 3)"
      and code: "\<And>lis. (lis \<noteq> [] \<longleftrightarrow> j \<noteq> 0) \<Longrightarrow>
        P' @ li_code (f_len f1) x' y' lis = P @ li_code (f_len f) x y (?r # lis)" by auto
    have j: "j < length ss" "part \<le> sdu_remaining_size (ss ! j)" using Cons.prems(2,4) Suc by simp_all
    have "f_remaining f1 = int (lead (f_len f1) (take j ss) + part)" using f1(3,6) rem by simp
    with Cons.IH [OF _ j(1) Cons.prems(3) j(2) f1(2) D(3) this] Cons.prems(1,8) Suc f1(4)
    obtain f' where IH: "fill_pdu n ss f1 = Inr (queue_left ss j part, f')"
      "f_mem f' = P' @ li_code (f_len f1) x' y' (pdu_lis ss j) @ (G @ pending s) @ pdu_bytes ss j part @ S"
      "f_remaining f' = 0" "f_num f' = n" "f_last f' \<longleftrightarrow> part = sdu_remaining_size (ss ! j)"
      "f_occupancy f' = f_occupancy f1 - int (length (pdu_bytes ss j part))" by auto
    have "pdu_lis ss j \<noteq> [] \<longleftrightarrow> j \<noteq> 0" using length_pdu_lis [of j ss] j(1) by (metis length_0_conv less_imp_le_nat)
    from code [OF this] IH f1(1,5) Suc s show ?thesis by (simp flip: append_assoc)
  qed
qed

end
