(* ===== verification/RlcUmSender.thy ===== *)
theory RlcUmSender
  imports RlcUmFilling
begin

text \<open>
  The two segmentation functions: the PDU that they make and the queue that they leave.
\<close>

section \<open>The invariant of the queue\<close>

text \<open>
  Every SDU of the queue has bytes to send, the buffer occupancy is their number, and a PDU for all of
  them would still have a size of 31 bits.
\<close>

definition queue_bytes :: "um_sdu list \<Rightarrow> nat" where
  "queue_bytes ss = sum_list (map sdu_remaining_size ss)"

definition tx_ok :: "um_tx \<Rightarrow> bool" where
  "tx_ok t \<longleftrightarrow> (\<forall>s \<in> set (input_sdus t). sdu_ok s) \<and> buffer_occupancy t = int (queue_bytes (input_sdus t)) \<and>
     tx_len t \<in> {5, 10} \<and> tx_header_min_length t = header_bytes (tx_len t) \<and>
     queue_bytes (input_sdus t) + 2 + 2 * length (input_sdus t) < 2 ^ 31"

lemma queue_bytes_simps [simp]:
  "queue_bytes [] = 0" "queue_bytes (s # ss) = sdu_remaining_size s + queue_bytes ss"
  "queue_bytes (ss @ ss') = queue_bytes ss + queue_bytes ss'"
  by (simp_all add: queue_bytes_def)

lemma queue_left_bytes:
  assumes "k < length ss" and "part \<le> sdu_remaining_size (ss ! k)"
  shows "queue_bytes (queue_left ss k part) + sum_list (pdu_lis ss k) + part = queue_bytes ss"
  using assms
proof (induction ss arbitrary: k)
  case Nil
  then show ?case by simp
next
  case (Cons s ss)
  show ?case
  proof (cases k)
    case 0
    with Cons.prems show ?thesis by (auto simp: queue_left_def pdu_lis_def advance_sdu_def)
  next
    case (Suc j)
    with Cons.IH [of j] Cons.prems show ?thesis by simp
  qed
qed

lemma queue_left_ok:
  assumes "\<forall>s \<in> set ss. sdu_ok s" and "k < length ss" and "part \<le> sdu_remaining_size (ss ! k)"
  shows "\<forall>s \<in> set (queue_left ss k part). sdu_ok s"
  using assms nth_mem [of k ss]
  by (auto simp: queue_left_def advance_sdu_def sdu_ok_def dest: in_set_dropD)

lemma queue_left_length: "k < length ss \<Longrightarrow> length (queue_left ss k part) \<le> length ss"
  by (simp add: queue_left_def, arith)

lemma tx_ok_left:
  assumes "tx_ok t" and "k < length (input_sdus t)" and "part \<le> sdu_remaining_size (input_sdus t ! k)"
    and "input_sdus t' = queue_left (input_sdus t) k part" and "tx_len t' = tx_len t"
    and "tx_header_min_length t' = tx_header_min_length t"
    and "buffer_occupancy t' = buffer_occupancy t - int (length (pdu_bytes (input_sdus t) k part))"
  shows "tx_ok t'"
  using assms queue_left_ok [of "input_sdus t" k part] queue_left_bytes [of k "input_sdus t" part]
    queue_left_length [of k "input_sdus t" part] length_pdu_bytes [of "input_sdus t" k part]
  by (auto simp: tx_ok_def)

lemma tx_ok_data_req:
  assumes "tx_ok t" and "payload \<noteq> []"
    and "queue_bytes (input_sdus t) + length payload + 4 + 2 * length (input_sdus t) < 2 ^ 31"
  shows "tx_ok (rlc_um_data_req frame payload t)"
  using assms by (auto simp: tx_ok_def rlc_um_data_req_def new_sdu_def sdu_ok_def)

section \<open>The size of a PDU\<close>

lemma room_queue: "ss \<noteq> [] \<Longrightarrow> room 1 ss = queue_bytes ss + (3 * (length ss - 1) + 1) div 2"
  using room_lead [of ss 1] lead_sum [of "butlast ss"]
  by (cases ss rule: rev_cases) (auto simp: queue_bytes_def)

lemma pdu_size_eq:
  assumes ok: "tx_ok t" and ne: "input_sdus t \<noteq> []" and nb: "0 \<le> sint (nb_bytes_requested_by_mac t)"
  shows "pdu_size t = min (sint (nb_bytes_requested_by_mac t))
    (int (header_bytes (tx_len t) + room 1 (input_sdus t)))"
proof -
  let ?n = "length (input_sdus t)"
  have n: "0 < ?n" using ne by simp
  have over: "max_li_overhead t = int ((3 * (?n - 1) + 1) div 2)"
  proof -
    have "(int ?n - 1) * 3 div 2 + (int ?n - 1) mod 2 = (3 * (int ?n - 1) + 1) div 2" by presburger
    moreover have "int ((3 * (?n - 1) + 1) div 2) = (3 * (int ?n - 1) + 1) div 2"
    proof -
      have "int (?n - 1) = int ?n - 1" using n by linarith
      then show ?thesis by (simp only: zdiv_int of_nat_add of_nat_mult) simp
    qed
    ultimately show ?thesis using n by (simp only: max_li_overhead_def Let_def) simp
  qed
  let ?need = "buffer_occupancy t + int (tx_header_min_length t) + max_li_overhead t"
  have need: "?need = int (header_bytes (tx_len t) + room 1 (input_sdus t))"
    using ok over room_queue [OF ne] by (simp add: tx_ok_def)
  moreover have "room 1 (input_sdus t) + header_bytes (tx_len t) < 2 ^ 31"
  proof -
    have "(3 * (?n - 1) + 1) div 2 \<le> 2 * ?n" by linarith
    moreover have "header_bytes (tx_len t) \<le> 2" by (simp add: header_bytes_def)
    ultimately show ?thesis using ok room_queue [OF ne] by (simp add: tx_ok_def)
  qed
  ultimately have "0 \<le> ?need" "?need < 2 ^ 32" by simp_all
  then have "uint (word_of_int ?need :: u32) = ?need"
    by (simp only: unsigned_of_int take_bit_eq_mod) simp
  moreover have "uint (nb_bytes_requested_by_mac t) = sint (nb_bytes_requested_by_mac t)"
    using nb uint_sint [of "nb_bytes_requested_by_mac t"] sint_lt [of "nb_bytes_requested_by_mac t"]
    by (simp add: take_bit_int_eq_self)
  ultimately show ?thesis unfolding pdu_size_def Let_def need by simp
qed

text \<open>The number of SDUs that end in the next PDU, and the bytes of the one after them.\<close>

lemma next_cut:
  assumes ok: "tx_ok t" and ne: "input_sdus t \<noteq> []"
    and nb: "int (header_bytes (tx_len t)) < sint (nb_bytes_requested_by_mac t)"
  defines "ss \<equiv> input_sdus t" and "h \<equiv> header_bytes (tx_len t)"
  shows "\<exists>k part slack. k < length ss \<and> 0 < part \<and> part \<le> sdu_remaining_size (ss ! k) \<and> slack \<le> 2 \<and>
    (0 < slack \<longrightarrow> part = sdu_remaining_size (ss ! k)) \<and>
    pdu_size t = int (h + lead 1 (take k ss) + part + slack) \<and> pdu_size t \<le> sint (nb_bytes_requested_by_mac t) \<and>
    count_sdus ss (pdu_size t - int h) 1 0 (pdu_size t - int h) (0, 0)
      = (k, int (lead 1 (take k ss) + part), 0, 0)"
proof -
  have pos: "\<forall>s \<in> set ss. 0 < sdu_remaining_size s" using ok by (auto simp: tx_ok_def ss_def sdu_ok_def)
  have "0 \<le> sint (nb_bytes_requested_by_mac t)" using nb by linarith
  note size = pdu_size_eq [OF ok ne this, folded ss_def h_def]
  have "0 < room 1 ss" using pos ne room_queue [of ss] by (cases ss) (auto simp: ss_def)
  with size nb have T: "0 < pdu_size t - int h" "pdu_size t - int h \<le> int (room 1 ss)"
    by (auto simp: h_def)
  have "ss \<noteq> []" using ne by (simp add: ss_def)
  note spec = count_sdus_spec [OF this pos disjI1 [OF refl] T, of 0 "pdu_size t - int h" "(0, 0)"]
  from spec obtain k part slack where
    k: "k < length ss" "0 < part" "part \<le> sdu_remaining_size (ss ! k)" "slack \<le> 2"
      "0 < slack \<longrightarrow> part = sdu_remaining_size (ss ! k)"
    and T': "pdu_size t - int h = int (lead 1 (take k ss) + part + slack)"
    and c: "count_sdus ss (pdu_size t - int h) 1 0 (pdu_size t - int h) (0, 0)
      = (0 + k, pdu_size t - int h - int slack, 0, 0)" by blast
  have "pdu_size t = int (h + lead 1 (take k ss) + part + slack)" using T' by simp
  moreover have "pdu_size t \<le> sint (nb_bytes_requested_by_mac t)" using size by simp
  moreover have "count_sdus ss (pdu_size t - int h) 1 0 (pdu_size t - int h) (0, 0)
      = (k, int (lead 1 (take k ss) + part), 0, 0)" using c unfolding T' by simp
  ultimately show ?thesis using k by blast
qed

lemma split_block:
  "xs = take h xs @ take a (drop h xs) @ take b (drop (h + a) xs) @ drop (h + a + b) xs"
proof -
  have "drop h xs = take a (drop h xs) @ drop (h + a) xs"
    using append_take_drop_id [of a "drop h xs"] by (simp add: add.commute)
  moreover have "drop (h + a) xs = take b (drop (h + a) xs) @ drop (h + a + b) xs"
    using append_take_drop_id [of b "drop (h + a) xs"] by (simp add: add.commute)
  ultimately show ?thesis using append_take_drop_id [of h xs] by metis
qed

text \<open>The filling of a fresh block, which leaves the place of the header as it is.\<close>

lemma fill_new:
  assumes ok: "\<forall>s \<in> set ss. sdu_ok s" and k: "k < length ss" "0 < part" "part \<le> sdu_remaining_size (ss ! k)"
    and n: "n = h + lead 1 (take k ss) + part + slack"
  shows "\<exists>f'. fill_pdu k ss \<lparr>f_mem = new_pdu fresh n, f_data = h + (k * 3 + 1) div 2, f_eli = h, f_len = 1,
      f_num = 0, f_remaining = int (lead 1 (take k ss) + part), f_occupancy = bo, f_last = False\<rparr>
      = Inr (queue_left ss k part, f') \<and>
    f_mem f' = take h (new_pdu fresh n) @ encode_lis (pdu_lis ss k) @ pdu_bytes ss k part @
      drop (n - slack) (new_pdu fresh n) \<and>
    f_remaining f' = 0 \<and> f_num f' = k \<and> (f_last f' \<longleftrightarrow> part = sdu_remaining_size (ss ! k)) \<and>
    f_occupancy f' = bo - int (length (pdu_bytes ss k part))"
proof -
  let ?m = "new_pdu fresh n" and ?a = "(k * 3 + 1) div 2"
  let ?f = "\<lparr>f_mem = ?m, f_data = h + ?a, f_eli = h, f_len = 1,
      f_num = 0, f_remaining = int (lead 1 (take k ss) + part), f_occupancy = bo, f_last = False\<rparr>"
  have lead: "lead 1 (take k ss) = sum_list (pdu_lis ss k) + ?a"
    using lead_sum [of "take k ss"] k(1) by (simp add: pdu_lis_def mult.commute)
  note len = length_pdu_bytes [OF ok k(1,3)]
  have m: "length ?m = n" by (simp add: new_pdu_def)
  let ?L = "take ?a (drop h ?m)" and ?D = "take (length (pdu_bytes ss k part)) (drop (h + ?a) ?m)"
    and ?S = "drop (n - slack) ?m"
  have eq: "n - slack = h + ?a + length (pdu_bytes ss k part)" using n lead len by simp
  have "?m = take h ?m @ ?L @ [] @ ?D @ ?S"
    unfolding eq append_Nil by (rule split_block)
  moreover have "length ?L = ?a" "length ?D = length (pdu_bytes ss k part)" "length (take h ?m) = h"
    using m eq n lead len by simp_all
  ultimately have "fill_ready ?f k (take h ?m) 0 0 ?L [] ?D ?S"
    unfolding fill_ready_def by (simp add: li_prefix_def li_room_def mult.commute)
  from fill_pdu_spec [OF ok k this] \<open>length ?D = _\<close> show ?thesis
    by (simp add: li_code_def)
qed

section \<open>The PDU\<close>

definition header_5 :: "bool \<Rightarrow> bool \<Rightarrow> bool \<Rightarrow> u16 \<Rightarrow> u8" where
  "header_5 first last' ext vt =
     or (or (of_nat (framing_info first last' * 64)) (if ext then 0x20 else 0)) (ucast (and vt 0x1F))"

definition header_10 :: "bool \<Rightarrow> bool \<Rightarrow> bool \<Rightarrow> u16 \<Rightarrow> u8 list" where
  "header_10 first last' ext vt =
     [or (or (of_nat (framing_info first last' * 8)) (if ext then 0x04 else 0)) (ucast (and (drop_bit 8 vt) 0x03)),
      ucast (and vt 0xFF)]"

definition sent :: "um_tx \<Rightarrow> nat \<Rightarrow> nat \<Rightarrow> u8 list \<Rightarrow> um_tx" where
  "sent t k part pdu =
     t\<lparr>input_sdus := queue_left (input_sdus t) k part,
       buffer_occupancy := buffer_occupancy t - int (length (pdu_bytes (input_sdus t) k part)),
       tx_vt_us := tx_vt_us t + 1, pdus_to_mac_layer := pdus_to_mac_layer t @ [pdu]\<rparr>"

lemma pdu_length:
  assumes "tx_ok t" and "k < length (input_sdus t)" and "part \<le> sdu_remaining_size (input_sdus t ! k)"
  shows "length (encode_lis (pdu_lis (input_sdus t) k) @ pdu_bytes (input_sdus t) k part)
    = lead 1 (take k (input_sdus t)) + part"
  using assms lead_sum [of "take k (input_sdus t)"] length_pdu_bytes [of "input_sdus t" k part]
    length_pdu_lis [of k "input_sdus t"]
  by (simp add: length_encode_lis tx_ok_def pdu_lis_def)

lemma take_all_of: "length xs = n \<Longrightarrow> take n (xs @ ys) = xs"
  by simp

lemma segment_5_spec:
  assumes ok: "tx_ok t" and len: "tx_len t = 5" and ne: "input_sdus t \<noteq> []"
    and nb: "2 \<le> sint (nb_bytes_requested_by_mac t)"
  shows "\<exists>k part. k < length (input_sdus t) \<and> 0 < part \<and> part \<le> sdu_remaining_size (input_sdus t ! k) \<and>
    (let pdu = header_5 (first_is_start (input_sdus t)) (part = sdu_remaining_size (input_sdus t ! k)) (0 < k) (tx_vt_us t)
         # encode_lis (pdu_lis (input_sdus t) k) @ pdu_bytes (input_sdus t) k part
     in int (length pdu) \<le> sint (nb_bytes_requested_by_mac t) \<and> rlc_um_segment_5 fresh t = Inr (sent t k part pdu))"
proof -
  let ?ss = "input_sdus t" and ?n = "pdu_size t"
  have h: "header_bytes (tx_len t) = 1" using len by (simp add: header_bytes_def)
  have "int (header_bytes (tx_len t)) < sint (nb_bytes_requested_by_mac t)" using nb h by simp
  from next_cut [OF ok ne this] obtain k part slack where
    k: "k < length ?ss" "0 < part" "part \<le> sdu_remaining_size (?ss ! k)"
    and size: "?n = int (1 + lead 1 (take k ?ss) + part + slack)" "?n \<le> sint (nb_bytes_requested_by_mac t)"
    and count: "count_sdus ?ss (?n - 1) 1 0 (?n - 1) (0, 0) = (k, int (lead 1 (take k ?ss) + part), 0, 0)"
    by (auto simp: h)
  define N where "N = lead 1 (take k ?ss) + part"
  have count5: "count_sdus_5 ?ss (?n - 1) 1 0 (?n - 1) ?n (0, 0) = (k, int N, 1 + int N, 0, 0)"
    unfolding count_sdus_5_eq count N_def by simp
  have nat_n: "nat ?n = 1 + lead 1 (take k ?ss) + part + slack" using size(1) by linarith
  have oks: "\<forall>s \<in> set ?ss. sdu_ok s" using ok by (simp add: tx_ok_def)
  from fill_new [OF oks k, of "nat ?n" 1 slack fresh "buffer_occupancy t"] nat_n obtain f' where
    fill: "fill_pdu k ?ss \<lparr>f_mem = new_pdu fresh (nat ?n), f_data = 1 + (k * 3 + 1) div 2, f_eli = 1, f_len = 1,
      f_num = 0, f_remaining = int N, f_occupancy = buffer_occupancy t, f_last = False\<rparr>
      = Inr (queue_left ?ss k part, f')"
    and mem: "f_mem f' = take 1 (new_pdu fresh (nat ?n)) @ encode_lis (pdu_lis ?ss k) @ pdu_bytes ?ss k part @
      drop (nat ?n - slack) (new_pdu fresh (nat ?n))"
    and f': "f_remaining f' = 0" "f_num f' = k" "f_last f' \<longleftrightarrow> part = sdu_remaining_size (?ss ! k)"
      "f_occupancy f' = buffer_occupancy t - int (length (pdu_bytes ?ss k part))" by (auto simp: N_def)
  have "length (new_pdu fresh (nat ?n)) = nat ?n" by (simp add: new_pdu_def)
  then obtain b0 where "take 1 (new_pdu fresh (nat ?n)) = [b0]" using nat_n by (cases "new_pdu fresh (nat ?n)") auto
  note mem = mem [unfolded this]
  let ?b1 = "header_5 (first_is_start ?ss) (part = sdu_remaining_size (?ss ! k)) (0 < k) (tx_vt_us t)"
  let ?pdu = "?b1 # encode_lis (pdu_lis ?ss k) @ pdu_bytes ?ss k part"
  note plen = pdu_length [OF ok k(1,3)]
  have cut: "take (nat (1 + int N)) (b # encode_lis (pdu_lis ?ss k) @ pdu_bytes ?ss k part @ S)
      = b # encode_lis (pdu_lis ?ss k) @ pdu_bytes ?ss k part" for b S
    using take_all_of [OF plen, of S] by (simp add: nat_add_distrib N_def)
  have "rlc_um_segment_5 fresh t = Inr (sent t k part ?pdu)"
  proof -
    have c: "\<not> (sint (nb_bytes_requested_by_mac t) < 2 \<or> ?ss = [])" using nb ne by simp
    show ?thesis
      by (simp only: rlc_um_segment_5_def c if_False Let_def count5 prod.case less_irrefl fill bindE_Inr)
         (simp add: f' mem aset_def in_range_def header_5_def sent_def cut)
  qed
  moreover have "int (length ?pdu) \<le> sint (nb_bytes_requested_by_mac t)" using plen size by simp
  ultimately show ?thesis using k by (auto simp: Let_def)
qed

lemma segment_10_spec:
  assumes ok: "tx_ok t" and len: "tx_len t = 10" and ne: "input_sdus t \<noteq> []"
    and nb: "3 \<le> sint (nb_bytes_requested_by_mac t)"
  shows "\<exists>k part slack. k < length (input_sdus t) \<and> 0 < part \<and> part \<le> sdu_remaining_size (input_sdus t ! k) \<and>
    slack \<le> 2 \<and> (0 < slack \<longrightarrow> part = sdu_remaining_size (input_sdus t ! k)) \<and>
    (let pdu = header_10 (first_is_start (input_sdus t)) (part = sdu_remaining_size (input_sdus t ! k)) (0 < k) (tx_vt_us t)
         @ encode_lis (pdu_lis (input_sdus t) k) @ pdu_bytes (input_sdus t) k part;
         n = length pdu
     in int (n + slack) \<le> sint (nb_bytes_requested_by_mac t) \<and>
        pdu_size t = int (n + slack) \<and>
        rlc_um_segment_10 fresh t = Inr (sent t k part (pdu @ drop n (new_pdu fresh (n + slack)))))"
proof -
  let ?ss = "input_sdus t" and ?n = "pdu_size t"
  have h: "header_bytes (tx_len t) = 2" using len by (simp add: header_bytes_def)
  have "int (header_bytes (tx_len t)) < sint (nb_bytes_requested_by_mac t)" using nb h by simp
  from next_cut [OF ok ne this, unfolded h] obtain k part slack where
    k: "k < length ?ss" "0 < part" "part \<le> sdu_remaining_size (?ss ! k)"
    and slack: "slack \<le> 2" "0 < slack \<longrightarrow> part = sdu_remaining_size (?ss ! k)"
    and size: "?n = int (2 + lead 1 (take k ?ss) + part + slack)" "?n \<le> sint (nb_bytes_requested_by_mac t)"
    and count: "count_sdus ?ss (?n - int 2) 1 0 (?n - int 2) (0, 0) = (k, int (lead 1 (take k ?ss) + part), 0, 0)"
    by blast
  note count = count [unfolded of_nat_numeral]
  have nat_n: "nat ?n = 2 + lead 1 (take k ?ss) + part + slack" using size(1) by linarith
  have oks: "\<forall>s \<in> set ?ss. sdu_ok s" using ok by (simp add: tx_ok_def)
  from fill_new [OF oks k, of "nat ?n" 2 slack fresh "buffer_occupancy t"] nat_n obtain f' where
    fill: "fill_pdu k ?ss \<lparr>f_mem = new_pdu fresh (nat ?n), f_data = 2 + (k * 3 + 1) div 2, f_eli = 2, f_len = 1,
      f_num = 0, f_remaining = int (lead 1 (take k ?ss) + part), f_occupancy = buffer_occupancy t, f_last = False\<rparr>
      = Inr (queue_left ?ss k part, f')"
    and mem: "f_mem f' = take 2 (new_pdu fresh (nat ?n)) @ encode_lis (pdu_lis ?ss k) @ pdu_bytes ?ss k part @
      drop (nat ?n - slack) (new_pdu fresh (nat ?n))"
    and f': "f_remaining f' = 0" "f_num f' = k" "f_last f' \<longleftrightarrow> part = sdu_remaining_size (?ss ! k)"
      "f_occupancy f' = buffer_occupancy t - int (length (pdu_bytes ?ss k part))" by auto
  have new: "length (new_pdu fresh (nat ?n)) = nat ?n" by (simp add: new_pdu_def)
  then obtain b0 b1 where "take 2 (new_pdu fresh (nat ?n)) = [b0, b1]"
    using nat_n by (cases "new_pdu fresh (nat ?n)" rule: remdups_adj.cases) auto
  note mem = mem [unfolded this]
  let ?h = "header_10 (first_is_start ?ss) (part = sdu_remaining_size (?ss ! k)) (0 < k) (tx_vt_us t)"
  let ?pdu = "?h @ encode_lis (pdu_lis ?ss k) @ pdu_bytes ?ss k part"
  note plen = pdu_length [OF ok k(1,3)]
  have cut: "take (nat (?n)) (b # c # encode_lis (pdu_lis ?ss k) @ pdu_bytes ?ss k part @
      drop (nat ?n - slack) (new_pdu fresh (nat ?n)))
      = b # c # encode_lis (pdu_lis ?ss k) @ pdu_bytes ?ss k part @ drop (nat ?n - slack) (new_pdu fresh (nat ?n))" for b c
    using plen new nat_n by simp
  have len_pdu: "length ?pdu = nat ?n - slack" "length ?pdu + slack = nat ?n"
    using plen nat_n by (simp_all add: header_10_def)
  have "rlc_um_segment_10 fresh t
      = Inr (sent t k part (?pdu @ drop (length ?pdu) (new_pdu fresh (length ?pdu + slack))))"
  proof -
    have c: "\<not> (sint (nb_bytes_requested_by_mac t) < 3 \<or> ?ss = [])" using nb ne by simp
    have "0 < ?n" using nat_n by linarith
    then show ?thesis unfolding len_pdu(2) unfolding len_pdu(1)
      by (simp only: rlc_um_segment_10_def c if_False Let_def count prod.case less_irrefl fill bindE_Inr)
         (simp add: f' mem aset_def in_range_def header_10_def sent_def cut)
  qed
  moreover have "?n = int (length ?pdu + slack)" using len_pdu size(1) by simp
  ultimately show ?thesis using k slack size(2) by (auto simp: Let_def)
qed

end
