(* ===== verification/RlcUmDelivery.thy ===== *)
theory RlcUmDelivery
  imports RlcUmSender RlcUmService
begin

text \<open>
  What the receiver makes of a PDU of the sender: it takes back the segments, completes the SDU that
  was begun before, delivers the SDUs that end in the PDU and keeps the beginning of the next one.
\<close>

section \<open>The header\<close>

lemma unat_header_5:
  "unat (header_5 first last' ext vt) = framing_info first last' * 64 + (if ext then 32 else 0) + unat vt mod 32"
proof -
  let ?fi = "of_nat (framing_info first last' * 64) :: u8" and ?x = "if ext then 0x20 else 0 :: u8"
  let ?y = "ucast (and vt 0x1F) :: u8"
  have "framing_info first last' < 4" by (simp add: framing_info_def)
  then have fi: "unat ?fi = framing_info first last' * 64" by (intro unat_of_nat_small) simp
  have x: "unat ?x < 2 ^ 6" "2 ^ 5 dvd unat ?x" by simp_all
  have or1: "unat (or ?fi ?x) = unat ?fi + unat ?x" by (rule unat_or [of 6]) (simp_all only: fi x(1), simp)
  have "unat (and vt 0x1F) = unat vt mod 32"
    using unat_mask [of vt 5] by (simp add: mask_eq_exp_minus_1)
  then have y: "unat ?y = unat vt mod 32"
    by (simp add: unsigned_ucast_eq take_bit_eq_mod)
  have "unat (or (or ?fi ?x) ?y) = unat (or ?fi ?x) + unat ?y"
  proof (rule unat_or [of 5])
    show "2 ^ 5 dvd unat (or ?fi ?x)" unfolding or1 fi using x(2) by (intro dvd_add) simp_all
  qed (simp add: y)
  then show ?thesis unfolding header_5_def or1 fi y by simp
qed

lemma decode_header_5:
  assumes "rx_sn_length e = 5"
  shows "pdu_header e (header_5 first last' ext vt # R) = Inr (ext, framing_info first last', 1)"
    and "pdu_sn e (header_5 first last' ext vt # R) = Inr (uint vt mod 32)"
proof -
  let ?b = "header_5 first last' ext vt" and ?fi = "framing_info first last'"
  have fi: "?fi < 4" by (simp add: framing_info_def)
  have get: "aget (?b # R) 0 = Inr ?b" by (simp add: aget_def in_range_def)
  let ?k = "(if ext then 32 else 0) + unat vt mod 32"
  have k: "?k < 64" "?k div 32 = (if ext then 1 else 0)" by (auto simp: div_nat_eqI)
  have u: "unat ?b = ?k + 64 * ?fi" unfolding unat_header_5 by simp
  have "unat ?b div 64 = ?fi" unfolding u using k(1) by simp
  then have "unat (drop_bit 6 (and ?b 0xC0)) = ?fi" using fi by (simp add: byte_mask byte_shift)
  moreover have "unat ?b div 32 = ?k div 32 + 2 * ?fi" unfolding u by linarith
  then have "bit ?b 5 = ext" unfolding bit_byte using k(2) by simp
  ultimately show "pdu_header e (?b # R) = Inr (ext, ?fi, 1)"
    using assms get by (simp add: pdu_header_def)
  have "unat ?b = unat vt mod 32 + 32 * ((if ext then 1 else 0) + 2 * ?fi)" unfolding u by simp
  then have "unat ?b mod 32 = unat vt mod 32" by (simp only: mod_mult_self2) simp
  then have "unat (and ?b 0x1F) = unat vt mod 32" by (simp add: byte_mask)
  then have "uint (and ?b 0x1F) = uint vt mod 32" by (metis uint_nat zmod_int of_nat_numeral)
  then show "pdu_sn e (?b # R) = Inr (uint vt mod 32)" using assms get by (simp add: pdu_sn_def)
qed

lemma unat_header_10:
  "unat (hd (header_10 first last' ext vt)) =
     framing_info first last' * 8 + (if ext then 4 else 0) + unat vt div 256 mod 4"
proof -
  let ?fi = "of_nat (framing_info first last' * 8) :: u8" and ?x = "if ext then 0x04 else 0 :: u8"
  let ?y = "ucast (and (drop_bit 8 vt) 0x03) :: u8"
  have "framing_info first last' < 4" by (simp add: framing_info_def)
  then have fi: "unat ?fi = framing_info first last' * 8" by (intro unat_of_nat_small) simp
  have x: "unat ?x < 2 ^ 3" "2 ^ 2 dvd unat ?x" by simp_all
  have or1: "unat (or ?fi ?x) = unat ?fi + unat ?x" by (rule unat_or [of 3]) (simp_all only: fi x(1), simp)
  have "unat vt < 65536" using unsigned_less [of vt] by simp
  then have "unat (drop_bit 8 vt) = unat vt div 256"
    by (subst unsigned_drop_bit_eq) (simp add: drop_bit_eq_div take_bit_eq_mod)
  moreover have "unat (and (drop_bit 8 vt) 0x03) = unat (drop_bit 8 vt) mod 4"
    using unat_mask [of "drop_bit 8 vt" 2] by (simp add: mask_eq_exp_minus_1)
  ultimately have y: "unat ?y = unat vt div 256 mod 4"
    by (simp add: unsigned_ucast_eq take_bit_eq_mod)
  have "unat (or (or ?fi ?x) ?y) = unat (or ?fi ?x) + unat ?y"
  proof (rule unat_or [of 2])
    show "2 ^ 2 dvd unat (or ?fi ?x)" unfolding or1 fi using x(2) by (intro dvd_add) simp_all
  qed (simp add: y)
  then show ?thesis unfolding header_10_def list.sel or1 fi y by simp
qed

lemma decode_header_10:
  assumes "rx_sn_length e = 10"
  shows "pdu_header e (header_10 first last' ext vt @ R) = Inr (ext, framing_info first last', 2)"
    and "pdu_sn e (header_10 first last' ext vt @ R) = Inr (uint vt mod 1024)"
proof -
  obtain b c where h: "header_10 first last' ext vt = [b, c]" and c: "c = ucast (and vt 0xFF)"
    by (simp add: header_10_def)
  let ?fi = "framing_info first last'" and ?hi = "unat vt div 256 mod 4"
  have u: "unat b = ?fi * 8 + (if ext then 4 else 0) + ?hi"
    using unat_header_10 [of first last' ext vt] by (simp add: h)
  have fi: "?fi < 4" by (simp add: framing_info_def)
  have get: "aget (b # c # R) 0 = Inr b" "aget (b # c # R) 1 = Inr c" by (simp_all add: aget_def in_range_def)
  let ?k = "(if ext then 4 else 0) + ?hi"
  have k: "?k < 8" "?k div 4 = (if ext then 1 else 0)" by (auto simp: div_nat_eqI)
  have u': "unat b = ?k + 8 * ?fi" unfolding u by simp
  have "unat b div 8 = ?fi" unfolding u' using k(1) by simp
  moreover have "drop_bit 3 (and b 0x18) = and (drop_bit 3 b) 3" by (simp add: drop_bit_and)
  ultimately have "unat (drop_bit 3 (and b 0x18)) = ?fi"
    using fi by (simp add: byte_mask byte_shift)
  moreover have "unat b div 4 = ?k div 4 + 2 * ?fi" unfolding u' by linarith
  then have "bit b 2 = ext" unfolding bit_byte using k(2) by simp
  ultimately show "pdu_header e (header_10 first last' ext vt @ R) = Inr (ext, ?fi, 2)"
    using assms get by (simp add: pdu_header_def h)
  have "unat b = ?hi + 4 * ((if ext then 1 else 0) + 2 * ?fi)" unfolding u by simp
  then have "unat b mod 4 = ?hi" by (simp only: mod_mult_self2) simp
  then have lo: "unat (and b 3) = ?hi" by (simp add: byte_mask)
  have "unat c = unat vt mod 256"
    unfolding c using unat_mask [of vt 8] by (simp add: mask_eq_exp_minus_1 unsigned_ucast_eq take_bit_eq_mod)
  moreover have "unat (push_bit 8 (ucast (and b 3) :: u32)) = ?hi * 256"
    by (subst unsigned_push_bit_eq) (simp add: lo unat_ucast_up push_bit_eq_mult take_bit_eq_mod)
  ultimately have "unat (push_bit 8 (ucast (and b 3) :: u32) + ucast c) = ?hi * 256 + unat vt mod 256"
    by (subst unat_word_ariths) (simp add: unat_ucast_up)
  also have "\<dots> = unat vt mod 1024" using mod_mult2_eq [of "unat vt" 256 4] by simp
  finally have "int (unat (push_bit 8 (ucast (and b 3) :: u32) + ucast c)) = int (unat vt mod 1024)"
    by (rule arg_cong)
  then have "uint (push_bit 8 (ucast (and b 3) :: u32) + ucast c) = uint vt mod 1024"
    by (simp only: uint_nat zmod_int of_nat_numeral)
  then show "pdu_sn e (header_10 first last' ext vt @ R) = Inr (uint vt mod 1024)"
    using assms get by (simp add: pdu_sn_def h)
qed

section \<open>The segments\<close>

text \<open>The bytes of the SDU under construction.\<close>

definition partial_sdu :: "rlc_um \<Rightarrow> u8 list" where
  "partial_sdu e = (case output_sdu e of None \<Rightarrow> [] | Some xs \<Rightarrow> xs)"

text \<open>What the reassembly keeps: all but the SDU, the counters and what was delivered.\<close>

definition kept :: "rlc_um \<Rightarrow> rlc_um \<Rightarrow> bool" where
  "kept e e' \<longleftrightarrow> core e' = core e \<and> dar_buffer e' = dar_buffer e \<and> last_reassemblied_sn e' = last_reassemblied_sn e"

lemma kept_refl [simp]: "kept e e"
  and kept_trans: "kept e f \<Longrightarrow> kept f g \<Longrightarrow> kept e g"
  by (simp_all add: kept_def)

lemma kept_max: "kept e e' \<Longrightarrow> sdu_max_size e' = sdu_max_size e"
  using same_core(9) [of e' e] by (simp add: kept_def sdu_max_size_def)

lemma reassembly_ok:
  assumes "xs \<noteq> []" and "int (length (partial_sdu e) + length xs) \<le> sdu_max_size e"
  shows "\<exists>e'. rlc_um_reassembly (A @ xs @ B) (int (length A)) (int (length xs)) e = Inr e' \<and> kept e e' \<and>
    partial_sdu e' = partial_sdu e @ xs \<and> delivered e' = delivered e \<and>
    missing_sn_detected e' = missing_sn_detected e"
  using assms by (auto simp: rlc_um_reassembly_def partial_sdu_def kept_def core_def Let_def split: option.splits)

lemma send_sdu_ok:
  assumes "partial_sdu e \<noteq> []"
  shows "kept e (rlc_um_send_sdu e)" "partial_sdu (rlc_um_send_sdu e) = []"
    "delivered (rlc_um_send_sdu e) = delivered e @ [partial_sdu e]"
    "missing_sn_detected (rlc_um_send_sdu e) = missing_sn_detected e"
  using assms by (auto simp: rlc_um_send_sdu_def partial_sdu_def kept_def core_def split: option.splits)

lemma clear_ok:
  "kept e (rlc_um_clear_rx_sdu e)" "partial_sdu (rlc_um_clear_rx_sdu e) = []"
  "delivered (rlc_um_clear_rx_sdu e) = delivered e"
  "missing_sn_detected (rlc_um_clear_rx_sdu e) = missing_sn_detected e"
  by (auto simp: rlc_um_clear_rx_sdu_def partial_sdu_def kept_def core_def split: option.splits)

text \<open>The SDUs that are complete when segments follow the bytes \<open>acc\<close>, and the bytes that are left.\<close>

definition completed :: "u8 list \<Rightarrow> u8 list list \<Rightarrow> u8 list list" where
  "completed acc segs = (case segs of [] \<Rightarrow> [] | s # ss \<Rightarrow> (acc @ s) # ss)"

definition left_over :: "u8 list \<Rightarrow> u8 list list \<Rightarrow> u8 list" where
  "left_over acc segs = (if segs = [] then acc else [])"

lemma take_segments_ok:
  assumes "\<forall>s \<in> set segs. s \<noteq> [] \<and> int (length s) \<le> sdu_max_size e"
    and "segs \<noteq> [] \<Longrightarrow> int (length (partial_sdu e) + length (hd segs)) \<le> sdu_max_size e"
  shows "\<exists>e'. take_segments (A @ concat segs @ B) (map length segs) (int (length A)) e
      = Inr (int (length (A @ concat segs)), e') \<and> kept e e' \<and>
    delivered e' = delivered e @ completed (partial_sdu e) segs \<and>
    partial_sdu e' = left_over (partial_sdu e) segs \<and> missing_sn_detected e' = missing_sn_detected e"
  using assms
proof (induction segs arbitrary: A e)
  case Nil
  then show ?case by (simp add: completed_def left_over_def)
next
  case (Cons s segs)
  from reassembly_ok [of s e A "concat segs @ B"] Cons.prems obtain e1 where
    e1: "rlc_um_reassembly (A @ s @ concat segs @ B) (int (length A)) (int (length s)) e = Inr e1"
      "kept e e1" "partial_sdu e1 = partial_sdu e @ s" "delivered e1 = delivered e"
      "missing_sn_detected e1 = missing_sn_detected e" by auto
  let ?e2 = "rlc_um_send_sdu e1"
  have "partial_sdu e1 \<noteq> []" using e1(3) Cons.prems(1) by simp
  note e2 = send_sdu_ok [OF this]
  have max: "sdu_max_size ?e2 = sdu_max_size e" using kept_max e1(2) e2(1) kept_trans by metis
  have "\<exists>e'. take_segments ((A @ s) @ concat segs @ B) (map length segs) (int (length (A @ s))) ?e2
      = Inr (int (length ((A @ s) @ concat segs)), e') \<and> kept ?e2 e' \<and>
    delivered e' = delivered ?e2 @ completed (partial_sdu ?e2) segs \<and>
    partial_sdu e' = left_over (partial_sdu ?e2) segs \<and> missing_sn_detected e' = missing_sn_detected ?e2"
    using Cons.prems(1) max e2(2) by (intro Cons.IH) auto
  then obtain e' where e': "take_segments ((A @ s) @ concat segs @ B) (map length segs) (int (length (A @ s))) ?e2
      = Inr (int (length ((A @ s) @ concat segs)), e')" "kept ?e2 e'"
    "delivered e' = delivered ?e2 @ completed (partial_sdu ?e2) segs"
    "partial_sdu e' = left_over (partial_sdu ?e2) segs" "missing_sn_detected e' = missing_sn_detected ?e2" by blast
  have "kept e e'" using kept_trans e1(2) e2(1) e'(2) by metis
  with e' e1 e2 show ?case
    by (auto simp: completed_def left_over_def add.assoc split: list.splits)
qed

section \<open>One PDU\<close>

text \<open>
  A PDU of the sender carries the segments \<open>segs\<close>, which have an indicator each, and then \<open>xs\<close>. \<open>first\<close> says
  that it begins with an SDU and \<open>last'\<close> that it ends with one.
\<close>

definition sender_pdu :: "bool \<Rightarrow> bool \<Rightarrow> u16 \<Rightarrow> u8 list list \<Rightarrow> u8 list \<Rightarrow> u8 list" where
  "sender_pdu first last' vt segs xs =
     header_5 first last' (segs \<noteq> []) vt # encode_lis (map length segs) @ concat segs @ xs"

definition fits_receiver :: "rlc_um \<Rightarrow> u8 list \<Rightarrow> u8 list list \<Rightarrow> u8 list \<Rightarrow> bool" where
  "fits_receiver e acc segs xs \<longleftrightarrow>
     (\<forall>s \<in> set segs. s \<noteq> [] \<and> length s < 2048 \<and> int (length s) \<le> sdu_max_size e) \<and> length segs \<le> 128 \<and>
     (segs \<noteq> [] \<longrightarrow> int (length (acc @ hd segs)) \<le> sdu_max_size e) \<and>
     xs \<noteq> [] \<and> int (length (left_over acc segs @ xs)) \<le> sdu_max_size e"

lemma finish_pdu:
  assumes xs: "xs \<noteq> []" "int (length (partial_sdu e @ xs)) \<le> sdu_max_size e"
  shows "\<exists>e'. bindE (rlc_um_reassembly (A @ xs) (int (length A)) (int (length xs)) e)
      (\<lambda>e2. Inr (if last' then rlc_um_send_sdu e2 else e2)) = Inr e' \<and> kept e e' \<and>
    delivered e' = delivered e @ (if last' then [partial_sdu e @ xs] else []) \<and>
    partial_sdu e' = (if last' then [] else partial_sdu e @ xs) \<and>
    missing_sn_detected e' = missing_sn_detected e"
proof -
  from reassembly_ok [of xs e A "[]"] xs obtain e1 where
    e1: "rlc_um_reassembly (A @ xs) (int (length A)) (int (length xs)) e = Inr e1" "kept e e1"
      "partial_sdu e1 = partial_sdu e @ xs" "delivered e1 = delivered e"
      "missing_sn_detected e1 = missing_sn_detected e" by auto
  have "partial_sdu e1 \<noteq> []" using e1(3) xs(1) by simp
  from send_sdu_ok [OF this] e1 kept_trans [OF e1(2)] show ?thesis by auto
qed

lemma consume_plain_ok:
  assumes fit: "fits_receiver e (if first then [] else partial_sdu e) [] xs"
    and miss: "first \<or> \<not> missing_sn_detected e"
  shows "\<exists>e'. consume_plain (A @ xs) (framing_info first last') (int (length A)) (int (length xs)) e = Inr e' \<and>
    kept e e' \<and> delivered e' = delivered e @ (if last' then [(if first then [] else partial_sdu e) @ xs] else []) \<and>
    partial_sdu e' = (if last' then [] else (if first then [] else partial_sdu e) @ xs) \<and>
    \<not> missing_sn_detected e'"
proof -
  let ?e = "if first then rlc_um_clear_rx_sdu e else e"
  have start: "kept e ?e" "partial_sdu ?e = (if first then [] else partial_sdu e)" "delivered ?e = delivered e"
    "missing_sn_detected ?e = missing_sn_detected e" by (simp_all add: clear_ok)
  have xs: "xs \<noteq> []" "int (length (partial_sdu ?e @ xs)) \<le> sdu_max_size ?e"
    using fit kept_max [OF start(1)] unfolding start(2) by (simp_all add: fits_receiver_def left_over_def)
  from finish_pdu [OF xs, of A last'] obtain e1 where
    e1: "bindE (rlc_um_reassembly (A @ xs) (int (length A)) (int (length xs)) ?e)
      (\<lambda>e2. Inr (if last' then rlc_um_send_sdu e2 else e2)) = Inr e1" "kept ?e e1"
    "delivered e1 = delivered ?e @ (if last' then [partial_sdu ?e @ xs] else [])"
    "partial_sdu e1 = (if last' then [] else partial_sdu ?e @ xs)"
    "missing_sn_detected e1 = missing_sn_detected ?e" by blast
  have "\<exists>e'. consume_plain (A @ xs) (framing_info first last') (int (length A)) (int (length xs)) e = Inr e' \<and>
    kept e1 e' \<and> delivered e' = delivered e1 \<and> partial_sdu e' = partial_sdu e1 \<and> \<not> missing_sn_detected e'"
    using e1(1,5) miss
    by (cases first; cases last')
       (auto simp: consume_plain_def framing_info_def bindE_eq_Inr kept_def core_def partial_sdu_def clear_ok)
  then obtain e' where
    e': "consume_plain (A @ xs) (framing_info first last') (int (length A)) (int (length xs)) e = Inr e'"
      "kept e1 e'" "delivered e' = delivered e1" "partial_sdu e' = partial_sdu e1" "\<not> missing_sn_detected e'" by blast
  have "kept e e'" using kept_trans [OF kept_trans [OF start(1) e1(2)] e'(2)] .
  with e' show ?thesis unfolding e1(3,4) start(2,3) by blast
qed

lemma consume_segments_ok:
  assumes fit: "fits_receiver e (if first then [] else partial_sdu e) segs xs" and ne: "segs \<noteq> []"
    and miss: "first \<or> \<not> missing_sn_detected e"
  defines "acc \<equiv> if first then [] else partial_sdu e"
  shows "\<exists>e'. consume_segments (A @ concat segs @ xs) (framing_info first last') (map length segs) (int (length A))
      (int (length xs)) e = Inr e' \<and> kept e e' \<and>
    delivered e' = delivered e @ completed acc segs @ (if last' then [left_over acc segs @ xs] else []) \<and>
    partial_sdu e' = (if last' then [] else left_over acc segs @ xs) \<and> \<not> missing_sn_detected e'"
proof -
  let ?e = "if first then rlc_um_clear_rx_sdu e else e"
  have start: "kept e ?e" "partial_sdu ?e = acc" "delivered ?e = delivered e"
    "missing_sn_detected ?e = missing_sn_detected e" by (simp_all add: clear_ok acc_def)
  note max = kept_max [OF start(1)]
  have seg: "\<forall>s \<in> set segs. s \<noteq> [] \<and> int (length s) \<le> sdu_max_size ?e"
    "segs \<noteq> [] \<Longrightarrow> int (length (partial_sdu ?e) + length (hd segs)) \<le> sdu_max_size ?e"
    using fit unfolding max start(2) by (auto simp: fits_receiver_def acc_def)
  from take_segments_ok [OF seg, of A xs] obtain e1 where
    e1: "take_segments (A @ concat segs @ xs) (map length segs) (int (length A)) ?e
      = Inr (int (length (A @ concat segs)), e1)" "kept ?e e1"
    "delivered e1 = delivered ?e @ completed acc segs" "partial_sdu e1 = left_over acc segs"
    "missing_sn_detected e1 = missing_sn_detected ?e" unfolding start(2) by blast
  have xs: "xs \<noteq> []" "int (length (partial_sdu e1 @ xs)) \<le> sdu_max_size e1"
    using fit kept_max [OF e1(2)] max unfolding e1(4) by (simp_all add: fits_receiver_def acc_def)
  from finish_pdu [OF xs, of "A @ concat segs" last'] obtain e2 where
    e2: "bindE (rlc_um_reassembly (A @ concat segs @ xs) (int (length (A @ concat segs))) (int (length xs)) e1)
      (\<lambda>e2. Inr (if last' then rlc_um_send_sdu e2 else e2)) = Inr e2" "kept e1 e2"
    "delivered e2 = delivered e1 @ (if last' then [partial_sdu e1 @ xs] else [])"
    "partial_sdu e2 = (if last' then [] else partial_sdu e1 @ xs)"
    "missing_sn_detected e2 = missing_sn_detected e1" by auto
  let ?e' = "e2\<lparr>missing_sn_detected := False\<rparr>"
  have "consume_segments (A @ concat segs @ xs) (framing_info first last') (map length segs) (int (length A))
      (int (length xs)) e = Inr ?e'"
    using e1(1) e2(1) xs(1) miss
    by (cases first; cases last')
       (auto simp: consume_segments_def skip_first_def framing_info_def bindE_eq_Inr clear_ok)
  moreover have "kept e ?e'"
    using kept_trans [OF kept_trans [OF start(1) e1(2)] e2(2)] by (simp add: kept_def core_def)
  ultimately show ?thesis using e2 e1 start by (auto simp: partial_sdu_def)
qed

lemma consume_sender_pdu:
  assumes len: "rx_sn_length e = 5" and miss: "first \<or> \<not> missing_sn_detected e"
    and fit: "fits_receiver e (if first then [] else partial_sdu e) segs xs"
  defines "acc \<equiv> if first then [] else partial_sdu e"
  shows "\<exists>e'. consume_pdu (sender_pdu first last' vt segs xs) e = Inr e' \<and> kept e e' \<and>
    delivered e' = delivered e @ completed acc segs @ (if last' then [left_over acc segs @ xs] else []) \<and>
    partial_sdu e' = (if last' then [] else left_over acc segs @ xs) \<and> \<not> missing_sn_detected e'"
proof (cases "segs = []")
  case True
  let ?h = "header_5 first last' False vt"
  have pdu: "sender_pdu first last' vt segs xs = [?h] @ xs" by (simp add: sender_pdu_def True)
  from consume_plain_ok [of e first xs "[?h]" last'] fit miss True decode_header_5(1) [OF len, of first last' False vt xs]
  show ?thesis unfolding pdu
    by (auto simp: consume_pdu_def Let_def completed_def left_over_def acc_def)
next
  case False
  let ?h = "header_5 first last' True vt" and ?L = "encode_lis (map length segs)"
  have pdu: "sender_pdu first last' vt segs xs = ([?h] @ ?L) @ concat segs @ xs" by (simp add: sender_pdu_def False)
  have cost: "li_cost (map length segs) = int (length (?L @ concat segs))"
    by (simp add: li_cost_def length_encode_lis length_concat)
  have "read_lis ([?h] @ ?L @ (concat segs @ xs)) (int (length [?h])) [] sz
      = Inr (True, [] @ map length segs, sz - li_cost (map length segs))" for sz
    using fit False by (intro read_lis_encoded) (auto simp: fits_receiver_def RLC_UM_SEGMENT_NB_MAX_LI_PER_PDU_def)
  then have "rlc_um_read_length_indicators (([?h] @ ?L) @ concat segs @ xs) 1 (int (length (?L @ concat segs @ xs)))
      = Inr (Some (map length segs, int (length ([?h] @ ?L)), int (length xs)))"
    using fit by (auto simp: rlc_um_read_length_indicators_def cost fits_receiver_def length_encode_lis zdiv_int)
  moreover have "pdu_header e (([?h] @ ?L) @ concat segs @ xs) = Inr (True, framing_info first last', 1)"
    using decode_header_5(1) [OF len, of first last' True vt] by simp
  ultimately have "consume_pdu (([?h] @ ?L) @ concat segs @ xs) e
      = consume_segments (([?h] @ ?L) @ concat segs @ xs) (framing_info first last') (map length segs)
          (int (length ([?h] @ ?L))) (int (length xs)) e"
    by (simp add: consume_pdu_def Let_def)
  with consume_segments_ok [OF fit False miss, of "[?h] @ ?L" last'] show ?thesis
    unfolding pdu acc_def by simp
qed

end
