(* ===== verification/RlcUmLink.thy ===== *)
theory RlcUmLink
  imports RlcUmDelivery
begin

text \<open>
  A sender and a receiver of the unacknowledged mode, joined: what \<open>rlc_um_mac_data_request\<close> hands to the
  MAC layer reaches the other side in its order and without losses.
\<close>

section \<open>The requests of the MAC layer\<close>

definition rlc_um_set_nb_bytes_requested_by_mac :: "u32 \<Rightarrow> um_tx \<Rightarrow> um_tx" where
  "rlc_um_set_nb_bytes_requested_by_mac nb t = t\<lparr>nb_bytes_requested_by_mac := nb\<rparr>"

text \<open>The size of a PDU is counted, and checked, in 16 bits with a sign.\<close>

definition count_tx :: "u8 list \<Rightarrow> um_tx \<Rightarrow> um_tx res" where
  "count_tx pdu t =
     (if 0 < sint (of_nat (length pdu) :: 16 word)
      then Inr (t\<lparr>stat_tx_data_pdu := stat_tx_data_pdu t + 1,
                  stat_tx_data_bytes := stat_tx_data_bytes t + of_int (sint (of_nat (length pdu) :: 16 word))\<rparr>)
      else Inl Abort)"

definition rlc_um_mac_data_request :: "(nat \<Rightarrow> u8) \<Rightarrow> um_tx \<Rightarrow> (u8 list list \<times> um_tx) res" where
  "rlc_um_mac_data_request fresh t =
     bindE (rlc_um_get_pdus fresh t) (\<lambda>t1.
     bindE (foldE count_tx (pdus_to_mac_layer t1) (t1\<lparr>pdus_to_mac_layer := []\<rparr>)) (\<lambda>t2.
     Inr (pdus_to_mac_layer t1, t2)))"

text \<open>Only an entity in the state of data transfer takes PDUs.\<close>

definition rlc_um_rx :: "u32 \<Rightarrow> u8 list list \<Rightarrow> rlc_um \<Rightarrow> rlc_um res" where
  "rlc_um_rx now tbs e =
     (case protocol_state e of RLC_DATA_TRANSFER_READY_STATE \<Rightarrow> rlc_um_receive now tbs e | _ \<Rightarrow> Inr e)"

definition rlc_um_mac_data_indication :: "u32 \<Rightarrow> bool \<Rightarrow> u8 list list \<Rightarrow> rlc_um \<Rightarrow> rlc_um res" where
  "rlc_um_mac_data_indication now lock_free tbs e =
     bindE (rlc_um_rx now tbs e) (rlc_um_check_timer_dar_time_out now lock_free)"

text \<open>
  The report to the scheduler. The two parts of the entity are \<open>t\<close> and \<open>e\<close>. The difference of the
  times has 32 bits with a sign, and the sum after it 32 bits without.
\<close>

record mac_status_resp =
  resp_bytes :: u32
  resp_pdus :: u16
  resp_creation_time :: u32
  resp_remaining :: u32
  resp_segmented :: bool
  resp_state :: rlc_state

definition head_sdu_age :: "u32 \<Rightarrow> um_sdu \<Rightarrow> u32" where
  "head_sdu_age frame s =
     (let diff = frame - sdu_creation_time s in
      if 0 < sint diff then diff else 0xFFFFFFFF - diff + frame)"

definition rlc_um_mac_status_indication ::
  "u32 \<Rightarrow> bool \<Rightarrow> u32 \<Rightarrow> u16 \<Rightarrow> bool \<Rightarrow> um_tx \<times> rlc_um \<Rightarrow> (mac_status_resp \<times> um_tx \<times> rlc_um) res" where
  "rlc_um_mac_status_indication now lock_free frame tbs_size enb te =
     (let (t, e) = te in
      bindE (rlc_um_check_timer_dar_time_out now lock_free e) (\<lambda>e1.
      let t1 = t\<lparr>nb_bytes_requested_by_mac := ucast tbs_size\<rparr>;
          bo = (word_of_int (rlc_um_get_buffer_occupancy t1) :: u32);
          resp = \<lparr>resp_bytes = bo, resp_pdus = 0, resp_creation_time = 0, resp_remaining = 0,
            resp_segmented = False, resp_state = tx_state t1\<rparr>
      in Inr (case input_sdus t1 of
                [] \<Rightarrow> resp
              | s # _ \<Rightarrow>
                  if 0 < bo
                  then resp\<lparr>resp_bytes := (if enb then bo + of_nat (tx_header_min_length t1) else bo),
                         resp_pdus := of_nat (length (input_sdus t1)),
                         resp_creation_time := head_sdu_age frame s,
                         resp_remaining := of_nat (sdu_remaining_size s),
                         resp_segmented := sdu_size s \<noteq> sdu_remaining_size s\<rparr>
                  else resp,
              t1, e1)))"

section \<open>A PDU in its order\<close>

lemma receive_in_order:
  assumes ok: "rx_ok e" and eq: "vr_ur e = vr_uh e" and idle: "\<not> running e"
    and sn: "pdu_sn e pdu = Inr (vr_uh e)" and contiguous: "c_rem (last_reassemblied_sn e + 1) (rx_sn_modulo e) = vr_uh e"
    and pdu: "pdu \<noteq> []"
    and consume: "\<And>f. rx_sn_length f = rx_sn_length e \<Longrightarrow> partial_sdu f = partial_sdu e \<Longrightarrow> delivered f = delivered e \<Longrightarrow>
      missing_sn_detected f = missing_sn_detected e \<Longrightarrow> sdu_max_size f = sdu_max_size e \<Longrightarrow>
      \<exists>f'. consume_pdu pdu f = Inr f' \<and> kept f f' \<and> R (delivered f') (partial_sdu f') (missing_sn_detected f')"
  shows "\<exists>e'. receive_tb now pdu e = Inr e' \<and> same_config e e' \<and> vr_ur e' = vr_uh e' \<and>
    vr_uh e' = (vr_uh e + 1) mod rx_sn_modulo e \<and> last_reassemblied_sn e' = vr_uh e \<and> \<not> running e' \<and>
    R (delivered e') (partial_sdu e') (missing_sn_detected e')"
proof -
  let ?x = "vr_uh e" and ?m = "rx_sn_modulo e"
  let ?e0 = "e\<lparr>stat_rx_data_bytes := stat_rx_data_bytes e + of_nat (length pdu),
      stat_rx_data_pdu := stat_rx_data_pdu e + 1\<rparr>"
  let ?b = "(dar_buffer e)(nat ?x := Some pdu)" and ?u = "(?x + 1) mod ?m"
  have ok0: "rx_vars_ok ?e0" "dar_ok ?e0" "rx_ok ?e0" using ok by (auto simp: rx_ok_def rx_vars_ok_def
      rx_configured_def is_sn_def behind_def dar_ok_def timer_ok_def)
  note v = rx_vars_okD [OF ok0(1)]
  have x: "is_sn ?e0 ?x" "behind ?e0 ?x = 0" using v(4) by (simp_all add: behind_def)
  have none: "dar_buffer e (nat ?x) = None" using dar_ok_uh [OF ok0(2) x] by simp
  have acc: "acceptable ?e0 ?x" using x eq by (simp add: acceptable_def)
  have "pdu_sn ?e0 pdu = Inr ?x" using sn by (simp add: pdu_sn_def cong: if_cong)
  from receive_cases [OF ok0(3) this] acc none pdu
  have recv: "receive_tb now pdu e = store_and_process now ?x pdu ?e0"
    by (simp add: receive_tb_def Let_def)
  let ?e1 = "?e0\<lparr>dar_buffer := ?b\<rparr>" and ?e2 = "?e0\<lparr>dar_buffer := ?b, vr_uh := ?u\<rparr>"
  have "dropped ?e0 ?x \<le> 0" using x(2) eq rx_space(1) [OF v(1)] by (simp add: dropped_def jump_def)
  with advance_window_eq [OF ok0(1) x(1), of ?b] x(2)
  have adv: "advance_window ?x ?e1 = Inr ?e2" by simp
  have win: "rlc_um_in_reordering_window ?e1 ?x < 0"
    using in_reordering_window_iff [of ?e1 ?x] v x by simp
  from store_window [OF ok0(1,2) acc, of pdu ?e2] adv win
  have ok2: "rx_vars_ok ?e2" "dar_ok ?e2" by (simp_all add: Let_def)
  note v2 = rx_vars_okD [OF ok2(1)]
  have one: "behind ?e2 ?x = 1"
    using behind_jump [of ?e0 ?x ?x] v x rx_space [OF v(1)] by (auto simp: jump_def)
  from deliver_ready_range [OF ok2, of ?x] obtain u where u: "is_sn ?e2 u" "behind ?e2 u < 1"
    and del: "deliver_ready ?x ?e2 = foldE reassemble_sn
      (sn_range ?m ?x (nat (1 - behind ?e2 u))) (?e2\<lparr>vr_ur := u\<rparr>)" using eq one by auto
  have "behind ?e2 u = 0" using u(2) behind_range(1) [OF v2(1), of u] by simp
  with behind_eq_0 [OF v2(1,4) u(1)] have u': "u = ?u" by simp
  let ?e3 = "?e2\<lparr>vr_ur := ?u, last_reassemblied_sn := ?x\<rparr>"
  from consume [of ?e3] obtain f where f: "consume_pdu pdu ?e3 = Inr f" "kept ?e3 f"
    "R (delivered f) (partial_sdu f) (missing_sn_detected f)"
    by (auto simp: partial_sdu_def sdu_max_size_def)
  let ?f = "f\<lparr>dar_buffer := (dar_buffer f)(nat ?x := None)\<rparr>"
  have "core f = core ?e3" "last_reassemblied_sn f = ?x" using f(2) by (simp_all add: kept_def)
  note c = same_core [OF this(1), simplified] and last = this(2)
  have "dar_set ?x None f = Inr ?f"
    using c v(1) x(1) by (intro dar_set_sn) (simp_all add: rx_configured_def is_sn_def)
  moreover have "dar_get (?e2\<lparr>vr_ur := ?u\<rparr>) ?x = Inr (Some pdu)"
    using is_sn_bound [OF v(1) x(1)] rx_space(5) [OF v(1)] by (simp add: dar_get_def)
  moreover have "?x mod ?m = ?x" using x(1) by (simp add: is_sn_def)
  ultimately have "deliver_ready ?x ?e2 = Inr ?f"
    using del f(1) contiguous \<open>behind ?e2 u = 0\<close> unfolding u'
    by (simp add: sn_range_Suc reassemble_sn_def)
  moreover have "update_timer now ?f = ?f"
  proof -
    have "rlc_um_in_window ?f (vr_ur ?f) (vr_uh ?f) (vr_uh ?f) = 3"
      using c by (simp add: rlc_um_in_window_def Let_def)
    then show ?thesis using c idle by (simp add: update_timer_def Let_def)
  qed
  ultimately have "receive_tb now pdu e = Inr ?f"
    unfolding recv store_and_process_def using dar_set_sn [of ?e0 ?x "Some pdu"] v x(1) win adv by simp
  with c last f(3) idle show ?thesis by (auto simp: partial_sdu_def)
qed

section \<open>Sender and receiver in step\<close>

text \<open>
  The SDUs fit the indicators and the buffer of the receiver; only the first one of the queue has been
  sent in part, and the receiver has that part. The receiver waits for the number that comes next.
\<close>

definition um_sync :: "um_tx \<Rightarrow> rlc_um \<Rightarrow> bool" where
  "um_sync t e \<longleftrightarrow> tx_ok t \<and> tx_len t = 5 \<and> tx_state t = RLC_DATA_TRANSFER_READY_STATE \<and>
     pdus_to_mac_layer t = [] \<and>
     (\<forall>s \<in> set (input_sdus t). sdu_size s < 2048 \<and> int (sdu_size s) \<le> sdu_max_size e) \<and>
     (\<forall>s \<in> set (tl (input_sdus t)). sdu_segmented_size s = 0) \<and>
     rx_ok e \<and> protocol_state e = RLC_DATA_TRANSFER_READY_STATE \<and> rx_sn_length e = 5 \<and> vr_ur e = vr_uh e \<and> vr_uh e = uint (tx_vt_us t) mod 32 \<and>
     c_rem (last_reassemblied_sn e + 1) (rx_sn_modulo e) = vr_uh e \<and> \<not> running e \<and> \<not> missing_sn_detected e \<and>
     partial_sdu e = (case input_sdus t of [] \<Rightarrow> [] | s # _ \<Rightarrow> take (sdu_segmented_size s) (sdu_data s))"

text \<open>What a PDU completes, in terms of the queue.\<close>

definition sent_part :: "um_sdu list \<Rightarrow> u8 list" where
  "sent_part ss = (case ss of [] \<Rightarrow> [] | s # _ \<Rightarrow> take (sdu_segmented_size s) (sdu_data s))"

lemma sdu_data_split: "take (sdu_segmented_size s) (sdu_data s) @ pending s = sdu_data s"
  by (simp add: pending_def)

lemma pending_whole: "sdu_segmented_size s = 0 \<Longrightarrow> pending s = sdu_data s"
  by (simp add: pending_def)

lemma completed_queue:
  assumes "\<forall>s \<in> set (tl ss). sdu_segmented_size s = 0"
  shows "completed (sent_part ss) (map pending (take k ss)) = map sdu_data (take k ss)"
  using assms by (cases ss; cases k) (auto simp: completed_def sent_part_def sdu_data_split pending_whole dest: in_set_takeD)

lemma left_over_queue:
  assumes "\<forall>s \<in> set (tl ss). sdu_segmented_size s = 0" and "k < length ss"
  shows "left_over (sent_part ss) (map pending (take k ss)) @ take part (pending (ss ! k))
    = take (sdu_segmented_size (ss ! k) + part) (sdu_data (ss ! k))"
proof (cases k)
  case 0
  with assms(2) show ?thesis by (cases ss) (auto simp: left_over_def sent_part_def pending_def take_add)
next
  case (Suc j)
  with assms have "ss ! k \<in> set (tl ss)" by (cases ss) auto
  with assms Suc show ?thesis by (cases ss) (auto simp: left_over_def pending_def)
qed

lemma queue_left_data:
  assumes "k < length ss" and "part = sdu_remaining_size (ss ! k) \<longleftrightarrow> last'"
  shows "map sdu_data (take k ss) @ (if last' then [sdu_data (ss ! k)] else []) @ map sdu_data (queue_left ss k part)
    = map sdu_data ss"
proof -
  have "map sdu_data ss = map sdu_data (take k ss) @ sdu_data (ss ! k) # map sdu_data (drop (Suc k) ss)"
    using assms(1) by (subst id_take_nth_drop [of k ss]) simp_all
  then show ?thesis using assms(2) by (auto simp: queue_left_def advance_sdu_def)
qed

lemma queue_left_shape:
  assumes "k < length ss" and "\<forall>s \<in> set (tl ss). sdu_segmented_size s = 0"
    and "part \<le> sdu_remaining_size (ss ! k)" and "\<forall>s \<in> set ss. sdu_ok s"
  shows "\<forall>s \<in> set (tl (queue_left ss k part)). sdu_segmented_size s = 0"
    and "sent_part (queue_left ss k part) = (if part = sdu_remaining_size (ss ! k) then []
      else take (sdu_segmented_size (ss ! k) + part) (sdu_data (ss ! k)))"
    and "sdu_size ` set (queue_left ss k part) \<subseteq> sdu_size ` set ss"
proof -
  have later: "set (drop (Suc k) ss) \<subseteq> set (tl ss)" by (metis drop_Suc set_drop_subset)
  moreover have "set (tl (drop (Suc k) ss)) \<subseteq> set (drop (Suc k) ss)" by (cases "drop (Suc k) ss") auto
  ultimately show "\<forall>s \<in> set (tl (queue_left ss k part)). sdu_segmented_size s = 0"
    using assms(2) by (auto simp: queue_left_def)
  have "sent_part (drop (Suc k) ss) = []"
    using later assms(2) by (cases "drop (Suc k) ss") (auto simp: sent_part_def)
  then show "sent_part (queue_left ss k part) = (if part = sdu_remaining_size (ss ! k) then []
      else take (sdu_segmented_size (ss ! k) + part) (sdu_data (ss ! k)))"
    by (auto simp: queue_left_def sent_part_def advance_sdu_def)
  show "sdu_size ` set (queue_left ss k part) \<subseteq> sdu_size ` set ss"
    using assms(1) by (auto simp: queue_left_def advance_sdu_def dest: in_set_dropD)
qed

section \<open>One grant\<close>

lemma fits_receiver_queue:
  assumes sync: "um_sync t e" and few: "length (input_sdus t) \<le> 129"
    and k: "k < length (input_sdus t)" "0 < part" "part \<le> sdu_remaining_size (input_sdus t ! k)"
    and max: "sdu_max_size f = sdu_max_size e"
  shows "fits_receiver f (sent_part (input_sdus t)) (map pending (take k (input_sdus t)))
    (take part (pending (input_sdus t ! k)))"
proof -
  let ?ss = "input_sdus t"
  have ok: "\<forall>s \<in> set ?ss. sdu_ok s" "\<forall>s \<in> set ?ss. sdu_size s < 2048 \<and> int (sdu_size s) \<le> sdu_max_size e"
    and tl: "\<forall>s \<in> set (tl ?ss). sdu_segmented_size s = 0"
    using sync by (auto simp: um_sync_def tx_ok_def)
  have pend: "pending s \<noteq> [] \<and> length (pending s) < 2048 \<and> int (length (pending s)) \<le> sdu_max_size e"
    if "s \<in> set ?ss" for s
    using ok that length_pending [of s] by (fastforce simp: sdu_ok_def)
  have first: "int (length (sent_part ?ss @ hd (map pending (take k ?ss)))) \<le> sdu_max_size e" if "0 < k"
  proof -
    obtain s ss where ss: "?ss = s # ss" using k(1) by (cases ?ss) auto
    have "sent_part ?ss @ hd (map pending (take k ?ss)) = sdu_data s"
      using that by (cases k) (simp_all add: ss sent_part_def sdu_data_split)
    with ok ss show ?thesis by (auto simp: sdu_ok_def)
  qed
  have "int (length (left_over (sent_part ?ss) (map pending (take k ?ss)) @ take part (pending (?ss ! k)))) \<le> sdu_max_size e"
    unfolding left_over_queue [OF tl k(1)] using ok nth_mem [OF k(1)] by (auto simp: sdu_ok_def)
  moreover have "take part (pending (?ss ! k)) \<noteq> []" using pend [OF nth_mem [OF k(1)]] k(2) by simp
  ultimately show ?thesis
    using pend first k(1) few unfolding fits_receiver_def max by (auto dest: in_set_takeD)
qed

text \<open>The receiver takes the PDU that the sender makes.\<close>

lemma deliver_sync:
  assumes sync: "um_sync t e" and few: "length (input_sdus t) \<le> 129"
    and k: "k < length (input_sdus t)" "0 < part" "part \<le> sdu_remaining_size (input_sdus t ! k)"
  defines "ss \<equiv> input_sdus t" and "last' \<equiv> part = sdu_remaining_size (input_sdus t ! k)"
  shows "\<exists>e'. receive_tb now (header_5 (first_is_start ss) last' (0 < k) (tx_vt_us t)
        # encode_lis (pdu_lis ss k) @ pdu_bytes ss k part) e = Inr e' \<and>
    same_config e e' \<and> vr_ur e' = vr_uh e' \<and> vr_uh e' = (vr_uh e + 1) mod 32 \<and>
    last_reassemblied_sn e' = vr_uh e \<and> \<not> running e' \<and> \<not> missing_sn_detected e' \<and>
    delivered e' = delivered e @ map sdu_data (take k ss) @ (if last' then [sdu_data (ss ! k)] else []) \<and>
    partial_sdu e' = sent_part (queue_left ss k part)"
proof -
  let ?segs = "map pending (take k ss)" and ?xs = "take part (pending (ss ! k))" and ?first = "first_is_start ss"
  have s: "tx_ok t" "\<forall>s \<in> set (tl ss). sdu_segmented_size s = 0" "rx_ok e" "rx_sn_length e = 5" "vr_ur e = vr_uh e"
    "vr_uh e = uint (tx_vt_us t) mod 32" "c_rem (last_reassemblied_sn e + 1) (rx_sn_modulo e) = vr_uh e"
    "\<not> running e" "\<not> missing_sn_detected e" "partial_sdu e = sent_part ss"
    using sync by (simp_all add: um_sync_def ss_def sent_part_def)
  have oks: "\<forall>s \<in> set ss. sdu_ok s" using s(1) by (simp add: tx_ok_def ss_def)
  have k': "k < length ss" using k(1) by (simp add: ss_def)
  have "map length ?segs = pdu_lis ss k" using oks by (auto simp: pdu_lis_def dest: in_set_takeD)
  moreover have "(?segs \<noteq> []) = (0 < k)" using k' by auto
  ultimately have pdu: "header_5 ?first last' (0 < k) (tx_vt_us t) # encode_lis (pdu_lis ss k) @ pdu_bytes ss k part
      = sender_pdu ?first last' (tx_vt_us t) ?segs ?xs"
    by (simp only: sender_pdu_def pdu_bytes_def)
  have acc: "(if ?first then [] else sent_part ss) = sent_part ss"
    using oks by (auto simp: first_is_start_def sent_part_def sdu_ok_def split: list.splits)
  have data: "sdu_segmented_size (ss ! k) + sdu_remaining_size (ss ! k) = length (sdu_data (ss ! k))"
    using oks nth_mem [OF k'] by (auto simp: sdu_ok_def)
  have last': "(part = sdu_remaining_size (ss ! k)) = last'" by (simp add: last'_def ss_def)
  then have whole: "last' \<Longrightarrow> take (sdu_segmented_size (ss ! k) + part) (sdu_data (ss ! k)) = sdu_data (ss ! k)"
    using data by auto
  note shape = queue_left_shape [OF k' s(2) k(3) [folded ss_def] oks]
  have m: "rx_sn_modulo e = 32" using s(3,4) by (auto simp: rx_ok_def rx_vars_ok_def rx_configured_def)
  let ?R = "\<lambda>d p miss. d = delivered e @ map sdu_data (take k ss) @ (if last' then [sdu_data (ss ! k)] else []) \<and>
      p = sent_part (queue_left ss k part) \<and> \<not> miss"
  have consume: "\<exists>f'. consume_pdu (sender_pdu ?first last' (tx_vt_us t) ?segs ?xs) f = Inr f' \<and> kept f f' \<and>
      ?R (delivered f') (partial_sdu f') (missing_sn_detected f')"
    if f: "rx_sn_length f = rx_sn_length e" "partial_sdu f = partial_sdu e" "delivered f = delivered e"
      "missing_sn_detected f = missing_sn_detected e" "sdu_max_size f = sdu_max_size e" for f
  proof -
    have fit: "fits_receiver f (if ?first then [] else partial_sdu f) ?segs ?xs"
      using fits_receiver_queue [OF sync few k f(5)] unfolding f(2) s(10) acc by (simp add: ss_def)
    have miss: "?first \<or> \<not> missing_sn_detected f" using f(4) s(9) by simp
    from f(1) s(4) have "rx_sn_length f = 5" by simp
    from consume_sender_pdu [OF this miss fit, of last' "tx_vt_us t"] obtain f' where
      f': "consume_pdu (sender_pdu ?first last' (tx_vt_us t) ?segs ?xs) f = Inr f'" "kept f f'"
      "delivered f' = delivered e @ map sdu_data (take k ss) @
         (if last' then [take (sdu_segmented_size (ss ! k) + part) (sdu_data (ss ! k))] else [])"
      "partial_sdu f' = (if last' then [] else take (sdu_segmented_size (ss ! k) + part) (sdu_data (ss ! k)))"
      "\<not> missing_sn_detected f'"
      unfolding f(2,3) s(10) acc completed_queue [OF s(2)] left_over_queue [OF s(2) k'] by blast
    from f' whole show ?thesis unfolding shape(2) last' by (intro exI [of _ f']) simp
  qed
  have "pdu_sn e (sender_pdu ?first last' (tx_vt_us t) ?segs ?xs) = Inr (vr_uh e)"
    using decode_header_5(2) [OF s(4)] s(6) by (simp add: sender_pdu_def)
  moreover have "sender_pdu ?first last' (tx_vt_us t) ?segs ?xs \<noteq> []" by (simp add: sender_pdu_def)
  ultimately have "\<exists>e'. receive_tb now (sender_pdu ?first last' (tx_vt_us t) ?segs ?xs) e = Inr e' \<and>
      same_config e e' \<and> vr_ur e' = vr_uh e' \<and> vr_uh e' = (vr_uh e + 1) mod rx_sn_modulo e \<and>
      last_reassemblied_sn e' = vr_uh e \<and> \<not> running e' \<and>
      ?R (delivered e') (partial_sdu e') (missing_sn_detected e')"
    by (intro receive_in_order [OF s(3,5,8) _ s(7) _ consume])
  then obtain e' where "receive_tb now (sender_pdu ?first last' (tx_vt_us t) ?segs ?xs) e = Inr e'"
    "same_config e e'" "vr_ur e' = vr_uh e'" "vr_uh e' = (vr_uh e + 1) mod rx_sn_modulo e"
    "last_reassemblied_sn e' = vr_uh e" "\<not> running e'"
    "?R (delivered e') (partial_sdu e') (missing_sn_detected e')" by blast
  then show ?thesis unfolding pdu m by (intro exI [of _ e']) (intro conjI; simp only: not_False_eq_True)
qed

lemma sync_after:
  assumes sync: "um_sync t e" and k: "k < length (input_sdus t)" "part \<le> sdu_remaining_size (input_sdus t ! k)"
    and t': "input_sdus t' = queue_left (input_sdus t) k part" "tx_len t' = tx_len t" "tx_state t' = tx_state t"
      "tx_header_min_length t' = tx_header_min_length t" "pdus_to_mac_layer t' = []" "tx_vt_us t' = tx_vt_us t + 1"
      "buffer_occupancy t' = buffer_occupancy t - int (length (pdu_bytes (input_sdus t) k part))"
    and e': "rx_ok e'" "same_config e e'" "vr_ur e' = vr_uh e'" "vr_uh e' = (vr_uh e + 1) mod 32"
      "last_reassemblied_sn e' = vr_uh e" "\<not> running e'" "\<not> missing_sn_detected e'"
      "partial_sdu e' = sent_part (queue_left (input_sdus t) k part)"
  shows "um_sync t' e'"
proof -
  let ?ss = "input_sdus t"
  have s: "tx_ok t" "\<forall>s \<in> set (tl ?ss). sdu_segmented_size s = 0" "vr_uh e = uint (tx_vt_us t) mod 32"
    "rx_sn_length e = 5" "rx_ok e" "\<forall>s \<in> set ?ss. sdu_size s < 2048 \<and> int (sdu_size s) \<le> sdu_max_size e"
    using sync by (simp_all add: um_sync_def)
  have oks: "\<forall>s \<in> set ?ss. sdu_ok s" using s(1) by (simp add: tx_ok_def)
  note shape = queue_left_shape [OF k(1) s(2) k(2) oks]
  have sizes: "\<forall>s \<in> set (queue_left ?ss k part). sdu_size s < 2048 \<and> int (sdu_size s) \<le> sdu_max_size e'"
  proof
    fix q assume "q \<in> set (queue_left ?ss k part)"
    then obtain q' where "q' \<in> set ?ss" "sdu_size q = sdu_size q'" using shape(3) by blast
    with s(6) e'(2) show "sdu_size q < 2048 \<and> int (sdu_size q) \<le> sdu_max_size e'"
      by (simp add: sdu_max_size_def)
  qed
  have m: "rx_sn_modulo e' = 32" using s(4,5) e'(2) by (auto simp: rx_ok_def rx_vars_ok_def rx_configured_def)
  have "uint (tx_vt_us t + 1) mod 32 = (vr_uh e + 1) mod 32"
  proof -
    have "uint (tx_vt_us t + 1) mod 32 = (uint (tx_vt_us t) + 1) mod 2 ^ 16 mod 32"
      by (simp add: uint_word_ariths)
    also have "\<dots> = (uint (tx_vt_us t) + 1) mod 32" by (rule mod_mod_cancel) simp
    finally show ?thesis unfolding s(3) by (simp add: mod_add_left_eq)
  qed
  moreover have "c_rem (last_reassemblied_sn e' + 1) 32 = (vr_uh e + 1) mod 32"
    unfolding e'(5) s(3) by simp
  moreover have "tx_ok t'" using tx_ok_left [OF s(1) k t'(1,2,4,7)] .
  ultimately show ?thesis
    using sync sizes shape(1) e' t' s(4) m by (simp add: um_sync_def sent_part_def)
qed

lemma um_syncD:
  assumes "um_sync t e"
  shows "tx_ok t" "tx_len t = 5" "tx_state t = RLC_DATA_TRANSFER_READY_STATE" "pdus_to_mac_layer t = []"
    "rx_ok e" "rx_sn_length e = 5" "protocol_state e = RLC_DATA_TRANSFER_READY_STATE" "\<not> running e"
  using assms by (simp_all add: um_sync_def)

lemma um_sync_nb [simp]: "um_sync (t\<lparr>nb_bytes_requested_by_mac := nb\<rparr>) e = um_sync t e"
  by (simp add: um_sync_def tx_ok_def)

lemma grant_sync:
  assumes sync: "um_sync t e" and few: "length (input_sdus t) \<le> 129" and nb: "sint nb < 2 ^ 15"
  shows "\<exists>t' pdus e'. rlc_um_mac_data_request fresh (rlc_um_set_nb_bytes_requested_by_mac nb t) = Inr (pdus, t') \<and>
    rlc_um_mac_data_indication now lock_free pdus e = Inr e' \<and> um_sync t' e' \<and> sdu_max_size e' = sdu_max_size e \<and> length (input_sdus t') \<le> length (input_sdus t) \<and>
    delivered e' @ map sdu_data (input_sdus t') = delivered e @ map sdu_data (input_sdus t) \<and>
    (2 \<le> sint nb \<and> input_sdus t \<noteq> [] \<longrightarrow> queue_bytes (input_sdus t') < queue_bytes (input_sdus t))"
proof -
  let ?t = "t\<lparr>nb_bytes_requested_by_mac := nb\<rparr>" and ?ss = "input_sdus t"
  note s = um_syncD [OF sync]
  have get: "rlc_um_get_pdus fresh ?t = rlc_um_segment_5 fresh ?t"
    using s(2,3) by (simp add: rlc_um_get_pdus_def)
  show ?thesis
  proof (cases "2 \<le> sint nb \<and> ?ss \<noteq> []")
    case False
    then have "rlc_um_segment_5 fresh ?t = Inr ?t" by (auto simp: rlc_um_segment_5_def)
    with get s(4) have "rlc_um_mac_data_request fresh ?t = Inr ([], ?t)"
      by (simp add: rlc_um_mac_data_request_def)
    with False sync show ?thesis
      by (intro exI [of _ ?t] exI [of _ "[]"] exI [of _ e])
         (auto simp: rlc_um_set_nb_bytes_requested_by_mac_def rlc_um_mac_data_indication_def rlc_um_rx_def
           rlc_um_check_timer_dar_time_out_def rlc_um_receive_def s(7,8))
  next
    case True
    have "tx_ok ?t" using s(1) by (simp add: tx_ok_def)
    from segment_5_spec [OF this, of fresh] s(2) True obtain k part pdu where
      k: "k < length ?ss" "0 < part" "part \<le> sdu_remaining_size (?ss ! k)"
      and pdu: "pdu = header_5 (first_is_start ?ss) (part = sdu_remaining_size (?ss ! k)) (0 < k) (tx_vt_us t)
         # encode_lis (pdu_lis ?ss k) @ pdu_bytes ?ss k part"
      and len: "int (length pdu) \<le> sint nb" and seg: "rlc_um_segment_5 fresh ?t = Inr (sent ?t k part pdu)"
      by (auto simp: Let_def)
    let ?t1 = "(sent ?t k part pdu)\<lparr>pdus_to_mac_layer := []\<rparr>"
    have "sint (of_nat (length pdu) :: 16 word) = int (length pdu)"
      using len nb by (simp add: signed_of_nat signed_take_bit_int_eq_self)
    then obtain t' where t': "count_tx pdu ?t1 = Inr t'" "input_sdus t' = queue_left ?ss k part"
      "tx_len t' = tx_len t" "tx_state t' = tx_state t" "tx_header_min_length t' = tx_header_min_length t"
      "pdus_to_mac_layer t' = []" "tx_vt_us t' = tx_vt_us t + 1"
      "buffer_occupancy t' = buffer_occupancy t - int (length (pdu_bytes ?ss k part))"
      by (auto simp: count_tx_def sent_def pdu)
    have req: "rlc_um_mac_data_request fresh ?t = Inr ([pdu], t')"
      using get seg s(4) t'(1) by (simp add: rlc_um_mac_data_request_def sent_def)
    from deliver_sync [OF sync few k, of now, folded pdu] obtain e' where
      e': "receive_tb now pdu e = Inr e'" "same_config e e'" "vr_ur e' = vr_uh e'" "vr_uh e' = (vr_uh e + 1) mod 32"
      "last_reassemblied_sn e' = vr_uh e" "\<not> running e'" "\<not> missing_sn_detected e'"
      "delivered e' = delivered e @ map sdu_data (take k ?ss) @
        (if part = sdu_remaining_size (?ss ! k) then [sdu_data (?ss ! k)] else [])"
      "partial_sdu e' = sent_part (queue_left ?ss k part)" by blast
    have ok: "rx_ok e'" using receive_tb_ok [OF s(5) e'(1)] .
    have max: "sdu_max_size e' = sdu_max_size e" using e'(2) by (simp add: sdu_max_size_def)
    have "um_sync t' e'" by (rule sync_after [OF sync k(1,3) t'(2-8) ok e'(2-7,9)])
    moreover have "delivered e' @ map sdu_data (input_sdus t') = delivered e @ map sdu_data ?ss"
      using queue_left_data [OF k(1) refl, of part] unfolding e'(8) t'(2) by simp
    moreover have "queue_bytes (input_sdus t') < queue_bytes ?ss"
      using queue_left_bytes [OF k(1,3)] k(2) unfolding t'(2) by linarith
    ultimately show ?thesis
      using req e'(1) queue_left_length [OF k(1), of part] t'(2) max
      by (intro exI [of _ t'] exI [of _ "[pdu]"] exI [of _ e'])
         (simp add: rlc_um_set_nb_bytes_requested_by_mac_def rlc_um_mac_data_indication_def rlc_um_rx_def
           rlc_um_check_timer_dar_time_out_def rlc_um_receive_def s(7) e'(6))
  qed
qed

end
