(* ===== verification/RlcUmSending.thy ===== *)
theory RlcUmSending
  imports RlcUmLink
begin

text \<open>
  The properties of the transmitting side of an unacknowledged-mode entity: the PDU of a request, what its
  header says, the bytes that it carries beyond its SDUs, and the report to the scheduler.
\<close>

section \<open>A queue for the examples\<close>

definition um_sender :: "nat \<Rightarrow> u8 list list \<Rightarrow> um_tx" where
  "um_sender sn_len payloads =
     \<lparr>tx_state = RLC_DATA_TRANSFER_READY_STATE, tx_len = sn_len, tx_header_min_length = header_bytes sn_len,
      tx_vt_us = 0, input_sdus = map (new_sdu 0) payloads, buffer_occupancy = int (sum_list (map length payloads)),
      nb_bytes_requested_by_mac = 0, pdus_to_mac_layer = [], stat_tx_pdcp_sdu = 0, stat_tx_pdcp_bytes = 0,
      stat_tx_data_pdu = 0, stat_tx_data_bytes = 0\<rparr>"

section \<open>The PDU of a request\<close>

text \<open>C34.
  A request for more bytes than the header has, to a sender with SDUs to send, makes one PDU. It is not empty
  and not longer than the request, whichever length the sequence numbers have, and neither the counting nor
  the copying fails. The buffer occupancy stays the number of bytes in the queue, every SDU of the queue still
  has bytes to send, the queue gets shorter in bytes, and the sequence number goes up by one.
\<close>

theorem rlc_um_get_pdus_fits:
  assumes ok: "tx_ok t" and ready: "tx_state t = RLC_DATA_TRANSFER_READY_STATE" and ne: "input_sdus t \<noteq> []"
    and nb: "int (header_bytes (tx_len t)) < sint nb"
  shows "\<exists>t' pdu. rlc_um_get_pdus fresh (rlc_um_set_nb_bytes_requested_by_mac nb t) = Inr t' \<and>
    pdus_to_mac_layer t' = pdus_to_mac_layer t @ [pdu] \<and> pdu \<noteq> [] \<and> int (length pdu) \<le> sint nb \<and>
    tx_ok t' \<and> tx_vt_us t' = tx_vt_us t + 1 \<and> queue_bytes (input_sdus t') < queue_bytes (input_sdus t)"
proof -
  let ?t = "t\<lparr>nb_bytes_requested_by_mac := nb\<rparr>" and ?ss = "input_sdus t"
  have ok': "tx_ok ?t" and len: "tx_len t \<in> {5, 10}" using ok by (simp_all add: tx_ok_def)
  have "\<exists>k part pdu. k < length ?ss \<and> 0 < part \<and> part \<le> sdu_remaining_size (?ss ! k) \<and> pdu \<noteq> [] \<and>
      int (length pdu) \<le> sint nb \<and> rlc_um_get_pdus fresh ?t = Inr (sent ?t k part pdu)"
  proof (cases "tx_len t = 5")
    case True
    with nb ne segment_5_spec [OF ok', of fresh] obtain k part pdu where
      "k < length ?ss" "0 < part" "part \<le> sdu_remaining_size (?ss ! k)"
      and pdu: "pdu = header_5 (first_is_start ?ss) (part = sdu_remaining_size (?ss ! k)) (0 < k) (tx_vt_us t)
         # encode_lis (pdu_lis ?ss k) @ pdu_bytes ?ss k part"
      "int (length pdu) \<le> sint nb" "rlc_um_segment_5 fresh ?t = Inr (sent ?t k part pdu)"
      by (auto simp: header_bytes_def Let_def)
    moreover have "pdu \<noteq> []" unfolding pdu(1) by simp
    ultimately show ?thesis using ready True
      by (intro exI [of _ k] exI [of _ part] exI [of _ pdu]) (simp add: rlc_um_get_pdus_def sent_def)
  next
    case False
    with len have ten: "tx_len t = 10" by simp
    with nb ne segment_10_spec [OF ok', of fresh] obtain k part slack pdu where
      k: "k < length ?ss" "0 < part" "part \<le> sdu_remaining_size (?ss ! k)"
      and pdu: "pdu = header_10 (first_is_start ?ss) (part = sdu_remaining_size (?ss ! k)) (0 < k) (tx_vt_us t)
         @ encode_lis (pdu_lis ?ss k) @ pdu_bytes ?ss k part" "int (length pdu + slack) \<le> sint nb"
        "rlc_um_segment_10 fresh ?t = Inr (sent ?t k part (pdu @ drop (length pdu) (new_pdu fresh (length pdu + slack))))"
      by (auto simp: header_bytes_def Let_def)
    moreover have "pdu \<noteq> []" unfolding pdu(1) by (simp add: header_10_def)
    ultimately show ?thesis using ready ten
      by (intro exI [of _ k] exI [of _ part] exI [of _ "pdu @ drop (length pdu) (new_pdu fresh (length pdu + slack))"])
         (auto simp: rlc_um_get_pdus_def new_pdu_def sent_def)
  qed
  then obtain k part pdu where
    k: "k < length ?ss" "0 < part" "part \<le> sdu_remaining_size (?ss ! k)" and pdu: "pdu \<noteq> []" "int (length pdu) \<le> sint nb"
    and run: "rlc_um_get_pdus fresh ?t = Inr (sent ?t k part pdu)" by blast
  have "tx_ok (sent ?t k part pdu)" using k(1,3) by (intro tx_ok_left [OF ok]) (simp_all add: sent_def)
  moreover have "queue_bytes (queue_left ?ss k part) < queue_bytes ?ss"
    using queue_left_bytes [OF k(1,3)] k(2) by linarith
  ultimately show ?thesis using run pdu
    by (intro exI [of _ "sent ?t k part pdu"] exI [of _ pdu])
       (simp add: rlc_um_set_nb_bytes_requested_by_mac_def sent_def)
qed

lemma rlc_um_get_pdus_fits_witness:
  "\<exists>t' pdu. rlc_um_get_pdus (\<lambda>_. 0xEE) (rlc_um_set_nb_bytes_requested_by_mac 6 (um_sender 10 [[1, 2, 3], [4, 5]])) = Inr t' \<and>
    pdus_to_mac_layer t' = [pdu] \<and> length pdu \<le> 6 \<and> queue_bytes (input_sdus t') < 5"
proof -
  let ?t = "um_sender 10 [[1, 2, 3], [4, 5]]"
  have "tx_ok ?t" "tx_state ?t = RLC_DATA_TRANSFER_READY_STATE" "input_sdus ?t \<noteq> []"
    "int (header_bytes (tx_len ?t)) < sint (6 :: u32)"
    by (simp_all add: um_sender_def tx_ok_def new_sdu_def sdu_ok_def header_bytes_def)
  note fits = rlc_um_get_pdus_fits [OF this, of "\<lambda>_. 0xEE"]
  have "pdus_to_mac_layer ?t = []" "queue_bytes (input_sdus ?t) = 5"
    by (simp_all add: um_sender_def new_sdu_def)
  moreover have "sint (6 :: u32) = 6" by simp
  ultimately show ?thesis using fits by force
qed

text \<open>C17.
  The receiver reads back what the sender wrote, for sequence numbers of 5 bits. The PDU of a request has the
  low 5 bits of the sender's number, says whether it starts and ends with an SDU, and its length indicators
  are the sizes of the \<open>k\<close> SDUs that end before its last segment, in their order. The data starts where the
  receiver looks for it and holds the bytes of these SDUs and of a segment of the next one. The SDUs have less
  than 2048 bytes and the queue has at most 129.
\<close>

theorem rlc_um_pdu_roundtrip:
  assumes ok: "tx_ok t" and len: "tx_len t = 5" "rx_sn_length e = 5" and ne: "input_sdus t \<noteq> []"
    and nb: "2 \<le> sint (nb_bytes_requested_by_mac t)"
    and small: "\<forall>s \<in> set (input_sdus t). sdu_size s < 2048" and few: "length (input_sdus t) \<le> 129"
  shows "\<exists>k part t' pdu. k < length (input_sdus t) \<and> 0 < part \<and> part \<le> sdu_remaining_size (input_sdus t ! k) \<and>
    rlc_um_segment_5 fresh t = Inr t' \<and> pdus_to_mac_layer t' = pdus_to_mac_layer t @ [pdu] \<and>
    pdu_sn e pdu = Inr (uint (tx_vt_us t) mod 32) \<and>
    pdu_header e pdu =
      Inr (0 < k, framing_info (first_is_start (input_sdus t)) (part = sdu_remaining_size (input_sdus t ! k)), 1) \<and>
    (let off = 1 + (3 * k + 1) div 2 in
       (0 < k \<longrightarrow> rlc_um_read_length_indicators pdu 1 (int (length pdu) - 1) =
          Inr (Some (map sdu_remaining_size (take k (input_sdus t)), int off, int part))) \<and>
       drop off pdu = concat (map pending (take k (input_sdus t))) @ take part (pending (input_sdus t ! k)))"
proof -
  let ?ss = "input_sdus t"
  from segment_5_spec [OF ok len(1) ne nb, of fresh] obtain k part pdu where
    k: "k < length ?ss" "0 < part" "part \<le> sdu_remaining_size (?ss ! k)"
    and pdu: "pdu = header_5 (first_is_start ?ss) (part = sdu_remaining_size (?ss ! k)) (0 < k) (tx_vt_us t)
       # encode_lis (pdu_lis ?ss k) @ pdu_bytes ?ss k part"
    and seg: "rlc_um_segment_5 fresh t = Inr (sent t k part pdu)" by (auto simp: Let_def)
  let ?h = "header_5 (first_is_start ?ss) (part = sdu_remaining_size (?ss ! k)) (0 < k) (tx_vt_us t)"
  let ?lis = "pdu_lis ?ss k" and ?data = "pdu_bytes ?ss k part"
  have oks: "\<forall>s \<in> set ?ss. sdu_ok s" using ok by (simp add: tx_ok_def)
  have lis: "length ?lis = k" using k(1) by (simp add: pdu_lis_def)
  note data = length_pdu_bytes [OF oks k(1,3)]
  have "rlc_um_read_length_indicators pdu 1 (int (length pdu) - 1)
      = Inr (Some (?lis, int (1 + (3 * k + 1) div 2), int part))" if "0 < k"
  proof -
    have "\<forall>li \<in> set ?lis. li < 2048"
    proof
      fix li assume "li \<in> set ?lis"
      then obtain s where "s \<in> set ?ss" "li = sdu_remaining_size s" by (auto simp: pdu_lis_def dest: in_set_takeD)
      with oks small show "li < 2048" by (fastforce simp: sdu_ok_def)
    qed
    then have "read_lis ([?h] @ encode_lis ?lis @ ?data) (int (length [?h])) [] sz
        = Inr (True, [] @ ?lis, sz - li_cost ?lis)" for sz
      using that lis k(1) few
      by (intro read_lis_encoded) (auto simp: RLC_UM_SEGMENT_NB_MAX_LI_PER_PDU_def)
    moreover have "int (length pdu) - 1 - li_cost ?lis = int part"
      unfolding pdu li_cost_def using data by (simp add: length_encode_lis lis)
    ultimately show ?thesis
      using k(2) lis by (simp add: rlc_um_read_length_indicators_def pdu zdiv_int mult.commute)
  qed
  moreover have "drop (1 + (3 * k + 1) div 2) pdu = ?data"
    by (simp add: pdu length_encode_lis lis)
  moreover note decode_header_5 [OF len(2), of "first_is_start ?ss" "part = sdu_remaining_size (?ss ! k)" "0 < k" "tx_vt_us t",
    of "encode_lis ?lis @ ?data", folded pdu]
  ultimately show ?thesis using k seg
    by (intro exI [of _ k] exI [of _ part] exI [of _ "sent t k part pdu"] exI [of _ pdu])
       (simp add: sent_def pdu_lis_def pdu_bytes_def Let_def)
qed

lemma rlc_um_pdu_roundtrip_witness:
  "\<exists>t' pdu. rlc_um_segment_5 (\<lambda>_. 0xEE) (um_sender 5 [[1, 2, 3], [4, 5]]\<lparr>nb_bytes_requested_by_mac := 20\<rparr>) = Inr t' \<and>
    pdus_to_mac_layer t' = [pdu] \<and> pdu_sn (um_entity 5) pdu = Inr 0"
proof -
  let ?t = "um_sender 5 [[1, 2, 3], [4, 5]]\<lparr>nb_bytes_requested_by_mac := 20\<rparr>"
  have "tx_ok ?t" "tx_len ?t = 5" "input_sdus ?t \<noteq> []" "2 \<le> sint (nb_bytes_requested_by_mac ?t)"
    "\<forall>s \<in> set (input_sdus ?t). sdu_size s < 2048" "length (input_sdus ?t) \<le> 129"
    by (simp_all add: um_sender_def tx_ok_def new_sdu_def sdu_ok_def header_bytes_def)
  moreover have "rx_sn_length (um_entity 5) = 5" using configured_entity(9) [OF _ um_entity [of 5]] by simp
  ultimately obtain t' pdu where "rlc_um_segment_5 (\<lambda>_. 0xEE) ?t = Inr t'"
    "pdus_to_mac_layer t' = pdus_to_mac_layer ?t @ [pdu]" "pdu_sn (um_entity 5) pdu = Inr (uint (tx_vt_us ?t) mod 32)"
    using rlc_um_pdu_roundtrip [of ?t "um_entity 5" "\<lambda>_. 0xEE"] by blast
  then show ?thesis by (intro exI [of _ t'] exI [of _ pdu]) (simp add: um_sender_def)
qed

section \<open>Bytes that no SDU has\<close>

text \<open>
  With sequence numbers of 10 bits a PDU can end with bytes of the fresh block. The first SDU \<open>s\<close> is not sent
  in part, another one follows it, and the request has room for the header, for \<open>s\<close> and for two bytes
  more, which are just a length indicator. Then the indicator is left out, but the size of the PDU is not reduced
  by it, as it is for 5 bits: the PDU holds \<open>s\<close> and two bytes of what was in memory before. Its header says
  that it is one whole SDU, and a receiver delivers \<open>s\<close> with the two bytes at its end.
\<close>

theorem rlc_um_segment_10_pads:
  assumes ok: "tx_ok t" and len: "tx_len t = 10" "rx_sn_length e = 10"
    and queue: "input_sdus t = s # s' # ss" and whole: "sdu_segmented_size s = 0" "2 \<le> sdu_size s"
    and nb: "sint (nb_bytes_requested_by_mac t) = int (sdu_size s) + 4" and max: "int (sdu_size s) + 2 \<le> sdu_max_size e"
  shows "\<exists>t' pdu e'. rlc_um_segment_10 fresh t = Inr t' \<and> pdus_to_mac_layer t' = pdus_to_mac_layer t @ [pdu] \<and>
    pdu = header_10 True True False (tx_vt_us t) @ sdu_data s @ [fresh (sdu_size s + 2), fresh (sdu_size s + 3)] \<and>
    input_sdus t' = s' # ss \<and> consume_pdu pdu e = Inr e' \<and>
    delivered e' = delivered e @ [sdu_data s @ [fresh (sdu_size s + 2), fresh (sdu_size s + 3)]]"
proof -
  let ?r = "sdu_size s" and ?g = "[fresh (sdu_size s + 2), fresh (sdu_size s + 3)]"
  have oks: "sdu_ok s" "sdu_ok s'" using ok by (simp_all add: tx_ok_def queue)
  then have s: "sdu_remaining_size s = ?r" "length (sdu_data s) = ?r" "pending s = sdu_data s" "0 < sdu_remaining_size s'"
    using whole(1) by (simp_all add: sdu_ok_def pending_def)
  have ne: "input_sdus t \<noteq> []" and nb': "3 \<le> sint (nb_bytes_requested_by_mac t)"
    using queue nb whole(2) by simp_all
  from segment_10_spec [OF ok len(1) ne nb', of fresh] obtain k part slack pdu where
    k: "k < length (input_sdus t)" "0 < part" "part \<le> sdu_remaining_size (input_sdus t ! k)" "slack \<le> 2"
    and pdu: "pdu = header_10 (first_is_start (input_sdus t)) (part = sdu_remaining_size (input_sdus t ! k)) (0 < k) (tx_vt_us t)
         @ encode_lis (pdu_lis (input_sdus t) k) @ pdu_bytes (input_sdus t) k part"
    and size: "pdu_size t = int (length pdu + slack)"
    and seg: "rlc_um_segment_10 fresh t = Inr (sent t k part (pdu @ drop (length pdu) (new_pdu fresh (length pdu + slack))))"
    by (auto simp: Let_def)
  have "pdu_size t = int ?r + 4"
    using pdu_size_eq [OF ok ne] nb room_queue [OF ne] s(1,4) len(1) by (simp add: queue header_bytes_def)
  moreover have len_pdu: "length pdu = 2 + lead 1 (take k (input_sdus t)) + part"
    using pdu_length [OF ok k(1,3)] by (simp add: pdu header_10_def)
  ultimately have sum: "lead 1 (take k (input_sdus t)) + part + slack = ?r + 2" using size by linarith
  have k0: "k = 0"
  proof (rule ccontr)
    assume "k \<noteq> 0"
    then obtain j where "k = Suc j" by (cases k) auto
    with sum k(2) s(1) show False by (simp add: queue)
  qed
  then have part: "part = ?r" "slack = 2" using sum k(3,4) s(1) by (simp_all add: queue)
  have pdu': "pdu = header_10 True True False (tx_vt_us t) @ sdu_data s"
    using s by (simp add: pdu k0 part queue first_is_start_def pdu_lis_def pdu_bytes_def)
  have "[0..<?r + 2 + 2] = [0..<?r + 2] @ [?r + 2, ?r + 3]" by (simp add: numeral_eq_Suc)
  then have garbage: "drop (length pdu) (new_pdu fresh (length pdu + slack)) = ?g"
    using whole(2) s(2) by (simp add: new_pdu_def pdu' part header_10_def eval_nat_numeral)
  let ?pdu = "header_10 True True False (tx_vt_us t) @ sdu_data s @ ?g"
  have "fits_receiver e [] [] (sdu_data s @ ?g)"
    using max s(2) by (simp add: fits_receiver_def left_over_def)
  with consume_plain_ok [of e True "sdu_data s @ ?g" "header_10 True True False (tx_vt_us t)" True]
  obtain e' where e': "consume_plain ?pdu (framing_info True True) 2 (int (length (sdu_data s @ ?g))) e = Inr e'"
    "delivered e' = delivered e @ [sdu_data s @ ?g]" by (auto simp: header_10_def)
  have "consume_pdu ?pdu e = Inr e'"
    using e'(1) decode_header_10(1) [OF len(2), of True True False "tx_vt_us t" "sdu_data s @ ?g"]
    by (simp add: consume_pdu_def header_10_def)
  moreover have "rlc_um_segment_10 fresh t = Inr (sent t k part ?pdu)"
    using seg unfolding garbage unfolding pdu' append_assoc .
  ultimately show ?thesis using e'(2)
    by (intro exI [of _ "sent t k part ?pdu"] exI [of _ ?pdu] exI [of _ e'])
       (simp add: k0 part s(1) queue sent_def queue_left_def)
qed

lemma rlc_um_segment_10_pads_witness:
  "\<exists>t' e'. rlc_um_segment_10 (\<lambda>_. 0xEE) (um_sender 10 [[1, 2, 3], [4, 5]]\<lparr>nb_bytes_requested_by_mac := 7\<rparr>) = Inr t' \<and>
    pdus_to_mac_layer t' = [[0, 0, 1, 2, 3, 0xEE, 0xEE]] \<and>
    consume_pdu [0, 0, 1, 2, 3, 0xEE, 0xEE] (um_entity 10) = Inr e' \<and> delivered e' = [[1, 2, 3, 0xEE, 0xEE]]"
proof -
  let ?t = "um_sender 10 [[1, 2, 3], [4, 5]]\<lparr>nb_bytes_requested_by_mac := 7\<rparr>" and ?s = "new_sdu 0 [1, 2, 3]"
  note e = configured_entity [OF _ um_entity [of 10]]
  have "tx_ok ?t" "tx_len ?t = 10" "input_sdus ?t = ?s # new_sdu 0 [4, 5] # []" "sdu_segmented_size ?s = 0" "2 \<le> sdu_size ?s"
    "sint (nb_bytes_requested_by_mac ?t) = int (sdu_size ?s) + 4"
    by (simp_all add: um_sender_def tx_ok_def new_sdu_def sdu_ok_def header_bytes_def)
  moreover have "rx_sn_length (um_entity 10) = 10" "int (sdu_size ?s) + 2 \<le> sdu_max_size (um_entity 10)"
    using e(9,12) by (simp_all add: sdu_max_size_def new_sdu_def)
  ultimately obtain t' pdu e' where w: "rlc_um_segment_10 (\<lambda>_. 0xEE) ?t = Inr t'"
    "pdus_to_mac_layer t' = pdus_to_mac_layer ?t @ [pdu]"
    "pdu = header_10 True True False (tx_vt_us ?t) @ sdu_data ?s @ [0xEE, 0xEE]"
    "consume_pdu pdu (um_entity 10) = Inr e'" "delivered e' = delivered (um_entity 10) @ [sdu_data ?s @ [0xEE, 0xEE]]"
    using rlc_um_segment_10_pads [of ?t "um_entity 10" ?s "new_sdu 0 [4, 5]" "[]" "\<lambda>_. 0xEE"] by blast
  have "pdu = [0, 0, 1, 2, 3, 0xEE, 0xEE]" unfolding w(3)
    by (simp add: um_sender_def new_sdu_def header_10_def framing_info_def)
  with w e(7) show ?thesis
    by (intro exI [of _ t'] exI [of _ e']) (simp add: um_sender_def new_sdu_def)
qed

section \<open>The report to the scheduler\<close>

lemma sint_small_diff:
  fixes a b :: u32
  assumes "a < 1024" and "b < 1024"
  shows "sint (a - b) = uint a - uint b"
proof -
  have "uint a < 1024" "uint b < 1024" using assms by (simp_all add: word_less_def)
  moreover have "0 \<le> uint a" "0 \<le> uint b" by (rule uint_ge_0)+
  ultimately have "- 2147483648 \<le> uint a - uint b" "uint a - uint b < 2147483648" by linarith+
  then have "signed_take_bit 31 (uint a - uint b) = uint a - uint b"
    by (intro signed_take_bit_int_eq_self) simp_all
  moreover have "a - b = word_of_int (uint a - uint b)" by simp
  ultimately show ?thesis by (simp only: signed_of_int) simp
qed

lemma head_sdu_age_small:
  assumes "frame < 1024" and "sdu_creation_time s < 1024"
  shows "head_sdu_age frame s = (if sdu_creation_time s < frame then frame - sdu_creation_time s
    else if sdu_creation_time s = frame then frame - 1 else sdu_creation_time s - 1)"
proof -
  have "0 < sint (frame - sdu_creation_time s) \<longleftrightarrow> sdu_creation_time s < frame"
    using sint_small_diff [OF assms] by (simp add: word_less_def)
  moreover have "0xFFFFFFFF - (frame - sdu_creation_time s) + frame = sdu_creation_time s - 1" by simp
  ultimately show ?thesis by (auto simp: head_sdu_age_def Let_def)
qed

text \<open>
  What the report says of the first SDU of the queue. The occupancy counts the bytes of the queue, with the size
  of a header for an eNB. The age of the SDU is right only when its frame is before the present one:
  an SDU of the present frame is reported with the age of the frame number minus one (2^32 - 1 in frame 0), and
  after the frame numbers have started again from 0 the age is the creation time minus one and no longer depends
  on the present frame.
\<close>

theorem rlc_um_status_report:
  assumes ok: "tx_ok t" and queue: "input_sdus t = s # ss" and idle: "\<not> running e"
    and frames: "frame < 1024" "sdu_creation_time s < 1024"
  shows "\<exists>resp. rlc_um_mac_status_indication now lock_free frame tbs enb (t, e) =
      Inr (resp, t\<lparr>nb_bytes_requested_by_mac := ucast tbs\<rparr>, e) \<and>
    uint (resp_bytes resp) = int (queue_bytes (input_sdus t)) + (if enb then int (header_bytes (tx_len t)) else 0) \<and>
    resp_remaining resp = of_nat (sdu_remaining_size s) \<and>
    (resp_segmented resp \<longleftrightarrow> 0 < sdu_segmented_size s) \<and>
    resp_creation_time resp =
      (if sdu_creation_time s < frame then frame - sdu_creation_time s
       else if sdu_creation_time s = frame then frame - 1 else sdu_creation_time s - 1)"
proof -
  let ?t = "t\<lparr>nb_bytes_requested_by_mac := ucast tbs\<rparr>" and ?n = "queue_bytes (input_sdus t)"
  have s: "sdu_ok s" "buffer_occupancy t = int ?n" "tx_header_min_length t = header_bytes (tx_len t)" "?n + 2 < 2 ^ 31"
    using ok by (simp_all add: tx_ok_def queue)
  have n: "0 < ?n" using s(1) by (simp add: queue sdu_ok_def)
  let ?bo = "word_of_int (int ?n) :: u32"
  have bo: "rlc_um_get_buffer_occupancy ?t = int ?n" using s(2) n by (simp add: rlc_um_get_buffer_occupancy_def)
  have "int ?n < 2 ^ 32" using s(4) by simp
  then have u: "uint ?bo = int ?n" by (simp only: unsigned_of_int take_bit_eq_mod) simp
  then have pos: "0 < ?bo" using n by (simp add: word_less_def)
  have sum: "uint (?bo + of_nat (header_bytes (tx_len t))) = int ?n + int (header_bytes (tx_len t))"
  proof -
    have "header_bytes (tx_len t) \<le> 2" by (simp add: header_bytes_def)
    then have "int ?n + int (header_bytes (tx_len t)) < 2 ^ 32" using s(4) by simp
    then have "uint (word_of_int (int ?n + int (header_bytes (tx_len t))) :: u32) = int ?n + int (header_bytes (tx_len t))"
      by (simp only: unsigned_of_int take_bit_eq_mod) simp
    then show ?thesis by simp
  qed
  have age: "head_sdu_age frame s = (if sdu_creation_time s < frame then frame - sdu_creation_time s
       else if sdu_creation_time s = frame then frame - 1 else sdu_creation_time s - 1)"
    using head_sdu_age_small [OF frames] .
  show ?thesis
    using idle pos bo u sum age s(1,3)
    by (auto simp: rlc_um_mac_status_indication_def rlc_um_check_timer_dar_time_out_def queue sdu_ok_def Let_def)
qed

lemma rlc_um_status_report_witness:
  "\<exists>resp. rlc_um_mac_status_indication 0 True 0 100 True (um_sender 5 [[1, 2, 3]], um_entity 5) =
      Inr (resp, um_sender 5 [[1, 2, 3]]\<lparr>nb_bytes_requested_by_mac := 100\<rparr>, um_entity 5) \<and>
    uint (resp_bytes resp) = 4 \<and> \<not> resp_segmented resp \<and> resp_creation_time resp = 0xFFFFFFFF"
proof -
  let ?t = "um_sender 5 [[1, 2, 3]]"
  have "tx_ok ?t" "input_sdus ?t = new_sdu 0 [1, 2, 3] # []"
    by (simp_all add: um_sender_def tx_ok_def new_sdu_def sdu_ok_def header_bytes_def)
  moreover have "\<not> running (um_entity 5)" using configured_entity(11) [OF _ um_entity [of 5]] by simp
  ultimately obtain resp where
    "rlc_um_mac_status_indication 0 True 0 100 True (?t, um_entity 5) =
      Inr (resp, ?t\<lparr>nb_bytes_requested_by_mac := ucast (100 :: u16)\<rparr>, um_entity 5)"
    "uint (resp_bytes resp) = int (queue_bytes (input_sdus ?t)) + int (header_bytes (tx_len ?t))"
    "resp_segmented resp \<longleftrightarrow> 0 < sdu_segmented_size (new_sdu 0 [1, 2, 3])"
    "resp_creation_time resp = 0 - 1"
    using rlc_um_status_report [of ?t "new_sdu 0 [1, 2, 3]" "[]" "um_entity 5" 0 0 True 100 True]
    by (auto simp: new_sdu_def)
  then show ?thesis
    by (intro exI [of _ resp]) (simp add: um_sender_def new_sdu_def header_bytes_def)
qed

end
