(* ===== verification/RlcUmTransfer.thy ===== *)
theory RlcUmTransfer
  imports RlcUmLink
begin

text \<open>
  The properties of the transmitting side, and of a sender and a receiver together.
\<close>

section \<open>A sender and a receiver\<close>

datatype link_event = Sdu u32 "u8 list" | Grant u32 u32

fun link_step :: "(nat \<Rightarrow> u8) \<Rightarrow> link_event \<Rightarrow> um_tx \<times> rlc_um \<Rightarrow> (um_tx \<times> rlc_um) res" where
  "link_step fresh (Sdu frame payload) (t, e) = Inr (rlc_um_data_req frame payload t, e)"
| "link_step fresh (Grant now nb) (t, e) =
     bindE (rlc_um_mac_data_request fresh (rlc_um_set_nb_bytes_requested_by_mac nb t)) (\<lambda>(pdus, t').
     bindE (rlc_um_mac_data_indication now True pdus e) (\<lambda>e'. Inr (t', e')))"

text \<open>The transmitting side of an entity after its configuration. \<open>rlc_um_init\<close> has cleared the rest.\<close>

definition new_sender :: "rlc_um \<Rightarrow> um_tx" where
  "new_sender e =
     \<lparr>tx_state = protocol_state e, tx_len = tx_sn_length e, tx_header_min_length = tx_header_min e,
      tx_vt_us = word_of_int (vt_us e), input_sdus = [], buffer_occupancy = 0, nb_bytes_requested_by_mac = 0,
      pdus_to_mac_layer = [], stat_tx_pdcp_sdu = 0, stat_tx_pdcp_bytes = 0, stat_tx_data_pdu = 0,
      stat_tx_data_bytes = 0\<rparr>"

definition offered :: "link_event list \<Rightarrow> u8 list list" where
  "offered evs = concat (map (\<lambda>ev. case ev of Sdu _ p \<Rightarrow> [p] | Grant _ _ \<Rightarrow> []) evs)"

lemma offered_simps [simp]:
  "offered [] = []" "offered (Sdu f p # evs) = p # offered evs" "offered (Grant now nb # evs) = offered evs"
  "offered (evs @ evs') = offered evs @ offered evs'" "offered (replicate j (Grant now nb)) = []"
  by (simp_all add: offered_def)

text \<open>
  The events of the theorem: SDUs of 1 to 2047 bytes that the receiver has room for, and grants below
  2^15 bytes.
\<close>

definition link_event_ok :: "int \<Rightarrow> link_event \<Rightarrow> bool" where
  "link_event_ok max_size ev =
     (case ev of Sdu _ p \<Rightarrow> p \<noteq> [] \<and> length p < 2048 \<and> int (length p) \<le> max_size
      | Grant _ nb \<Rightarrow> sint nb < 2 ^ 15)"

lemma sync_configured:
  assumes config: "config_req_rlc_um timer 5 False srb zero_rlc_um = Inr e"
  shows "um_sync (new_sender e) e" "delivered e = []"
proof -
  have "(5 :: nat) \<in> {5, 10}" by simp
  note c = configured_entity [OF this config]
  have "rx_sn_modulo e = 32" using c(1,9) by (auto simp: rx_ok_def rx_vars_ok_def rx_configured_def)
  moreover have "protocol_state e = RLC_DATA_TRANSFER_READY_STATE \<and> tx_sn_length e = 5 \<and> tx_header_min e = 1 \<and>
      vt_us e = 0"
    using config
    by (auto simp: config_req_rlc_um_def rlc_um_fsm_notify_event_def rlc_um_init_def zero_rlc_um_def
      rlc_um_configure_def rlc_um_set_debug_infos_def rlc_um_init_timer_reordering_def
      rlc_um_reset_state_variables_def Let_def)
  ultimately show "um_sync (new_sender e) e"
    using c by (simp add: um_sync_def new_sender_def tx_ok_def partial_sdu_def header_bytes_def)
  show "delivered e = []" by (rule c)
qed

lemma sync_data_req:
  assumes sync: "um_sync t e" and few: "length (input_sdus t) \<le> 129"
    and p: "p \<noteq> []" "length p < 2048" "int (length p) \<le> sdu_max_size e"
  shows "um_sync (rlc_um_data_req frame p t) e"
proof -
  have s: "\<forall>s \<in> set (input_sdus t). sdu_size s < 2048 \<and> int (sdu_size s) \<le> sdu_max_size e" "tx_ok t"
    using sync by (simp_all add: um_sync_def)
  have "\<forall>s \<in> set (input_sdus t). sdu_remaining_size s \<le> 2048" using s by (fastforce simp: tx_ok_def sdu_ok_def)
  then have "queue_bytes (input_sdus t) \<le> 2048 * length (input_sdus t)"
    unfolding queue_bytes_def using sum_list_mono [of "input_sdus t" sdu_remaining_size "\<lambda>_. 2048"]
    by (simp add: sum_list_triv mult.commute)
  then have "queue_bytes (input_sdus t) + length p + 4 + 2 * length (input_sdus t) < 2 ^ 31"
    using few p(2) by simp
  from tx_ok_data_req [OF s(2) p(1) this, of frame] sync p show ?thesis
    by (cases "input_sdus t")
       (auto simp: um_sync_def rlc_um_data_req_def new_sdu_def)
qed

lemma link_run_sync:
  assumes "um_sync t e" and "length (input_sdus t) + length (offered evs) \<le> 129"
    and "\<forall>ev \<in> set evs. link_event_ok (sdu_max_size e) ev"
  shows "\<exists>t' e'. foldE (link_step fresh) evs (t, e) = Inr (t', e') \<and> um_sync t' e' \<and>
    sdu_max_size e' = sdu_max_size e \<and> length (input_sdus t') \<le> length (input_sdus t) + length (offered evs) \<and>
    delivered e' @ map sdu_data (input_sdus t') = delivered e @ map sdu_data (input_sdus t) @ offered evs"
  using assms
proof (induction evs arbitrary: t e)
  case Nil
  then show ?case by simp
next
  case (Cons ev evs)
  show ?case
  proof (cases ev)
    case (Sdu frame p)
    let ?t = "rlc_um_data_req frame p t"
    have few: "length (input_sdus t) \<le> 129" using Cons.prems(2) by simp
    have p: "p \<noteq> []" "length p < 2048" "int (length p) \<le> sdu_max_size e"
      using Cons.prems(3) by (simp_all add: Sdu link_event_ok_def)
    have "um_sync ?t e" by (rule sync_data_req [OF Cons.prems(1) few p])
    from Cons.IH [OF this] Cons.prems(2,3) show ?thesis
      by (simp add: Sdu rlc_um_data_req_def new_sdu_def)
  next
    case (Grant now nb)
    have few: "length (input_sdus t) \<le> 129" using Cons.prems(2) by simp
    have "sint nb < 2 ^ 15" using Cons.prems(3) by (simp add: Grant link_event_ok_def)
    from grant_sync [OF Cons.prems(1) few this, of fresh now True] obtain t1 pdus e1 where
      g: "rlc_um_mac_data_request fresh (rlc_um_set_nb_bytes_requested_by_mac nb t) = Inr (pdus, t1)"
      "rlc_um_mac_data_indication now True pdus e = Inr e1" "um_sync t1 e1" "sdu_max_size e1 = sdu_max_size e" "length (input_sdus t1) \<le> length (input_sdus t)"
      "delivered e1 @ map sdu_data (input_sdus t1) = delivered e @ map sdu_data (input_sdus t)" by blast
    have "length (input_sdus t1) + length (offered evs) \<le> 129" using Cons.prems(2) g(5) by (simp add: Grant)
    with Cons.IH [OF g(3)] Cons.prems(3) g(4) obtain t' e' where
      "foldE (link_step fresh) evs (t1, e1) = Inr (t', e')" "um_sync t' e'" "sdu_max_size e' = sdu_max_size e"
      "length (input_sdus t') \<le> length (input_sdus t1) + length (offered evs)"
      "delivered e' @ map sdu_data (input_sdus t') = delivered e1 @ map sdu_data (input_sdus t1) @ offered evs"
      by (auto simp: Grant)
    moreover have "length (input_sdus t1) \<le> length (input_sdus t)" by (rule g(5))
    ultimately show ?thesis
      using g(1,2,6) by (intro exI [of _ t'] exI [of _ e']) (simp add: Grant flip: append_assoc)
  qed
qed

section \<open>Everything arrives\<close>

lemma queue_le_data: "\<forall>s \<in> set ss. sdu_ok s \<Longrightarrow> queue_bytes ss \<le> sum_list (map length (map sdu_data ss))"
  unfolding queue_bytes_def by (induction ss) (auto simp: sdu_ok_def)

lemma queue_empty: "tx_ok t \<Longrightarrow> queue_bytes (input_sdus t) = 0 \<longleftrightarrow> input_sdus t = []"
  by (cases "input_sdus t") (auto simp: tx_ok_def sdu_ok_def)

definition real_grant :: "link_event \<Rightarrow> bool" where
  "real_grant ev = (case ev of Sdu _ _ \<Rightarrow> False | Grant _ nb \<Rightarrow> 2 \<le> sint nb \<and> sint nb < 2 ^ 15)"

lemma grants_empty:
  assumes "um_sync t e" and "length (input_sdus t) \<le> 129" and "\<forall>ev \<in> set gs. real_grant ev"
    and "queue_bytes (input_sdus t) \<le> length gs"
  shows "\<exists>t' e'. foldE (link_step fresh) gs (t, e) = Inr (t', e') \<and> input_sdus t' = [] \<and>
    delivered e' = delivered e @ map sdu_data (input_sdus t)"
  using assms
proof (induction gs arbitrary: t e)
  case Nil
  then show ?case using queue_empty um_syncD(1) by auto
next
  case (Cons ev gs)
  then obtain now nb where ev: "ev = Grant now nb" "2 \<le> sint nb" "sint nb < 2 ^ 15"
    by (auto simp: real_grant_def split: link_event.splits)
  from grant_sync [OF Cons.prems(1,2) ev(3), of fresh now True] obtain t1 pdus e1 where
    g: "rlc_um_mac_data_request fresh (rlc_um_set_nb_bytes_requested_by_mac nb t) = Inr (pdus, t1)"
      "rlc_um_mac_data_indication now True pdus e = Inr e1" "um_sync t1 e1"
      "length (input_sdus t1) \<le> length (input_sdus t)"
      "delivered e1 @ map sdu_data (input_sdus t1) = delivered e @ map sdu_data (input_sdus t)"
      "2 \<le> sint nb \<and> input_sdus t \<noteq> [] \<longrightarrow> queue_bytes (input_sdus t1) < queue_bytes (input_sdus t)" by blast
  have "queue_bytes (input_sdus t1) \<le> length gs"
  proof (cases "input_sdus t = []")
    case True
    with g(4) show ?thesis by simp
  next
    case False
    with g(6) ev(2) Cons.prems(4) show ?thesis by simp
  qed
  with Cons.IH [OF g(3)] Cons.prems(2,3) g(4) obtain t' e' where
    "foldE (link_step fresh) gs (t1, e1) = Inr (t', e')" "input_sdus t' = []"
    "delivered e' = delivered e1 @ map sdu_data (input_sdus t1)" by auto
  with g(1,2,5) show ?case by (intro exI [of _ t'] exI [of _ e']) (simp add: ev(1))
qed

text \<open>C2.
  A sender and a receiver with sequence numbers of 5 bits are configured, and then SDUs are handed to the
  sender and requests of the MAC layer come to it in any order; what it answers to a request goes to the
  receiver. Nothing fails, and at every time the SDUs that the receiver has delivered, followed by those that
  the sender has not sent completely, are the SDUs handed to the sender, with their bytes and in their
  order. This holds whatever the fresh blocks of memory contain. The SDUs have 1 to 2047 bytes (a length
  indicator has 11 bits) and fit the buffer of the receiver, there are at most 129 of them, and a request is for
  less than 2^15 bytes.
\<close>

theorem rlc_um_link_delivers:
  assumes config: "config_req_rlc_um timer 5 False srb zero_rlc_um = Inr e"
    and evs: "\<forall>ev \<in> set evs. link_event_ok (sdu_max_size e) ev" and few: "length (offered evs) \<le> 129"
  shows "\<exists>t' e'. foldE (link_step fresh) evs (new_sender e, e) = Inr (t', e') \<and>
    delivered e' @ map sdu_data (input_sdus t') = offered evs"
proof -
  note c = sync_configured [OF config]
  have "input_sdus (new_sender e) = []" by (simp add: new_sender_def)
  with link_run_sync [OF c(1) _ evs, of fresh] few c(2) show ?thesis by auto
qed

lemma rlc_um_link_delivers_witness:
  "\<exists>t' e'. foldE (link_step (\<lambda>_. 0xEE))
      [Sdu 0 [1, 2, 3], Sdu 0 [4, 5], Grant 0 3, Sdu 1 [6], Grant 10 7, Grant 20 1] (new_sender (um_entity 5), um_entity 5)
      = Inr (t', e') \<and>
    delivered e' @ map sdu_data (input_sdus t') = [[1, 2, 3], [4, 5], [6]]"
proof -
  let ?evs = "[Sdu 0 [1, 2, 3], Sdu 0 [4, 5], Grant 0 3, Sdu 1 [6], Grant 10 7, Grant 20 1]"
  have "\<forall>ev \<in> set ?evs. link_event_ok (sdu_max_size (um_entity 5)) ev"
    using configured_entity(12) [OF _ um_entity [of 5]]
    by (simp add: link_event_ok_def sdu_max_size_def)
  from rlc_um_link_delivers [OF um_entity this] show ?thesis by simp
qed

text \<open>C19.
  What was handed to the sender arrives. When the sender gets as many further requests of at least 2 bytes
  as it was handed bytes, and nothing else, its queue is empty and the receiver has delivered every SDU.
\<close>

theorem rlc_um_link_empties:
  assumes config: "config_req_rlc_um timer 5 False srb zero_rlc_um = Inr e"
    and evs: "\<forall>ev \<in> set evs. link_event_ok (sdu_max_size e) ev" and few: "length (offered evs) \<le> 129"
    and gs: "\<forall>ev \<in> set gs. real_grant ev" "sum_list (map length (offered evs)) \<le> length gs"
  shows "\<exists>t' e'. foldE (link_step fresh) (evs @ gs) (new_sender e, e) = Inr (t', e') \<and> input_sdus t' = [] \<and>
    delivered e' = offered evs"
proof -
  note c = sync_configured [OF config]
  have "input_sdus (new_sender e) = []" by (simp add: new_sender_def)
  with link_run_sync [OF c(1) _ evs, of fresh] few c(2) obtain t1 e1 where
    run: "foldE (link_step fresh) evs (new_sender e, e) = Inr (t1, e1)" "um_sync t1 e1"
      "length (input_sdus t1) \<le> 129" "delivered e1 @ map sdu_data (input_sdus t1) = offered evs" by auto
  have "\<forall>s \<in> set (input_sdus t1). sdu_ok s" using um_syncD(1) [OF run(2)] by (simp add: tx_ok_def)
  from queue_le_data [OF this] have "queue_bytes (input_sdus t1) \<le> sum_list (map length (offered evs))"
    unfolding run(4) [symmetric] by simp
  then have "queue_bytes (input_sdus t1) \<le> length gs" using gs(2) by linarith
  from grants_empty [OF run(2,3) gs(1) this, of fresh] run(1,4) show ?thesis
    by (auto simp: foldE_append)
qed

lemma rlc_um_link_empties_witness:
  "\<exists>t' e'. foldE (link_step (\<lambda>_. 0xEE)) ([Sdu 0 [1, 2], Grant 0 2, Sdu 0 [3]] @ replicate 3 (Grant 10 2))
      (new_sender (um_entity 5), um_entity 5) = Inr (t', e') \<and>
    input_sdus t' = [] \<and> delivered e' = [[1, 2], [3]]"
proof -
  let ?evs = "[Sdu 0 [1, 2], Grant 0 2, Sdu 0 [3]]"
  have "\<forall>ev \<in> set ?evs. link_event_ok (sdu_max_size (um_entity 5)) ev"
    using configured_entity(12) [OF _ um_entity [of 5]]
    by (simp add: link_event_ok_def sdu_max_size_def)
  from rlc_um_link_empties [OF um_entity this, of "replicate 3 (Grant 10 2)"] show ?thesis
    by (simp add: real_grant_def numeral_eq_Suc)
qed

end
