(* ===== verification/HashTable.thy ===== *)
theory HashTable
  imports Prelude "HOL-Library.AList"
begin

text \<open>
  The chained hash table of \<open>common/utils/hashtable/hashtable.c\<close>, in which the PDCP and the RLC layer keep their
  entities, and the interface under which they use it: a store of values under keys.

  A data pointer is a value or null (\<open>None\<close>); the calls of the free function of the table are part of what
  an operation returns, as the list of the data it frees. Getting memory is taken to succeed. The number of
  buckets \<open>size\<close> is the length of the array \<open>nodes\<close>; with no bucket the code divides by zero.
\<close>

section \<open>The table\<close>

datatype hashtable_rc =
  HASH_TABLE_OK | HASH_TABLE_INSERT_OVERWRITTEN_DATA | HASH_TABLE_KEY_NOT_EXISTS
  | HASH_TABLE_KEY_ALREADY_EXISTS | HASH_TABLE_BAD_PARAMETER_HASHTABLE | HASH_TABLE_SYSTEM_ERROR

type_synonym 'd chain = "(u64 \<times> 'd option) list"

record 'd hash_table =
  num_elements :: u64
  nodes :: "'d chain list"
  hashfunc :: "u64 \<Rightarrow> u64"

definition def_hashfunc :: "u64 \<Rightarrow> u64" where
  "def_hashfunc key = key"

text \<open>The code does not set \<open>num_elements\<close>: it is whatever \<open>malloc\<close> has returned.\<close>

definition hashtable_create :: "nat \<Rightarrow> (u64 \<Rightarrow> u64) option \<Rightarrow> u64 \<Rightarrow> 'd hash_table" where
  "hashtable_create sz hf garbage =
     \<lparr>num_elements = garbage, nodes = replicate sz [],
      hashfunc = (case hf of None \<Rightarrow> def_hashfunc | Some f \<Rightarrow> f)\<rparr>"

definition bucket :: "'d hash_table \<Rightarrow> u64 \<Rightarrow> nat" where
  "bucket h key = unat (hashfunc h key) mod length (nodes h)"

definition freed_data :: "'d option \<Rightarrow> 'd list" where
  "freed_data d = (case d of None \<Rightarrow> [] | Some x \<Rightarrow> [x])"

section \<open>The operations on a chain\<close>

fun chain_get :: "u64 \<Rightarrow> 'd chain \<Rightarrow> 'd option option" where
  "chain_get key [] = None"
| "chain_get key ((k, d) # ns) = (if k = key then Some d else chain_get key ns)"

text \<open>The old data and the chain with the new data, if the key is there.\<close>

fun chain_set :: "u64 \<Rightarrow> 'd option \<Rightarrow> 'd chain \<Rightarrow> ('d option \<times> 'd chain) option" where
  "chain_set key new [] = None"
| "chain_set key new ((k, d) # ns) =
     (if k = key then Some (d, (k, new) # ns)
      else map_option (\<lambda>(old, ns'). (old, (k, d) # ns')) (chain_set key new ns))"

fun chain_remove :: "u64 \<Rightarrow> 'd chain \<Rightarrow> ('d option \<times> 'd chain) option" where
  "chain_remove key [] = None"
| "chain_remove key ((k, d) # ns) =
     (if k = key then Some (d, ns) else map_option (\<lambda>(old, ns'). (old, (k, d) # ns')) (chain_remove key ns))"

section \<open>The operations on a table\<close>

definition ht_insert :: "u64 \<Rightarrow> 'd option \<Rightarrow> 'd hash_table \<Rightarrow> hashtable_rc \<times> 'd hash_table \<times> 'd list" where
  "ht_insert key d h =
     (let n = bucket h key in
      case chain_set key d (nodes h ! n) of
        Some (old, ns) \<Rightarrow> (HASH_TABLE_INSERT_OVERWRITTEN_DATA, h\<lparr>nodes := (nodes h)[n := ns]\<rparr>, freed_data old)
      | None \<Rightarrow> (HASH_TABLE_OK, h\<lparr>nodes := (nodes h)[n := (key, d) # nodes h ! n],
                                  num_elements := num_elements h + 1\<rparr>, []))"

definition ht_remove :: "u64 \<Rightarrow> 'd hash_table \<Rightarrow> hashtable_rc \<times> 'd hash_table \<times> 'd list" where
  "ht_remove key h =
     (let n = bucket h key in
      case chain_remove key (nodes h ! n) of
        Some (old, ns) \<Rightarrow> (HASH_TABLE_OK, h\<lparr>nodes := (nodes h)[n := ns], num_elements := num_elements h - 1\<rparr>,
                           freed_data old)
      | None \<Rightarrow> (HASH_TABLE_KEY_NOT_EXISTS, h, []))"

text \<open>The pointer to the table may be null. \<open>guard_table\<close> is the test that every operation starts with.\<close>

definition guard_table :: "'d hash_table option \<Rightarrow> 'a \<Rightarrow> ('d hash_table \<Rightarrow> 'a) \<Rightarrow> 'a res" where
  "guard_table t bad f =
     (case t of None \<Rightarrow> Inr bad | Some h \<Rightarrow> if nodes h = [] then Inl Undefined else Inr (f h))"

definition hashtable_insert ::
  "'d hash_table option \<Rightarrow> u64 \<Rightarrow> 'd option \<Rightarrow> (hashtable_rc \<times> 'd hash_table option \<times> 'd list) res" where
  "hashtable_insert t key d = guard_table t (HASH_TABLE_BAD_PARAMETER_HASHTABLE, t, [])
     (\<lambda>h. let (rc, h', fs) = ht_insert key d h in (rc, Some h', fs))"

definition hashtable_remove ::
  "'d hash_table option \<Rightarrow> u64 \<Rightarrow> (hashtable_rc \<times> 'd hash_table option \<times> 'd list) res" where
  "hashtable_remove t key = guard_table t (HASH_TABLE_BAD_PARAMETER_HASHTABLE, t, [])
     (\<lambda>h. let (rc, h', fs) = ht_remove key h in (rc, Some h', fs))"

text \<open>The second result is \<open>*dataP\<close>.\<close>

definition hashtable_get :: "'d hash_table option \<Rightarrow> u64 \<Rightarrow> (hashtable_rc \<times> 'd option) res" where
  "hashtable_get t key = guard_table t (HASH_TABLE_BAD_PARAMETER_HASHTABLE, None)
     (\<lambda>h. case chain_get key (nodes h ! bucket h key) of
            Some d \<Rightarrow> (HASH_TABLE_OK, d) | None \<Rightarrow> (HASH_TABLE_KEY_NOT_EXISTS, None))"

definition hashtable_is_key_exists :: "'d hash_table option \<Rightarrow> u64 \<Rightarrow> hashtable_rc res" where
  "hashtable_is_key_exists t key = guard_table t HASH_TABLE_BAD_PARAMETER_HASHTABLE
     (\<lambda>h. if chain_get key (nodes h ! bucket h key) = None then HASH_TABLE_KEY_NOT_EXISTS else HASH_TABLE_OK)"

definition hashtable_destroy :: "'d hash_table option \<Rightarrow> hashtable_rc \<times> 'd list" where
  "hashtable_destroy t =
     (case t of
        None \<Rightarrow> (HASH_TABLE_BAD_PARAMETER_HASHTABLE, [])
      | Some h \<Rightarrow> (HASH_TABLE_OK, concat (map (freed_data \<circ> snd) (concat (nodes h)))))"

text \<open>
  The function is applied until \<open>num_elements\<close> elements have been seen; the count has 32 bits, \<open>num_elements\<close> 64.
\<close>

fun apply_buckets :: "(u64 \<Rightarrow> 'd option \<Rightarrow> 's \<Rightarrow> 's) \<Rightarrow> u64 \<Rightarrow> u32 \<Rightarrow> 'd chain list \<Rightarrow> 's \<Rightarrow> 's" where
  "apply_buckets f limit num [] s = s"
| "apply_buckets f limit num (ns # rest) s =
     (if ucast num < limit
      then apply_buckets f limit (num + of_nat (length ns)) rest (fold (\<lambda>(k, d). f k d) ns s)
      else s)"

definition hashtable_apply_funct_on_elements ::
  "(u64 \<Rightarrow> 'd option \<Rightarrow> 's \<Rightarrow> 's) \<Rightarrow> 'd hash_table option \<Rightarrow> 's \<Rightarrow> hashtable_rc \<times> 's" where
  "hashtable_apply_funct_on_elements f t s =
     (case t of
        None \<Rightarrow> (HASH_TABLE_BAD_PARAMETER_HASHTABLE, s)
      | Some h \<Rightarrow> (HASH_TABLE_OK, apply_buckets f (num_elements h) 0 (nodes h) s))"

text \<open>
  Every element is inserted in the new table and removed from the old one, which frees its data. The counter
  of the new table, on the stack, is not set either, and it is not copied back.
\<close>

definition move_element ::
  "u64 \<times> 'd option \<Rightarrow> 'd hash_table \<times> 'd hash_table \<times> 'd list \<Rightarrow> ('d hash_table \<times> 'd hash_table \<times> 'd list) res" where
  "move_element kd st =
     (let (new, old, fs) = st; (key, d) = kd in
      bindE (hashtable_insert (Some new) key d) (\<lambda>(_, new', fs1).
      bindE (hashtable_remove (Some old) key) (\<lambda>(_, old', fs2).
      Inr (the new', the old', fs @ fs1 @ fs2))))"

definition hashtable_resize ::
  "'d hash_table option \<Rightarrow> nat \<Rightarrow> u64 \<Rightarrow> (hashtable_rc \<times> 'd hash_table option \<times> 'd list) res" where
  "hashtable_resize t sz garbage =
     (case t of
        None \<Rightarrow> Inr (HASH_TABLE_BAD_PARAMETER_HASHTABLE, t, [])
      | Some h \<Rightarrow>
          bindE (foldE move_element (concat (nodes h))
            (\<lparr>num_elements = garbage, nodes = replicate sz [], hashfunc = hashfunc h\<rparr>, h, [])) (\<lambda>(new, old, fs).
          Inr (HASH_TABLE_OK, Some (old\<lparr>nodes := nodes new\<rparr>), fs)))"

section \<open>What a table stores\<close>

definition ht_ok :: "'d hash_table \<Rightarrow> bool" where
  "ht_ok h \<longleftrightarrow> nodes h \<noteq> [] \<and>
     (\<forall>n < length (nodes h). distinct (map fst (nodes h ! n)) \<and> (\<forall>kd \<in> set (nodes h ! n). bucket h (fst kd) = n))"

definition ht_map :: "'d hash_table \<Rightarrow> u64 \<rightharpoonup> 'd option" where
  "ht_map h key = map_of (nodes h ! bucket h key) key"

lemma chain_get_map_of: "chain_get key ns = map_of ns key"
  by (induction ns) auto

lemma chain_set_cases:
  "chain_set key new ns = (case map_of ns key of
     None \<Rightarrow> None | Some old \<Rightarrow> Some (old, AList.update key new ns))"
  by (induction ns) (auto split: option.splits)

lemma chain_remove_cases:
  "distinct (map fst ns) \<Longrightarrow> chain_remove key ns = (case map_of ns key of
     None \<Rightarrow> None | Some old \<Rightarrow> Some (old, AList.delete key ns))"
  by (induction ns) (auto simp: AList.delete_id simp del: map_of_eq_Some_iff split: option.splits)

lemma ht_okD:
  assumes "ht_ok h"
  shows "bucket h key < length (nodes h)"
    and "n < length (nodes h) \<Longrightarrow> distinct (map fst (nodes h ! n))"
    and "n < length (nodes h) \<Longrightarrow> (key, d) \<in> set (nodes h ! n) \<Longrightarrow> bucket h key = n"
  using assms by (auto simp: ht_ok_def) (simp add: bucket_def, metis fst_conv)

text \<open>The operations in terms of what the table stores.\<close>

lemma bucket_update [simp]:
  "bucket (h\<lparr>nodes := (nodes h)[n := ns]\<rparr>) key = bucket h key"
  "bucket (h\<lparr>num_elements := c\<rparr>) key = bucket h key"
  "bucket (h\<lparr>nodes := (nodes h)[n := ns], num_elements := c\<rparr>) key = bucket h key"
  by (simp_all add: bucket_def)

lemma replace_bucket:
  assumes ok: "ht_ok h" and d: "distinct (map fst ns)" and keys: "\<forall>kd \<in> set ns. bucket h (fst kd) = bucket h key"
    and nodes: "nodes h' = (nodes h)[bucket h key := ns]" and func: "hashfunc h' = hashfunc h"
  shows "ht_ok h'"
    and "ht_map h' k = (if bucket h k = bucket h key then map_of ns k else ht_map h k)"
proof -
  have b: "bucket h' k = bucket h k" for k by (simp add: bucket_def nodes func)
  show "ht_ok h'" using ok d keys ht_okD(1) [OF ok, of key] by (auto simp: ht_ok_def nodes b nth_list_update)
  show "ht_map h' k = (if bucket h k = bucket h key then map_of ns k else ht_map h k)"
    using ht_okD(1) [OF ok, of key] by (auto simp: ht_map_def nodes b)
qed

lemma ht_insert_spec:
  assumes ok: "ht_ok h"
  shows "\<exists>h'. ht_insert key d h =
      ((if ht_map h key = None then HASH_TABLE_OK else HASH_TABLE_INSERT_OVERWRITTEN_DATA), h',
       (case ht_map h key of None \<Rightarrow> [] | Some old \<Rightarrow> freed_data old)) \<and>
    ht_ok h' \<and> ht_map h' = (ht_map h)(key \<mapsto> d) \<and> hashfunc h' = hashfunc h \<and> length (nodes h') = length (nodes h) \<and>
    num_elements h' = (if ht_map h key = None then num_elements h + 1 else num_elements h)"
proof -
  let ?n = "bucket h key" and ?ns = "nodes h ! bucket h key"
  have dist: "distinct (map fst ?ns)" using ht_okD [OF ok] by blast
  have keys: "\<forall>kd \<in> set ?ns. bucket h (fst kd) = ?n" using ok ht_okD(1) [OF ok, of key] by (auto simp: ht_ok_def)
  have same: "bucket h k = ?n \<Longrightarrow> ht_map h k = map_of ?ns k" for k by (simp add: ht_map_def)
  show ?thesis
  proof (cases "ht_map h key")
    case None
    then have none: "map_of ?ns key = None" by (simp add: ht_map_def)
    let ?h = "h\<lparr>nodes := (nodes h)[?n := (key, d) # ?ns], num_elements := num_elements h + 1\<rparr>"
    have "distinct (map fst ((key, d) # ?ns))" using dist none by (auto simp: map_of_eq_None_iff)
    from replace_bucket [OF ok this _ _ , of key ?h] keys
    have "ht_ok ?h" "ht_map ?h = (ht_map h)(key \<mapsto> d)" by (auto simp: fun_eq_iff same)
    with None none show ?thesis
      by (intro exI [of _ ?h]) (simp add: ht_insert_def chain_set_cases Let_def)
  next
    case (Some old)
    then have some: "map_of ?ns key = Some old" by (simp add: ht_map_def)
    let ?h = "h\<lparr>nodes := (nodes h)[?n := AList.update key d ?ns]\<rparr>"
    have "set (AList.update key d ns) \<subseteq> insert (key, d) (set ns)" for ns by (induction ns) auto
    from this [of ?ns] have "\<forall>kd \<in> set (AList.update key d ?ns). bucket h (fst kd) = ?n" using keys by auto
    from replace_bucket [OF ok distinct_update [OF dist, of key d] this, of ?h]
    have "ht_ok ?h" "ht_map ?h = (ht_map h)(key \<mapsto> d)" by (auto simp: fun_eq_iff same update_conv')
    with Some some show ?thesis
      by (intro exI [of _ ?h]) (simp add: ht_insert_def chain_set_cases Let_def)
  qed
qed

lemma ht_remove_spec:
  assumes ok: "ht_ok h"
  shows "\<exists>h'. ht_remove key h =
      ((if ht_map h key = None then HASH_TABLE_KEY_NOT_EXISTS else HASH_TABLE_OK), h',
       (case ht_map h key of None \<Rightarrow> [] | Some old \<Rightarrow> freed_data old)) \<and>
    ht_ok h' \<and> ht_map h' = (ht_map h)(key := None) \<and> hashfunc h' = hashfunc h \<and> length (nodes h') = length (nodes h) \<and>
    num_elements h' = (if ht_map h key = None then num_elements h else num_elements h - 1)"
proof -
  let ?n = "bucket h key" and ?ns = "nodes h ! bucket h key"
  have dist: "distinct (map fst ?ns)" using ht_okD [OF ok] by blast
  have keys: "\<forall>kd \<in> set ?ns. bucket h (fst kd) = ?n" using ok ht_okD(1) [OF ok, of key] by (auto simp: ht_ok_def)
  have same: "bucket h k = ?n \<Longrightarrow> ht_map h k = map_of ?ns k" for k by (simp add: ht_map_def)
  show ?thesis
  proof (cases "ht_map h key")
    case None
    then have "map_of ?ns key = None" by (simp add: ht_map_def)
    with None ok dist show ?thesis
      by (intro exI [of _ h]) (auto simp: ht_remove_def chain_remove_cases Let_def fun_eq_iff)
  next
    case (Some old)
    then have some: "map_of ?ns key = Some old" by (simp add: ht_map_def)
    let ?h = "h\<lparr>nodes := (nodes h)[?n := AList.delete key ?ns], num_elements := num_elements h - 1\<rparr>"
    have "\<forall>kd \<in> set (AList.delete key ?ns). bucket h (fst kd) = ?n" using keys by (auto simp: AList.delete_eq)
    from replace_bucket [OF ok distinct_delete [OF dist, of key] this, of ?h]
    have "ht_ok ?h" "ht_map ?h = (ht_map h)(key := None)" by (auto simp: fun_eq_iff same delete_conv')
    with Some some dist show ?thesis
      by (intro exI [of _ ?h]) (simp add: ht_remove_def chain_remove_cases Let_def)
  qed
qed

section \<open>The interface of the clients\<close>

text \<open>
  The clients put, look up and take out values under keys. Whether the data of a value is freed when it goes is
  for them to know.
\<close>

locale store_removal =
  fixes inv :: "'s \<Rightarrow> bool" and stored :: "'s \<Rightarrow> 'k \<rightharpoonup> 'v" and del :: "'k \<Rightarrow> 's \<Rightarrow> 's"
  assumes inv_del [simp]: "inv s \<Longrightarrow> inv (del k s)"
    and stored_del [simp]: "inv s \<Longrightarrow> stored (del k s) = (stored s)(k := None)"
begin

lemma inv_del_all: "inv s \<Longrightarrow> inv (fold del ks s)"
  by (induction ks arbitrary: s) auto

lemma stored_del_all: "inv s \<Longrightarrow> stored (fold del ks s) k = (if k \<in> set ks then None else stored s k)"
  by (induction ks arbitrary: s) auto

end

locale key_store = store_removal inv stored del
  for inv :: "'s \<Rightarrow> bool" and stored :: "'s \<Rightarrow> 'k \<rightharpoonup> 'v" and del :: "'k \<Rightarrow> 's \<Rightarrow> 's" +
  fixes put :: "'k \<Rightarrow> 'v \<Rightarrow> 's \<Rightarrow> 's"
  assumes inv_put [simp]: "inv s \<Longrightarrow> inv (put k v s)"
    and stored_put [simp]: "inv s \<Longrightarrow> stored (put k v s) = (stored s)(k \<mapsto> v)"
begin

lemma del_put: "inv s \<Longrightarrow> stored s k = None \<Longrightarrow> stored (del k (put k v s)) = stored s"
  by (auto simp: fun_eq_iff)

lemma stored_put_all:
  "inv s \<Longrightarrow> distinct (map fst kvs) \<Longrightarrow>
   inv (fold (\<lambda>(k, v). put k v) kvs s) \<and> stored (fold (\<lambda>(k, v). put k v) kvs s) = stored s ++ map_of kvs"
proof (induction kvs arbitrary: s)
  case Nil
  then show ?case by simp
next
  case (Cons kv kvs)
  obtain k v where kv: "kv = (k, v)" by fastforce
  have "map_of kvs k = None" using Cons.prems(2) by (simp add: kv map_of_eq_None_iff)
  then have "stored (put k v s) ++ map_of kvs = stored s ++ map_of (kv # kvs)"
    using Cons.prems(1) by (auto simp: kv fun_eq_iff map_add_def simp del: map_of_eq_Some_iff split: option.splits)
  with Cons.IH [of "put k v s"] Cons.prems show ?case
    unfolding fold.simps o_apply kv prod.case by (simp only: inv_put distinct.simps list.map)
qed

end

definition ht_put :: "u64 \<Rightarrow> 'd option \<Rightarrow> 'd hash_table \<Rightarrow> 'd hash_table" where
  "ht_put key d h = fst (snd (ht_insert key d h))"

definition ht_del :: "u64 \<Rightarrow> 'd hash_table \<Rightarrow> 'd hash_table" where
  "ht_del key h = fst (snd (ht_remove key h))"

interpretation table: key_store ht_ok ht_map ht_del ht_put
proof unfold_locales
  fix h :: "'a hash_table" and k d
  assume "ht_ok h"
  from ht_insert_spec [OF this, of k d] ht_remove_spec [OF this, of k]
  show "ht_ok (ht_put k d h)" "ht_ok (ht_del k h)" "ht_map (ht_put k d h) = (ht_map h)(k \<mapsto> d)"
    "ht_map (ht_del k h) = (ht_map h)(k := None)" by (auto simp: ht_put_def ht_del_def)
qed

text \<open>The operations of the code, as calls of this interface.\<close>

lemma ht_ok_nonempty [simp]: "ht_ok h \<Longrightarrow> nodes h \<noteq> []"
  by (simp add: ht_ok_def)

lemma hashtable_insert_ok:
  assumes "ht_ok h"
  shows "hashtable_insert (Some h) key d = Inr
    (if ht_map h key = None then HASH_TABLE_OK else HASH_TABLE_INSERT_OVERWRITTEN_DATA, Some (ht_put key d h),
     (case ht_map h key of None \<Rightarrow> [] | Some old \<Rightarrow> freed_data old))"
  using ht_insert_spec [OF assms, of key d] assms by (auto simp: hashtable_insert_def guard_table_def ht_put_def)

lemma hashtable_remove_ok:
  assumes "ht_ok h"
  shows "hashtable_remove (Some h) key = Inr
    (if ht_map h key = None then HASH_TABLE_KEY_NOT_EXISTS else HASH_TABLE_OK, Some (ht_del key h),
     (case ht_map h key of None \<Rightarrow> [] | Some old \<Rightarrow> freed_data old))"
  using ht_remove_spec [OF assms, of key] assms by (auto simp: hashtable_remove_def guard_table_def ht_del_def)

lemma hashtable_get_ok:
  assumes "ht_ok h"
  shows "hashtable_get (Some h) key = Inr
    (case ht_map h key of None \<Rightarrow> (HASH_TABLE_KEY_NOT_EXISTS, None) | Some d \<Rightarrow> (HASH_TABLE_OK, d))"
  using assms by (simp add: hashtable_get_def guard_table_def ht_map_def chain_get_map_of split: option.splits)

lemma hashtable_is_key_exists_ok:
  assumes "ht_ok h"
  shows "hashtable_is_key_exists (Some h) key = Inr
    (if ht_map h key = None then HASH_TABLE_KEY_NOT_EXISTS else HASH_TABLE_OK)"
  using assms by (simp add: hashtable_is_key_exists_def guard_table_def ht_map_def chain_get_map_of)

lemmas hashtable_ops = hashtable_insert_ok hashtable_remove_ok hashtable_get_ok hashtable_is_key_exists_ok

lemma nodes_create: "nodes (hashtable_create sz hf garbage) = replicate sz []"
  by (simp add: hashtable_create_def)

lemma bucket_create: "0 < sz \<Longrightarrow> bucket (hashtable_create sz hf garbage) k < sz"
  by (simp add: bucket_def hashtable_create_def)

lemma hashtable_create_ok: "0 < sz \<Longrightarrow> ht_ok (hashtable_create sz hf garbage)"
  by (simp add: ht_ok_def hashtable_create_def)

lemma hashtable_create_map: "0 < sz \<Longrightarrow> ht_map (hashtable_create sz hf garbage) = Map.empty"
  by (simp add: ht_map_def fun_eq_iff nodes_create bucket_create)

section \<open>Keys of the clients\<close>

text \<open>
  The layers that use the table put the parts of a key side by side: 8 bits for the instance, 16 for the identity of
  the UE, one for the side, 8 for a number, one for the plane, and above these a tag that tells kinds of keys apart.
\<close>

lemma key_layout:
  fixes m :: u8 and r :: u16 and rb tag :: u64 and enb srb :: bool
  assumes "rb < 256"
  defines "k \<equiv> or (or (or (or (or (ucast m) (push_bit 8 (ucast r))) (push_bit 24 (if enb then 1 else 0)))
     (push_bit 25 rb)) (push_bit 33 (if srb then 1 else 0))) (push_bit 34 tag)"
  shows "ucast k = m" "ucast (drop_bit 8 k) = r" "bit k 24 = enb" "ucast (drop_bit 25 k) = (ucast rb :: u8)" "bit k 33 = srb"
    "bit k 34 = bit tag 0"
proof -
  have "take_bit 8 rb = rb" using assms(1) by (simp add: word_unat_eq_iff unsigned_take_bit_eq take_bit_nat_eq_self_iff word_less_nat_alt del: take_bit_eq_mod)
  then have "and rb (mask 8) = rb" by (simp add: take_bit_eq_mask)
  then have rb: "bit rb n \<Longrightarrow> n < 8" for n by (metis bit_and_iff bit_mask_iff)
  show "ucast k = m" by (rule bit_word_eqI) (auto simp: k_def bit_simps)
  show "ucast (drop_bit 8 k) = r" by (rule bit_word_eqI) (auto simp: k_def bit_simps dest: bit_imp_le_length)
  show "bit k 24 = enb" by (auto simp: k_def bit_simps dest: bit_imp_le_length)
  show "ucast (drop_bit 25 k) = (ucast rb :: u8)"
    by (rule bit_word_eqI) (auto simp: k_def bit_simps dest: bit_imp_le_length)
  show "bit k 33 = srb" by (auto simp: k_def bit_simps dest: rb bit_imp_le_length)
  show "bit k 34 = bit tag 0" by (auto simp: k_def bit_simps dest: rb bit_imp_le_length)
qed

section \<open>Sequences of operations\<close>

datatype 'd ht_op = Insert u64 "'d option" | Remove u64 | Get u64 | Exists u64

text \<open>What an operation returns: its code, \<open>*dataP\<close> and the data that it frees.\<close>

type_synonym 'd ht_result = "hashtable_rc \<times> 'd option \<times> 'd list"

fun ht_step :: "'d ht_op \<Rightarrow> 'd hash_table option \<Rightarrow> ('d ht_result \<times> 'd hash_table option) res" where
  "ht_step (Insert k d) t = bindE (hashtable_insert t k d) (\<lambda>(rc, t', fs). Inr ((rc, None, fs), t'))"
| "ht_step (Remove k) t = bindE (hashtable_remove t k) (\<lambda>(rc, t', fs). Inr ((rc, None, fs), t'))"
| "ht_step (Get k) t = bindE (hashtable_get t k) (\<lambda>(rc, d). Inr ((rc, d, []), t))"
| "ht_step (Exists k) t = bindE (hashtable_is_key_exists t k) (\<lambda>rc. Inr ((rc, None, []), t))"

fun ht_run :: "'d ht_op list \<Rightarrow> 'd hash_table option \<Rightarrow> ('d ht_result list \<times> 'd hash_table option) res" where
  "ht_run [] t = Inr ([], t)"
| "ht_run (op # ops) t =
     bindE (ht_step op t) (\<lambda>(r, t1). bindE (ht_run ops t1) (\<lambda>(rs, t2). Inr (r # rs, t2)))"

text \<open>The same on a map.\<close>

fun map_step :: "'d ht_op \<Rightarrow> (u64 \<rightharpoonup> 'd option) \<Rightarrow> 'd ht_result \<times> (u64 \<rightharpoonup> 'd option)" where
  "map_step (Insert k d) m =
     (case m k of
        None \<Rightarrow> ((HASH_TABLE_OK, None, []), m(k \<mapsto> d))
      | Some old \<Rightarrow> ((HASH_TABLE_INSERT_OVERWRITTEN_DATA, None, freed_data old), m(k \<mapsto> d)))"
| "map_step (Remove k) m =
     (case m k of
        None \<Rightarrow> ((HASH_TABLE_KEY_NOT_EXISTS, None, []), m)
      | Some old \<Rightarrow> ((HASH_TABLE_OK, None, freed_data old), m(k := None)))"
| "map_step (Get k) m =
     (case m k of None \<Rightarrow> ((HASH_TABLE_KEY_NOT_EXISTS, None, []), m) | Some d \<Rightarrow> ((HASH_TABLE_OK, d, []), m))"
| "map_step (Exists k) m =
     ((if m k = None then HASH_TABLE_KEY_NOT_EXISTS else HASH_TABLE_OK, None, []), m)"

fun map_run :: "'d ht_op list \<Rightarrow> (u64 \<rightharpoonup> 'd option) \<Rightarrow> 'd ht_result list \<times> (u64 \<rightharpoonup> 'd option)" where
  "map_run [] m = ([], m)"
| "map_run (op # ops) m = (let (r, m1) = map_step op m; (rs, m2) = map_run ops m1 in (r # rs, m2))"

definition off_by :: "u64 \<Rightarrow> 'd hash_table \<Rightarrow> bool" where
  "off_by c h \<longleftrightarrow> num_elements h = c + of_nat (card (dom (ht_map h)))"

lemma ht_put_count:
  assumes h: "ht_ok h" "finite (dom (ht_map h))" "off_by c h"
  shows "off_by c (ht_put k d h)"
proof -
  from ht_insert_spec [OF h(1), of k d] have put: "ht_map (ht_put k d h) = (ht_map h)(k \<mapsto> d)"
    "num_elements (ht_put k d h) = (if ht_map h k = None then num_elements h + 1 else num_elements h)"
    by (auto simp: ht_put_def)
  show ?thesis
  proof (cases "ht_map h k")
    case None
    then have "k \<notin> dom (ht_map h)" by auto
    with h(2) have "card (insert k (dom (ht_map h))) = Suc (card (dom (ht_map h)))" by simp
    with None h(3) put show ?thesis by (simp add: off_by_def)
  next
    case (Some old)
    then have "insert k (dom (ht_map h)) = dom (ht_map h)" by auto
    with Some h(3) put show ?thesis by (simp add: off_by_def)
  qed
qed

lemma ht_del_count:
  assumes h: "ht_ok h" "finite (dom (ht_map h))" "off_by c h"
  shows "off_by c (ht_del k h)"
proof -
  from ht_remove_spec [OF h(1), of k] have del: "ht_map (ht_del k h) = (ht_map h)(k := None)"
    "num_elements (ht_del k h) = (if ht_map h k = None then num_elements h else num_elements h - 1)"
    by (auto simp: ht_del_def)
  show ?thesis
  proof (cases "ht_map h k")
    case None
    then have "dom (ht_map h) - {k} = dom (ht_map h)" by auto
    with None h(3) del show ?thesis by (simp add: off_by_def)
  next
    case (Some old)
    then have "k \<in> dom (ht_map h)" by auto
    with h(2) have "card (dom (ht_map h)) = Suc (card (dom (ht_map h) - {k}))" by (rule card.remove)
    with h(3) have "num_elements h = c + of_nat (Suc (card (dom (ht_map h) - {k})))" by (simp only: off_by_def)
    with Some del show ?thesis by (simp add: off_by_def del: card_Diff_insert)
  qed
qed

lemma ht_step_refines:
  assumes "ht_ok h" and "finite (dom (ht_map h))" and "off_by c h"
  shows "\<exists>h'. ht_step op (Some h) = Inr (fst (map_step op (ht_map h)), Some h') \<and> ht_ok h' \<and>
    ht_map h' = snd (map_step op (ht_map h)) \<and> finite (dom (ht_map h')) \<and> off_by c h'"
proof (cases op)
  case (Insert k d)
  with assms ht_put_count [OF assms, of k d] show ?thesis
    by (intro exI [of _ "ht_put k d h"]) (simp add: hashtable_ops split: option.splits)
next
  case (Remove k)
  with assms ht_del_count [OF assms, of k] show ?thesis
    by (intro exI [of _ "ht_del k h"]) (auto simp: hashtable_ops fun_upd_idem split: option.splits)
qed (use assms in \<open>auto simp: hashtable_ops split: option.splits\<close>)

lemma ht_run_refines:
  assumes "ht_ok h" and "finite (dom (ht_map h))" and "off_by c h"
  shows "\<exists>h'. ht_run ops (Some h) = Inr (fst (map_run ops (ht_map h)), Some h') \<and> ht_ok h' \<and>
    ht_map h' = snd (map_run ops (ht_map h)) \<and> off_by c h'"
  using assms
proof (induction ops arbitrary: h)
  case Nil
  then show ?case by simp
next
  case (Cons op ops)
  from ht_step_refines [OF Cons.prems, of op] obtain h1 where
    h1: "ht_step op (Some h) = Inr (fst (map_step op (ht_map h)), Some h1)" "ht_ok h1"
      "ht_map h1 = snd (map_step op (ht_map h))" "finite (dom (ht_map h1))" "off_by c h1" by blast
  from Cons.IH [OF h1(2,4,5)] h1(1,3) show ?case by (auto simp: case_prod_unfold Let_def)
qed

section \<open>The properties\<close>

text \<open>C11.
  A table with buckets behaves as a map from keys to data, whatever the hash function is: every sequence of
  insertions, removals and lookups returns the codes, the data and the freed data that the same sequence
  returns on a map (a removal of a key that is missing returns the code 2, \<open>HASH_TABLE_KEY_NOT_EXISTS\<close>, where the comment
  in the code says -1), and leaves a table that is well-formed, \<open>ht_ok\<close>: no key occurs twice, and each is in
  the bucket of its hash value. Its counter of elements is off by what \<open>malloc\<close> left in it, for the creation of
  the table does not set it.
\<close>

theorem hashtable_refines_map:
  assumes "0 < sz"
  shows "\<exists>h. ht_run ops (Some (hashtable_create sz hf garbage)) = Inr (fst (map_run ops Map.empty), Some h) \<and>
    ht_ok h \<and> ht_map h = snd (map_run ops Map.empty) \<and>
    num_elements h = garbage + of_nat (card (dom (snd (map_run ops Map.empty))))"
proof -
  let ?h = "hashtable_create sz hf garbage :: 'a hash_table"
  have "off_by garbage ?h" using assms by (simp add: off_by_def hashtable_create_map) (simp add: hashtable_create_def)
  from ht_run_refines [OF hashtable_create_ok [OF assms] _ this, of ops] assms show ?thesis
    by (auto simp: hashtable_create_map off_by_def)
qed

lemma hashtable_refines_map_witness:
  "\<exists>h. ht_run [Insert 1 (Some CHR ''a''), Insert 3 None, Insert 1 (Some CHR ''b''), Get 1, Remove 3, Exists 3]
      (Some (hashtable_create 2 None 7)) =
    Inr ([(HASH_TABLE_OK, None, []), (HASH_TABLE_OK, None, []), (HASH_TABLE_INSERT_OVERWRITTEN_DATA, None, ''a''),
          (HASH_TABLE_OK, Some CHR ''b'', []), (HASH_TABLE_OK, None, []), (HASH_TABLE_KEY_NOT_EXISTS, None, [])], Some h) \<and>
    num_elements h = 8"
  using hashtable_refines_map [of 2
    "[Insert 1 (Some CHR ''a''), Insert 3 None, Insert 1 (Some CHR ''b''), Get 1, Remove 3, Exists 3]" None 7]
  by (auto simp: freed_data_def)

text \<open>The elements of a table, moved one by one.\<close>

lemma move_all:
  assumes "ht_ok new" and "ht_ok old" and "distinct (map fst kds)"
    and "\<forall>(k, d) \<in> set kds. ht_map old k = Some d \<and> ht_map new k = None"
  shows "\<exists>new' old'. foldE move_element kds (new, old, fs) =
      Inr (new', old', fs @ concat (map (freed_data \<circ> snd) kds)) \<and>
    ht_ok new' \<and> ht_map new' = ht_map new ++ map_of kds \<and> hashfunc new' = hashfunc new \<and>
    length (nodes new') = length (nodes new) \<and> hashfunc old' = hashfunc old \<and>
    num_elements old' = num_elements old - of_nat (length kds)"
  using assms
proof (induction kds arbitrary: new old fs)
  case Nil
  then show ?case by simp
next
  case (Cons kd kds)
  obtain k d where kd: "kd = (k, d)" by fastforce
  have k: "ht_map old k = Some d" "ht_map new k = None" "k \<notin> fst ` set kds" using Cons.prems by (simp_all add: kd)
  have step: "move_element kd (new, old, fs) = Inr (ht_put k d new, ht_del k old, fs @ freed_data d)"
    using Cons.prems(1,2) k by (simp add: move_element_def kd hashtable_ops)
  have put: "hashfunc (ht_put k d new) = hashfunc new" "length (nodes (ht_put k d new)) = length (nodes new)"
    using ht_insert_spec [OF Cons.prems(1), of k d] by (auto simp: ht_put_def)
  have del: "hashfunc (ht_del k old) = hashfunc old" "num_elements (ht_del k old) = num_elements old - 1"
    using ht_remove_spec [OF Cons.prems(2), of k] k(1) by (auto simp: ht_del_def)
  have fresh: "\<forall>(k', d') \<in> set kds. ht_map (ht_del k old) k' = Some d' \<and> ht_map (ht_put k d new) k' = None"
    using Cons.prems k(3) by (force simp: kd)
  have ok: "ht_ok (ht_put k d new)" "ht_ok (ht_del k old)" "distinct (map fst kds)" using Cons.prems by simp_all
  from Cons.IH [OF ok fresh, of "fs @ freed_data d"] obtain new' old' where
    rest: "foldE move_element kds (ht_put k d new, ht_del k old, fs @ freed_data d) =
      Inr (new', old', (fs @ freed_data d) @ concat (map (freed_data \<circ> snd) kds))" "ht_ok new'"
    "ht_map new' = ht_map (ht_put k d new) ++ map_of kds" "hashfunc new' = hashfunc (ht_put k d new)"
    "length (nodes new') = length (nodes (ht_put k d new))" "hashfunc old' = hashfunc (ht_del k old)"
    "num_elements old' = num_elements (ht_del k old) - of_nat (length kds)" by blast
  have "map_of kds k = None" using k(3) by (simp add: map_of_eq_None_iff)
  then have eq: "(ht_map new)(k \<mapsto> d) ++ map_of kds = ht_map new ++ map_of (kd # kds)"
    by (auto simp: kd fun_eq_iff map_add_def simp del: map_of_eq_Some_iff split: option.splits)
  have "foldE move_element (kd # kds) (new, old, fs) =
      Inr (new', old', fs @ concat (map (freed_data \<circ> snd) (kd # kds)))"
    using step rest(1) by (simp add: kd o_def)
  moreover have "ht_map new' = ht_map new ++ map_of (kd # kds)"
    using rest(3) Cons.prems(1) by (simp only: table.stored_put eq)
  moreover have "num_elements old' = num_elements old - of_nat (length (kd # kds))"
    unfolding rest(7) del(2) by simp
  ultimately show ?case using rest(2,4,5,6) put del(1) by metis
qed

lemma concat_nodes:
  assumes "ht_ok h"
  shows "distinct (map fst (concat (nodes h)))" and "map_of (concat (nodes h)) = ht_map h"
proof -
  have "distinct (map fst (concat (take n (nodes h)))) \<and>
    (\<forall>k. map_of (concat (take n (nodes h))) k = (if bucket h k < n then ht_map h k else None))"
    if "n \<le> length (nodes h)" for n
    using that
  proof (induction n)
    case 0
    then show ?case by simp
  next
    case (Suc n)
    let ?C = "concat (take n (nodes h))" and ?ns = "nodes h ! n"
    have n: "n < length (nodes h)" using Suc.prems by simp
    have take: "concat (take (Suc n) (nodes h)) = ?C @ ?ns" by (simp add: take_Suc_conv_app_nth n)
    have C: "distinct (map fst ?C)" "\<And>k. map_of ?C k = (if bucket h k < n then ht_map h k else None)"
      using Suc by simp_all
    have b: "bucket h (fst kd) = n" if "kd \<in> set ?ns" for kd using assms n that by (auto simp: ht_ok_def)
    have out: "fst kd \<notin> fst ` set ?C" if "kd \<in> set ?ns" for kd
    proof -
      have "map_of ?C (fst kd) = None" by (simp only: C(2) b [OF that] less_irrefl if_False)
      then show ?thesis unfolding map_of_eq_None_iff .
    qed
    have "fst ` set ?C \<inter> fst ` set ?ns = {}"
    proof (rule equals0I)
      fix k assume "k \<in> fst ` set ?C \<inter> fst ` set ?ns"
      then have k: "k \<in> fst ` set ?C" "k \<in> fst ` set ?ns" by blast+
      from k(2) obtain kd where kd: "kd \<in> set ?ns" "k = fst kd" by blast
      from out [OF kd(1)] k(1) show False unfolding kd(2) by contradiction
    qed
    moreover have "map_of ?ns k = (if bucket h k = n then ht_map h k else None)" for k
    proof (cases "bucket h k = n")
      case True
      then show ?thesis by (simp add: ht_map_def)
    next
      case False
      then have "k \<notin> fst ` set ?ns" using b by auto
      with False show ?thesis by (simp add: map_of_eq_None_iff)
    qed
    ultimately show ?case using C ht_okD(2) [OF assms n]
      by (auto simp: take map_add_def simp del: map_of_eq_Some_iff split: option.splits)
  qed
  from this [of "length (nodes h)"] ht_okD(1) [OF assms]
  show "distinct (map fst (concat (nodes h)))" "map_of (concat (nodes h)) = ht_map h" by (auto simp: fun_eq_iff)
qed

text \<open>Resizing a table moves every element to the new buckets, and frees the data of all of them: a table in use
  points to freed memory afterwards. It also leaves the counter of elements at zero, so that applying a
  function to the elements of the table applies it to none.
\<close>

theorem hashtable_resize_frees:
  assumes ok: "ht_ok h" and sz: "0 < sz" and counted: "num_elements h = of_nat (length (concat (nodes h)))"
  shows "\<exists>h'. hashtable_resize (Some h) sz garbage = Inr (HASH_TABLE_OK, Some h',
      concat (map (freed_data \<circ> snd) (concat (nodes h)))) \<and>
    ht_ok h' \<and> ht_map h' = ht_map h \<and> length (nodes h') = sz \<and> num_elements h' = 0 \<and>
    hashtable_apply_funct_on_elements f (Some h') s = (HASH_TABLE_OK, s)"
proof -
  let ?new = "\<lparr>num_elements = garbage, nodes = replicate sz [], hashfunc = hashfunc h\<rparr> :: 'a hash_table"
  have "?new = hashtable_create sz (Some (hashfunc h)) garbage" by (simp add: hashtable_create_def)
  then have new: "ht_ok ?new" "ht_map ?new = Map.empty"
    using hashtable_create_ok [OF sz] hashtable_create_map [OF sz] by simp_all
  note nodes = concat_nodes [OF ok]
  have "\<forall>(k, d) \<in> set (concat (nodes h)). ht_map h k = Some d \<and> ht_map ?new k = None"
    using map_of_is_SomeI [OF nodes(1)] unfolding nodes(2) new(2) by auto
  from move_all [OF new(1) ok nodes(1) this, of "[]"] obtain new' old' where
    move: "foldE move_element (concat (nodes h)) (?new, h, []) =
      Inr (new', old', concat (map (freed_data \<circ> snd) (concat (nodes h))))"
    "ht_ok new'" "ht_map new' = ht_map h" "hashfunc new' = hashfunc h" "length (nodes new') = sz"
    "hashfunc old' = hashfunc h" "num_elements old' = num_elements h - of_nat (length (concat (nodes h)))"
    unfolding new(2) nodes(2) by auto
  let ?h = "old'\<lparr>nodes := nodes new'\<rparr>"
  have b: "bucket ?h k = bucket new' k" for k by (simp add: bucket_def move(4,6))
  have "ht_ok ?h" using move(2) by (simp add: ht_ok_def b)
  moreover have "ht_map ?h = ht_map h" unfolding move(3) [symmetric] by (simp add: fun_eq_iff ht_map_def b)
  moreover have zero: "num_elements ?h = 0" using move(7) counted by simp
  moreover have "apply_buckets f 0 0 ns s = s" for ns :: "'a chain list" by (cases ns) simp_all
  ultimately show ?thesis using move(1,5)
    by (intro exI [of _ ?h]) (simp add: hashtable_resize_def hashtable_apply_funct_on_elements_def)
qed

lemma hashtable_resize_frees_witness:
  "\<exists>h'. hashtable_resize (Some \<lparr>num_elements = 2, nodes = [[(4, Some CHR ''a'')], [(5, Some CHR ''b'')]], hashfunc = def_hashfunc\<rparr>)
      3 0 = Inr (HASH_TABLE_OK, Some h', ''ab'') \<and> ht_map h' 4 = Some (Some CHR ''a'') \<and>
    hashtable_apply_funct_on_elements (\<lambda>k d n. n + 1) (Some h') (0 :: nat) = (HASH_TABLE_OK, 0)"
proof -
  let ?h = "\<lparr>num_elements = 2, nodes = [[(4, Some CHR ''a'')], [(5, Some CHR ''b'')]], hashfunc = def_hashfunc\<rparr>"
  have "(4 :: nat) mod Suc (Suc 0) = 0" "(5 :: nat) mod Suc (Suc 0) = Suc 0"
    by (simp_all flip: numeral_2_eq_2)
  note this [simp]
  have "ht_ok ?h" by (auto simp: ht_ok_def bucket_def def_hashfunc_def less_Suc_eq)
  moreover have "ht_map ?h 4 = Some (Some CHR ''a'')" by (simp add: ht_map_def bucket_def def_hashfunc_def)
  ultimately show ?thesis
    using hashtable_resize_frees [of ?h 3 0 "\<lambda>k d n. n + 1" "0 :: nat"] by (auto simp: freed_data_def)
qed

end
