(* ===== verification/Pdcp.thy ===== *)
theory Pdcp
  imports Bytes
begin

text \<open>
  A PDCP entity: its numbering (\<open>pdcp_sequence_manager.c\<close>), the fields of its headers (\<open>pdcp_primitives.c\<close>) and the
  COUNT values under which it ciphers (\<open>pdcp_security.c\<close>).
\<close>

section \<open>The entity\<close>

datatype rlc_mode = RLC_MODE_NONE | RLC_MODE_AM | RLC_MODE_UM | RLC_MODE_TM

text \<open>A key is a pointer to a block of memory, or null.\<close>

record pdcp =
  header_compression_profile :: u16
  is_ue :: bool
  is_srb :: bool
  cipheringAlgorithm :: u8
  integrityProtAlgorithm :: u8
  kUPenc :: "nat option"
  kRRCint :: "nat option"
  kRRCenc :: "nat option"
  security_activated :: u8
  rlc_mode :: rlc_mode
  status_report :: u8
  seq_num_size :: u8
  pdcp_lcid :: u32
  pdcp_rb_id :: u16
  next_pdcp_tx_sn :: u16
  next_pdcp_rx_sn :: u16
  next_pdcp_rx_sn_before_integrity :: u16
  tx_hfn :: u32
  rx_hfn :: u32
  rx_hfn_offset :: "16 word"
  last_submitted_pdcp_rx_sn :: u16
  missing_pdu_bitmap :: "u8 list"
  first_missing_pdu :: "16 word"

text \<open>\<open>calloc\<close>, and \<open>memset\<close> with zero.\<close>

definition zero_pdcp :: pdcp where
  "zero_pdcp = \<lparr>header_compression_profile = 0, is_ue = False, is_srb = False, cipheringAlgorithm = 0,
     integrityProtAlgorithm = 0, kUPenc = None, kRRCint = None, kRRCenc = None, security_activated = 0,
     rlc_mode = RLC_MODE_NONE, status_report = 0, seq_num_size = 0, pdcp_lcid = 0, pdcp_rb_id = 0,
     next_pdcp_tx_sn = 0, next_pdcp_rx_sn = 0, next_pdcp_rx_sn_before_integrity = 0, tx_hfn = 0, rx_hfn = 0,
     rx_hfn_offset = 0, last_submitted_pdcp_rx_sn = 0, missing_pdu_bitmap = replicate 512 0,
     first_missing_pdu = 0\<rparr>"

section \<open>Sequence numbers\<close>

definition pdcp_init_seq_numbers :: "pdcp \<Rightarrow> pdcp" where
  "pdcp_init_seq_numbers p = p\<lparr>next_pdcp_tx_sn := 0, next_pdcp_rx_sn := 0, tx_hfn := 0, rx_hfn := 0,
     last_submitted_pdcp_rx_sn := 4095\<rparr>"

definition pdcp_is_seq_num_size_valid :: "pdcp \<Rightarrow> bool" where
  "pdcp_is_seq_num_size_valid p \<longleftrightarrow> seq_num_size p = 5 \<or> seq_num_size p = 7 \<or> seq_num_size p = 12"

definition pdcp_calculate_max_seq_num_for_given_size :: "u8 \<Rightarrow> u16" where
  "pdcp_calculate_max_seq_num_for_given_size sz = push_bit (unat sz) 1 - 1"

definition pdcp_is_seq_num_valid :: "u16 \<Rightarrow> u8 \<Rightarrow> bool" where
  "pdcp_is_seq_num_valid sn sz \<longleftrightarrow> sn \<le> pdcp_calculate_max_seq_num_for_given_size sz"

definition pdcp_get_next_tx_seq_number :: "pdcp \<Rightarrow> u16 \<times> pdcp" where
  "pdcp_get_next_tx_seq_number p =
     (if \<not> pdcp_is_seq_num_size_valid p then (- 1, p)
      else (next_pdcp_tx_sn p,
            if next_pdcp_tx_sn p = pdcp_calculate_max_seq_num_for_given_size (seq_num_size p)
            then p\<lparr>next_pdcp_tx_sn := 0, tx_hfn := tx_hfn p + 1\<rparr>
            else p\<lparr>next_pdcp_tx_sn := next_pdcp_tx_sn p + 1\<rparr>))"

definition pdcp_advance_rx_window :: "pdcp \<Rightarrow> bool \<times> pdcp" where
  "pdcp_advance_rx_window p =
     (if \<not> pdcp_is_seq_num_size_valid p then (False, p)
      else (True,
            if next_pdcp_rx_sn p = pdcp_calculate_max_seq_num_for_given_size (seq_num_size p)
            then p\<lparr>next_pdcp_rx_sn := 0, rx_hfn := rx_hfn p + 1\<rparr>
            else p\<lparr>next_pdcp_rx_sn := next_pdcp_rx_sn p + 1\<rparr>))"

definition util_mark_nth_bit_of_octet :: "u8 \<Rightarrow> nat \<Rightarrow> u8" where
  "util_mark_nth_bit_of_octet b index = or b (drop_bit index 0x80)"

definition pdcp_mark_current_pdu_as_received :: "u16 \<Rightarrow> pdcp \<Rightarrow> pdcp res" where
  "pdcp_mark_current_pdu_as_received sn p =
     (let octet = int (unat sn div 8) in
      bindE (aget (missing_pdu_bitmap p) octet) (\<lambda>b.
      bindE (aset (missing_pdu_bitmap p) octet (util_mark_nth_bit_of_octet b (unat sn mod 8))) (\<lambda>bs.
      Inr (p\<lparr>missing_pdu_bitmap := bs\<rparr>))))"

text \<open>Received numbers over a bearer in acknowledged mode. The code computes the differences as \<open>int\<close>.\<close>

definition rx_acknowledged :: "u16 \<Rightarrow> pdcp \<Rightarrow> bool \<times> pdcp" where
  "rx_acknowledged sn p =
     (let window = (if seq_num_size p = 7 then 64 else 2048);
          s = uint sn; next' = uint (next_pdcp_rx_sn p); last' = uint (last_submitted_pdcp_rx_sn p) in
      if s - last' > window \<or> (0 \<le> last' - s \<and> last' - s < window)
      then (False, p\<lparr>rx_hfn_offset := (if s > next' then - 1 else 0)\<rparr>)
      else if next' - s > window
      then (True, p\<lparr>rx_hfn := rx_hfn p + 1, rx_hfn_offset := 0, next_pdcp_rx_sn := next_pdcp_rx_sn p + 1\<rparr>)
      else if s - next' \<ge> window then (True, p\<lparr>rx_hfn_offset := - 1\<rparr>)
      else if s \<ge> next' then (True, snd (pdcp_advance_rx_window (p\<lparr>rx_hfn_offset := 0, next_pdcp_rx_sn := sn\<rparr>)))
      else (True, p\<lparr>rx_hfn_offset := 0\<rparr>))"

definition pdcp_is_rx_seq_number_valid :: "u16 \<Rightarrow> pdcp \<Rightarrow> bool \<Rightarrow> (bool \<times> pdcp) res" where
  "pdcp_is_rx_seq_number_valid sn p srb =
     (if \<not> pdcp_is_seq_num_size_valid p \<or> \<not> pdcp_is_seq_num_valid sn (seq_num_size p) then Inr (False, p)
      else bindE (pdcp_mark_current_pdu_as_received sn p) (\<lambda>p1.
        Inr (if srb then
               let p2 = (if sn < next_pdcp_rx_sn p1 then p1\<lparr>rx_hfn := rx_hfn p1 + 1\<rparr> else p1) in
               (True, snd (pdcp_advance_rx_window (p2\<lparr>rx_hfn_offset := 0,
                  next_pdcp_rx_sn_before_integrity := next_pdcp_rx_sn p2, next_pdcp_rx_sn := sn\<rparr>)))
             else
               case rlc_mode p1 of
                 RLC_MODE_AM \<Rightarrow> rx_acknowledged sn p1
               | RLC_MODE_UM \<Rightarrow>
                   let p2 = (if sn < next_pdcp_rx_sn p1 then p1\<lparr>rx_hfn := rx_hfn p1 + 1\<rparr> else p1) in
                   (True, snd (pdcp_advance_rx_window (p2\<lparr>next_pdcp_rx_sn := sn\<rparr>)))
               | _ \<Rightarrow> (False, p1))))"

section \<open>COUNT\<close>

text \<open>
  The code compares the size in bits, 5, 7 or 12, with the value that ASN.1 gives to \<open>len7bits\<close>, the first of an
  enumeration (\<open>EUTRA-RRC-Definitions\<close>).
\<close>

definition len7bits :: u8 where "len7bits = 0"

definition pdcp_get_next_count_tx :: "pdcp \<Rightarrow> bool \<Rightarrow> u16 \<Rightarrow> u32" where
  "pdcp_get_next_count_tx p srb sn =
     (if srb then or (push_bit 5 (tx_hfn p)) (ucast (and sn 0x1F))
      else if seq_num_size p = len7bits then or (push_bit 7 (tx_hfn p)) (ucast (and sn 0x7F))
      else or (push_bit 12 (tx_hfn p)) (ucast (and sn 0xFFF)))"

definition pdcp_get_next_count_rx :: "pdcp \<Rightarrow> bool \<Rightarrow> u16 \<Rightarrow> u32 \<times> pdcp" where
  "pdcp_get_next_count_rx p srb sn =
     (let hfn = rx_hfn p + scast (rx_hfn_offset p) in
      (if srb then or (push_bit 5 hfn) (ucast (and sn 0x1F))
       else if seq_num_size p = len7bits then or (push_bit 7 hfn) (ucast (and sn 0x7F))
       else or (push_bit 12 hfn) (ucast (and sn 0xFFF)),
       p\<lparr>rx_hfn_offset := 0\<rparr>))"

section \<open>Headers\<close>

text \<open>The fields of the header at the start of a buffer.\<close>

definition pdcp_get_sequence_number_of_pdu_with_SRB_sn :: "u8 list \<Rightarrow> u8 res" where
  "pdcp_get_sequence_number_of_pdu_with_SRB_sn buf = bindE (aget buf 0) (\<lambda>b. Inr (and b 0x1F))"

definition pdcp_get_sequence_number_of_pdu_with_short_sn :: "u8 list \<Rightarrow> u8 res" where
  "pdcp_get_sequence_number_of_pdu_with_short_sn buf = bindE (aget buf 0) (\<lambda>b. Inr (and b 0x7F))"

definition pdcp_get_sequence_number_of_pdu_with_long_sn :: "u8 list \<Rightarrow> u16 res" where
  "pdcp_get_sequence_number_of_pdu_with_long_sn buf =
     bindE (aget buf 0) (\<lambda>b0. bindE (aget buf 1) (\<lambda>b1.
     Inr (or (push_bit 8 (ucast (and b0 0x0F))) (ucast (and b1 0xFF)))))"

text \<open>The shift is one of a value of 8 bits by 8 places.\<close>

definition pdcp_get_dc_filed :: "u8 list \<Rightarrow> u8 res" where
  "pdcp_get_dc_filed buf = bindE (aget buf 0) (\<lambda>b. Inr (drop_bit 8 (and b 0xF0)))"

text \<open>The bytes that the serialisers write; the number of a control plane header has 8 bits.\<close>

definition pdcp_serialize_control_plane_data_pdu_with_SRB_sn_buffer :: "u8 \<Rightarrow> u8 list" where
  "pdcp_serialize_control_plane_data_pdu_with_SRB_sn_buffer sn = [and sn 0x1F]"

definition pdcp_serialize_user_plane_data_pdu_with_long_sn_buffer :: "bool \<Rightarrow> u16 \<Rightarrow> u8 list" where
  "pdcp_serialize_user_plane_data_pdu_with_long_sn_buffer dc sn =
     [let b = ucast (and (drop_bit 8 sn) 0xFF) in if dc then or b 0x80 else b, ucast (and sn 0xFF)]"

text \<open>The status report is written into a buffer that has the size of the report.\<close>

definition pdcp_serialize_control_pdu_for_pdcp_status_report :: "u8 list \<Rightarrow> u8 list \<Rightarrow> u16 \<Rightarrow> u8 list res" where
  "pdcp_serialize_control_pdu_for_pdcp_status_report buf bitmap first_missing =
     bindE (aget buf 0) (\<lambda>b0. bindE (aget buf 1) (\<lambda>b1.
     if length buf < 514 \<or> length bitmap < 512 then Inl OutOfBounds
     else Inr ([or (util_mark_nth_bit_of_octet b0 1) (ucast (and (drop_bit 8 first_missing) 0xFF)),
                or b1 (ucast (and first_missing 0xFF))] @ take 512 bitmap @ drop 514 buf)))"

end
