(* ===== verification/Snow3g.thy ===== *)
theory Snow3g
  imports Bytes
begin

text \<open>
  The stream cipher SNOW 3G of \<open>openair2/UTIL/OSA/osa_snow3g.c\<close>, with the tables of \<open>osa_rijndael.c\<close>: the generator of
  the key stream under which PDCP ciphers and computes message authentication codes.
\<close>

section \<open>The tables\<close>

definition OSA_SR :: "u8 list" where
  "OSA_SR = [
   0x63, 0x7C, 0x77, 0x7B, 0xF2, 0x6B, 0x6F, 0xC5, 0x30, 0x01, 0x67, 0x2B, 0xFE, 0xD7, 0xAB, 0x76,
   0xCA, 0x82, 0xC9, 0x7D, 0xFA, 0x59, 0x47, 0xF0, 0xAD, 0xD4, 0xA2, 0xAF, 0x9C, 0xA4, 0x72, 0xC0,
   0xB7, 0xFD, 0x93, 0x26, 0x36, 0x3F, 0xF7, 0xCC, 0x34, 0xA5, 0xE5, 0xF1, 0x71, 0xD8, 0x31, 0x15,
   0x04, 0xC7, 0x23, 0xC3, 0x18, 0x96, 0x05, 0x9A, 0x07, 0x12, 0x80, 0xE2, 0xEB, 0x27, 0xB2, 0x75,
   0x09, 0x83, 0x2C, 0x1A, 0x1B, 0x6E, 0x5A, 0xA0, 0x52, 0x3B, 0xD6, 0xB3, 0x29, 0xE3, 0x2F, 0x84,
   0x53, 0xD1, 0x00, 0xED, 0x20, 0xFC, 0xB1, 0x5B, 0x6A, 0xCB, 0xBE, 0x39, 0x4A, 0x4C, 0x58, 0xCF,
   0xD0, 0xEF, 0xAA, 0xFB, 0x43, 0x4D, 0x33, 0x85, 0x45, 0xF9, 0x02, 0x7F, 0x50, 0x3C, 0x9F, 0xA8,
   0x51, 0xA3, 0x40, 0x8F, 0x92, 0x9D, 0x38, 0xF5, 0xBC, 0xB6, 0xDA, 0x21, 0x10, 0xFF, 0xF3, 0xD2,
   0xCD, 0x0C, 0x13, 0xEC, 0x5F, 0x97, 0x44, 0x17, 0xC4, 0xA7, 0x7E, 0x3D, 0x64, 0x5D, 0x19, 0x73,
   0x60, 0x81, 0x4F, 0xDC, 0x22, 0x2A, 0x90, 0x88, 0x46, 0xEE, 0xB8, 0x14, 0xDE, 0x5E, 0x0B, 0xDB,
   0xE0, 0x32, 0x3A, 0x0A, 0x49, 0x06, 0x24, 0x5C, 0xC2, 0xD3, 0xAC, 0x62, 0x91, 0x95, 0xE4, 0x79,
   0xE7, 0xC8, 0x37, 0x6D, 0x8D, 0xD5, 0x4E, 0xA9, 0x6C, 0x56, 0xF4, 0xEA, 0x65, 0x7A, 0xAE, 0x08,
   0xBA, 0x78, 0x25, 0x2E, 0x1C, 0xA6, 0xB4, 0xC6, 0xE8, 0xDD, 0x74, 0x1F, 0x4B, 0xBD, 0x8B, 0x8A,
   0x70, 0x3E, 0xB5, 0x66, 0x48, 0x03, 0xF6, 0x0E, 0x61, 0x35, 0x57, 0xB9, 0x86, 0xC1, 0x1D, 0x9E,
   0xE1, 0xF8, 0x98, 0x11, 0x69, 0xD9, 0x8E, 0x94, 0x9B, 0x1E, 0x87, 0xE9, 0xCE, 0x55, 0x28, 0xDF,
   0x8C, 0xA1, 0x89, 0x0D, 0xBF, 0xE6, 0x42, 0x68, 0x41, 0x99, 0x2D, 0x0F, 0xB0, 0x54, 0xBB, 0x16]"

definition OSA_SQ :: "u8 list" where
  "OSA_SQ = [
   0x25, 0x24, 0x73, 0x67, 0xD7, 0xAE, 0x5C, 0x30, 0xA4, 0xEE, 0x6E, 0xCB, 0x7D, 0xB5, 0x82, 0xDB,
   0xE4, 0x8E, 0x48, 0x49, 0x4F, 0x5D, 0x6A, 0x78, 0x70, 0x88, 0xE8, 0x5F, 0x5E, 0x84, 0x65, 0xE2,
   0xD8, 0xE9, 0xCC, 0xED, 0x40, 0x2F, 0x11, 0x28, 0x57, 0xD2, 0xAC, 0xE3, 0x4A, 0x15, 0x1B, 0xB9,
   0xB2, 0x80, 0x85, 0xA6, 0x2E, 0x02, 0x47, 0x29, 0x07, 0x4B, 0x0E, 0xC1, 0x51, 0xAA, 0x89, 0xD4,
   0xCA, 0x01, 0x46, 0xB3, 0xEF, 0xDD, 0x44, 0x7B, 0xC2, 0x7F, 0xBE, 0xC3, 0x9F, 0x20, 0x4C, 0x64,
   0x83, 0xA2, 0x68, 0x42, 0x13, 0xB4, 0x41, 0xCD, 0xBA, 0xC6, 0xBB, 0x6D, 0x4D, 0x71, 0x21, 0xF4,
   0x8D, 0xB0, 0xE5, 0x93, 0xFE, 0x8F, 0xE6, 0xCF, 0x43, 0x45, 0x31, 0x22, 0x37, 0x36, 0x96, 0xFA,
   0xBC, 0x0F, 0x08, 0x52, 0x1D, 0x55, 0x1A, 0xC5, 0x4E, 0x23, 0x69, 0x7A, 0x92, 0xFF, 0x5B, 0x5A,
   0xEB, 0x9A, 0x1C, 0xA9, 0xD1, 0x7E, 0x0D, 0xFC, 0x50, 0x8A, 0xB6, 0x62, 0xF5, 0x0A, 0xF8, 0xDC,
   0x03, 0x3C, 0x0C, 0x39, 0xF1, 0xB8, 0xF3, 0x3D, 0xF2, 0xD5, 0x97, 0x66, 0x81, 0x32, 0xA0, 0x00,
   0x06, 0xCE, 0xF6, 0xEA, 0xB7, 0x17, 0xF7, 0x8C, 0x79, 0xD6, 0xA7, 0xBF, 0x8B, 0x3F, 0x1F, 0x53,
   0x63, 0x75, 0x35, 0x2C, 0x60, 0xFD, 0x27, 0xD3, 0x94, 0xA5, 0x7C, 0xA1, 0x05, 0x58, 0x2D, 0xBD,
   0xD9, 0xC7, 0xAF, 0x6B, 0x54, 0x0B, 0xE0, 0x38, 0x04, 0xC8, 0x9D, 0xE7, 0x14, 0xB1, 0x87, 0x9C,
   0xDF, 0x6F, 0xF9, 0xDA, 0x2A, 0xC4, 0x59, 0x16, 0x74, 0x91, 0xAB, 0x26, 0x61, 0x76, 0x34, 0x2B,
   0xAD, 0x99, 0xFB, 0x72, 0xEC, 0x33, 0x12, 0xDE, 0x98, 0x3B, 0xC0, 0x9B, 0x3E, 0x18, 0x10, 0x3A,
   0x56, 0xE1, 0x77, 0xC9, 0x1E, 0x9E, 0x95, 0xA3, 0x90, 0x19, 0xA8, 0x6C, 0x09, 0xD0, 0xF0, 0x86]"

section \<open>Multiplication of bytes\<close>

definition OSA_MULx :: "u8 \<Rightarrow> u8 \<Rightarrow> u8" where
  "OSA_MULx V c = (if and V 0x80 \<noteq> 0 then xor (push_bit 1 V) c else push_bit 1 V)"

fun OSA_MULxPOW :: "u8 \<Rightarrow> nat \<Rightarrow> u8 \<Rightarrow> u8" where
  "OSA_MULxPOW V 0 c = V"
| "OSA_MULxPOW V (Suc i) c = OSA_MULx (OSA_MULxPOW V i c) c"

text \<open>Four bytes as one word.\<close>

definition word_of_bytes :: "u8 \<Rightarrow> u8 \<Rightarrow> u8 \<Rightarrow> u8 \<Rightarrow> u32" where
  "word_of_bytes r0 r1 r2 r3 =
     or (or (or (push_bit 24 (ucast r0)) (push_bit 16 (ucast r1))) (push_bit 8 (ucast r2))) (ucast r3)"

definition OSA_MULalpha :: "u8 \<Rightarrow> u32" where
  "OSA_MULalpha c = word_of_bytes (OSA_MULxPOW c 23 0xa9) (OSA_MULxPOW c 245 0xa9)
     (OSA_MULxPOW c 48 0xa9) (OSA_MULxPOW c 239 0xa9)"

definition OSA_DIValpha :: "u8 \<Rightarrow> u32" where
  "OSA_DIValpha c = word_of_bytes (OSA_MULxPOW c 16 0xa9) (OSA_MULxPOW c 39 0xa9)
     (OSA_MULxPOW c 6 0xa9) (OSA_MULxPOW c 64 0xa9)"

section \<open>The substitutions\<close>

definition byte_at :: "nat \<Rightarrow> u32 \<Rightarrow> u8" where
  "byte_at n w = ucast (and (drop_bit n w) 0xff)"

definition OSA_S1 :: "u32 \<Rightarrow> u32" where
  "OSA_S1 w =
     (let s0 = OSA_SR ! unat (byte_at 24 w); s1 = OSA_SR ! unat (byte_at 16 w);
          s2 = OSA_SR ! unat (byte_at 8 w); s3 = OSA_SR ! unat (byte_at 0 w);
          r0 = xor (xor (xor (OSA_MULx s0 0x1b) s1) s2) (xor (OSA_MULx s3 0x1b) s3);
          r1 = xor (xor (xor (xor (OSA_MULx s0 0x1b) s0) (OSA_MULx s1 0x1b)) s2) s3;
          r2 = xor (xor (xor s0 (xor (OSA_MULx s1 0x1b) s1)) (OSA_MULx s2 0x1b)) s3;
          r3 = xor (xor (xor s0 s1) (xor (OSA_MULx s2 0x1b) s2)) (OSA_MULx s3 0x1b)
      in word_of_bytes r0 r1 r2 r3)"

definition OSA_S2 :: "u32 \<Rightarrow> u32" where
  "OSA_S2 w =
     (let s0 = OSA_SQ ! unat (byte_at 24 w); s1 = OSA_SQ ! unat (byte_at 16 w);
          s2 = OSA_SQ ! unat (byte_at 8 w); s3 = OSA_SQ ! unat (byte_at 0 w);
          r0 = xor (xor (xor (OSA_MULx s0 0x69) s1) s2) (xor (OSA_MULx s3 0x69) s3);
          r1 = xor (xor (xor (xor (OSA_MULx s0 0x69) s0) (OSA_MULx s1 0x69)) s2) s3;
          r2 = xor (xor (xor s0 (xor (OSA_MULx s1 0x69) s1)) (OSA_MULx s2 0x69)) s3;
          r3 = xor (xor (xor s0 s1) (xor (OSA_MULx s2 0x69) s2)) (OSA_MULx s3 0x69)
      in word_of_bytes r0 r1 r2 r3)"

section \<open>The registers\<close>

record osa_snow_3g_context =
  LFSR_S0 :: u32
  LFSR_S1 :: u32
  LFSR_S2 :: u32
  LFSR_S3 :: u32
  LFSR_S4 :: u32
  LFSR_S5 :: u32
  LFSR_S6 :: u32
  LFSR_S7 :: u32
  LFSR_S8 :: u32
  LFSR_S9 :: u32
  LFSR_S10 :: u32
  LFSR_S11 :: u32
  LFSR_S12 :: u32
  LFSR_S13 :: u32
  LFSR_S14 :: u32
  LFSR_S15 :: u32
  FSM_R1 :: u32
  FSM_R2 :: u32
  FSM_R3 :: u32

definition shift_LFSR :: "u32 \<Rightarrow> osa_snow_3g_context \<Rightarrow> osa_snow_3g_context" where
  "shift_LFSR v c = c\<lparr>LFSR_S0 := LFSR_S1 c, LFSR_S1 := LFSR_S2 c, LFSR_S2 := LFSR_S3 c, LFSR_S3 := LFSR_S4 c, LFSR_S4 :=
     LFSR_S5 c, LFSR_S5 := LFSR_S6 c, LFSR_S6 := LFSR_S7 c, LFSR_S7 := LFSR_S8 c, LFSR_S8 := LFSR_S9 c,
     LFSR_S9 := LFSR_S10 c, LFSR_S10 := LFSR_S11 c, LFSR_S11 := LFSR_S12 c, LFSR_S12 := LFSR_S13 c,
     LFSR_S13 := LFSR_S14 c, LFSR_S14 := LFSR_S15 c, LFSR_S15 := v\<rparr>"

definition feedback :: "osa_snow_3g_context \<Rightarrow> u32" where
  "feedback c =
     xor (xor (xor (xor (and (push_bit 8 (LFSR_S0 c)) 0xffffff00) (OSA_MULalpha (byte_at 24 (LFSR_S0 c)))) (LFSR_S2 c))
       (and (drop_bit 8 (LFSR_S11 c)) 0x00ffffff)) (OSA_DIValpha (byte_at 0 (LFSR_S11 c)))"

definition osa_snow3g_clock_LFSR_initialization_mode :: "u32 \<Rightarrow> osa_snow_3g_context \<Rightarrow> osa_snow_3g_context" where
  "osa_snow3g_clock_LFSR_initialization_mode F c = shift_LFSR (xor (feedback c) F) c"

definition osa_snow3g_clock_LFSR_key_stream_mode :: "osa_snow_3g_context \<Rightarrow> osa_snow_3g_context" where
  "osa_snow3g_clock_LFSR_key_stream_mode c = shift_LFSR (feedback c) c"

definition osa_snow3g_clock_fsm :: "osa_snow_3g_context \<Rightarrow> u32 \<times> osa_snow_3g_context" where
  "osa_snow3g_clock_fsm c =
     (let F = xor (LFSR_S15 c + FSM_R1 c) (FSM_R2 c); r = FSM_R2 c + xor (FSM_R3 c) (LFSR_S5 c) in
      (F, c\<lparr>FSM_R3 := OSA_S2 (FSM_R2 c), FSM_R2 := OSA_S1 (FSM_R1 c), FSM_R1 := r\<rparr>))"

section \<open>Key stream\<close>

definition initialization_round :: "osa_snow_3g_context \<Rightarrow> osa_snow_3g_context" where
  "initialization_round c =
     (let (F, c1) = osa_snow3g_clock_fsm c in osa_snow3g_clock_LFSR_initialization_mode F c1)"

text \<open>The arrays \<open>k\<close> and \<open>IV\<close> have four words.\<close>

definition osa_snow3g_initialize :: "u32 list \<Rightarrow> u32 list \<Rightarrow> osa_snow_3g_context" where
  "osa_snow3g_initialize k IV =
     (let ones = 0xffffffff :: u32 in
      (initialization_round ^^ 32)
        \<lparr>LFSR_S0 = xor (k ! 0) ones, LFSR_S1 = xor (k ! 1) ones, LFSR_S2 = xor (k ! 2) ones, LFSR_S3 = xor (k ! 3) ones,
         LFSR_S4 = k ! 0, LFSR_S5 = k ! 1, LFSR_S6 = k ! 2, LFSR_S7 = k ! 3,
         LFSR_S8 = xor (k ! 0) ones, LFSR_S9 = xor (xor (k ! 1) ones) (IV ! 3),
         LFSR_S10 = xor (xor (k ! 2) ones) (IV ! 2), LFSR_S11 = xor (k ! 3) ones,
         LFSR_S12 = xor (k ! 0) (IV ! 1), LFSR_S13 = k ! 1, LFSR_S14 = k ! 2, LFSR_S15 = xor (k ! 3) (IV ! 0),
         FSM_R1 = 0, FSM_R2 = 0, FSM_R3 = 0\<rparr>)"

fun key_stream_words :: "nat \<Rightarrow> osa_snow_3g_context \<Rightarrow> u32 list" where
  "key_stream_words 0 c = []"
| "key_stream_words (Suc t) c =
     (let (F, c1) = osa_snow3g_clock_fsm c in
      xor F (LFSR_S0 c1) # key_stream_words t (osa_snow3g_clock_LFSR_key_stream_mode c1))"

definition osa_snow3g_generate_key_stream :: "nat \<Rightarrow> osa_snow_3g_context \<Rightarrow> u32 list" where
  "osa_snow3g_generate_key_stream n c =
     key_stream_words n (osa_snow3g_clock_LFSR_key_stream_mode (snd (osa_snow3g_clock_fsm c)))"

lemma length_key_stream [simp]: "length (osa_snow3g_generate_key_stream n c) = n"
proof -
  have "length (key_stream_words n c) = n" for c by (induction n arbitrary: c) (simp_all add: Let_def split: prod.split)
  then show ?thesis by (simp add: osa_snow3g_generate_key_stream_def)
qed

text \<open>A longer key stream begins with the shorter one.\<close>

lemma key_stream_prefix:
  "m \<le> n \<Longrightarrow> take m (osa_snow3g_generate_key_stream n c) = osa_snow3g_generate_key_stream m c"
proof -
  have "m \<le> n \<Longrightarrow> take m (key_stream_words n c) = key_stream_words m c" for c
  proof (induction n arbitrary: m c)
    case 0
    then show ?case by simp
  next
    case (Suc n)
    then show ?case by (cases m) (simp_all add: Let_def split: prod.split)
  qed
  then show "m \<le> n \<Longrightarrow> take m (osa_snow3g_generate_key_stream n c) = osa_snow3g_generate_key_stream m c"
    by (simp add: osa_snow3g_generate_key_stream_def)
qed

end
