(* ===== verification/SecurityStreams.thy ===== *)
theory SecurityStreams
  imports Snow3g
begin


text \<open>
  Ciphering and integrity protection of \<open>openair2/UTIL/OSA\<close>: \<open>osa_stream_eea.c\<close> and \<open>osa_stream_eia.c\<close>.

  A message is the part of a buffer that starts where the pointer \<open>message\<close> points to; what follows the message in
  the buffer is there too, because the SNOW 3G functions go on to the end of a word of 32 bits. The block ciphers
  are those of nettle and OpenSSL: \<open>aes_ctr\<close> gives the bytes that AES in counter mode combines with a message of some
  length, under a key and a first counter block, and \<open>aes_cmac\<close> is the authentication code of OpenSSL.

  The key is what reading it through its pointer yields, which can be an error. EEA1 asserts that the pointer is not
  null.
\<close>

section \<open>Parameters of an algorithm\<close>

record stream_cipher =
  key :: "u8 list res"
  key_length :: u32
  count :: u32
  bearer :: u8
  direction :: u8
  blength :: u32

definition hton_int32 :: "u32 \<Rightarrow> u32" where
  "hton_int32 x = or (or (or (push_bit 24 (and x 0x000000FF)) (push_bit 8 (and x 0x0000FF00)))
     (drop_bit 8 (and x 0x00FF0000))) (drop_bit 24 (and x 0xFF000000))"

text \<open>A word in memory: the least significant byte first.\<close>

definition read_word :: "u8 list \<Rightarrow> int \<Rightarrow> u32 res" where
  "read_word bs i =
     bindE (aget bs i) (\<lambda>b0. bindE (aget bs (i + 1)) (\<lambda>b1. bindE (aget bs (i + 2)) (\<lambda>b2. bindE (aget bs (i + 3)) (\<lambda>b3.
     Inr (word_of_bytes b3 b2 b1 b0)))))"

definition bytes_of_word :: "u32 \<Rightarrow> u8 list" where
  "bytes_of_word w = [byte_at 0 w, byte_at 8 w, byte_at 16 w, byte_at 24 w]"

text \<open>The four words of a key, \<open>K[0]\<close> to \<open>K[3]\<close>.\<close>

definition key_words :: "u8 list \<Rightarrow> u32 list res" where
  "key_words k =
     bindE (read_word k 0) (\<lambda>k3. bindE (read_word k 4) (\<lambda>k2. bindE (read_word k 8) (\<lambda>k1. bindE (read_word k 12) (\<lambda>k0.
     Inr (map hton_int32 [k0, k1, k2, k3])))))"

section \<open>Ciphering\<close>

definition xor_bytes :: "u8 list \<Rightarrow> u8 list \<Rightarrow> u8 list" where
  "xor_bytes ks bs = map2 xor ks bs @ drop (length ks) bs"

definition stream_encrypt_eea0 :: "stream_cipher \<Rightarrow> u8 list \<Rightarrow> u8 list res" where
  "stream_encrypt_eea0 sc msg = (if unat (drop_bit 3 (blength sc + 7)) \<le> length msg then Inr msg else Inl OutOfBounds)"

definition eea1_IV :: "stream_cipher \<Rightarrow> u32 list" where
  "eea1_IV sc =
     (let iv3 = count sc;
          iv2 = push_bit 24 (or (push_bit 3 (ucast (bearer sc))) (push_bit 2 (and (ucast (direction sc)) 1))) in
      [iv2, iv3, iv2, iv3])"

text \<open>The last word is masked when the message does not end with a whole byte.\<close>

definition mask_last_word :: "u32 \<Rightarrow> u32 list \<Rightarrow> u32 list" where
  "mask_last_word zero_bit ks =
     (if zero_bit > 0 then ks[length ks - 1 := and (last ks) (push_bit (8 - unat zero_bit) 0xFFFFFFFF)] else ks)"

text \<open>The last byte is at \<open>i\<close>.\<close>

definition mask_last_byte :: "u32 \<Rightarrow> int \<Rightarrow> u8 list \<Rightarrow> u8 list res" where
  "mask_last_byte zero_bit i bs =
     (if zero_bit > 0 then bindE (aget bs i) (\<lambda>b. aset bs i (and b (push_bit (8 - unat zero_bit) 0xFF))) else Inr bs)"

definition stream_encrypt_eea1 :: "stream_cipher \<Rightarrow> u8 list \<Rightarrow> u8 list res" where
  "stream_encrypt_eea1 sc msg =
     (if key sc = Inl NullDeref \<or> key_length sc \<noteq> 16 then Inl Abort
      else bindE (bindE (key sc) key_words) (\<lambda>k.
        let n = unat ((blength sc + 31) div 32);
            zero_bit = and (blength sc) 0x7;
            ks = mask_last_word zero_bit (osa_snow3g_generate_key_stream n (osa_snow3g_initialize k (eea1_IV sc)));
            stream = concat (map (bytes_of_word \<circ> hton_int32) ks) in
        if length msg < length stream then Inl OutOfBounds
        else mask_last_byte zero_bit (uint (drop_bit 3 (blength sc + 7)) - 1) (xor_bytes stream msg)))"

text \<open>The first counter block of counter mode, and the head of what EIA2 authenticates.\<close>

definition count_block :: "stream_cipher \<Rightarrow> u8 list" where
  "count_block sc = bytes_of_word (hton_int32 (count sc)) @
     [or (push_bit 3 (and (bearer sc) 0x1F)) (push_bit 2 (and (direction sc) 0x01)), 0, 0, 0]"

definition stream_encrypt_eea2 ::
  "(u8 list \<Rightarrow> u8 list \<Rightarrow> nat \<Rightarrow> u8 list) \<Rightarrow> stream_cipher \<Rightarrow> u8 list \<Rightarrow> u8 list res" where
  "stream_encrypt_eea2 aes_ctr sc msg =
     (let zero_bit = and (blength sc) 0x7;
          byte_length = drop_bit 3 (blength sc) + (if zero_bit > 0 then 1 else 0) in
      bindE (key sc) (\<lambda>k.
      if length msg < unat byte_length then Inl OutOfBounds
      else mask_last_byte zero_bit (uint byte_length - 1)
        (xor_bytes (take (unat byte_length) (aes_ctr k (count_block sc @ replicate 8 0) (unat byte_length))) msg)))"

text \<open>The returned code, and the bytes from the start of the message on.\<close>

definition stream_encrypt ::
  "(u8 list \<Rightarrow> u8 list \<Rightarrow> nat \<Rightarrow> u8 list) \<Rightarrow> u8 \<Rightarrow> stream_cipher \<Rightarrow> u8 list \<Rightarrow> (int \<times> u8 list) res" where
  "stream_encrypt aes_ctr algorithm sc msg =
     (if algorithm = 0 then bindE (stream_encrypt_eea0 sc msg) (\<lambda>bs. Inr (0, bs))
      else if algorithm = 1 then bindE (stream_encrypt_eea1 sc msg) (\<lambda>bs. Inr (0, bs))
      else if algorithm = 2 then bindE (stream_encrypt_eea2 aes_ctr sc msg) (\<lambda>bs. Inr (0, bs))
      else Inr (- 1, msg))"

section \<open>Integrity\<close>

definition OSA_MUL64x :: "u64 \<Rightarrow> u64 \<Rightarrow> u64" where
  "OSA_MUL64x V c = (if and V 0x8000000000000000 \<noteq> 0 then xor (push_bit 1 V) c else push_bit 1 V)"

fun OSA_MUL64xPOW :: "u64 \<Rightarrow> nat \<Rightarrow> u64 \<Rightarrow> u64" where
  "OSA_MUL64xPOW V 0 c = V"
| "OSA_MUL64xPOW V (Suc i) c = OSA_MUL64x (OSA_MUL64xPOW V i c) c"

definition OSA_MUL64 :: "u64 \<Rightarrow> u64 \<Rightarrow> u64 \<Rightarrow> u64" where
  "OSA_MUL64 V P c =
     fold (\<lambda>i result. if and (drop_bit i P) 1 \<noteq> 0 then xor result (OSA_MUL64xPOW V i c) else result) [0..<64] 0"

definition osa_mask32bit :: "nat \<Rightarrow> u32" where
  "osa_mask32bit n = (if n mod 32 = 0 then 0xffffffff else ((\<lambda>mask. xor (drop_bit 1 mask) 0x80000000) ^^ n) 0)"

definition eia1_IV :: "stream_cipher \<Rightarrow> u32 list" where
  "eia1_IV sc =
     (let b = push_bit 27 (and (ucast (bearer sc)) 0x1F) in
      [xor b (push_bit 15 (and (ucast (direction sc)) 1)), xor (count sc) (push_bit 31 (ucast (direction sc))), b, count sc])"

text \<open>\<open>message[i]\<close>, for the message as an array of words.\<close>

definition message_word :: "u8 list \<Rightarrow> int \<Rightarrow> u32 res" where
  "message_word msg i = bindE (read_word msg (4 * i)) (\<lambda>w. Inr (hton_int32 w))"

definition eia1_block :: "u64 \<Rightarrow> u8 list \<Rightarrow> nat \<Rightarrow> u64 \<Rightarrow> u64 res" where
  "eia1_block P msg i EVAL =
     bindE (message_word msg (2 * int i)) (\<lambda>hi. bindE (message_word msg (2 * int i + 1)) (\<lambda>lo.
     Inr (OSA_MUL64 (xor EVAL (or (push_bit 32 (ucast hi)) (ucast lo))) P 0x1b)))"

definition eia1_last_block :: "u8 list \<Rightarrow> u32 \<Rightarrow> int \<Rightarrow> u64 res" where
  "eia1_last_block msg bl i =
     (let rem_bits = (if bl mod 64 = 0 then 64 else unat (bl mod 64));
          mask = osa_mask32bit (rem_bits mod 32) in
      bindE (message_word msg (2 * i)) (\<lambda>hi.
      if rem_bits > 32
      then bindE (message_word msg (2 * i + 1)) (\<lambda>lo. Inr (or (push_bit 32 (ucast hi)) (ucast (and lo mask))))
      else Inr (push_bit 32 (and (ucast hi) (ucast mask)))))"

definition stream_compute_integrity_eia1 :: "stream_cipher \<Rightarrow> u8 list \<Rightarrow> u8 list res" where
  "stream_compute_integrity_eia1 sc msg =
     bindE (bindE (key sc) key_words) (\<lambda>k.
     let z = osa_snow3g_generate_key_stream 5 (osa_snow3g_initialize k (eia1_IV sc));
         P = or (push_bit 32 (ucast (z ! 0))) (ucast (z ! 1));
         Q = or (push_bit 32 (ucast (z ! 2))) (ucast (z ! 3));
         D = (uint (blength sc) + 63) div 64 + 1 in
     bindE (foldE (eia1_block P msg) [0..<nat (D - 2)] 0) (\<lambda>EVAL.
     bindE (eia1_last_block msg (blength sc) (D - 2)) (\<lambda>M_D_2.
     let e1 = OSA_MUL64 (xor EVAL M_D_2) P 0x1b;
         e2 = OSA_MUL64 (xor e1 (ucast (blength sc))) Q 0x1b;
         MAC_I = xor (ucast (drop_bit 32 e2)) (z ! 4) in
     Inr (bytes_of_word (hton_int32 MAC_I)))))"

definition stream_compute_integrity_eia2 ::
  "(u8 list \<Rightarrow> u8 list \<Rightarrow> u8 list) \<Rightarrow> stream_cipher \<Rightarrow> u8 list \<Rightarrow> u8 list res" where
  "stream_compute_integrity_eia2 aes_cmac sc msg =
     (let zero_bit = and (blength sc) 0x7;
          m_length = unat (drop_bit 3 (blength sc) + (if zero_bit > 0 then 1 else 0)) in
      bindE (key sc) (\<lambda>k.
      if length msg < m_length then Inl OutOfBounds
      else Inr (take 4 (aes_cmac (take (unat (key_length sc)) k) (count_block sc @ take m_length msg)))))"

text \<open>The code that is written, or none.\<close>

definition stream_compute_integrity ::
  "(u8 list \<Rightarrow> u8 list \<Rightarrow> u8 list) \<Rightarrow> u8 \<Rightarrow> stream_cipher \<Rightarrow> u8 list \<Rightarrow> u8 list option res" where
  "stream_compute_integrity aes_cmac algorithm sc msg =
     (if algorithm = 1 then bindE (stream_compute_integrity_eia1 sc msg) (\<lambda>m. Inr (Some m))
      else if algorithm = 2 then bindE (stream_compute_integrity_eia2 aes_cmac sc msg) (\<lambda>m. Inr (Some m))
      else Inr None)"

definition stream_check_integrity ::
  "(u8 list \<Rightarrow> u8 list \<Rightarrow> u8 list) \<Rightarrow> u8 \<Rightarrow> stream_cipher \<Rightarrow> u8 list \<Rightarrow> u8 list \<Rightarrow> int res" where
  "stream_check_integrity aes_cmac algorithm sc msg expected =
     (if algorithm = 0 then Inr 0
      else bindE (stream_compute_integrity aes_cmac algorithm sc msg) (\<lambda>m.
        Inr (case m of None \<Rightarrow> - 1 | Some result \<Rightarrow> if result = take 4 expected then 0 else - 1)))"

section \<open>Ciphering twice\<close>

lemma length_xor_bytes [simp]: "length ks \<le> length bs \<Longrightarrow> length (xor_bytes ks bs) = length bs"
  by (simp add: xor_bytes_def)

lemma map2_xor_cancel: "length ks \<le> length bs \<Longrightarrow> map2 xor ks (map2 xor ks bs) = take (length ks) bs"
  for bs :: "u8 list"
proof (induction ks arbitrary: bs)
  case Nil
  then show ?case by simp
next
  case (Cons k ks)
  then show ?case by (cases bs) (simp_all add: xor.assoc [symmetric])
qed

lemma xor_bytes_cancel [simp]: "length ks \<le> length bs \<Longrightarrow> xor_bytes ks (xor_bytes ks bs) = bs"
  by (simp add: xor_bytes_def zip_append2 map2_xor_cancel)

lemma drop_xor_bytes: "length ks \<le> n \<Longrightarrow> n \<le> length bs \<Longrightarrow> drop n (xor_bytes ks bs) = drop n bs"
  by (simp add: xor_bytes_def)

lemma take_xor_bytes: "length ks \<le> length bs \<Longrightarrow> take (length ks) (xor_bytes ks bs) = map2 xor ks bs"
  by (simp add: xor_bytes_def)


text \<open>
  How many bytes from the start of the message on are combined with the key stream: EEA1 goes on to the end of
  the last word, up to three bytes further than the message.
\<close>

definition reach :: "u8 \<Rightarrow> stream_cipher \<Rightarrow> nat" where
  "reach algorithm sc =
     (if algorithm = 1 then 4 * unat ((blength sc + 31) div 32)
      else if algorithm = 0 then unat (drop_bit 3 (blength sc + 7))
      else if algorithm = 2 then unat (drop_bit 3 (blength sc) + (if and (blength sc) 7 > 0 then 1 else 0)) else 0)"

lemma drop_bit_round: "and bl 7 = 0 \<Longrightarrow> drop_bit 3 (bl + 7) = drop_bit 3 bl" for bl :: u32
proof -
  assume "and bl 7 = 0"
  then have "and bl (mask 3) = 0" by (simp add: mask_eq_exp_minus_1)
  then have "unat bl mod 8 = 0" using unat_mask [of bl 3] by simp
  then obtain k where k: "unat bl = 8 * k" by auto
  have "unat bl < 2 ^ 32" using unsigned_less [of bl] by simp
  with k have "unat bl + unat (7 :: u32) < 2 ^ LENGTH(32)" by simp
  with k have "unat (bl + 7) = 8 * k + 7" by (simp add: unat_add_lem [THEN iffD1])
  with k have "unat (bl + 7) div 8 = unat bl div 8" by simp
  then have "unat (drop_bit 3 (bl + 7)) = unat (drop_bit 3 bl)" by (simp add: drop_bit_eq_div unat_div)
  then show ?thesis by (simp only: word_unat_eq_iff)
qed

lemma map2_xor_zero: "length bs = n \<Longrightarrow> map2 xor (replicate n 0) bs = bs" for bs :: "u8 list"
  by (induction bs arbitrary: n) auto

lemma xor_bytes_zero [simp]: "n \<le> length bs \<Longrightarrow> xor_bytes (replicate n 0) bs = bs"
  using map2_xor_zero [of "take n bs" n] by (simp add: xor_bytes_def zip_replicate1 min_def)

lemma length_bytes_of_words [simp]: "length (concat (map (bytes_of_word \<circ> f) ws)) = 4 * length ws"
  by (induction ws) (simp_all add: bytes_of_word_def)

lemma stream_encrypt_stream:
  assumes bits: "and (blength sc) 7 = 0" and aes: "\<And>k b n. length (aes_ctr k b n) = n"
    and ran: "stream_encrypt aes_ctr algorithm sc msg = Inr (rc, bs)"
  shows "\<exists>ks. length ks = reach algorithm sc \<and> reach algorithm sc \<le> length msg \<and> bs = xor_bytes ks msg \<and>
    (\<forall>m. reach algorithm sc \<le> length m \<longrightarrow> stream_encrypt aes_ctr algorithm sc m = Inr (rc, xor_bytes ks m))"
proof -
  consider "algorithm = 0" | "algorithm = 1" | "algorithm = 2" | "algorithm \<notin> {0, 1, 2}" by blast
  then show ?thesis
  proof cases
    case 1
    with bits ran show ?thesis
      by (intro exI [of _ "replicate (reach algorithm sc) 0"])
        (auto simp: stream_encrypt_def stream_encrypt_eea0_def reach_def drop_bit_round resE_simps split: if_splits)
  next
    case 2
    with bits ran obtain k where k: "bindE (key sc) key_words = Inr k" "key sc \<noteq> Inl NullDeref" "key_length sc = 16"
      by (auto simp: stream_encrypt_def stream_encrypt_eea1_def bindE_eq_Inr split: if_splits)
    let ?ks = "concat (map (bytes_of_word \<circ> hton_int32) (osa_snow3g_generate_key_stream
      (unat ((blength sc + 31) div 32)) (osa_snow3g_initialize k (eea1_IV sc))))"
    have run: "stream_encrypt aes_ctr algorithm sc m =
      (if length m < length ?ks then Inl OutOfBounds else Inr (0, xor_bytes ?ks m))" for m
      using 2 k bits
      by (simp add: stream_encrypt_def stream_encrypt_eea1_def mask_last_byte_def mask_last_word_def Let_def)
    show ?thesis using ran 2 unfolding run
      by (intro exI [of _ ?ks]) (auto simp: reach_def split: if_splits)
  next
    case 3
    with bits ran obtain k where k: "key sc = Inr k"
      by (auto simp: stream_encrypt_def stream_encrypt_eea2_def bindE_eq_Inr Let_def split: if_splits)
    let ?ks = "aes_ctr k (count_block sc @ replicate 8 0) (unat (drop_bit 3 (blength sc)))"
    have run: "stream_encrypt aes_ctr algorithm sc m =
      (if length m < length ?ks then Inl OutOfBounds else Inr (0, xor_bytes ?ks m))" for m
      using 3 k bits
      by (simp add: stream_encrypt_def stream_encrypt_eea2_def mask_last_byte_def aes Let_def)
    show ?thesis using ran 3 unfolding run
      by (intro exI [of _ ?ks]) (auto simp: reach_def aes bits split: if_splits)
  next
    case 4
    with bits ran show ?thesis
      by (intro exI [of _ "[]"]) (auto simp: stream_encrypt_def reach_def xor_bytes_def)
  qed
qed

text \<open>
  When the message does not end with a whole byte, EEA1 and EEA2 clear the bits of the last byte that follow it:
  \<open>clear_spare\<close> says how. Their last byte is not where they look for it only if its index does not fit 32 bits.
\<close>

definition last_index :: "u8 \<Rightarrow> stream_cipher \<Rightarrow> int" where
  "last_index algorithm sc =
     (if algorithm = 1 then uint (drop_bit 3 (blength sc + 7)) else uint (drop_bit 3 (blength sc) + 1)) - 1"

definition clear_spare :: "u8 \<Rightarrow> stream_cipher \<Rightarrow> u8 list \<Rightarrow> u8 list" where
  "clear_spare algorithm sc bs =
     (let spare = and (blength sc) 7; i = nat (last_index algorithm sc) in
      if (algorithm = 1 \<or> algorithm = 2) \<and> spare > 0 then bs[i := and (bs ! i) (push_bit (8 - unat spare) 0xFF)] else bs)"

lemma clear_spare_whole: "and (blength sc) 7 = 0 \<Longrightarrow> clear_spare algorithm sc bs = bs"
  by (simp add: clear_spare_def)

lemma length_clear_spare [simp]: "length (clear_spare algorithm sc bs) = length bs"
  by (simp add: clear_spare_def Let_def)

lemma nth_clear_spare:
  obtains P M where "\<And>bs. n < length bs \<Longrightarrow> clear_spare algorithm sc bs ! n = (if P then and (bs ! n) M else bs ! n)"
proof -
  let ?P = "(algorithm = 1 \<or> algorithm = 2) \<and> and (blength sc) 7 > 0 \<and> n = nat (last_index algorithm sc)"
  have "n < length bs \<Longrightarrow> clear_spare algorithm sc bs ! n =
      (if ?P then and (bs ! n) (push_bit (8 - unat (and (blength sc) 7)) 0xFF) else bs ! n)" for bs
    unfolding clear_spare_def Let_def by (cases "?P") (auto simp: nth_list_update)
  then show thesis using that by blast
qed

lemma nth_xor_bytes:
  "length ks \<le> length bs \<Longrightarrow> n < length bs \<Longrightarrow> xor_bytes ks bs ! n = (if n < length ks then xor (ks ! n) (bs ! n) else bs ! n)"
  by (auto simp: xor_bytes_def nth_append)

text \<open>Clearing bits commutes with the key stream, up to what is cleared again.\<close>

lemma clear_spare_again:
  assumes "length ks \<le> length bs"
  shows "clear_spare algorithm sc (xor_bytes ks (clear_spare algorithm sc (xor_bytes ks bs))) = clear_spare algorithm sc bs"
proof (rule nth_equalityI)
  fix n
  assume "n < length (clear_spare algorithm sc (xor_bytes ks (clear_spare algorithm sc (xor_bytes ks bs))))"
  then have n: "n < length bs" using assms by simp
  have bits: "and (xor k (and (xor k b) m)) m = and b m" for k b m :: u8
    by (rule bit_word_eqI) (auto simp: bit_simps)
  obtain P M where nth: "\<And>bs. n < length bs \<Longrightarrow> clear_spare algorithm sc bs ! n = (if P then and (bs ! n) M else bs ! n)"
    by (rule nth_clear_spare [of n algorithm sc]) blast
  from n assms show "clear_spare algorithm sc (xor_bytes ks (clear_spare algorithm sc (xor_bytes ks bs))) ! n = clear_spare algorithm sc bs ! n"
    by (simp add: nth nth_xor_bytes bits flip: xor.assoc)
qed (use assms in simp)

text \<open>A run of an algorithm for which the length of the message fits.\<close>

lemma masked_run:
  assumes run: "\<And>m. stream_encrypt aes_ctr algorithm sc m =
      (if length m < length ks then Inl OutOfBounds
       else bindE (mask_last_byte (and (blength sc) 7) (last_index algorithm sc) (xor_bytes ks m)) (\<lambda>bs. Inr (0, bs)))"
    and algorithm: "algorithm = 1 \<or> algorithm = 2" and ran: "stream_encrypt aes_ctr algorithm sc msg = Inr (rc, bs)"
  shows "length ks \<le> length msg \<and> bs = clear_spare algorithm sc (xor_bytes ks msg) \<and>
    (\<forall>m. length msg \<le> length m \<longrightarrow> stream_encrypt aes_ctr algorithm sc m = Inr (rc, clear_spare algorithm sc (xor_bytes ks m)))"
proof -
  have len: "length ks \<le> length msg" using ran unfolding run by (auto split: if_splits)
  have masked: "mask_last_byte (and (blength sc) 7) (last_index algorithm sc) (xor_bytes ks m) =
      (if and (blength sc) 7 > 0 \<and> \<not> in_range m (last_index algorithm sc) then Inl OutOfBounds
       else Inr (clear_spare algorithm sc (xor_bytes ks m)))" if "length ks \<le> length m" for m
    using that algorithm by (auto simp: mask_last_byte_def clear_spare_def aget_def aset_def in_range_def Let_def)
  have fits: "\<not> (and (blength sc) 7 > 0 \<and> \<not> in_range msg (last_index algorithm sc))" and
    "rc = 0" "bs = clear_spare algorithm sc (xor_bytes ks msg)"
    using ran len unfolding run by (auto simp: masked [OF len] split: if_splits)
  moreover have "stream_encrypt aes_ctr algorithm sc m = Inr (0, clear_spare algorithm sc (xor_bytes ks m))" if "length msg \<le> length m" for m
    using that len fits masked [of m] unfolding run by (auto simp: in_range_def)
  ultimately show ?thesis using len by blast
qed

lemma stream_encrypt_any:
  assumes aes: "\<And>k b n. length (aes_ctr k b n) = n" and ran: "stream_encrypt aes_ctr algorithm sc msg = Inr (rc, bs)"
  shows "\<exists>ks. length ks = reach algorithm sc \<and> length ks \<le> length msg \<and> bs = clear_spare algorithm sc (xor_bytes ks msg) \<and>
    (\<forall>m. length msg \<le> length m \<longrightarrow> stream_encrypt aes_ctr algorithm sc m = Inr (rc, clear_spare algorithm sc (xor_bytes ks m)))"
proof -
  consider "algorithm = 0" | "algorithm = 1" | "algorithm = 2" | "algorithm \<notin> {0, 1, 2}" by blast
  then show ?thesis
  proof cases
    case 1
    with ran show ?thesis
      by (intro exI [of _ "replicate (reach algorithm sc) 0"])
        (auto simp: stream_encrypt_def stream_encrypt_eea0_def reach_def clear_spare_def split: if_splits)
  next
    case 2
    with ran obtain k where k: "bindE (key sc) key_words = Inr k" "key sc \<noteq> Inl NullDeref" "key_length sc = 16"
      by (auto simp: stream_encrypt_def stream_encrypt_eea1_def bindE_eq_Inr split: if_splits)
    let ?ks = "concat (map (bytes_of_word \<circ> hton_int32) (mask_last_word (and (blength sc) 7) (osa_snow3g_generate_key_stream
      (unat ((blength sc + 31) div 32)) (osa_snow3g_initialize k (eea1_IV sc)))))"
    have run: "stream_encrypt aes_ctr algorithm sc m = (if length m < length ?ks then Inl OutOfBounds
       else bindE (mask_last_byte (and (blength sc) 7) (last_index algorithm sc) (xor_bytes ?ks m)) (\<lambda>bs. Inr (0, bs)))" for m
      using 2 k by (simp add: stream_encrypt_def stream_encrypt_eea1_def last_index_def Let_def)
    have "length ?ks = reach algorithm sc" using 2 by (simp add: reach_def mask_last_word_def)
    with masked_run [OF run disjI1 [OF 2] ran] show ?thesis by (intro exI [of _ ?ks]) simp
  next
    case 3
    with ran obtain k where k: "key sc = Inr k"
      by (auto simp: stream_encrypt_def stream_encrypt_eea2_def bindE_eq_Inr Let_def split: if_splits)
    let ?n = "drop_bit 3 (blength sc) + (if and (blength sc) 7 > 0 then 1 else 0)"
    let ?ks = "aes_ctr k (count_block sc @ replicate 8 0) (unat ?n)"
    have "mask_last_byte (and (blength sc) 7) (uint ?n - 1) bs = mask_last_byte (and (blength sc) 7) (last_index algorithm sc) bs" for bs
      using 3 by (simp add: mask_last_byte_def last_index_def)
    then have run: "stream_encrypt aes_ctr algorithm sc m = (if length m < length ?ks then Inl OutOfBounds
       else bindE (mask_last_byte (and (blength sc) 7) (last_index algorithm sc) (xor_bytes ?ks m)) (\<lambda>bs. Inr (0, bs)))" for m
      using 3 k by (simp only: stream_encrypt_def stream_encrypt_eea2_def Let_def aes) (simp add: aes)
    have "length ?ks = reach algorithm sc" using 3 by (simp add: reach_def aes)
    with masked_run [OF run disjI2 [OF 3] ran] show ?thesis by (intro exI [of _ ?ks]) simp
  next
    case 4
    with ran show ?thesis
      by (intro exI [of _ "[]"]) (auto simp: stream_encrypt_def reach_def xor_bytes_def clear_spare_def)
  qed
qed

text \<open>C22.
  Ciphering combines a message with a key stream that depends on the parameters only, not on the message, and,
  when the length is not a multiple of 8 bits, clears the bits of the last byte that follow the message (EEA1, EEA2). So doing it
  twice, with the same key, COUNT, bearer and direction, gives the message back with those bits cleared, and a message of
  whole bytes as it was. EEA1 combines whole words: up to three bytes that follow the message in its buffer are
  changed with it. The lengths hold for any message that the algorithm could read.
\<close>

theorem stream_encrypt_key_stream:
  assumes aes: "\<And>k b n. length (aes_ctr k b n) = n" and ran: "stream_encrypt aes_ctr algorithm sc msg = Inr (rc, bs)"
  shows "\<exists>ks. length ks = reach algorithm sc \<and> reach algorithm sc \<le> length msg \<and> bs = clear_spare algorithm sc (xor_bytes ks msg) \<and>
    (\<forall>m. length msg \<le> length m \<longrightarrow> stream_encrypt aes_ctr algorithm sc m = Inr (rc, clear_spare algorithm sc (xor_bytes ks m))) \<and>
    stream_encrypt aes_ctr algorithm sc bs = Inr (rc, clear_spare algorithm sc msg) \<and>
    (and (blength sc) 7 = 0 \<longrightarrow> clear_spare algorithm sc msg = msg)"
proof -
  from stream_encrypt_any [OF assms] obtain ks where ks: "length ks = reach algorithm sc" "length ks \<le> length msg"
    "bs = clear_spare algorithm sc (xor_bytes ks msg)"
    "\<forall>m. length msg \<le> length m \<longrightarrow> stream_encrypt aes_ctr algorithm sc m = Inr (rc, clear_spare algorithm sc (xor_bytes ks m))" by blast
  have "length bs = length msg" using ks(2,3) by simp
  with ks show ?thesis by (intro exI [of _ ks]) (simp add: clear_spare_again clear_spare_whole)
qed

text \<open>A message of 20 bits, whose last byte has four more bits set.\<close>

lemma stream_encrypt_key_stream_witness:
  "stream_encrypt (\<lambda>k b n. replicate n 0xA5) 2
      \<lparr>key = Inr (replicate 16 7), key_length = 16, count = 1, bearer = 0, direction = 1, blength = 20\<rparr>
      [0xA4, 0xA7, 0x90] = Inr (0, [1, 2, 0x30])"
proof -
  let ?sc = "\<lparr>key = Inr (replicate 16 7), key_length = 16, count = 1, bearer = 0, direction = 1, blength = 20\<rparr>"
  let ?aes = "\<lambda>k b n. replicate n (0xA5 :: u8)"
  have "stream_encrypt ?aes 2 ?sc [1, 2, 0x3F] = Inr (0, [0xA4, 0xA7, 0x90])" by code_simp
  from stream_encrypt_key_stream [of ?aes, OF length_replicate this] have "stream_encrypt ?aes 2 ?sc [0xA4, 0xA7, 0x90] = Inr (0, clear_spare 2 ?sc [1, 2, 0x3F])"
    by (elim exE conjE)
  moreover have "clear_spare 2 ?sc [1, 2, 0x3F] = [1, 2, 0x30]" by code_simp
  ultimately show ?thesis by simp
qed

corollary stream_encrypt_twice:
  assumes "and (blength sc) 7 = 0" and "\<And>k b n. length (aes_ctr k b n) = n"
    and "stream_encrypt aes_ctr algorithm sc msg = Inr (rc, bs)"
  shows "stream_encrypt aes_ctr algorithm sc bs = Inr (rc, msg)" and "length bs = length msg"
    and "drop (reach algorithm sc) bs = drop (reach algorithm sc) msg"
  using stream_encrypt_stream [of sc aes_ctr, OF assms] by (auto simp: drop_xor_bytes)

section \<open>The multiplication of EIA1\<close>

definition gf_mul :: "u64 \<Rightarrow> u64 \<Rightarrow> u64 \<Rightarrow> u64" where
  "gf_mul V P c = foldr (\<lambda>i acc. xor (if bit P i then V else 0) (OSA_MUL64x acc c)) [0..<64] 0"

lemma and_top_bit: "and V 0x8000000000000000 \<noteq> 0 \<longleftrightarrow> bit V 63" for V :: u64
  using bit_iff_and_push_bit_not_eq_0 [of V 63] by simp

lemma MUL64x_xor: "OSA_MUL64x (xor V W) c = xor (OSA_MUL64x V c) (OSA_MUL64x W c)"
proof -
  have "push_bit 1 (xor V W) = xor (push_bit 1 V) (push_bit 1 W)"
    by (rule bit_word_eqI) (auto simp: bit_simps)
  then show ?thesis by (simp add: OSA_MUL64x_def and_top_bit bit_simps xor.assoc xor.left_commute xor.commute)
qed

lemma MUL64x_zero [simp]: "OSA_MUL64x 0 c = 0"
  by (simp add: OSA_MUL64x_def)

lemma MUL64xPOW_Suc: "OSA_MUL64xPOW (OSA_MUL64x V c) i c = OSA_MUL64x (OSA_MUL64xPOW V i c) c"
  by (induction i) simp_all

lemma and_shift_one: "and (drop_bit i P) 1 \<noteq> 0 \<longleftrightarrow> bit P i" for P :: u64
  by (simp add: and_one_eq bit_iff_odd_drop_bit flip: odd_iff_mod_2_eq_one)

lemma xor_terms: "fold (\<lambda>i r. if bit P i then xor r (f i) else r) is a = xor a (fold (\<lambda>i r. if bit P i then xor r (f i) else r) is 0)"
  for a :: u64
proof (induction "is" arbitrary: a)
  case Nil
  then show ?case by simp
next
  case (Cons i "is")
  show ?case using Cons.IH [of a] Cons.IH [of "xor a (f i)"] Cons.IH [of "f i"] by (auto simp: xor.assoc)
qed

lemma MUL64xPOW_xor: "OSA_MUL64xPOW (xor V W) i c = xor (OSA_MUL64xPOW V i c) (OSA_MUL64xPOW W i c)"
  by (induction i) (simp_all add: MUL64x_xor)

lemma MUL64xPOW_zero [simp]: "OSA_MUL64xPOW 0 i c = 0"
  by (induction i) simp_all

lemma horner_step:
  "fold (\<lambda>i r. if bit P i then xor r (OSA_MUL64xPOW V i c) else r) [m..<m + k] 0 =
   OSA_MUL64xPOW (foldr (\<lambda>i acc. xor (if bit P i then V else 0) (OSA_MUL64x acc c)) [m..<m + k] 0) m c"
proof (induction k arbitrary: m)
  case 0
  then show ?case by simp
next
  case (Suc k)
  have list: "[m..<m + Suc k] = m # [Suc m..<Suc m + k]" by (simp add: upt_conv_Cons)
  show ?case unfolding list fold.simps foldr.simps o_apply
    by (subst xor_terms) (simp only: Suc.IH MUL64xPOW_xor MUL64xPOW_Suc OSA_MUL64xPOW.simps,
      simp add: MUL64xPOW_zero)
qed

theorem OSA_MUL64_horner: "OSA_MUL64 V P c = gf_mul V P c"
  using horner_step [of P V c 0 64] by (simp add: OSA_MUL64_def gf_mul_def and_shift_one)

lemma gf_mul_xor: "gf_mul (xor V W) P c = xor (gf_mul V P c) (gf_mul W P c)"
proof -
  have "foldr (\<lambda>i acc. xor (if bit P i then xor V W else 0) (OSA_MUL64x acc c)) is 0 =
    xor (foldr (\<lambda>i acc. xor (if bit P i then V else 0) (OSA_MUL64x acc c)) is 0)
        (foldr (\<lambda>i acc. xor (if bit P i then W else 0) (OSA_MUL64x acc c)) is 0)" for "is"
    by (induction "is") (simp_all add: MUL64x_xor xor.assoc xor.left_commute)
  then show ?thesis by (simp add: gf_mul_def)
qed

lemma mask_words: "(0xff :: u32) = mask 8" "(0xFF00 :: u32) = push_bit 8 (mask 8)" "(0xFF0000 :: u32) = push_bit 16 (mask 8)"
  "(0xFF000000 :: u32) = push_bit 24 (mask 8)"
  by (simp_all add: mask_eq_exp_minus_1)

lemma bit_word_of_bytes: "bit (word_of_bytes a b c d) n \<longleftrightarrow>
   (if n < 8 then bit d n else if n < 16 then bit c (n - 8) else if n < 24 then bit b (n - 16) else n < 32 \<and> bit a (n - 24))"
  by (auto simp: word_of_bytes_def bit_simps dest: bit_imp_le_length)

lemma hton_word_of_bytes: "hton_int32 (word_of_bytes b3 b2 b1 b0) = word_of_bytes b0 b1 b2 b3"
  by (rule bit_word_eqI)
    (auto simp: hton_int32_def mask_words bit_word_of_bytes bit_simps simp del: push_bit_numeral push_bit_mask_eq)

lemma byte_at_word_of_bytes:
  "byte_at 0 (word_of_bytes a b c d) = d" "byte_at 8 (word_of_bytes a b c d) = c"
  "byte_at 16 (word_of_bytes a b c d) = b" "byte_at 24 (word_of_bytes a b c d) = a"
  by (rule bit_word_eqI; simp add: byte_at_def mask_words bit_word_of_bytes bit_simps)+

lemma word_of_byte_at: "word_of_bytes (byte_at 24 w) (byte_at 16 w) (byte_at 8 w) (byte_at 0 w) = w"
  by (rule bit_word_eqI) (auto simp: byte_at_def mask_words bit_word_of_bytes bit_simps)

lemma hton_bytes: "bytes_of_word (hton_int32 w) = [byte_at 24 w, byte_at 16 w, byte_at 8 w, byte_at 0 w]"
  using hton_word_of_bytes [of "byte_at 24 w" "byte_at 16 w" "byte_at 8 w" "byte_at 0 w"]
  by (simp add: word_of_byte_at bytes_of_word_def byte_at_word_of_bytes)

definition padded :: "u8 list \<Rightarrow> nat \<Rightarrow> u8" where
  "padded bs i = (if i < length bs then bs ! i else 0)"

definition block32 :: "u8 list \<Rightarrow> nat \<Rightarrow> u32" where
  "block32 bs i = word_of_bytes (padded bs (4 * i)) (padded bs (4 * i + 1)) (padded bs (4 * i + 2)) (padded bs (4 * i + 3))"

definition block64 :: "u8 list \<Rightarrow> nat \<Rightarrow> u64" where
  "block64 bs i = or (push_bit 32 (ucast (block32 bs (2 * i)))) (ucast (block32 bs (2 * i + 1)))"

lemma message_word_eq:
  "4 * i + 3 < length msg \<Longrightarrow> message_word msg (int i) =
     Inr (word_of_bytes (msg ! (4 * i)) (msg ! (4 * i + 1)) (msg ! (4 * i + 2)) (msg ! (4 * i + 3)))"
  by (simp add: message_word_def read_word_def aget_def in_range_def hton_word_of_bytes nat_add_distrib nat_mult_distrib)

lemma message_word_full:
  assumes "4 * i + 3 < m" "m \<le> length msg"
  shows "message_word msg (int i) = Inr (block32 (take m msg) i)"
  using assms by (simp add: message_word_eq block32_def padded_def)

lemma bit_osa_mask: "n \<le> 32 \<Longrightarrow> bit (((\<lambda>mask. xor (drop_bit 1 mask) 0x80000000) ^^ n) (0 :: u32)) i \<longleftrightarrow> 32 - n \<le> i \<and> i < 32"
proof (induction n arbitrary: i)
  case 0
  then show ?case by simp
next
  case (Suc n)
  have "bit (0x80000000 :: u32) i \<longleftrightarrow> i = 31" using bit_exp_iff [of 31 i, where ?'a = u32] by (auto simp: possible_bit_word)
  then have step: "bit (xor (drop_bit 1 x) 0x80000000) i \<longleftrightarrow> bit x (Suc i) \<noteq> (i = 31)" for x :: u32
    unfolding bit_xor_iff bit_drop_bit_eq by simp
  have "bit (((\<lambda>mask. xor (drop_bit 1 mask) 0x80000000) ^^ n) (0 :: u32)) (Suc i) \<longleftrightarrow> 32 - n \<le> Suc i \<and> Suc i < 32"
    using Suc by simp
  with Suc.prems show ?case unfolding funpow.simps o_apply step by auto
qed

lemma bit_mask32: "n < 32 \<Longrightarrow> bit (osa_mask32bit n) i \<longleftrightarrow> i < 32 \<and> (n = 0 \<or> 32 - n \<le> i)"
  using bit_osa_mask [of n i] bit_mask_iff [of 32 i, where ?'a = u32] by (auto simp: osa_mask32bit_def mask_eq_exp_minus_1 possible_bit_word)

lemma masked_word:
  assumes "0 < j" "j \<le> 4"
  shows "and (word_of_bytes a b c d) (osa_mask32bit (8 * j mod 32)) =
    word_of_bytes a (if 1 < j then b else 0) (if 2 < j then c else 0) (if 3 < j then d else 0)"
proof -
  from assms consider "j = 1" | "j = 2" | "j = 3" | "j = 4" by linarith
  then show ?thesis
    by cases (rule bit_word_eqI; auto simp: bit_simps bit_word_of_bytes bit_mask32 dest: bit_imp_le_length)+
qed

lemma word_mod_64: "8 * m < 2 ^ 32 \<Longrightarrow> unat ((of_nat (8 * m) :: u32) mod 64) = 8 * (m mod 8)"
proof -
  assume "8 * m < 2 ^ 32"
  then have "unat (of_nat (8 * m) :: u32) = 8 * m" by (intro unat_of_nat_small) simp
  then have "unat ((of_nat (8 * m) :: u32) mod 64) = 8 * m mod 64" unfolding unat_mod by simp
  then show ?thesis by (simp add: mult_mod_right)
qed

lemma blocks32:
  assumes "4 * i < m" "4 * ((m + 3) div 4) \<le> length msg"
  obtains w where "message_word msg (int i) = Inr w"
    and "\<And>j. 4 * i + j = m \<Longrightarrow> j \<le> 4 \<Longrightarrow> and w (osa_mask32bit (8 * j mod 32)) = block32 (take m msg) i"
    and "4 * i + 4 \<le> m \<Longrightarrow> w = block32 (take m msg) i"
proof
  have long: "4 * i + 3 < length msg" "m \<le> length msg" using assms by presburger+
  let ?w = "word_of_bytes (msg ! (4 * i)) (msg ! (4 * i + 1)) (msg ! (4 * i + 2)) (msg ! (4 * i + 3))"
  show "message_word msg (int i) = Inr ?w" using long by (simp add: message_word_eq)
  show "and ?w (osa_mask32bit (8 * j mod 32)) = block32 (take m msg) i" if "4 * i + j = m" "j \<le> 4" for j
    using that assms(1) long by (subst masked_word) (auto simp: block32_def padded_def)
  show "?w = block32 (take m msg) i" if "4 * i + 4 \<le> m"
    using that long by (simp add: block32_def padded_def)
qed

lemma block32_beyond: "m \<le> 4 * i \<Longrightarrow> block32 (take m msg) i = 0"
  by (simp add: block32_def padded_def word_of_bytes_def)

lemma ucast_and32: "ucast (and a b) = and (ucast a) (ucast b :: u64)" for a b :: u32
  by (rule bit_word_eqI) (auto simp: bit_simps)

lemma eia1_last_block_eq:
  assumes m: "m = 8 * q + r" "0 < r" "r \<le> 8" and small: "8 * m < 2 ^ 32" and long: "4 * ((m + 3) div 4) \<le> length msg"
  shows "eia1_last_block msg (of_nat (8 * m)) (int q) = Inr (block64 (take m msg) q)"
proof -
  have r: "m mod 8 = r mod 8" using m(1) by simp
  let ?bl = "of_nat (8 * m) :: u32"
  have bits: "unat (?bl mod 64) = 8 * (r mod 8)" using word_mod_64 [OF small] r by simp
  have zero: "?bl mod 64 = 0 \<longleftrightarrow> r = 8" using bits m(2,3) by (cases "r = 8") (auto simp: unat_eq_0 [symmetric] simp del: unat_eq_0)
  have rem: "(if ?bl mod 64 = 0 then 64 else unat (?bl mod 64)) = 8 * r" using zero bits m(2,3) by auto
  have "4 * (2 * q) < m" using m by simp
  from blocks32 [OF this long] obtain hi where hi: "message_word msg (int (2 * q)) = Inr hi"
    "\<And>j. 4 * (2 * q) + j = m \<Longrightarrow> j \<le> 4 \<Longrightarrow> and hi (osa_mask32bit (8 * j mod 32)) = block32 (take m msg) (2 * q)"
    "4 * (2 * q) + 4 \<le> m \<Longrightarrow> hi = block32 (take m msg) (2 * q)" by blast
  show ?thesis
  proof (cases "r \<le> 4")
    case True
    with m have "block32 (take m msg) (2 * q + 1) = 0" by (intro block32_beyond) simp
    with True hi(1) hi(2) [of r] m show ?thesis
      unfolding eia1_last_block_def rem Let_def
      by (simp add: block64_def ucast_and32 [symmetric] del: push_bit_and)
  next
    case False
    then have "4 * (2 * q + 1) < m" using m by simp
    from blocks32 [OF this long] obtain lo where lo: "message_word msg (int (2 * q + 1)) = Inr lo"
      "\<And>j. 4 * (2 * q + 1) + j = m \<Longrightarrow> j \<le> 4 \<Longrightarrow> and lo (osa_mask32bit (8 * j mod 32)) = block32 (take m msg) (2 * q + 1)"
      by blast
    have "8 * r = 8 * (r - 4) + 32" using False by simp
    then have "8 * r mod 32 = 8 * (r - 4) mod 32" by (simp only: mod_add_self2)
    with lo(2) [of "r - 4"] m False have "and lo (osa_mask32bit (8 * r mod 32)) = block32 (take m msg) (2 * q + 1)" by simp
    moreover have "message_word msg (2 * int q + 1) = Inr lo" using lo(1) by (simp add: ac_simps)
    ultimately show ?thesis using False hi(1,3) m
      unfolding eia1_last_block_def rem Let_def
      by (simp add: block64_def)
  qed
qed


definition eia1_poly :: "u64 \<Rightarrow> u8 list \<Rightarrow> nat \<Rightarrow> u64" where
  "eia1_poly P bs n = fold (\<lambda>i e. gf_mul (xor e (block64 bs i)) P 0x1b) [0..<n] 0"

lemma eia1_blocks:
  assumes "8 * q \<le> m" "m \<le> length msg"
  shows "foldE (eia1_block P msg) [0..<q] 0 = Inr (eia1_poly P (take m msg) q)"
  using assms(1)
proof (induction q)
  case 0
  then show ?case by (simp add: eia1_poly_def)
next
  case (Suc q)
  then have "message_word msg (2 * int q) = Inr (block32 (take m msg) (2 * q))"
    "message_word msg (2 * int q + 1) = Inr (block32 (take m msg) (2 * q + 1))"
    using assms(2) message_word_full [of "2 * q" m msg] message_word_full [of "2 * q + 1" m msg]
    by (simp_all add: ac_simps)
  with Suc show ?case
    by (simp add: foldE_append eia1_poly_def eia1_block_def block64_def OSA_MUL64_horner)
qed

lemma eia1_value:
  assumes m: "blength sc = of_nat (8 * m)" "0 < m" "8 * m < 2 ^ 32" and long: "4 * ((m + 3) div 4) \<le> length msg"
    and key: "bindE (key sc) key_words = Inr k"
  shows "let z = osa_snow3g_generate_key_stream 5 (osa_snow3g_initialize k (eia1_IV sc));
             P = or (push_bit 32 (ucast (z ! 0))) (ucast (z ! 1)); Q = or (push_bit 32 (ucast (z ! 2))) (ucast (z ! 3));
             e = gf_mul (xor (eia1_poly P (take m msg) ((m + 7) div 8)) (of_nat (8 * m))) Q 0x1b;
             w = xor (ucast (drop_bit 32 e)) (z ! 4)
         in stream_compute_integrity_eia1 sc msg = Inr [byte_at 24 w, byte_at 16 w, byte_at 8 w, byte_at 0 w]"
proof -
  let ?q = "(m - 1) div 8"
  let ?r = "(m - 1) mod 8 + 1"
  have r: "m = 8 * ?q + ?r" "0 < ?r" "?r \<le> 8" using m(2) by (simp_all add: Suc_leI)
  have "m + 7 = m - 1 + 8" using m(2) by simp
  then have n: "(m + 7) div 8 = Suc ?q" by (simp only: div_add_self2 [of 8] Suc_eq_plus1)
  have len: "m \<le> length msg" using long by presburger
  have un: "unat (blength sc) = 8 * m" unfolding m(1) by (rule unat_of_nat_small) (use m(3) in simp)
  then have bl: "uint (blength sc) = int (8 * m)" by (simp only: uint_nat)
  have D: "(uint (blength sc) + 63) div 64 + 1 - 2 = int ?q"
  proof -
    have "(8 * m + 63) div 64 = (8 * m + 63) div 8 div 8" by (simp add: div_mult2_eq [symmetric])
    also have "(8 * m + 63) div 8 = m + 7" by simp
    finally have "int ((8 * m + 63) div 64) = int ?q + 1" unfolding n by simp
    then show ?thesis unfolding bl by (simp add: of_nat_div)
  qed
  have len64: "(ucast (blength sc) :: u64) = of_nat (8 * m)"
    unfolding word_unat_eq_iff using m(3) un by (subst unat_ucast_up, simp) (subst unat_of_nat_small, simp_all)
  have "eia1_poly P (take m msg) (Suc ?q) = gf_mul (xor (eia1_poly P (take m msg) ?q) (block64 (take m msg) ?q)) P 0x1b" for P
    by (simp add: eia1_poly_def)
  then show ?thesis
    using eia1_last_block_eq [OF r m(3) long] eia1_blocks [of ?q m msg] r len key
    unfolding Let_def n stream_compute_integrity_eia1_def D len64
    by (simp add: m(1) hton_bytes OSA_MUL64_horner)
qed

text \<open>C21.
  The code of EIA1 is the value of a polynomial: the blocks of 64 bits of the message, the last one filled up with
  zeros, are its coefficients, and it is evaluated at \<open>P\<close> by Horner's rule in the field of the multiplication;
  the length is added and the sum multiplied by \<open>Q\<close>. The loops of the code, which raise to each power of x anew,
  read words that the message may end in, and mask the rest, compute the same.
\<close>

theorem eia1_polynomial:
  assumes m: "blength sc = of_nat (8 * m)" "0 < m" "8 * m < 2 ^ 32" and long: "4 * ((m + 3) div 4) \<le> length msg"
    and key: "bindE (key sc) key_words = Inr k"
  shows "let z = osa_snow3g_generate_key_stream 5 (osa_snow3g_initialize k (eia1_IV sc));
             P = or (push_bit 32 (ucast (z ! 0))) (ucast (z ! 1)); Q = or (push_bit 32 (ucast (z ! 2))) (ucast (z ! 3));
             e = gf_mul (xor (eia1_poly P (take m msg) ((m + 7) div 8)) (of_nat (8 * m))) Q 0x1b;
             w = xor (ucast (drop_bit 32 e)) (z ! 4)
         in stream_compute_integrity_eia1 sc msg = Inr [byte_at 24 w, byte_at 16 w, byte_at 8 w, byte_at 0 w]"
  by (rule eia1_value [OF assms])

lemma eia1_polynomial_witness:
  "let sc = \<lparr>key = Inr (replicate 16 0), key_length = 16, count = 0, bearer = 0, direction = 0, blength = 40\<rparr>;
       z = osa_snow3g_generate_key_stream 5 (osa_snow3g_initialize [0, 0, 0, 0] (eia1_IV sc));
       P = or (push_bit 32 (ucast (z ! 0))) (ucast (z ! 1)); Q = or (push_bit 32 (ucast (z ! 2))) (ucast (z ! 3));
       e = gf_mul (xor (eia1_poly P [1, 2, 3, 4, 5] 1) 40) Q 0x1b; w = xor (ucast (drop_bit 32 e)) (z ! 4)
   in stream_compute_integrity_eia1 sc [1, 2, 3, 4, 5, 6, 7, 8] = Inr [byte_at 24 w, byte_at 16 w, byte_at 8 w, byte_at 0 w]"
proof -
  let ?sc = "\<lparr>key = Inr (replicate 16 0), key_length = 16, count = 0, bearer = 0, direction = 0, blength = 40\<rparr> :: stream_cipher"
  have "bindE (key ?sc) key_words = Inr [0, 0, 0, 0]"
    by (simp add: key_words_def read_word_def aget_def in_range_def word_of_bytes_def hton_int32_def)
  from eia1_polynomial [OF _ _ _ _ this, of 5 "[1, 2, 3, 4, 5, 6, 7, 8]"] show ?thesis by (simp add: Let_def)
qed

section \<open>What the code depends on\<close>

text \<open>The code depends on the message only, not on what follows it in the buffer.\<close>

lemma blength_bytes:
  assumes "bl = of_nat (8 * m)" "8 * m < 2 ^ 32"
  shows "unat (drop_bit 3 bl) = m" and "and bl 7 = (0 :: u32)"
proof -
  have un: "unat bl = 8 * m" unfolding assms(1) by (rule unat_of_nat_small) (use assms(2) in simp)
  then show "unat (drop_bit 3 bl) = m" by (simp add: drop_bit_eq_div unat_div)
  have "unat (and bl (mask 3)) = 0" using unat_mask [of bl 3] un by simp
  then have "and bl (mask 3) = 0" by (simp only: unat_eq_zero)
  then show "and bl 7 = 0" by (simp add: mask_eq_exp_minus_1)
qed

lemma stream_compute_integrity_local:
  assumes m: "blength sc = of_nat (8 * m)" "0 < m" "8 * m < 2 ^ 32" and same: "take m a = take m b"
    and long: "4 * ((m + 3) div 4) \<le> length a" "4 * ((m + 3) div 4) \<le> length b"
  shows "stream_compute_integrity aes_cmac algorithm sc a = stream_compute_integrity aes_cmac algorithm sc b"
proof -
  have "stream_compute_integrity_eia1 sc a = stream_compute_integrity_eia1 sc b"
  proof (cases "bindE (key sc) key_words")
    case (Inl e)
    then show ?thesis by (simp add: stream_compute_integrity_eia1_def)
  next
    case (Inr k)
    show ?thesis using eia1_value [OF m long(1) Inr] eia1_value [OF m long(2) Inr] by (simp add: Let_def same)
  qed
  moreover have "m \<le> length a" "m \<le> length b" using long by presburger+
  then have "stream_compute_integrity_eia2 aes_cmac sc a = stream_compute_integrity_eia2 aes_cmac sc b"
    using blength_bytes [OF m(1,3)] same by (simp add: stream_compute_integrity_eia2_def)
  ultimately show ?thesis by (simp add: stream_compute_integrity_def)
qed

end
