(* ===== verification/PdcpData.thy ===== *)
theory PdcpData
  imports Pdcp SecurityStreams
begin

text \<open>
  What PDCP does with one SDU or PDU of a bearer: the header, the sequence number, ciphering and integrity
  protection (\<open>pdcp_security.c\<close>, and the parts of \<open>pdcp_data_req\<close> and \<open>pdcp_data_ind\<close> of \<open>pdcp.c\<close> that work on an entity).

  A memory block is a list of bytes, the PDU first; what the block is longer than the PDU, \<open>slack\<close>, stays in it.
  Keys are read from a memory that maps the address of a live block to its bytes.
\<close>

section \<open>Sizes\<close>

definition maxDRB :: u16 where "maxDRB = 11"

definition NB_RB_MAX :: u16 where "NB_RB_MAX = maxDRB + 3"

definition MAX_IP_PACKET_SIZE :: int where "MAX_IP_PACKET_SIZE = 10000"

definition NB_RB_MBMS_MAX :: u16 where "NB_RB_MBMS_MAX = 29 * 16"

section \<open>Security\<close>

type_synonym key_memory = "nat \<Rightarrow> u8 list option"

definition key_at :: "key_memory \<Rightarrow> nat option \<Rightarrow> nat \<Rightarrow> u8 list res" where
  "key_at km p offset =
     (case p of
        None \<Rightarrow> Inl NullDeref
      | Some a \<Rightarrow> (case km a of None \<Rightarrow> Inl Undefined | Some bs \<Rightarrow> Inr (drop offset bs)))"

text \<open>The algorithms of the libraries, AES in counter mode and AES-CMAC.\<close>

record crypto =
  aes_ctr :: "u8 list \<Rightarrow> u8 list \<Rightarrow> nat \<Rightarrow> u8 list"
  aes_cmac :: "u8 list \<Rightarrow> u8 list \<Rightarrow> u8 list"

text \<open>Ciphering the part of a buffer that starts at an offset.\<close>

definition cipher_part :: "crypto \<Rightarrow> u8 \<Rightarrow> stream_cipher \<Rightarrow> nat \<Rightarrow> u8 list \<Rightarrow> u8 list res" where
  "cipher_part cr algorithm sc offset buf =
     bindE (stream_encrypt (aes_ctr cr) algorithm sc (drop offset buf)) (\<lambda>(_, bs). Inr (take offset buf @ bs))"

text \<open>Writing at an offset what may have been computed.\<close>

definition write_at :: "nat \<Rightarrow> u8 list option \<Rightarrow> u8 list \<Rightarrow> u8 list res" where
  "write_at offset new buf =
     (case new of
        None \<Rightarrow> Inr buf
      | Some bs \<Rightarrow>
          if offset + length bs \<le> length buf then Inr (take offset buf @ bs @ drop (offset + length bs) buf)
          else Inl OutOfBounds)"

definition pdcp_apply_security ::
  "crypto \<Rightarrow> key_memory \<Rightarrow> pdcp \<Rightarrow> bool \<Rightarrow> u16 \<Rightarrow> nat \<Rightarrow> u16 \<Rightarrow> u8 list \<Rightarrow> u16 \<Rightarrow> u8 list res" where
  "pdcp_apply_security cr km p srb rb header_len sn buf sz =
     (if rb \<ge> NB_RB_MAX then Inl Abort
      else
        let enc = \<lparr>key = key_at km (if srb then kRRCenc p else kUPenc p) 0, key_length = 16,
                   count = pdcp_get_next_count_tx p srb sn, bearer = ucast (rb - 1),
                   direction = (if is_ue p then 0 else 1), blength = push_bit 3 (ucast sz)\<rparr>;
            int_sc = enc\<lparr>key := key_at km (kRRCint p) 16, blength := push_bit 3 (of_nat header_len + ucast sz)\<rparr> in
        if srb then
          bindE (stream_compute_integrity (aes_cmac cr) (integrityProtAlgorithm p) int_sc buf) (\<lambda>m.
          bindE (write_at (header_len + unat sz) m buf) (\<lambda>buf1.
          cipher_part cr (cipheringAlgorithm p) enc header_len buf1))
        else cipher_part cr (cipheringAlgorithm p) enc header_len buf)"

text \<open>The size includes the header. The result is 0, or \<open>- 1\<close> when the code does not match.\<close>

definition pdcp_validate_security ::
  "crypto \<Rightarrow> key_memory \<Rightarrow> pdcp \<Rightarrow> bool \<Rightarrow> u16 \<Rightarrow> nat \<Rightarrow> u16 \<Rightarrow> u8 list \<Rightarrow> u16 \<Rightarrow> (int \<times> pdcp \<times> u8 list) res" where
  "pdcp_validate_security cr km p srb rb header_len sn buf sz =
     (if rb \<ge> NB_RB_MAX then Inl Abort
      else
        let (c, p1) = pdcp_get_next_count_rx p srb sn;
            dec = \<lparr>key = key_at km (if srb then kRRCenc p else kUPenc p) 0, key_length = 16, count = c,
                   bearer = ucast (rb - 1), direction = (if is_ue p then 1 else 0),
                   blength = push_bit 3 (ucast sz - of_nat header_len)\<rparr> in
        bindE (cipher_part cr (cipheringAlgorithm p) dec header_len buf) (\<lambda>buf1.
        if srb then
          bindE (stream_check_integrity (aes_cmac cr) (integrityProtAlgorithm p)
                   (dec\<lparr>key := key_at km (kRRCint p) 16, blength := push_bit 3 (ucast sz)\<rparr>) buf1 (drop (unat sz) buf1)) (\<lambda>rc.
          Inr (if rc \<noteq> 0 then - 1 else 0, p1, buf1))
        else Inr (0, p1, buf1)))"

section \<open>Making a PDU\<close>

definition security_applies :: "pdcp \<Rightarrow> bool" where
  "security_applies p \<longleftrightarrow> security_activated p \<noteq> 0 \<and> (cipheringAlgorithm p \<noteq> 0 \<or> integrityProtAlgorithm p \<noteq> 0)"

text \<open>The number and the header; the number of a control plane PDU has 8 bits.\<close>

definition pdcp_header :: "bool \<Rightarrow> bool \<Rightarrow> u16 \<Rightarrow> u8 list \<times> u16" where
  "pdcp_header srb data_mode sn =
     (if srb then (pdcp_serialize_control_plane_data_pdu_with_SRB_sn_buffer (ucast sn), ucast (ucast sn :: u8))
      else (pdcp_serialize_user_plane_data_pdu_with_long_sn_buffer data_mode sn, sn))"

text \<open>The entity afterwards, and the block, or none when the number is out of range.\<close>

definition pdcp_make_pdu ::
  "crypto \<Rightarrow> key_memory \<Rightarrow> pdcp \<Rightarrow> bool \<Rightarrow> bool \<Rightarrow> u16 \<Rightarrow> u8 list \<Rightarrow> u8 list \<Rightarrow> (pdcp \<times> u8 list option) res" where
  "pdcp_make_pdu cr km p srb data_mode rb sdu slack =
     (let (next_sn, p1) = pdcp_get_next_tx_seq_number p;
          (header, sn) = pdcp_header srb data_mode next_sn;
          trailer = replicate (if srb then 4 else 0) 0;
          block = header @ sdu @ trailer @ slack in
      if sn > pdcp_calculate_max_seq_num_for_given_size (seq_num_size p1) then Inr (p1, None)
      else if security_applies p1
      then bindE (pdcp_apply_security cr km p1 srb (rb mod maxDRB) (length header) sn block (of_nat (length sdu)))
             (\<lambda>block1. Inr (p1, Some block1))
      else Inr (p1, Some block))"

section \<open>Opening a PDU\<close>

text \<open>The length of the header, and the number.\<close>

definition pdcp_read_header :: "pdcp \<Rightarrow> bool \<Rightarrow> u8 list \<Rightarrow> (nat \<times> u16) res" where
  "pdcp_read_header p srb block =
     (if srb then bindE (pdcp_get_sequence_number_of_pdu_with_SRB_sn block) (\<lambda>sn. Inr (1, ucast sn))
      else if seq_num_size p = 7
      then bindE (pdcp_get_sequence_number_of_pdu_with_short_sn block) (\<lambda>sn. Inr (1, ucast sn))
      else if seq_num_size p = 12
      then bindE (pdcp_get_sequence_number_of_pdu_with_long_sn block) (\<lambda>sn. Inr (2, sn))
      else Inr (0, 0))"

definition tailer_len :: "bool \<Rightarrow> int" where
  "tailer_len srb = (if srb then 4 else 0)"

text \<open>
  The entity afterwards, and the header length, the number and the deciphered block, unless the PDU is too short.
  Neither the window nor a code that does not match keeps it from going on.
\<close>

definition pdcp_open_pdu ::
  "crypto \<Rightarrow> key_memory \<Rightarrow> pdcp \<Rightarrow> bool \<Rightarrow> u16 \<Rightarrow> int \<Rightarrow> u8 list \<Rightarrow> (pdcp \<times> (nat \<times> u16 \<times> u8 list) option) res" where
  "pdcp_open_pdu cr km p srb rb sz block =
     bindE (pdcp_read_header p srb block) (\<lambda>(header_len, sn).
     if sz < int header_len + tailer_len srb then Inr (p, None)
     else bindE (pdcp_is_rx_seq_number_valid sn p srb) (\<lambda>(_, p1).
       if security_activated p1 = 1
       then bindE (pdcp_validate_security cr km p1 srb rb header_len sn block (of_int (sz - tailer_len srb)))
              (\<lambda>(_, p2, block1). Inr (p2, Some (header_len, sn, block1)))
       else Inr (p1, Some (header_len, sn, block))))"

text \<open>What is passed on of a PDU.\<close>

definition pdcp_payload :: "bool \<Rightarrow> int \<Rightarrow> nat \<Rightarrow> u8 list \<Rightarrow> u8 list" where
  "pdcp_payload srb sz header_len block = take (nat (sz - int header_len - tailer_len srb)) (drop header_len block)"

end
