(* ===== verification/PdcpNumbers.thy ===== *)
theory PdcpNumbers
  imports Pdcp
begin

text \<open>
  The numbers of PDCP in closed form: the state of a sender after \<open>N\<close> PDUs, the states of a receiver that has
  seen the numbers below \<open>R\<close>, and the COUNT under which both handle PDU \<open>N\<close>.
\<close>

section \<open>The space of sequence numbers\<close>

definition sn_space :: "pdcp \<Rightarrow> nat" where
  "sn_space p = 2 ^ unat (seq_num_size p)"

lemma valid_sizes:
  assumes "pdcp_is_seq_num_size_valid p"
  obtains "seq_num_size p = 5" "sn_space p = 32" | "seq_num_size p = 7" "sn_space p = 128"
    | "seq_num_size p = 12" "sn_space p = 4096"
  using assms by (auto simp: pdcp_is_seq_num_size_valid_def sn_space_def)

lemma sn_space_pos [simp]: "0 < sn_space p"
  by (simp add: sn_space_def)

lemma sn_space_le: "pdcp_is_seq_num_size_valid p \<Longrightarrow> sn_space p \<le> 4096"
  by (erule valid_sizes) simp_all

lemma max_seq_num:
  "pdcp_is_seq_num_size_valid p \<Longrightarrow> pdcp_calculate_max_seq_num_for_given_size (seq_num_size p) = of_nat (sn_space p - 1)"
  by (erule valid_sizes) (simp_all add: pdcp_calculate_max_seq_num_for_given_size_def)

lemma unat_sn: "pdcp_is_seq_num_size_valid p \<Longrightarrow> n < sn_space p \<Longrightarrow> unat (of_nat n :: u16) = n"
  using sn_space_le [of p] by (intro unat_of_nat_small) simp

lemma sn_eq:
  "pdcp_is_seq_num_size_valid p \<Longrightarrow> m < sn_space p \<Longrightarrow> n < sn_space p \<Longrightarrow> (of_nat m :: u16) = of_nat n \<longleftrightarrow> m = n"
  by (metis unat_sn)

lemma sn_less:
  "pdcp_is_seq_num_size_valid p \<Longrightarrow> m < sn_space p \<Longrightarrow> n < sn_space p \<Longrightarrow> (of_nat m :: u16) < of_nat n \<longleftrightarrow> m < n"
  by (simp add: word_less_nat_alt unat_sn)

lemma next_sn:
  assumes "pdcp_is_seq_num_size_valid p"
  shows "(if (of_nat (n mod sn_space p) :: u16) = of_nat (sn_space p - 1) then 0 else of_nat (n mod sn_space p) + 1) =
      (of_nat (Suc n mod sn_space p) :: u16)"
    and "Suc n div sn_space p = (if (of_nat (n mod sn_space p) :: u16) = of_nat (sn_space p - 1)
      then Suc (n div sn_space p) else n div sn_space p)"
  using assms sn_space_pos [of p] by (auto simp: sn_eq mod_Suc div_Suc ac_simps)

section \<open>The sender\<close>

definition tx_at :: "nat \<Rightarrow> pdcp \<Rightarrow> pdcp" where
  "tx_at N p = p\<lparr>next_pdcp_tx_sn := of_nat (N mod sn_space p), tx_hfn := of_nat (N div sn_space p)\<rparr>"

lemma tx_at_config [simp]:
  "sn_space (tx_at N p) = sn_space p" "seq_num_size (tx_at N p) = seq_num_size p"
  "pdcp_is_seq_num_size_valid (tx_at N p) = pdcp_is_seq_num_size_valid p"
  by (simp_all add: tx_at_def sn_space_def pdcp_is_seq_num_size_valid_def)

lemma tx_next:
  assumes "pdcp_is_seq_num_size_valid p"
  shows "pdcp_get_next_tx_seq_number (tx_at N p) = (of_nat (N mod sn_space p), tx_at (Suc N) p)"
  using assms next_sn [OF assms, of N]
  by (auto simp: pdcp_get_next_tx_seq_number_def max_seq_num) (auto simp: tx_at_def split: if_splits)

section \<open>COUNT\<close>

definition count_bits :: "bool \<Rightarrow> nat" where
  "count_bits srb = (if srb then 5 else 12)"

text \<open>The COUNT of PDU \<open>N\<close>: for the last number of a cycle the code has counted the cycle already.\<close>

definition count_of :: "nat \<Rightarrow> bool \<Rightarrow> nat \<Rightarrow> nat" where
  "count_of M srb N = Suc N div M * 2 ^ count_bits srb + N mod M"

lemma or_field:
  fixes h :: u32 and sn :: u16
  assumes "unat sn < 2 ^ k"
  shows "or (push_bit k h) (ucast (and sn (mask k))) = push_bit k h + of_nat (unat sn)"
proof -
  have small: "unat (and sn (mask k)) = unat sn" using assms by (simp add: unat_mask)
  then have sn: "and sn (mask k) = sn" by (simp only: word_unat_eq_iff)
  have "(ucast sn :: u32) = of_nat (unat sn)" by (simp add: word_unat_eq_iff unat_ucast_up)
  moreover have "and (push_bit k h) (ucast sn) = 0"
  proof (rule bit_word_eqI)
    fix n
    have "bit sn n \<Longrightarrow> n < k" by (metis sn bit_and_iff bit_mask_iff)
    then show "bit (and (push_bit k h) (ucast sn)) n = bit 0 n" by (auto simp: bit_simps)
  qed
  ultimately show ?thesis unfolding sn by (metis disjunctive_add_eq_or)
qed

lemma masks: "(0x1F :: u16) = mask 5" "(0x7F :: u16) = mask 7" "(0xFFF :: u16) = mask 12"
  by (simp_all add: mask_eq_exp_minus_1)

lemma not_len7bits: "pdcp_is_seq_num_size_valid p \<Longrightarrow> seq_num_size p \<noteq> len7bits"
  by (erule valid_sizes) (simp_all add: len7bits_def)

lemma count_field:
  fixes h :: u32 and sn :: u16
  assumes "unat sn < 2 ^ count_bits srb"
  shows "or (push_bit (count_bits srb) h) (ucast (and sn (mask (count_bits srb)))) =
    of_nat (unat h * 2 ^ count_bits srb + unat sn)"
  unfolding or_field [OF assms] by (simp add: push_bit_eq_mult)

lemma count_tx:
  assumes "pdcp_is_seq_num_size_valid p" and "unat sn < 2 ^ count_bits srb"
  shows "pdcp_get_next_count_tx p srb sn = of_nat (unat (tx_hfn p) * 2 ^ count_bits srb + unat sn)"
  unfolding count_field [OF assms(2), symmetric] pdcp_get_next_count_tx_def masks
  using not_len7bits [OF assms(1)] by (simp add: count_bits_def)

lemma count_rx:
  assumes "pdcp_is_seq_num_size_valid p" and "unat sn < 2 ^ count_bits srb"
  shows "pdcp_get_next_count_rx p srb sn =
    (of_nat (unat (rx_hfn p + scast (rx_hfn_offset p)) * 2 ^ count_bits srb + unat sn), p\<lparr>rx_hfn_offset := 0\<rparr>)"
  unfolding count_field [OF assms(2), symmetric] pdcp_get_next_count_rx_def masks
  using not_len7bits [OF assms(1)] by (simp add: count_bits_def Let_def)

definition fits :: "bool \<Rightarrow> pdcp \<Rightarrow> bool" where
  "fits srb p \<longleftrightarrow> pdcp_is_seq_num_size_valid p \<and> (srb \<longrightarrow> seq_num_size p = 5)"

lemma fits_space: "fits srb p \<Longrightarrow> sn_space p \<le> 2 ^ count_bits srb"
  by (auto simp: fits_def count_bits_def sn_space_def pdcp_is_seq_num_size_valid_def)

lemma of_nat_unat_mult: "of_nat (unat (of_nat h :: u32) * c + s) = (of_nat (h * c + s) :: u32)"
  by simp

lemma count_tx_at:
  assumes "fits srb p"
  shows "pdcp_get_next_count_tx (tx_at (Suc N) p) srb (of_nat (N mod sn_space p)) = of_nat (count_of (sn_space p) srb N)"
proof -
  have valid: "pdcp_is_seq_num_size_valid p" using assms by (simp add: fits_def)
  have sn: "unat (of_nat (N mod sn_space p) :: u16) = N mod sn_space p" by (simp add: unat_sn [OF valid])
  have less: "N mod sn_space p < 2 ^ count_bits srb"
    using fits_space [OF assms] by (meson mod_less_divisor less_le_trans sn_space_pos)
  have hfn: "tx_hfn (tx_at (Suc N) p) = of_nat (Suc N div sn_space p)" by (simp add: tx_at_def)
  have "pdcp_get_next_count_tx (tx_at (Suc N) p) srb (of_nat (N mod sn_space p)) =
    of_nat (unat (tx_hfn (tx_at (Suc N) p)) * 2 ^ count_bits srb + unat (of_nat (N mod sn_space p) :: u16))"
    by (rule count_tx) (simp_all only: tx_at_config valid sn less)
  then show ?thesis by (simp only: hfn sn of_nat_unat_mult count_of_def)
qed

section \<open>The receiver\<close>

definition rx_at :: "nat \<Rightarrow> pdcp \<Rightarrow> bool" where
  "rx_at R p \<longleftrightarrow> next_pdcp_rx_sn p = of_nat (R mod sn_space p) \<and> rx_hfn p = of_nat (R div sn_space p) \<and>
     rx_hfn_offset p = 0 \<and> length (missing_pdu_bitmap p) = 512"

text \<open>What receiving does not change.\<close>

definition rx_config :: "pdcp \<Rightarrow> pdcp" where
  "rx_config p = p\<lparr>next_pdcp_rx_sn := 0, next_pdcp_rx_sn_before_integrity := 0, rx_hfn := 0, rx_hfn_offset := 0,
     missing_pdu_bitmap := []\<rparr>"

lemma rx_config_simps:
  assumes "rx_config q = rx_config p"
  shows "seq_num_size q = seq_num_size p" "sn_space q = sn_space p" "rlc_mode q = rlc_mode p" "is_ue q = is_ue p"
    "pdcp_is_seq_num_size_valid q = pdcp_is_seq_num_size_valid p" "fits srb q = fits srb p"
    "cipheringAlgorithm q = cipheringAlgorithm p" "integrityProtAlgorithm q = integrityProtAlgorithm p"
    "kUPenc q = kUPenc p" "kRRCint q = kRRCint p" "kRRCenc q = kRRCenc p" "security_activated q = security_activated p"
  using arg_cong [OF assms, of seq_num_size] arg_cong [OF assms, of rlc_mode] arg_cong [OF assms, of is_ue]
    arg_cong [OF assms, of cipheringAlgorithm] arg_cong [OF assms, of integrityProtAlgorithm]
    arg_cong [OF assms, of kUPenc] arg_cong [OF assms, of kRRCint] arg_cong [OF assms, of kRRCenc]
    arg_cong [OF assms, of security_activated]
  by (simp_all add: rx_config_def sn_space_def pdcp_is_seq_num_size_valid_def fits_def)

lemma cycle:
  fixes N R M :: nat
  assumes "R \<le> N" "N < R + M"
  shows "(if N mod M < R mod M then Suc (R div M) else R div M) = N div M"
proof -
  have M: "0 < M" using assms by simp
  obtain d where d: "N = R + d" "d < M" using assms by (metis le_Suc_ex nat_add_left_cancel_less)
  have "N = R div M * M + (R mod M + d)" using d by simp
  then have "N div M = R div M + (R mod M + d) div M" "N mod M = (R mod M + d) mod M"
    using M by (metis div_mult_self3 mod_mult_self3 less_not_refl2 add.commute)+
  moreover have "R mod M < M" using M by simp
  ultimately show ?thesis using d(2)
    by (cases "R mod M + d < M") (auto simp: le_div_geq le_mod_geq)
qed

lemma advance:
  assumes "pdcp_is_seq_num_size_valid q"
    and "next_pdcp_rx_sn q = of_nat (N mod sn_space q)" "rx_hfn q = of_nat (N div sn_space q)"
  shows "pdcp_advance_rx_window q =
    (True, q\<lparr>next_pdcp_rx_sn := of_nat (Suc N mod sn_space q), rx_hfn := of_nat (Suc N div sn_space q)\<rparr>)"
proof (cases "(of_nat (N mod sn_space q) :: u16) = of_nat (sn_space q - 1)")
  case True
  then have full: "next_pdcp_rx_sn q = pdcp_calculate_max_seq_num_for_given_size (seq_num_size q)"
    by (simp only: assms(2) max_seq_num [OF assms(1)])
  note eqs = next_sn(1) [OF assms(1), of N, unfolded if_P [OF True], symmetric]
    next_sn(2) [OF assms(1), of N, unfolded if_P [OF True]]
  show ?thesis unfolding pdcp_advance_rx_window_def eqs assms(3) using full assms(1) by (simp add: add.commute)
next
  case False
  then have full: "next_pdcp_rx_sn q \<noteq> pdcp_calculate_max_seq_num_for_given_size (seq_num_size q)"
    by (simp only: assms(2) max_seq_num [OF assms(1)] not_False_eq_True)
  note eqs = next_sn(1) [OF assms(1), of N, unfolded if_not_P [OF False], symmetric]
    next_sn(2) [OF assms(1), of N, unfolded if_not_P [OF False]]
  have same: "q\<lparr>next_pdcp_rx_sn := n, rx_hfn := rx_hfn q\<rparr> = q\<lparr>next_pdcp_rx_sn := n\<rparr>" for n by simp
  show ?thesis unfolding pdcp_advance_rx_window_def eqs assms(2,3) [symmetric] same
    by (simp only: full assms(1) if_False not_True_eq_False)
qed

lemma mark_received:
  assumes "pdcp_is_seq_num_size_valid q" "unat sn < sn_space q" "length (missing_pdu_bitmap q) = 512"
  obtains bm where "pdcp_mark_current_pdu_as_received sn q = Inr (q\<lparr>missing_pdu_bitmap := bm\<rparr>)" "length bm = 512"
proof -
  have "unat sn < 4096" using assms(2) sn_space_le [OF assms(1)] by simp
  then have "unat sn div 8 < 512" by simp
  then have "in_range (missing_pdu_bitmap q) (int (unat sn div 8))" unfolding in_range_def assms(3) by simp
  then have "pdcp_mark_current_pdu_as_received sn q = Inr (q\<lparr>missing_pdu_bitmap := (missing_pdu_bitmap q)[unat sn div 8 :=
      util_mark_nth_bit_of_octet (missing_pdu_bitmap q ! (unat sn div 8)) (unat sn mod 8)]\<rparr>)"
    by (simp add: pdcp_mark_current_pdu_as_received_def aget_def aset_def Let_def)
  from that [OF this] assms(3) show ?thesis by simp
qed

lemma rx_valid:
  assumes fits: "fits srb q" and mode: "srb \<or> rlc_mode q = RLC_MODE_UM" and at: "rx_at R q"
    and window: "R \<le> N" "N < R + sn_space q"
  shows "\<exists>q'. pdcp_is_rx_seq_number_valid (of_nat (N mod sn_space q)) q srb = Inr (True, q') \<and>
    rx_at (Suc N) q' \<and> rx_config q' = rx_config q"
proof -
  let ?M = "sn_space q" and ?sn = "of_nat (N mod sn_space q) :: u16"
  have valid: "pdcp_is_seq_num_size_valid q" using fits by (simp add: fits_def)
  have sn: "unat ?sn = N mod ?M" "N mod ?M < ?M" by (simp_all add: unat_sn [OF valid])
  have "length (missing_pdu_bitmap q) = 512" using at by (simp add: rx_at_def)
  from mark_received [OF valid _ this, of ?sn] sn obtain bm where
    mark: "pdcp_mark_current_pdu_as_received ?sn q = Inr (q\<lparr>missing_pdu_bitmap := bm\<rparr>)" "length bm = 512" by auto
  have in_space: "pdcp_is_seq_num_valid ?sn (seq_num_size q)"
    by (simp add: pdcp_is_seq_num_valid_def max_seq_num [OF valid] word_le_nat_alt unat_sn [OF valid])
      (metis Suc_pred less_Suc_eq_le sn(2) sn_space_pos)
  have hfn: "(if ?sn < next_pdcp_rx_sn q then rx_hfn q + 1 else rx_hfn q) = of_nat (N div ?M)"
  proof -
    have "(if ?sn < next_pdcp_rx_sn q then rx_hfn q + 1 else rx_hfn q) =
      of_nat (if N mod ?M < R mod ?M then Suc (R div ?M) else R div ?M)"
      using at by (simp add: rx_at_def sn_less [OF valid])
    then show ?thesis unfolding cycle [OF window] .
  qed
  define q1 where "q1 = (if srb then q\<lparr>missing_pdu_bitmap := bm, rx_hfn := of_nat (N div ?M), rx_hfn_offset := 0,
      next_pdcp_rx_sn_before_integrity := next_pdcp_rx_sn q, next_pdcp_rx_sn := ?sn\<rparr>
    else q\<lparr>missing_pdu_bitmap := bm, rx_hfn := of_nat (N div ?M), next_pdcp_rx_sn := ?sn\<rparr>)"
  have "sn_space q1 = ?M" "pdcp_is_seq_num_size_valid q1"
    using valid by (simp_all add: q1_def sn_space_def pdcp_is_seq_num_size_valid_def)
  from advance [OF this(2), of N, unfolded this(1)] have adv: "pdcp_advance_rx_window q1 =
    (True, q1\<lparr>next_pdcp_rx_sn := of_nat (Suc N mod ?M), rx_hfn := of_nat (Suc N div ?M)\<rparr>)"
    by (simp add: q1_def)
  have "pdcp_is_rx_seq_number_valid ?sn q srb = Inr (True, snd (pdcp_advance_rx_window q1))"
  proof (cases "?sn < next_pdcp_rx_sn q")
    case True
    with hfn have "of_nat (N div ?M) = rx_hfn q + 1" by (simp only: if_True)
    with True valid in_space mode show ?thesis unfolding q1_def
      by (cases srb) (simp_all only: pdcp_is_rx_seq_number_valid_def mark(1), simp_all add: Let_def)
  next
    case False
    with hfn have "of_nat (N div ?M) = rx_hfn q" by (simp only: if_False)
    with False valid in_space mode show ?thesis unfolding q1_def
      by (cases srb) (simp_all only: pdcp_is_rx_seq_number_valid_def mark(1), simp_all add: Let_def)
  qed
  then show ?thesis using at mark(2) unfolding adv
    by (auto simp: rx_at_def q1_def rx_config_def sn_space_def)
qed

lemma count_rx_at:
  assumes "fits srb q" "rx_at (Suc N) q"
  shows "pdcp_get_next_count_rx q srb (of_nat (N mod sn_space q)) = (of_nat (count_of (sn_space q) srb N), q)"
proof -
  have valid: "pdcp_is_seq_num_size_valid q" using assms(1) by (simp add: fits_def)
  have sn: "unat (of_nat (N mod sn_space q) :: u16) = N mod sn_space q" by (simp add: unat_sn [OF valid])
  have less: "N mod sn_space q < 2 ^ count_bits srb"
    using fits_space [OF assms(1)] by (meson mod_less_divisor less_le_trans sn_space_pos)
  have offset: "rx_hfn_offset q = 0" "rx_hfn q = of_nat (Suc N div sn_space q)" using assms(2) by (simp_all add: rx_at_def)
  have "q\<lparr>rx_hfn_offset := 0\<rparr> = q" using offset(1) by simp
  then show ?thesis
    using count_rx [OF valid, of "of_nat (N mod sn_space q)" srb] less unfolding offset sn count_of_def
    by (simp only: of_nat_unat_mult) simp
qed

section \<open>No COUNT twice\<close>

text \<open>The COUNT values of the next PDUs of a sender.\<close>

fun tx_counts :: "nat \<Rightarrow> pdcp \<Rightarrow> bool \<Rightarrow> u32 list" where
  "tx_counts 0 p srb = []"
| "tx_counts (Suc n) p srb =
     (let (sn, p1) = pdcp_get_next_tx_seq_number p in pdcp_get_next_count_tx p1 srb sn # tx_counts n p1 srb)"

lemma tx_counts_at:
  assumes "fits srb p"
  shows "tx_counts n (tx_at N p) srb = map (\<lambda>i. of_nat (count_of (sn_space p) srb i)) [N..<N + n]"
proof (induction n arbitrary: N)
  case 0
  then show ?case by simp
next
  case (Suc n)
  have "pdcp_is_seq_num_size_valid p" using assms by (simp add: fits_def)
  then show ?case using Suc [of "Suc N"] count_tx_at [OF assms, of N]
    by (simp add: tx_next upt_conv_Cons del: upt_Suc)
qed

lemma count_of_inj:
  assumes "0 < M" "M \<le> 2 ^ count_bits srb" and eq: "count_of M srb a = count_of M srb b"
  shows "a = b"
proof -
  let ?B = "2 ^ count_bits srb :: nat"
  have small: "n mod M < ?B" for n using assms(1,2) by (meson less_le_trans mod_less_divisor)
  have "count_of M srb n mod ?B = n mod M" "count_of M srb n div ?B = Suc n div M" for n
    using small [of n] by (simp_all add: count_of_def)
  then have *: "a mod M = b mod M" "Suc a div M = Suc b div M" using eq by metis+
  then have "Suc a mod M = Suc b mod M" by (metis mod_Suc_eq)
  with *(2) have "Suc a = Suc b" by (metis mult_div_mod_eq)
  then show ?thesis by simp
qed

lemma count_of_less:
  assumes "0 < M" "M \<le> 2 ^ count_bits srb" and "i < n" "(n div M + 1) * 2 ^ count_bits srb \<le> 2 ^ 32"
  shows "count_of M srb i < 2 ^ 32"
proof -
  have "i mod M < 2 ^ count_bits srb" using assms(1,2) by (meson less_le_trans mod_less_divisor)
  moreover have "Suc i div M * 2 ^ count_bits srb \<le> n div M * 2 ^ count_bits srb"
    using assms(3) by (intro mult_right_mono div_le_mono) simp_all
  moreover have "n div M * 2 ^ count_bits srb + 2 ^ count_bits srb \<le> 2 ^ 32" using assms(4) by (simp only: add_mult_distrib mult_1)
  ultimately show ?thesis unfolding count_of_def by linarith
qed

text \<open>C18.
  As long as the hyper frame number fits its bits, no two PDUs of a bearer are ciphered under the same COUNT: 2^32
  less one cycle of numbers, on a signalling bearer or a data bearer with 12 bits. The COUNT is not the one of
  36.323: at the last number of a cycle the code has incremented the hyper frame number already. A data bearer
  with 7 bits, whose size the code takes for 12 bits, reaches the end after 2^27 PDUs.
\<close>

theorem pdcp_count_unique:
  assumes "fits srb p" and "(n div sn_space p + 1) * 2 ^ count_bits srb \<le> 2 ^ 32"
  shows "distinct (tx_counts n (pdcp_init_seq_numbers p) srb) \<and>
    tx_counts n (pdcp_init_seq_numbers p) srb = map (\<lambda>i. of_nat (count_of (sn_space p) srb i)) [0..<n]"
proof -
  let ?p = "pdcp_init_seq_numbers p" and ?M = "sn_space p"
  have p: "fits srb ?p" "sn_space ?p = ?M" "tx_at 0 ?p = ?p"
    using assms(1) by (simp_all add: pdcp_init_seq_numbers_def fits_def pdcp_is_seq_num_size_valid_def sn_space_def tx_at_def)
  have counts: "tx_counts n ?p srb = map (\<lambda>i. of_nat (count_of ?M srb i)) [0..<n]"
    using tx_counts_at [OF p(1), of n 0] by (simp add: p(2,3))
  have "inj_on (\<lambda>i. of_nat (count_of ?M srb i) :: u32) {0..<n}"
  proof (rule inj_onI)
    fix a b assume ab: "a \<in> {0..<n}" "b \<in> {0..<n}" and "(of_nat (count_of ?M srb a) :: u32) = of_nat (count_of ?M srb b)"
    have "i \<in> {0..<n} \<Longrightarrow> unat (of_nat (count_of ?M srb i) :: u32) = count_of ?M srb i" for i
      using count_of_less [OF sn_space_pos fits_space [OF assms(1)] _ assms(2), of i] by (intro unat_of_nat_small) simp
    from this [OF ab(1)] this [OF ab(2)] \<open>(of_nat (count_of ?M srb a) :: u32) = of_nat (count_of ?M srb b)\<close>
    have "count_of ?M srb a = count_of ?M srb b" by metis
    then show "a = b" by (rule count_of_inj [OF sn_space_pos fits_space [OF assms(1)]])
  qed
  then show ?thesis unfolding counts by (simp add: distinct_map)
qed

lemma pdcp_count_unique_witness:
  "distinct (tx_counts 33 (pdcp_init_seq_numbers (zero_pdcp\<lparr>seq_num_size := 5\<rparr>)) True) \<and>
   tx_counts 33 (pdcp_init_seq_numbers (zero_pdcp\<lparr>seq_num_size := 5\<rparr>)) True ! 31 = 63 \<and>
   tx_counts 33 (pdcp_init_seq_numbers (zero_pdcp\<lparr>seq_num_size := 5\<rparr>)) True ! 32 = 32"
proof -
  let ?p = "zero_pdcp\<lparr>seq_num_size := 5\<rparr>"
  have f: "fits True ?p" and s: "sn_space ?p = 32"
    by (simp_all add: fits_def pdcp_is_seq_num_size_valid_def sn_space_def)
  have pre: "(33 div sn_space ?p + 1) * 2 ^ count_bits True \<le> 2 ^ 32" unfolding s by (simp add: count_bits_def)
  have d: "distinct (tx_counts 33 (pdcp_init_seq_numbers ?p) True)" using pdcp_count_unique [OF f pre] by blast
  have c: "tx_counts 33 (pdcp_init_seq_numbers ?p) True = map (\<lambda>i. of_nat (count_of 32 True i)) [0..<33]"
    using pdcp_count_unique [OF f pre] unfolding s by blast
  have "tx_counts 33 (pdcp_init_seq_numbers ?p) True ! 31 = 63" "tx_counts 33 (pdcp_init_seq_numbers ?p) True ! 32 = 32"
    unfolding c by (simp_all add: count_of_def count_bits_def)
  with d show ?thesis by blast
qed

section \<open>Uplink in acknowledged mode\<close>

text \<open>The COUNT values under which a receiver deciphers PDUs with the given numbers.\<close>

fun rx_counts :: "u16 list \<Rightarrow> pdcp \<Rightarrow> bool \<Rightarrow> u32 list res" where
  "rx_counts [] q srb = Inr []"
| "rx_counts (sn # sns) q srb =
     bindE (pdcp_is_rx_seq_number_valid sn q srb) (\<lambda>(_, q1).
     let (c, q2) = pdcp_get_next_count_rx q1 srb sn in bindE (rx_counts sns q2 srb) (\<lambda>cs. Inr (c # cs)))"

text \<open>
  A receiver in acknowledged mode to which \<open>N\<close> PDUs have come in order, while the number of the last SDU that
  was submitted has not been updated: \<open>pdcp_data_ind\<close> does that only for SDUs that it puts in its own list, not
  for those that it forwards to GTP-U.
\<close>

definition am_at :: "nat \<Rightarrow> pdcp \<Rightarrow> bool" where
  "am_at N q \<longleftrightarrow> seq_num_size q = 12 \<and> rlc_mode q = RLC_MODE_AM \<and> next_pdcp_rx_sn q = of_nat (min N 2048) \<and>
     last_submitted_pdcp_rx_sn q = 4095 \<and> rx_hfn q = 0 \<and> rx_hfn_offset q = 0 \<and> length (missing_pdu_bitmap q) = 512"

definition am_count :: "nat \<Rightarrow> u32" where
  "am_count i = (if i \<le> 2048 then of_nat i else 0xFFFFF000 + of_nat i)"

lemma count_rx_12:
  assumes "seq_num_size q = 12" "N < 4096"
  shows "pdcp_get_next_count_rx q False (of_nat N) =
    ((rx_hfn q + scast (rx_hfn_offset q)) * 4096 + of_nat N, q\<lparr>rx_hfn_offset := 0\<rparr>)"
proof -
  have "unat (of_nat N :: u16) = N" using assms(2) by simp
  with count_rx [of q "of_nat N" False] assms show ?thesis
    by (simp add: pdcp_is_seq_num_size_valid_def count_bits_def)
qed

lemma am_step:
  assumes at: "am_at N q" and N: "N < 4096"
  shows "\<exists>b q1 q2. pdcp_is_rx_seq_number_valid (of_nat N) q False = Inr (b, q1) \<and>
    pdcp_get_next_count_rx q1 False (of_nat N) = (am_count N, q2) \<and> am_at (Suc N) q2"
proof -
  have valid: "pdcp_is_seq_num_size_valid q" and space: "sn_space q = 4096"
    using at by (simp_all add: am_at_def pdcp_is_seq_num_size_valid_def sn_space_def)
  have sn: "unat (of_nat N :: u16) = N" "uint (of_nat N :: u16) = int N" using N by (simp_all add: uint_nat)
  from at mark_received [OF valid, of "of_nat N"] N obtain bm where
    mark: "pdcp_mark_current_pdu_as_received (of_nat N) q = Inr (q\<lparr>missing_pdu_bitmap := bm\<rparr>)" "length bm = 512"
    unfolding space sn by (auto simp: am_at_def)
  let ?q = "q\<lparr>missing_pdu_bitmap := bm\<rparr>"
  have "pdcp_is_seq_num_valid (of_nat N) (seq_num_size q)"
    using N by (simp add: pdcp_is_seq_num_valid_def max_seq_num [OF valid] space word_le_nat_alt)
  then have run: "pdcp_is_rx_seq_number_valid (of_nat N) q False = Inr (rx_acknowledged (of_nat N) ?q)"
    using valid at by (simp add: pdcp_is_rx_seq_number_valid_def mark(1) am_at_def)
  have next': "uint (next_pdcp_rx_sn ?q) = int (min N 2048)" using at N by (simp add: am_at_def uint_nat)
  show ?thesis
  proof (cases "N < 2048")
    case True
    let ?q1 = "?q\<lparr>rx_hfn_offset := 0, next_pdcp_rx_sn := of_nat N\<rparr>"
    have "rx_acknowledged (of_nat N) ?q = (True, snd (pdcp_advance_rx_window ?q1))"
      using True at next' sn(2) by (simp add: rx_acknowledged_def am_at_def Let_def)
    moreover have "pdcp_advance_rx_window ?q1 = (True, ?q1\<lparr>next_pdcp_rx_sn := of_nat (Suc N)\<rparr>)"
    proof -
      have "pdcp_is_seq_num_size_valid ?q1" "sn_space ?q1 = 4096" "rx_hfn ?q1 = 0"
        using at by (simp_all add: pdcp_is_seq_num_size_valid_def sn_space_def am_at_def)
      from advance [OF this(1), of N, unfolded this(2)] this(3) True show ?thesis by simp
    qed
    ultimately show ?thesis using at N True mark(2) unfolding run
      by (auto simp: count_rx_12 am_at_def am_count_def)
  next
    case False
    have "rx_acknowledged (of_nat N) ?q = (False, ?q\<lparr>rx_hfn_offset := (if N > 2048 then - 1 else 0)\<rparr>)"
      using False at next' sn(2) N by (simp add: rx_acknowledged_def am_at_def Let_def)
    then show ?thesis using at N False mark(2) unfolding run
      by (auto simp: count_rx_12 am_at_def am_count_def)
  qed
qed

lemma am_counts:
  assumes "am_at N q" "N + n \<le> 4096"
  shows "rx_counts (map of_nat [N..<N + n]) q False = Inr (map am_count [N..<N + n])"
  using assms
proof (induction n arbitrary: N q)
  case 0
  then show ?case by simp
next
  case (Suc n)
  then obtain b q1 q2 where step: "pdcp_is_rx_seq_number_valid (of_nat N) q False = Inr (b, q1)"
    "pdcp_get_next_count_rx q1 False (of_nat N) = (am_count N, q2)" "am_at (Suc N) q2"
    using am_step [of N q] by auto
  have list: "[N..<N + Suc n] = N # [Suc N..<Suc N + n]" by (simp add: upt_conv_Cons)
  have "rx_counts (map of_nat [Suc N..<Suc N + n]) q2 False = Inr (map am_count [Suc N..<Suc N + n])"
    using Suc.prems(2) by (intro Suc.IH step(3)) simp
  then show ?case unfolding list by (simp add: step(1,2))
qed

text \<open>C35.
  PDUs that come in order over a data bearer in acknowledged mode are deciphered under the COUNT of the sender up
  to number 2048 only, when their SDUs are forwarded to GTP-U: from number 2049 on the receiver, which never learns
  what was submitted last, takes them for old ones and uses a hyper frame number that is one too small.
\<close>

theorem pdcp_uplink_am_count:
  assumes "seq_num_size p = 12" "rlc_mode p = RLC_MODE_AM" "length (missing_pdu_bitmap p) = 512" "rx_hfn_offset p = 0"
    and "n < 4096"
  shows "\<exists>cs. rx_counts (map of_nat [0..<n]) (pdcp_init_seq_numbers p) False = Inr cs \<and> length cs = n \<and>
    (\<forall>i < n. cs ! i = tx_counts n (pdcp_init_seq_numbers p) False ! i \<longleftrightarrow> i \<le> 2048)"
proof -
  let ?p = "pdcp_init_seq_numbers p"
  have "am_at 0 ?p" using assms by (simp add: am_at_def pdcp_init_seq_numbers_def)
  then have rx: "rx_counts (map of_nat [0..<n]) ?p False = Inr (map am_count [0..<n])"
    using am_counts [of 0 ?p n] assms(5) by simp
  have p: "fits False ?p" "sn_space ?p = 4096" "tx_at 0 ?p = ?p"
    using assms(1) by (simp_all add: pdcp_init_seq_numbers_def fits_def pdcp_is_seq_num_size_valid_def sn_space_def tx_at_def)
  have tx: "tx_counts n ?p False = map (\<lambda>i. of_nat (count_of 4096 False i)) [0..<n]"
    using tx_counts_at [OF p(1), of n 0] by (simp add: p(2,3))
  have "am_count i = of_nat (count_of 4096 False i) \<longleftrightarrow> i \<le> 2048" if "i < n" for i
    using that assms(5) by (simp add: am_count_def count_of_def)
  then show ?thesis unfolding rx tx by simp
qed

lemma pdcp_uplink_am_count_witness:
  "\<exists>cs. rx_counts (map of_nat [0..<2050]) (pdcp_init_seq_numbers (zero_pdcp\<lparr>seq_num_size := 12, rlc_mode := RLC_MODE_AM\<rparr>)) False =
      Inr cs \<and>
    cs ! 2048 = tx_counts 2050 (pdcp_init_seq_numbers (zero_pdcp\<lparr>seq_num_size := 12, rlc_mode := RLC_MODE_AM\<rparr>)) False ! 2048 \<and>
    cs ! 2049 \<noteq> tx_counts 2050 (pdcp_init_seq_numbers (zero_pdcp\<lparr>seq_num_size := 12, rlc_mode := RLC_MODE_AM\<rparr>)) False ! 2049"
  using pdcp_uplink_am_count [of "zero_pdcp\<lparr>seq_num_size := 12, rlc_mode := RLC_MODE_AM\<rparr>" 2050]
  by (auto simp: zero_pdcp_def)


end
