(* ===== verification/PdcpSecurity.thy ===== *)
theory PdcpSecurity
  imports PdcpData PdcpNumbers
begin

text \<open>
  Ciphering and integrity protection of PDUs are undone by the entity at the other end, as long as both work under
  the same COUNT.
\<close>

section \<open>When the algorithms run\<close>

definition usable_key :: "u8 list res \<Rightarrow> bool" where
  "usable_key k \<longleftrightarrow> (\<exists>bs. k = Inr bs \<and> 16 \<le> length bs)"

definition proper_crypto :: "crypto \<Rightarrow> bool" where
  "proper_crypto cr \<longleftrightarrow> (\<forall>k b n. length (aes_ctr cr k b n) = n) \<and> (\<forall>k m. length (aes_cmac cr k m) = 16)"

lemma key_words_usable:
  assumes "16 \<le> length bs"
  shows "\<exists>ws. key_words bs = Inr ws"
  using assms by (auto simp: key_words_def read_word_def aget_def in_range_def)

lemma stream_encrypt_runs:
  assumes key: "usable_key (key sc)" "key_length sc = 16" and bits: "and (blength sc) 7 = 0"
    and room: "reach algorithm sc \<le> length msg"
  shows "\<exists>rc bs. stream_encrypt ctr algorithm sc msg = Inr (rc, bs)"
proof -
  from key obtain k where k: "key sc = Inr k" "16 \<le> length k" by (auto simp: usable_key_def)
  from key_words_usable [OF k(2)] obtain ws where "key_words k = Inr ws" by blast
  with k key(2) room bits show ?thesis
    by (auto simp: stream_encrypt_def stream_encrypt_eea0_def stream_encrypt_eea1_def stream_encrypt_eea2_def
        reach_def mask_last_byte_def mask_last_word_def drop_bit_round Let_def)
qed

lemma integrity_runs:
  assumes key: "usable_key (key sc)" and cmac: "\<And>k m. length (cmac k m) = 16"
    and m: "blength sc = of_nat (8 * m)" "0 < m" "8 * m < 2 ^ 32" and room: "4 * ((m + 3) div 4) \<le> length msg"
  shows "\<exists>mac. stream_compute_integrity cmac algorithm sc msg = Inr mac \<and>
    (case mac of None \<Rightarrow> algorithm \<noteq> 1 \<and> algorithm \<noteq> 2 | Some bs \<Rightarrow> length bs = 4 \<and> (algorithm = 1 \<or> algorithm = 2))"
proof -
  from key obtain k where k: "key sc = Inr k" "16 \<le> length k" by (auto simp: usable_key_def)
  from key_words_usable [OF k(2)] obtain ws where "bindE (key sc) key_words = Inr ws" using k by auto
  from eia1_value [OF m room this] have "\<exists>bs. stream_compute_integrity_eia1 sc msg = Inr bs \<and> length bs = 4"
    by (auto simp: Let_def)
  moreover have "m \<le> length msg" using room by simp
  then have "\<exists>bs. stream_compute_integrity_eia2 cmac sc msg = Inr bs \<and> length bs = 4"
    using blength_bytes [OF m(1,3)] k cmac by (simp add: stream_compute_integrity_eia2_def)
  ultimately show ?thesis by (auto simp: stream_compute_integrity_def)
qed

section \<open>Lengths in bits\<close>

lemma sdu_bits:
  assumes "len \<le> 10000" "h \<le> 2"
  shows "push_bit 3 (ucast (of_nat len :: u16)) = (of_nat (8 * len) :: u32)"
    and "push_bit 3 (of_nat h + ucast (of_nat len :: u16)) = (of_nat (8 * (h + len)) :: u32)"
    and "push_bit 3 (ucast (of_nat (h + len) :: u16) - of_nat h) = (of_nat (8 * len) :: u32)"
    and "push_bit 3 (ucast (of_nat (h + len) :: u16)) = (of_nat (8 * (h + len)) :: u32)"
proof -
  have "ucast (of_nat n :: u16) = (of_nat n :: u32)" if "n \<le> 10002" for n
    using that by (simp add: word_unat_eq_iff unat_ucast_up unat_of_nat_small)
  from this [of len] this [of "h + len"] assms
  have "ucast (of_nat len :: u16) = (of_nat len :: u32)" "ucast (of_nat (h + len) :: u16) = (of_nat h + of_nat len :: u32)"
    by simp_all
  then show "push_bit 3 (ucast (of_nat len :: u16)) = (of_nat (8 * len) :: u32)"
    and "push_bit 3 (of_nat h + ucast (of_nat len :: u16)) = (of_nat (8 * (h + len)) :: u32)"
    and "push_bit 3 (ucast (of_nat (h + len) :: u16) - of_nat h) = (of_nat (8 * len) :: u32)"
    and "push_bit 3 (ucast (of_nat (h + len) :: u16)) = (of_nat (8 * (h + len)) :: u32)"
    by (simp_all add: push_bit_eq_mult algebra_simps)
qed

section \<open>A part of a buffer ciphered twice\<close>

lemma take_xor_bytes_cong:
  assumes "take n a = take n b" "length ks \<le> length a" "length ks \<le> length b" "n \<le> length a" "n \<le> length b"
  shows "take n (xor_bytes ks a) = take n (xor_bytes ks b)"
proof (rule nth_equalityI)
  fix i assume "i < length (take n (xor_bytes ks a))"
  then have i: "i < n" "i < length a" "i < length b" using assms by simp_all
  with arg_cong [OF assms(1), of "\<lambda>xs. xs ! i"] have "a ! i = b ! i" by simp
  with i assms show "take n (xor_bytes ks a) ! i = take n (xor_bytes ks b) ! i" by (simp add: nth_xor_bytes)
qed (use assms in simp)

text \<open>Only what is deciphered has to be what was ciphered: the rest of the buffer may be another.\<close>

lemma cipher_part_undone:
  assumes cr: "proper_crypto cr" and bits: "and (blength sc) 7 = 0" and h: "h \<le> n" "n \<le> length buf"
    and run: "cipher_part cr algorithm sc h buf = Inr buf'"
  shows "length buf' = length buf" and "take h buf' = take h buf"
    and "take n received = take n buf' \<Longrightarrow> n \<le> length received \<Longrightarrow> h + reach algorithm sc \<le> length received \<Longrightarrow>
      \<exists>plain. cipher_part cr algorithm sc h received = Inr plain \<and> length plain = length received \<and> take n plain = take n buf"
proof -
  from run obtain rc bs where enc: "stream_encrypt (aes_ctr cr) algorithm sc (drop h buf) = Inr (rc, bs)"
    and buf': "buf' = take h buf @ bs" by (auto simp: cipher_part_def bindE_eq_Inr)
  have len: "\<And>k b n. length (aes_ctr cr k b n) = n" using cr by (simp add: proper_crypto_def)
  from stream_encrypt_stream [OF bits len enc] obtain ks where ks: "length ks = reach algorithm sc"
    "reach algorithm sc \<le> length (drop h buf)" "bs = xor_bytes ks (drop h buf)"
    "\<And>m. reach algorithm sc \<le> length m \<Longrightarrow> stream_encrypt (aes_ctr cr) algorithm sc m = Inr (rc, xor_bytes ks m)" by blast
  have bs: "length bs = length buf - h" using ks(1-3) by simp
  show "length buf' = length buf" "take h buf' = take h buf" using h bs by (simp_all add: buf')
  assume rec: "take n received = take n buf'" "n \<le> length received" "h + reach algorithm sc \<le> length received"
  let ?plain = "take h received @ xor_bytes ks (drop h received)"
  have "cipher_part cr algorithm sc h received = Inr ?plain" using ks(4) [of "drop h received"] rec(3) by (simp add: cipher_part_def)
  moreover have "length ?plain = length received" using rec(3) ks(1) by simp
  moreover have "take n ?plain = take n buf"
  proof -
    have 1: "take h received = take h buf"
      using arg_cong [OF rec(1), of "take h"] h by (simp add: buf' min_def)
    have "take (n - h) (drop h received) = take (n - h) (drop h buf')" using rec(1) by (metis drop_take)
    then have "take (n - h) (drop h received) = take (n - h) bs" using h by (simp add: buf')
    then have "take (n - h) (xor_bytes ks (drop h received)) = take (n - h) (xor_bytes ks bs)"
      using rec ks h bs by (intro take_xor_bytes_cong) auto
    also have "xor_bytes ks bs = drop h buf" using ks by simp
    finally show ?thesis using 1 h rec(2) by (simp add: min_def) (metis append_take_drop_id drop_take le_add_diff_inverse take_add)
  qed
  ultimately show "\<exists>plain. cipher_part cr algorithm sc h received = Inr plain \<and> length plain = length received \<and>
    take n plain = take n buf" by blast
qed

lemma reach_le:
  assumes "blength sc = of_nat (8 * len)" "len \<le> 10000"
  shows "reach algorithm sc \<le> len + 3" and "algorithm \<noteq> 1 \<Longrightarrow> reach algorithm sc \<le> len"
proof -
  have "unat (blength sc + 31) = 8 * len + 31"
    unfolding assms(1) using assms(2) unat_of_nat_small [of "8 * len + 31", where ?'a = 32] by simp
  then have "unat ((blength sc + 31) div 32) = (8 * len + 31) div 32" by (simp add: unat_div)
  moreover have "(8 * len + 31) div 32 * 4 \<le> len + 3" by simp
  moreover have "unat (drop_bit 3 (blength sc)) = len" "and (blength sc) 7 = 0"
    using blength_bytes [OF assms(1)] assms(2) by simp_all
  moreover note drop_bit_round [OF this(2)]
  ultimately show "reach algorithm sc \<le> len + 3" "algorithm \<noteq> 1 \<Longrightarrow> reach algorithm sc \<le> len"
    by (simp_all add: reach_def)
qed

section \<open>Two ends of a bearer\<close>

definition enc_key :: "bool \<Rightarrow> pdcp \<Rightarrow> nat option" where
  "enc_key srb p = (if srb then kRRCenc p else kUPenc p)"

text \<open>The same configuration and keys at both ends, of which one is the UE.\<close>

definition paired :: "key_memory \<Rightarrow> pdcp \<Rightarrow> key_memory \<Rightarrow> pdcp \<Rightarrow> bool \<Rightarrow> bool" where
  "paired km p km' q srb \<longleftrightarrow>
     is_ue q \<noteq> is_ue p \<and> cipheringAlgorithm q = cipheringAlgorithm p \<and> integrityProtAlgorithm q = integrityProtAlgorithm p \<and>
     key_at km' (enc_key srb q) 0 = key_at km (enc_key srb p) 0 \<and> usable_key (key_at km (enc_key srb p) 0) \<and>
     (srb \<longrightarrow> key_at km' (kRRCint q) 16 = key_at km (kRRCint p) 16 \<and> usable_key (key_at km (kRRCint p) 16))"

text \<open>
  The block of the receiver: the PDU, with its trailer, and room for the last word of EEA1.
\<close>

definition arrived :: "bool \<Rightarrow> pdcp \<Rightarrow> nat \<Rightarrow> u8 list \<Rightarrow> u8 list \<Rightarrow> bool" where
  "arrived srb p n sent received \<longleftrightarrow>
     (let m = n + nat (tailer_len srb) in
      m \<le> length received \<and> take m received = take m sent \<and> (srb \<or> cipheringAlgorithm p \<noteq> 1 \<or> n + 3 \<le> length received))"

lemma security_undone:
  assumes cr: "proper_crypto cr" and pair: "paired km p km' q srb"
    and count: "pdcp_get_next_count_rx q srb sn = (pdcp_get_next_count_tx p srb sn, q)"
    and rb: "rb < maxDRB" and len: "length sdu \<le> 10000" and h: "length header = (if srb then 1 else 2)"
    and room: "srb \<or> cipheringAlgorithm p \<noteq> 1 \<or> 3 \<le> length slack"
    and block: "block = header @ sdu @ replicate (if srb then 4 else 0) 0 @ slack"
  shows "\<exists>block1 rc.
    pdcp_apply_security cr km p srb rb (length header) sn block (of_nat (length sdu)) = Inr block1 \<and>
    length block1 = length block \<and> take (length header) block1 = header \<and>
    (rc = 0 \<longleftrightarrow> \<not> srb \<or> integrityProtAlgorithm p \<in> {0, 1, 2}) \<and>
    (\<forall>received. arrived srb p (length header + length sdu) block1 received \<longrightarrow>
      (\<exists>block2. pdcp_validate_security cr km' q srb rb (length header) sn received (of_nat (length header + length sdu)) =
        Inr (rc, q, block2) \<and> take (length sdu) (drop (length header) block2) = sdu))"
proof -
  let ?h = "length header" and ?len = "length sdu"
  define sc where "sc = \<lparr>key = key_at km (enc_key srb p) 0, key_length = 16, count = pdcp_get_next_count_tx p srb sn,
    bearer = ucast (rb - 1), direction = (if is_ue p then 0 else 1), blength = of_nat (8 * ?len)\<rparr>"
  define int_sc where "int_sc = sc\<lparr>key := key_at km (kRRCint p) 16, blength := of_nat (8 * (?h + ?len))\<rparr>"
  have h2: "?h \<le> 2" "0 < ?h" using h by simp_all
  note bits = sdu_bits [OF len h2(1)]
  have rb14: "\<not> NB_RB_MAX \<le> rb" using rb by (simp add: NB_RB_MAX_def maxDRB_def word_le_nat_alt word_less_nat_alt)
  have sc: "usable_key (key sc)" "key_length sc = 16" "and (blength sc) 7 = 0" "blength sc = of_nat (8 * ?len)"
    using pair blength_bytes(2) [OF refl, of ?len] len by (simp_all add: sc_def paired_def)
  have small: "unat (of_nat ?len :: u16) = ?len" "unat (of_nat (?h + ?len) :: u16) = ?h + ?len"
    using len h2(1) by (auto intro!: unat_of_nat_small simp del: of_nat_add)
  have apply_eq: "pdcp_apply_security cr km p srb rb ?h sn buf (of_nat ?len) =
    (if srb then bindE (stream_compute_integrity (aes_cmac cr) (integrityProtAlgorithm p) int_sc buf) (\<lambda>m.
       bindE (write_at (?h + ?len) m buf) (cipher_part cr (cipheringAlgorithm p) sc ?h))
     else cipher_part cr (cipheringAlgorithm p) sc ?h buf)" for buf
    using rb14 by (simp add: pdcp_apply_security_def sc_def int_sc_def bits(1,2) small(1) enc_key_def Let_def)
  have validate_eq: "pdcp_validate_security cr km' q srb rb ?h sn buf (of_nat (?h + ?len)) =
    bindE (cipher_part cr (cipheringAlgorithm p) sc ?h buf) (\<lambda>buf1.
    if srb then bindE (stream_check_integrity (aes_cmac cr) (integrityProtAlgorithm p) int_sc buf1 (drop (?h + ?len) buf1))
      (\<lambda>rc. Inr (if rc \<noteq> 0 then - 1 else 0, q, buf1))
    else Inr (0, q, buf1))" for buf
  proof -
    have "(if is_ue q then 1 else 0) = (if is_ue p then 0 else 1 :: u8)"
      "cipheringAlgorithm q = cipheringAlgorithm p" "integrityProtAlgorithm q = integrityProtAlgorithm p"
      "key_at km' (if srb then kRRCenc q else kUPenc q) 0 = key_at km (enc_key srb p) 0"
      "srb \<Longrightarrow> key_at km' (kRRCint q) 16 = key_at km (kRRCint p) 16"
      using pair by (auto simp: paired_def enc_key_def)
    then show ?thesis using rb14
      unfolding pdcp_validate_security_def sc_def int_sc_def bits(3,4) small(2)
      by (simp add: count Let_def cong: if_cong)
  qed
  \<comment> \<open>What the two ends do with the part of a buffer that is ciphered.\<close>
  let ?n = "?h + ?len + nat (tailer_len srb)"
  have undo: "\<exists>block1. cipher_part cr (cipheringAlgorithm p) sc ?h buf = Inr block1 \<and> length block1 = length buf \<and>
      take ?h block1 = take ?h buf \<and>
      (\<forall>received. arrived srb p (?h + ?len) block1 received \<longrightarrow>
        (\<exists>plain. cipher_part cr (cipheringAlgorithm p) sc ?h received = Inr plain \<and> length plain = length received \<and>
          take ?n plain = take ?n buf))"
    if "buf = header @ sdu @ rest" "srb \<longrightarrow> 4 \<le> length rest" "\<not> srb \<longrightarrow> rest = slack" for buf rest
  proof -
    note reach = reach_le [OF sc(4) len, of "cipheringAlgorithm p"]
    have "reach (cipheringAlgorithm p) sc \<le> length (drop ?h buf)"
      using reach room that by (cases "cipheringAlgorithm p = 1") auto
    from stream_encrypt_runs [OF sc(1-3) this, of "aes_ctr cr"] obtain rc bs where
      "stream_encrypt (aes_ctr cr) (cipheringAlgorithm p) sc (drop ?h buf) = Inr (rc, bs)" by blast
    then have run: "cipher_part cr (cipheringAlgorithm p) sc ?h buf = Inr (take ?h buf @ bs)" by (simp add: cipher_part_def)
    have n: "?h \<le> ?n" "?n \<le> length buf" using that by (auto simp: tailer_len_def)
    note u = cipher_part_undone [OF cr sc(3) n run]
    have "?h + reach (cipheringAlgorithm p) sc \<le> length received" if "arrived srb p (?h + ?len) block1 received" for block1 received
      using that reach by (cases "cipheringAlgorithm p = 1") (auto simp: arrived_def tailer_len_def Let_def split: if_splits)
    with u run show ?thesis by (auto simp: arrived_def Let_def)
  qed
  show ?thesis
  proof (cases srb)
    case False
    with undo [of block slack] block obtain block1 where
      c: "cipher_part cr (cipheringAlgorithm p) sc ?h block = Inr block1" "length block1 = length block"
      "take ?h block1 = take ?h block"
      "\<And>received. arrived srb p (?h + ?len) block1 received \<Longrightarrow>
        \<exists>plain. cipher_part cr (cipheringAlgorithm p) sc ?h received = Inr plain \<and> take ?n plain = take ?n block" by (auto) (blast)
    have "take ?len (drop ?h plain) = sdu" if "take ?n plain = take ?n block" for plain
      using arg_cong [OF that, of "drop ?h"] False block by (simp add: tailer_len_def drop_take)
    with c(4) have "\<exists>block2. pdcp_validate_security cr km' q srb rb ?h sn received (of_nat (?h + ?len)) = Inr (0, q, block2) \<and>
        take ?len (drop ?h block2) = sdu" if "arrived srb p (?h + ?len) block1 received" for received
      using that False unfolding validate_eq by fastforce
    moreover have "pdcp_apply_security cr km p srb rb ?h sn block (of_nat ?len) = Inr block1"
      unfolding apply_eq using False c(1) by simp
    moreover have "take ?h block1 = header" using c(3) block by simp
    ultimately show ?thesis using False c(2) by blast
  next
    case True
    have m: "blength int_sc = of_nat (8 * (?h + ?len))" "0 < ?h + ?len" "8 * (?h + ?len) < 2 ^ 32"
      using h2 len by (simp_all add: int_sc_def)
    have usable: "usable_key (key int_sc)" using pair True by (simp add: paired_def int_sc_def)
    have cmac: "\<And>k m. length (aes_cmac cr k m) = 16" using cr by (simp add: proper_crypto_def)
    have n: "?n = ?h + ?len + 4" using True by (simp add: tailer_len_def)
    have room4: "4 * ((?h + ?len + 3) div 4) \<le> length buf" if "?h + ?len + 4 \<le> length buf" for buf :: "u8 list"
      using that by presburger
    have len_block: "?h + ?len + 4 \<le> length block" using block True by simp
    from integrity_runs [where cmac = "aes_cmac cr" and algorithm = "integrityProtAlgorithm p", OF usable cmac m room4 [OF this]]
    obtain mac where
      mac: "stream_compute_integrity (aes_cmac cr) (integrityProtAlgorithm p) int_sc block = Inr mac"
      "case mac of None \<Rightarrow> integrityProtAlgorithm p \<noteq> 1 \<and> integrityProtAlgorithm p \<noteq> 2
       | Some bs \<Rightarrow> length bs = 4 \<and> (integrityProtAlgorithm p = 1 \<or> integrityProtAlgorithm p = 2)" by blast
    define code where "code = (case mac of None \<Rightarrow> replicate 4 0 | Some bs \<Rightarrow> bs)"
    have code: "length code = 4" using mac(2) by (auto simp: code_def split: option.splits)
    let ?full = "header @ sdu @ code @ slack" and ?rc = "if integrityProtAlgorithm p \<in> {0, 1, 2} then 0 else - 1 :: int"
    have written: "write_at (?h + ?len) mac block = Inr ?full"
      using block True mac(2) by (auto simp: write_at_def code_def split: option.splits)
    from undo [of ?full "code @ slack"] True code obtain block1 where
      c: "cipher_part cr (cipheringAlgorithm p) sc ?h ?full = Inr block1" "length block1 = length ?full"
      "take ?h block1 = take ?h ?full"
      "\<And>received. arrived srb p (?h + ?len) block1 received \<Longrightarrow>
        \<exists>plain. cipher_part cr (cipheringAlgorithm p) sc ?h received = Inr plain \<and> length plain = length received \<and>
          take ?n plain = take ?n ?full" by auto
    have check: "stream_check_integrity (aes_cmac cr) (integrityProtAlgorithm p) int_sc plain (drop (?h + ?len) plain) = Inr ?rc"
      if "take ?n plain = take ?n ?full" "?n \<le> length plain" for plain
    proof -
      have "take (?h + ?len) plain = take (?h + ?len) block"
        using arg_cong [OF that(1), of "take (?h + ?len)"] block by (simp add: n min_def)
      then have "stream_compute_integrity (aes_cmac cr) (integrityProtAlgorithm p) int_sc plain = Inr mac"
        using stream_compute_integrity_local [OF m, of plain block "aes_cmac cr" "integrityProtAlgorithm p"]
          room4 [of plain] room4 [of block] len_block that(2) n mac(1) by simp
      moreover have "take 4 (drop (?h + ?len) plain) = code"
        using arg_cong [OF that(1), of "drop (?h + ?len)"] code unfolding n by (simp add: drop_take)
      ultimately show ?thesis
        using mac(2) by (auto simp: stream_check_integrity_def code_def split: option.splits)
    qed
    have "take ?len (drop ?h plain) = sdu" if "take ?n plain = take ?n ?full" for plain
    proof -
      have "take (?h + ?len) plain = take (?h + ?len) ?full"
        using arg_cong [OF that, of "take (?h + ?len)"] by (simp add: n min_def)
      from arg_cong [OF this, of "drop ?h"] show ?thesis by (simp add: drop_take)
    qed
    with c(4) check have "\<exists>block2. pdcp_validate_security cr km' q srb rb ?h sn received (of_nat (?h + ?len)) = Inr (?rc, q, block2) \<and>
        take ?len (drop ?h block2) = sdu" if "arrived srb p (?h + ?len) block1 received" for received
    proof -
      have "?n \<le> length received" using that by (simp add: arrived_def Let_def)
      with c(4) [OF that] obtain plain where "cipher_part cr (cipheringAlgorithm p) sc ?h received = Inr plain"
        "?n \<le> length plain" "take ?n plain = take ?n ?full" by metis
      with check [of plain] \<open>\<And>plain. take ?n plain = take ?n ?full \<Longrightarrow> take ?len (drop ?h plain) = sdu\<close> [of plain]
      show ?thesis unfolding validate_eq using True by auto
    qed
    moreover have "pdcp_apply_security cr km p srb rb ?h sn block (of_nat ?len) = Inr block1"
      unfolding apply_eq using True mac(1) written c(1) by simp
    moreover have "length block1 = length block" "take ?h block1 = header" using c(2,3) block True code by simp_all
    moreover have "?rc = 0 \<longleftrightarrow> \<not> srb \<or> integrityProtAlgorithm p \<in> {0, 1, 2}" using True by simp
    ultimately show ?thesis by blast
  qed
qed

end
