(* ===== verification/PdcpTransfer.thy ===== *)
theory PdcpTransfer
  imports PdcpSecurity
begin

text \<open>
  A bearer end to end: the PDUs that one entity makes of its SDUs, of which some are lost, and what the entity at
  the other end makes of them.
\<close>

section \<open>The header\<close>

lemma byte_masks: "(0x0F :: u8) = mask 4" "(0xFF :: u8) = mask 8" "(0xFF :: u16) = mask 8" "(0x1F :: u8) = mask 5"
  by (simp_all add: mask_eq_exp_minus_1)

lemma bit_0x80: "bit (0x80 :: int) n \<longleftrightarrow> n = 7"
  using bit_exp_iff [of 7 n, where ?'a = int] by simp

lemma bit_bound: "unat sn < 2 ^ k \<Longrightarrow> bit sn n \<Longrightarrow> n < k" for sn :: u16
proof -
  assume "unat sn < 2 ^ k" "bit sn n"
  then have "and sn (mask k) = sn" by (simp add: word_unat_eq_iff unat_mask)
  with \<open>bit sn n\<close> show "n < k" by (metis bit_and_iff bit_mask_iff)
qed

lemma long_header:
  assumes "unat (sn :: u16) < 4096"
  shows "or (push_bit 8 (ucast (and (let b = ucast (and (drop_bit 8 sn) 0xFF) in if dm then or b 0x80 else b) (0x0F :: u8))))
    (ucast (and (ucast (and sn 0xFF)) (0xFF :: u8))) = sn"
proof -
  have b: "bit sn n \<Longrightarrow> n < 12" for n using bit_bound [of sn 12] assms by simp
  show ?thesis by (intro bit_word_eqI) (auto simp: bit_simps byte_masks bit_0x80 Let_def dest: b)
qed

lemma short_header:
  assumes "unat (sn :: u16) < 32"
  shows "ucast (and (and (ucast sn) 0x1F) (0x1F :: u8)) = sn" and "ucast (ucast sn :: u8) = sn"
proof -
  have b: "bit sn n \<Longrightarrow> n < 5" for n using bit_bound [of sn 5] assms by simp
  show "ucast (and (and (ucast sn) 0x1F) (0x1F :: u8)) = sn" "ucast (ucast sn :: u8) = sn"
    by (rule bit_word_eqI, auto simp: bit_simps byte_masks dest: b)+
qed

lemma read_header:
  assumes fits: "fits srb p" and sn: "unat sn < sn_space p" and drb: "\<not> srb \<Longrightarrow> seq_num_size q = 12"
    and header: "pdcp_header srb dm sn = (hdr, sn')" and block: "take (length hdr) block = hdr"
  shows "sn' = sn" and "length hdr = (if srb then 1 else 2)" and "pdcp_read_header q srb block = Inr (length hdr, sn)"
proof -
  have small: "srb \<Longrightarrow> unat sn < 32" "unat sn < 4096"
    using fits sn sn_space_le [of p] by (auto simp: fits_def sn_space_def)
  show len: "length hdr = (if srb then 1 else 2)"
    using header by (auto simp: pdcp_header_def pdcp_serialize_control_plane_data_pdu_with_SRB_sn_buffer_def
        pdcp_serialize_user_plane_data_pdu_with_long_sn_buffer_def)
  show "sn' = sn" using header short_header(2) [OF small(1)] by (cases srb) (simp_all add: pdcp_header_def)
  have "length hdr \<le> length block" using block by (metis length_take min.cobounded1)
  then have nth: "i < length hdr \<Longrightarrow> aget block (int i) = Inr (hdr ! i)" for i
    using block by (metis aget_def in_range_def nat_int nth_take of_nat_0_le_iff of_nat_less_iff order_less_le_trans)
  show "pdcp_read_header q srb block = Inr (length hdr, sn)"
  proof (cases srb)
    case True
    with header nth [of 0] len short_header(1) [OF small(1)] show ?thesis
      by (auto simp: pdcp_read_header_def pdcp_header_def pdcp_get_sequence_number_of_pdu_with_SRB_sn_def
          pdcp_serialize_control_plane_data_pdu_with_SRB_sn_buffer_def)
  next
    case False
    with header nth [of 0] nth [of 1] len drb long_header [OF small(2)] show ?thesis
      by (auto simp: pdcp_read_header_def pdcp_header_def pdcp_get_sequence_number_of_pdu_with_long_sn_def
          pdcp_serialize_user_plane_data_pdu_with_long_sn_buffer_def)
  qed
qed

section \<open>One PDU\<close>

definition pdu_len :: "bool \<Rightarrow> u8 list \<Rightarrow> nat" where
  "pdu_len srb sdu = (if srb then 1 + length sdu + 4 else 2 + length sdu)"

text \<open>
  The two ends: the same configuration and keys. The size of the numbers of a data bearer is 12 bits, and its RLC
  mode is UM.
\<close>

definition bearer_ends :: "key_memory \<Rightarrow> pdcp \<Rightarrow> key_memory \<Rightarrow> pdcp \<Rightarrow> bool \<Rightarrow> bool" where
  "bearer_ends km p km' q srb \<longleftrightarrow>
     fits srb p \<and> seq_num_size q = seq_num_size p \<and> (\<not> srb \<longrightarrow> seq_num_size p = 12 \<and> rlc_mode q = RLC_MODE_UM) \<and>
     security_activated q = security_activated p \<and> security_activated p \<in> {0, 1} \<and>
     (security_activated p = 1 \<longrightarrow> paired km p km' q srb)"

text \<open>Room at the end of a block for the last word of EEA1.\<close>

definition roomy :: "bool \<Rightarrow> pdcp \<Rightarrow> u8 list \<Rightarrow> bool" where
  "roomy srb p slack \<longleftrightarrow> srb \<or> cipheringAlgorithm p \<noteq> 1 \<or> 3 \<le> length slack"

lemma bearer_ends_cong:
  assumes "bearer_ends km p km' q srb" "rx_config q1 = rx_config q"
  shows "bearer_ends km (tx_at N p) km' q1 srb" and "bearer_ends km p km' q1 srb"
  using assms(1) rx_config_simps [OF assms(2)]
  by (cases srb; auto simp: bearer_ends_def paired_def enc_key_def fits_def tx_at_def pdcp_is_seq_num_size_valid_def)+

lemma apply_null:
  assumes "pdcp_apply_security cr km p srb rb h sn block sz = Inr block1"
    and "cipheringAlgorithm p = 0" "integrityProtAlgorithm p = 0"
  shows "block1 = block"
  using assms
  by (auto simp: pdcp_apply_security_def cipher_part_def stream_encrypt_def stream_encrypt_eea0_def
      stream_compute_integrity_def write_at_def bindE_eq_Inr Let_def split: if_splits)

lemma make_and_open:
  assumes cr: "proper_crypto cr" and ends: "bearer_ends km p km' q srb" and at: "rx_at R q"
    and window: "R \<le> N" "N < R + sn_space p" and rb: "rb < maxDRB" and len: "length sdu \<le> 10000"
    and room: "roomy srb p slack"
  shows "\<exists>block. pdcp_make_pdu cr km (tx_at N p) srb dm rb sdu slack = Inr (tx_at (Suc N) p, Some block) \<and>
    length block = pdu_len srb sdu + length slack \<and>
    (\<forall>rest. roomy srb p rest \<longrightarrow> (\<exists>q1 h sn b.
      pdcp_open_pdu cr km' q srb rb (int (pdu_len srb sdu)) (take (pdu_len srb sdu) block @ rest) =
        Inr (q1, Some (h, sn, b)) \<and>
      pdcp_payload srb (int (pdu_len srb sdu)) h b = sdu \<and> rx_at (Suc N) q1 \<and> rx_config q1 = rx_config q))"
proof -
  let ?sn = "of_nat (N mod sn_space p) :: u16" and ?p = "tx_at (Suc N) p"
  have valid: "pdcp_is_seq_num_size_valid p" and fits: "fits srb p" using ends by (simp_all add: bearer_ends_def fits_def)
  have sn: "unat ?sn < sn_space p" by (simp add: unat_sn [OF valid])
  have space: "sn_space q = sn_space p" "fits srb q" "\<not> srb \<Longrightarrow> seq_num_size q = 12"
    using ends by (auto simp: bearer_ends_def sn_space_def fits_def pdcp_is_seq_num_size_valid_def)
  obtain header sn' where header: "pdcp_header srb dm ?sn = (header, sn')" by fastforce
  note hdr = read_header [OF fits sn space(3) header]
  let ?block = "header @ sdu @ replicate (if srb then 4 else 0) 0 @ slack"
  have range: "\<not> ?sn > pdcp_calculate_max_seq_num_for_given_size (seq_num_size p)"
  proof -
    have "unat ?sn \<le> sn_space p - 1" using sn by simp
    also have "\<dots> = unat (of_nat (sn_space p - 1) :: u16)" by (subst unat_sn [OF valid]) simp_all
    finally show ?thesis by (simp only: max_seq_num [OF valid] word_le_nat_alt not_less)
  qed
  have mod: "rb mod maxDRB = rb" using rb by (simp add: word_unat_eq_iff unat_mod word_less_nat_alt)
  have "srb \<or> rlc_mode q = RLC_MODE_UM" using ends by (auto simp: bearer_ends_def)
  from rx_valid [OF space(2) this at window(1)] window(2) obtain q1 where
    q1: "pdcp_is_rx_seq_number_valid ?sn q srb = Inr (True, q1)" "rx_at (Suc N) q1" "rx_config q1 = rx_config q"
    unfolding space(1) by auto
  have ends1: "bearer_ends km ?p km' q1 srb" using bearer_ends_cong(1) [OF ends q1(3)] .
  have same: "security_activated ?p = security_activated p" "cipheringAlgorithm ?p = cipheringAlgorithm p"
    "integrityProtAlgorithm ?p = integrityProtAlgorithm p" "seq_num_size ?p = seq_num_size p" by (simp_all add: tx_at_def)
  have "sn_space q1 = sn_space p" "fits srb q1" using rx_config_simps [OF q1(3)] space by simp_all
  then have count: "pdcp_get_next_count_rx q1 srb ?sn = (pdcp_get_next_count_tx ?p srb ?sn, q1)"
    using count_rx_at [of srb q1 N] count_tx_at [OF fits, of N] q1(2) by simp
  have hlen: "length header = (if srb then 1 else 2)" "sn' = ?sn" using hdr(1,2) [of header] by simp_all
  have pdu: "pdu_len srb sdu = length header + length sdu + nat (tailer_len srb)"
    "int (pdu_len srb sdu) - tailer_len srb = int (length header + length sdu)"
    using hlen(1) by (auto simp: pdu_len_def tailer_len_def)
  have make: "pdcp_make_pdu cr km (tx_at N p) srb dm rb sdu slack =
    (if security_applies ?p then bindE (pdcp_apply_security cr km ?p srb rb (length header) ?sn ?block (of_nat (length sdu)))
       (\<lambda>b. Inr (?p, Some b)) else Inr (?p, Some ?block))"
    using range by (simp add: pdcp_make_pdu_def tx_next [OF valid] header hlen(2) mod same(4) Let_def)
  have opened: "pdcp_open_pdu cr km' q srb rb (int (pdu_len srb sdu)) received =
    (if security_activated q1 = 1
     then bindE (pdcp_validate_security cr km' q1 srb rb (length header) ?sn received (of_nat (length header + length sdu)))
       (\<lambda>(_, p2, b1). Inr (p2, Some (length header, ?sn, b1)))
     else Inr (q1, Some (length header, ?sn, received)))" if "take (length header) received = header" for received
    using hdr(3) [OF _ that] pdu by (simp add: pdcp_open_pdu_def q1(1) of_nat_diff)
  have payload: "pdcp_payload srb (int (pdu_len srb sdu)) (length header) b = take (length sdu) (drop (length header) b)" for b
  proof -
    have "int (pdu_len srb sdu) - int (length header) - tailer_len srb = int (length sdu)" using pdu(2) by linarith
    then show ?thesis by (simp only: pdcp_payload_def nat_int)
  qed
  show ?thesis
  proof (cases "security_activated p = 1")
    case True
    then have pair: "paired km ?p km' q1 srb" and active: "security_activated q1 = 1"
      using ends1 by (simp_all add: bearer_ends_def same)
    have "srb \<or> cipheringAlgorithm ?p \<noteq> 1 \<or> 3 \<le> length slack" using room by (simp add: roomy_def same)
    from security_undone [OF cr pair count rb len hlen(1) this refl] obtain block1 rc where
      b1: "pdcp_apply_security cr km ?p srb rb (length header) ?sn ?block (of_nat (length sdu)) = Inr block1"
      "length block1 = length ?block" "take (length header) block1 = header"
      "\<And>received. arrived srb ?p (length header + length sdu) block1 received \<Longrightarrow>
        \<exists>block2. pdcp_validate_security cr km' q1 srb rb (length header) ?sn received (of_nat (length header + length sdu)) =
          Inr (rc, q1, block2) \<and> take (length sdu) (drop (length header) block2) = sdu" by blast
    have made: "pdcp_make_pdu cr km (tx_at N p) srb dm rb sdu slack = Inr (?p, Some block1)"
    proof (cases "security_applies ?p")
      case True
      then show ?thesis using b1(1) by (simp add: make)
    next
      case False
      with \<open>security_activated p = 1\<close> have "cipheringAlgorithm ?p = 0" "integrityProtAlgorithm ?p = 0"
        by (simp_all add: security_applies_def same)
      from apply_null [OF b1(1) this] False show ?thesis by (simp add: make)
    qed
    have "arrived srb ?p (length header + length sdu) block1 (take (pdu_len srb sdu) block1 @ rest)" if "roomy srb p rest" for rest
      using that hlen(1) b1(2) pdu(1) by (auto simp: arrived_def Let_def roomy_def same tailer_len_def)
    moreover have "take (length header) (take (pdu_len srb sdu) block1 @ rest) = header" for rest
      using b1(2,3) pdu(1) by (simp add: min_def)
    ultimately have "\<exists>q1 h sn b. pdcp_open_pdu cr km' q srb rb (int (pdu_len srb sdu)) (take (pdu_len srb sdu) block1 @ rest) =
        Inr (q1, Some (h, sn, b)) \<and>
      pdcp_payload srb (int (pdu_len srb sdu)) h b = sdu \<and> rx_at (Suc N) q1 \<and> rx_config q1 = rx_config q"
      if "roomy srb p rest" for rest
      using b1(4) [of "take (pdu_len srb sdu) block1 @ rest"] that q1(2,3) active
      by (auto simp: opened payload)
    moreover have "length block1 = pdu_len srb sdu + length slack" using b1(2) hlen(1) by (simp add: pdu_len_def)
    ultimately show ?thesis using made by blast
  next
    case False
    then have inactive: "security_activated p = 0" "security_activated q1 = 0"
      using ends rx_config_simps [OF q1(3)] by (auto simp: bearer_ends_def)
    then have made: "pdcp_make_pdu cr km (tx_at N p) srb dm rb sdu slack = Inr (?p, Some ?block)"
      by (simp add: make security_applies_def same)
    have "\<exists>q1 h sn b. pdcp_open_pdu cr km' q srb rb (int (pdu_len srb sdu)) (take (pdu_len srb sdu) ?block @ rest) =
        Inr (q1, Some (h, sn, b)) \<and>
      pdcp_payload srb (int (pdu_len srb sdu)) h b = sdu \<and> rx_at (Suc N) q1 \<and> rx_config q1 = rx_config q" for rest
    proof -
      let ?r = "take (pdu_len srb sdu) ?block @ rest"
      have r: "take (length header) ?r = header" "take (length sdu) (drop (length header) ?r) = sdu"
        using pdu(1) by (simp_all add: min_def)
      have "pdcp_open_pdu cr km' q srb rb (int (pdu_len srb sdu)) ?r = Inr (q1, Some (length header, ?sn, ?r))"
        unfolding opened [OF r(1)] inactive(2) by simp
      moreover have "pdcp_payload srb (int (pdu_len srb sdu)) (length header) ?r = sdu" unfolding payload by (rule r(2))
      ultimately show ?thesis using q1(2,3) by blast
    qed
    moreover have "length ?block = pdu_len srb sdu + length slack" using hlen(1) by (simp add: pdu_len_def)
    ultimately show ?thesis using made by blast
  qed
qed

section \<open>Many PDUs\<close>

text \<open>
  An SDU with the rest of the block that it is put in, and the rest of the block in which its PDU arrives, unless
  it is lost.
\<close>

type_synonym packet = "u8 list \<times> u8 list \<times> u8 list option"

fun transfer ::
  "crypto \<Rightarrow> key_memory \<Rightarrow> key_memory \<Rightarrow> bool \<Rightarrow> bool \<Rightarrow> u16 \<Rightarrow> packet list \<Rightarrow> pdcp \<Rightarrow> pdcp \<Rightarrow>
   (u8 list list \<times> pdcp \<times> pdcp) res" where
  "transfer cr km km' srb dm rb [] p q = Inr ([], p, q)"
| "transfer cr km km' srb dm rb ((sdu, slack, arrival) # xs) p q =
     bindE (pdcp_make_pdu cr km p srb dm rb sdu slack) (\<lambda>(p1, made).
     case (made, arrival) of
       (Some block, Some rest) \<Rightarrow>
         bindE (pdcp_open_pdu cr km' q srb rb (int (pdu_len srb sdu)) (take (pdu_len srb sdu) block @ rest)) (\<lambda>(q1, opened).
         bindE (transfer cr km km' srb dm rb xs p1 q1) (\<lambda>(ds, p2, q2).
         Inr ((case opened of None \<Rightarrow> [] | Some (h, _, b) \<Rightarrow> [pdcp_payload srb (int (pdu_len srb sdu)) h b]) @ ds, p2, q2)))
     | _ \<Rightarrow> transfer cr km km' srb dm rb xs p1 q)"

text \<open>At most \<open>M - 1\<close> PDUs in a row are lost, when \<open>g\<close> have been lost before.\<close>

fun gaps_ok :: "nat \<Rightarrow> nat \<Rightarrow> packet list \<Rightarrow> bool" where
  "gaps_ok M g [] \<longleftrightarrow> True"
| "gaps_ok M g ((_, _, None) # xs) \<longleftrightarrow> gaps_ok M (Suc g) xs"
| "gaps_ok M g ((_, _, Some _) # xs) \<longleftrightarrow> g < M \<and> gaps_ok M 0 xs"

definition packet_ok :: "bool \<Rightarrow> pdcp \<Rightarrow> packet \<Rightarrow> bool" where
  "packet_ok srb p x \<longleftrightarrow> (case x of (sdu, slack, arrival) \<Rightarrow>
     length sdu \<le> 10000 \<and> roomy srb p slack \<and> (\<forall>rest. arrival = Some rest \<longrightarrow> roomy srb p rest))"

definition arrivals :: "packet list \<Rightarrow> u8 list list" where
  "arrivals xs = map fst (filter (\<lambda>(_, _, arrival). arrival \<noteq> None) xs)"

lemma arrivals_simps [simp]:
  "arrivals [] = []" "arrivals ((sdu, slack, None) # xs) = arrivals xs"
  "arrivals ((sdu, slack, Some rest) # xs) = sdu # arrivals xs"
  by (simp_all add: arrivals_def)

lemma make_alone:
  assumes cr: "proper_crypto cr" and ends: "bearer_ends km p km' q srb" and rb: "rb < maxDRB" and len: "length sdu \<le> 10000"
    and room: "roomy srb p slack"
  shows "\<exists>block. pdcp_make_pdu cr km (tx_at N p) srb dm rb sdu slack = Inr (tx_at (Suc N) p, Some block)"
proof -
  \<comment> \<open>A receiver that expects the PDU.\<close>
  define q0 where "q0 = q\<lparr>next_pdcp_rx_sn := of_nat (N mod sn_space q), rx_hfn := of_nat (N div sn_space q),
    rx_hfn_offset := 0, missing_pdu_bitmap := replicate 512 0\<rparr>"
  have "rx_config q0 = rx_config q" "rx_at N q0" by (simp_all add: q0_def rx_config_def rx_at_def sn_space_def)
  with make_and_open [OF cr bearer_ends_cong(2) [OF ends] _ order_refl _ rb len room, of q0] show ?thesis by simp blast
qed

lemma transfer_from:
  assumes cr: "proper_crypto cr" and rb: "rb < maxDRB"
    and "bearer_ends km p km' q srb" and "rx_at R q" and "N = R + g" and "gaps_ok (sn_space p) g xs"
    and "\<forall>x \<in> set xs. packet_ok srb p x"
  shows "\<exists>q'. transfer cr km km' srb dm rb xs (tx_at N p) q = Inr (arrivals xs, tx_at (N + length xs) p, q') \<and>
    rx_config q' = rx_config q"
  using assms(3-7)
proof (induction xs arbitrary: N R g q)
  case Nil
  then show ?case by simp
next
  case (Cons x xs)
  obtain sdu slack arrival where x: "x = (sdu, slack, arrival)" by (cases x) auto
  from Cons.prems(5) have ok: "length sdu \<le> 10000" "roomy srb p slack" "\<And>rest. arrival = Some rest \<Longrightarrow> roomy srb p rest"
    by (auto simp: x packet_ok_def)
  show ?case
  proof (cases arrival)
    case None
    from make_alone [OF cr Cons.prems(1) rb ok(1,2)] obtain block where
      "pdcp_make_pdu cr km (tx_at N p) srb dm rb sdu slack = Inr (tx_at (Suc N) p, Some block)" by blast
    with Cons.IH [OF Cons.prems(1,2), of "Suc N" "Suc g"] Cons.prems(3-5) None show ?thesis by (auto simp: x)
  next
    case (Some rest)
    with Cons.prems(3,4) have "R \<le> N" "N < R + sn_space p" "gaps_ok (sn_space p) 0 xs" by (auto simp: x)
    from make_and_open [OF cr Cons.prems(1,2) this(1,2) rb ok(1,2), of dm] ok(3) [OF Some] obtain block q1 h sn b where
      step: "pdcp_make_pdu cr km (tx_at N p) srb dm rb sdu slack = Inr (tx_at (Suc N) p, Some block)"
      "pdcp_open_pdu cr km' q srb rb (int (pdu_len srb sdu)) (take (pdu_len srb sdu) block @ rest) = Inr (q1, Some (h, sn, b))"
      "pdcp_payload srb (int (pdu_len srb sdu)) h b = sdu" "rx_at (Suc N) q1" "rx_config q1 = rx_config q" by blast
    from Cons.IH [OF bearer_ends_cong(2) [OF Cons.prems(1) step(5)] step(4), of "Suc N" 0]
      \<open>gaps_ok (sn_space p) 0 xs\<close> Cons.prems(5) Some step show ?thesis by (auto simp: x)
  qed
qed

text \<open>Algorithms of the right lengths, and the ends of a data bearer ciphered with EEA1.\<close>

definition example_crypto :: crypto where
  "example_crypto = \<lparr>aes_ctr = \<lambda>k b n. replicate n 0, aes_cmac = \<lambda>k m. replicate 16 0\<rparr>"

lemma example_crypto [simp]: "proper_crypto example_crypto"
  by (simp add: proper_crypto_def example_crypto_def)

definition example_end :: "bool \<Rightarrow> pdcp" where
  "example_end ue = zero_pdcp\<lparr>seq_num_size := 12, rlc_mode := RLC_MODE_UM, is_ue := ue, security_activated := 1,
     cipheringAlgorithm := 1, kUPenc := Some 0\<rparr>"

text \<open>C4.
  A bearer carries what it is given: the SDUs of the PDUs that are not lost come out as they went in and in their
  order, on a signalling bearer and on a data bearer with 12 bits in UM, with any algorithms and across the wrap of
  the numbers. The RLC below may lose any PDUs, as long as less than a cycle of numbers is lost in a row.
\<close>

theorem pdcp_transfer:
  assumes "proper_crypto cr" and "rb < maxDRB" and "bearer_ends km p km' q srb"
    and "length (missing_pdu_bitmap q) = 512" "rx_hfn_offset q = 0"
    and "gaps_ok (sn_space p) 0 xs" and "\<forall>x \<in> set xs. packet_ok srb p x"
  shows "\<exists>p' q'. transfer cr km km' srb dm rb xs (pdcp_init_seq_numbers p) (pdcp_init_seq_numbers q) = Inr (arrivals xs, p', q')"
proof -
  let ?p = "pdcp_init_seq_numbers p" and ?q = "pdcp_init_seq_numbers q"
  have p: "tx_at 0 ?p = ?p" "sn_space ?p = sn_space p" "packet_ok srb ?p = packet_ok srb p"
    by (auto simp: tx_at_def pdcp_init_seq_numbers_def sn_space_def packet_ok_def roomy_def fun_eq_iff)
  have ends: "bearer_ends km ?p km' ?q srb"
    using assms(3)
    by (auto simp: bearer_ends_def paired_def enc_key_def fits_def pdcp_init_seq_numbers_def pdcp_is_seq_num_size_valid_def)
  have "rx_at 0 ?q" using assms(4,5) by (simp add: rx_at_def pdcp_init_seq_numbers_def)
  from transfer_from [OF assms(1,2) ends this, of 0 0 xs dm] assms(6,7) show ?thesis by (auto simp: p)
qed

lemma pdcp_transfer_witness:
  "\<exists>p' q'. transfer example_crypto (\<lambda>_. Some (replicate 32 7)) (\<lambda>_. Some (replicate 32 7)) False True 3
     [([1, 2], [0, 0, 0], Some [0, 0, 0]), ([3], [0, 0, 0], None), ([4, 5, 6], [0, 0, 0], Some [9, 9, 9])]
     (pdcp_init_seq_numbers (example_end False)) (pdcp_init_seq_numbers (example_end True)) =
     Inr ([[1, 2], [4, 5, 6]], p', q')"
proof -
  have "bearer_ends (\<lambda>_. Some (replicate 32 7)) (example_end False) (\<lambda>_. Some (replicate 32 7)) (example_end True) False"
    by (simp add: bearer_ends_def paired_def fits_def pdcp_is_seq_num_size_valid_def enc_key_def key_at_def usable_key_def
        example_end_def)
  moreover have "gaps_ok (sn_space (example_end False)) 0
    [([1, 2], [0, 0, 0], Some [0, 0, 0]), ([3], [0, 0, 0], None), ([4, 5, 6], [0, 0, 0], Some [9, 9, 9])]"
    by (simp add: sn_space_def example_end_def)
  moreover have "\<forall>x \<in> set [([1, 2], [0, 0, 0], Some [0, 0, 0]), ([3], [0, 0, 0], None), ([4, 5, 6], [0, 0, 0], Some [9, 9, 9])].
    packet_ok False (example_end False) x" by (simp add: packet_ok_def roomy_def)
  moreover have "length (missing_pdu_bitmap (example_end True)) = 512" "rx_hfn_offset (example_end True) = 0"
    by (simp_all add: example_end_def zero_pdcp_def)
  moreover have "(3 :: u16) < maxDRB" by (simp add: maxDRB_def)
  ultimately show ?thesis
    using pdcp_transfer [OF example_crypto, of 3 "\<lambda>_. Some (replicate 32 7)" "example_end False" "\<lambda>_. Some (replicate 32 7)"
      "example_end True" False _ True] by fastforce
qed

end
