(* ===== verification/PdcpErrors.thy ===== *)
theory PdcpErrors
  imports PdcpTransfer
begin

text \<open>
  Where PDCP does not do what 36.323 asks of it: numbers of 7 bits, and PDUs that fail the integrity check.
\<close>

section \<open>Receiving any number\<close>

lemma receive_runs:
  assumes "length (missing_pdu_bitmap q) = 512"
  shows "\<exists>b q1. pdcp_is_rx_seq_number_valid sn q srb = Inr (b, q1) \<and> rx_config q1 = rx_config q"
proof (cases "pdcp_is_seq_num_size_valid q \<and> pdcp_is_seq_num_valid sn (seq_num_size q)")
  case True
  then have valid: "pdcp_is_seq_num_size_valid q" "pdcp_is_seq_num_valid sn (seq_num_size q)" by simp_all
  have "unat (of_nat (sn_space q - 1) :: u16) = sn_space q - 1" by (subst unat_sn [OF valid(1)]) simp_all
  then have "unat sn < sn_space q"
    using valid sn_space_pos [of q] by (simp only: pdcp_is_seq_num_valid_def max_seq_num [OF valid(1)] word_le_nat_alt)
  from mark_received [OF valid(1) this assms] obtain bm where
    mark: "pdcp_mark_current_pdu_as_received sn q = Inr (q\<lparr>missing_pdu_bitmap := bm\<rparr>)" by blast
  have "rx_config (snd (pdcp_advance_rx_window x)) = rx_config x" for x
    by (simp add: pdcp_advance_rx_window_def rx_config_def)
  then show ?thesis unfolding pdcp_is_rx_seq_number_valid_def mark
    using True by (auto simp: rx_acknowledged_def Let_def rx_config_def split: rlc_mode.splits if_splits)
qed (auto simp: pdcp_is_rx_seq_number_valid_def)

section \<open>A bearer with short numbers\<close>

lemma short_reads: "ucast (and (if dm then or (ucast (and (drop_bit 8 sn) 0xFF)) 0x80 else ucast (and (drop_bit 8 sn) 0xFF)) (0x7F :: u8)) =
   (0 :: u16)" if "unat (sn :: u16) < 128"
proof -
  have "(0x7F :: u8) = mask 7" by (simp add: mask_eq_exp_minus_1)
  moreover have b: "bit sn n \<Longrightarrow> n < 7" for n using bit_bound [of sn 7] that by simp
  ultimately show ?thesis by (intro bit_word_eqI) (auto simp: bit_simps byte_masks bit_0x80 dest: b)
qed

text \<open>
  A data bearer with numbers of 7 bits does not work: the sender writes a header of two bytes, as for 12 bits, and
  the receiver reads one. It takes every PDU for number 0, and passes on the second byte of the header, the number,
  in front of each SDU.
\<close>

theorem pdcp_short_number_mismatch:
  assumes "seq_num_size p = 7" "seq_num_size q = 7" "rlc_mode q = RLC_MODE_UM" "security_activated p = 0" "security_activated q = 0"
    and "length (missing_pdu_bitmap q) = 512"
  shows "\<exists>block q1. pdcp_make_pdu cr km (tx_at N p) False dm rb sdu slack = Inr (tx_at (Suc N) p, Some block) \<and>
    length block = 2 + length sdu + length slack \<and>
    pdcp_open_pdu cr km' q False rb (int (2 + length sdu)) block = Inr (q1, Some (1, 0, block)) \<and>
    pdcp_payload False (int (2 + length sdu)) 1 block = of_nat (N mod 128) # sdu"
proof -
  have p: "pdcp_is_seq_num_size_valid p" "sn_space p = 128" using assms(1) by (simp_all add: pdcp_is_seq_num_size_valid_def sn_space_def)
  have q: "pdcp_is_seq_num_size_valid q" "sn_space q = 128" using assms(2) by (simp_all add: pdcp_is_seq_num_size_valid_def sn_space_def)
  let ?sn = "of_nat (N mod 128) :: u16"
  have sn: "unat ?sn = N mod 128" by simp
  let ?header = "pdcp_serialize_user_plane_data_pdu_with_long_sn_buffer dm ?sn"
  let ?block = "?header @ sdu @ slack"
  have "\<not> ?sn > pdcp_calculate_max_seq_num_for_given_size (seq_num_size p)"
    using sn by (simp add: max_seq_num [OF p(1)] p(2) word_less_nat_alt)
  then have made: "pdcp_make_pdu cr km (tx_at N p) False dm rb sdu slack = Inr (tx_at (Suc N) p, Some ?block)"
    using assms(4) tx_next [OF p(1), of N] unfolding p(2)
    by (simp add: pdcp_make_pdu_def pdcp_header_def security_applies_def tx_at_def)
  obtain b0 where header: "?header = [b0, ucast (and ?sn 0xFF)]" "ucast (and b0 (0x7F :: u8)) = (0 :: u16)"
    using short_reads [of ?sn dm] by (simp add: pdcp_serialize_user_plane_data_pdu_with_long_sn_buffer_def Let_def)
  have low: "(ucast (and ?sn 0xFF) :: u8) = of_nat (N mod 128)"
    by (rule bit_word_eqI) (simp add: bit_simps byte_masks bit_of_nat_iff)
  obtain b q1 where valid: "pdcp_is_rx_seq_number_valid 0 q False = Inr (b, q1)" "security_activated q1 = 0"
    using receive_runs [OF assms(6), of 0 False] rx_config_simps assms(5) by metis
  have "pdcp_open_pdu cr km' q False rb (int (2 + length sdu)) ?block = Inr (q1, Some (1, 0, ?block))"
    using header(2) valid assms(2)
    by (simp add: pdcp_open_pdu_def pdcp_read_header_def pdcp_get_sequence_number_of_pdu_with_short_sn_def header(1)
        tailer_len_def aget_def in_range_def)
  moreover have "pdcp_payload False (int (2 + length sdu)) 1 ?block = of_nat (N mod 128) # sdu"
  proof -
    have "nat (int (2 + length sdu) - int 1 - 0) = Suc (length sdu)" by simp
    then show ?thesis by (simp only: pdcp_payload_def tailer_len_def header(1) low if_False) simp
  qed
  moreover have "length ?block = 2 + length sdu + length slack" by (simp add: header(1))
  ultimately show ?thesis using made by blast
qed

lemma pdcp_short_number_mismatch_witness:
  "\<exists>block q1. pdcp_make_pdu example_crypto (\<lambda>_. None) (tx_at 5 (zero_pdcp\<lparr>seq_num_size := 7, rlc_mode := RLC_MODE_UM\<rparr>))
      False True 3 [10, 20] [] = Inr (tx_at 6 (zero_pdcp\<lparr>seq_num_size := 7, rlc_mode := RLC_MODE_UM\<rparr>), Some block) \<and>
    pdcp_open_pdu example_crypto (\<lambda>_. None) (zero_pdcp\<lparr>seq_num_size := 7, rlc_mode := RLC_MODE_UM\<rparr>) False 3 4 block =
      Inr (q1, Some (1, 0, block)) \<and>
    pdcp_payload False 4 1 block = [5, 10, 20]"
  using pdcp_short_number_mismatch [of "zero_pdcp\<lparr>seq_num_size := 7, rlc_mode := RLC_MODE_UM\<rparr>"
    "zero_pdcp\<lparr>seq_num_size := 7, rlc_mode := RLC_MODE_UM\<rparr>" example_crypto "\<lambda>_. None" 5 True 3 "[10, 20]" "[]" "\<lambda>_. None"]
  by (auto simp: zero_pdcp_def)

section \<open>A code that does not match\<close>

text \<open>The receiver XORs the same key stream, whatever the MAC-I is, and always goes on.\<close>

lemma validate_any_code:
  assumes cr: "proper_crypto cr" and count: "pdcp_get_next_count_rx q True sn = (c, q')"
    and keys: "usable_key (key_at km (kRRCenc q) 0)" "usable_key (key_at km (kRRCint q) 16)"
    and rb: "rb < maxDRB" and len: "length sdu \<le> 10000"
  shows "\<exists>ks. length ks \<le> length sdu + 3 \<and>
    (cipheringAlgorithm q = 0 \<longrightarrow> take (length sdu) (xor_bytes ks (sdu @ replicate 4 0)) = sdu) \<and>
    (\<forall>code slack. length code = 4 \<longrightarrow>
      (\<exists>r. pdcp_validate_security cr km q True rb 1 sn (byte # sdu @ code @ slack) (of_nat (1 + length sdu)) =
        Inr (r, q', byte # xor_bytes ks (sdu @ code @ slack))))"
proof -
  let ?len = "length sdu" and ?base = "sdu @ replicate 4 0" and ?alg = "cipheringAlgorithm q"
  define sc where "sc = \<lparr>key = key_at km (kRRCenc q) 0, key_length = 16, count = c,
    bearer = ucast (rb - 1), direction = (if is_ue q then 1 else 0), blength = of_nat (8 * ?len)\<rparr>"
  define int_sc where "int_sc = sc\<lparr>key := key_at km (kRRCint q) 16, blength := of_nat (8 * (1 + ?len))\<rparr>"
  note bits = sdu_bits [OF len, of 1, simplified]
  have rb14: "\<not> NB_RB_MAX \<le> rb" using rb by (simp add: NB_RB_MAX_def maxDRB_def word_le_nat_alt word_less_nat_alt)
  have sc: "usable_key (key sc)" "key_length sc = 16" "and (blength sc) 7 = 0" "blength sc = of_nat (8 * ?len)"
    using keys blength_bytes(2) [OF refl, of ?len] len by (simp_all add: sc_def)
  have small: "unat (of_nat (1 + ?len) :: u16) = 1 + ?len" using len by (intro unat_of_nat_small) simp
  have validate_eq: "pdcp_validate_security cr km q True rb 1 sn buf (of_nat (1 + ?len)) =
    bindE (cipher_part cr ?alg sc 1 buf) (\<lambda>buf1.
    bindE (stream_check_integrity (aes_cmac cr) (integrityProtAlgorithm q) int_sc buf1 (drop (1 + ?len) buf1))
      (\<lambda>rc. Inr (if rc \<noteq> 0 then - 1 else 0, q', buf1)))" for buf
    using rb14 unfolding pdcp_validate_security_def sc_def int_sc_def small
    by (simp add: count bits Let_def)
  have reach: "reach ?alg sc \<le> ?len + 3" by (rule reach_le(1) [OF sc(4) len])
  then have "reach ?alg sc \<le> length ?base" by simp
  from stream_encrypt_runs [OF sc(1-3) this, of "aes_ctr cr"] obtain rc bs where
    enc: "stream_encrypt (aes_ctr cr) ?alg sc ?base = Inr (rc, bs)" by blast
  have aes: "length (aes_ctr cr k b n) = n" for k b n using cr by (simp add: proper_crypto_def)
  from stream_encrypt_stream [OF sc(3) aes enc] obtain ks where ks: "length ks = reach ?alg sc" "bs = xor_bytes ks ?base"
    "\<And>m. reach ?alg sc \<le> length m \<Longrightarrow> stream_encrypt (aes_ctr cr) ?alg sc m = Inr (rc, xor_bytes ks m)" by blast
  have null: "?alg = 0 \<longrightarrow> take ?len bs = sdu"
    using enc by (auto simp: stream_encrypt_def stream_encrypt_eea0_def bindE_eq_Inr split: if_splits)
  have "\<exists>r. pdcp_validate_security cr km q True rb 1 sn (byte # sdu @ code @ slack) (of_nat (1 + ?len)) =
      Inr (r, q', byte # xor_bytes ks (sdu @ code @ slack))" if code: "length code = 4" for code slack
  proof -
    let ?plain = "byte # xor_bytes ks (sdu @ code @ slack)"
    have c: "cipher_part cr ?alg sc 1 (byte # sdu @ code @ slack) = Inr ?plain"
      using ks(3) [of "sdu @ code @ slack"] reach code by (simp add: cipher_part_def)
    have m: "blength int_sc = of_nat (8 * (1 + ?len))" "0 < 1 + ?len" "8 * (1 + ?len) < 2 ^ 32"
      using len by (simp_all add: int_sc_def)
    have "length ?plain = 1 + ?len + 4 + length slack" using ks(1) reach code by simp
    moreover have "4 * ((1 + ?len + 3) div 4) \<le> 1 + ?len + 3" by simp
    ultimately have room: "4 * ((1 + ?len + 3) div 4) \<le> length ?plain" by linarith
    have "usable_key (key int_sc)" "length (aes_cmac cr k x) = 16" for k x
      using keys(2) cr by (simp_all add: int_sc_def proper_crypto_def)
    from integrity_runs [where algorithm = "integrityProtAlgorithm q" and cmac = "aes_cmac cr", OF this m room] obtain mac where
      "stream_compute_integrity (aes_cmac cr) (integrityProtAlgorithm q) int_sc ?plain = Inr mac" by blast
    then have "\<exists>rc'. stream_check_integrity (aes_cmac cr) (integrityProtAlgorithm q) int_sc ?plain (drop (1 + ?len) ?plain) = Inr rc'"
      by (cases "integrityProtAlgorithm q = 0") (simp_all add: stream_check_integrity_def)
    with c show ?thesis unfolding validate_eq by auto
  qed
  note any = this
  show ?thesis using ks(1,2) reach null any by (intro exI [of _ ks] conjI) simp_all
qed

text \<open>C36.
  What a signalling bearer passes on does not depend on the MAC-I: for any four bytes there, and any bytes after
  them, the RRC is given the same deciphered SDU. Without ciphering it is what came, so whoever sends a PDU has it
  accepted.
\<close>

theorem pdcp_integrity_failure_ignored:
  assumes cr: "proper_crypto cr" and q: "fits True q" "length (missing_pdu_bitmap q) = 512" "security_activated q = 1"
    and keys: "usable_key (key_at km (kRRCenc q) 0)" "usable_key (key_at km (kRRCint q) 16)"
    and rb: "rb < maxDRB" and len: "length sdu \<le> 10000"
  shows "\<exists>plain. (cipheringAlgorithm q = 0 \<longrightarrow> plain = sdu) \<and>
    (\<forall>code slack. length code = 4 \<longrightarrow>
      (\<exists>q1 h sn b. pdcp_open_pdu cr km q True rb (int (1 + length sdu + 4)) (byte # sdu @ code @ slack) = Inr (q1, Some (h, sn, b)) \<and>
        pdcp_payload True (int (1 + length sdu + 4)) h b = plain))"
proof -
  let ?sn = "ucast (and byte 0x1F) :: u16" and ?len = "length sdu"
  obtain b q1 where valid: "pdcp_is_rx_seq_number_valid ?sn q True = Inr (b, q1)" "rx_config q1 = rx_config q"
    using receive_runs [OF q(2)] by blast
  note same = rx_config_simps [OF valid(2)]
  obtain c q2 where count: "pdcp_get_next_count_rx q1 True ?sn = (c, q2)" by fastforce
  from validate_any_code [OF cr count _ _ rb len, of km byte] keys same obtain ks where
    ks: "length ks \<le> ?len + 3" "cipheringAlgorithm q = 0 \<longrightarrow> take ?len (xor_bytes ks (sdu @ replicate 4 0)) = sdu"
    and validate: "\<And>code slack. length code = 4 \<Longrightarrow> \<exists>r. pdcp_validate_security cr km q1 True rb 1 ?sn
      (byte # sdu @ code @ slack) (of_nat (1 + ?len)) = Inr (r, q2, byte # xor_bytes ks (sdu @ code @ slack))" by auto
  have "\<exists>q1 h sn b. pdcp_open_pdu cr km q True rb (int (1 + ?len + 4)) (byte # sdu @ code @ slack) = Inr (q1, Some (h, sn, b)) \<and>
      pdcp_payload True (int (1 + ?len + 4)) h b = take ?len (xor_bytes ks (sdu @ replicate 4 0))"
    if code: "length code = 4" for code slack
  proof -
    let ?plain = "byte # xor_bytes ks (sdu @ code @ slack)"
    have "pdcp_open_pdu cr km q True rb (int (1 + ?len + 4)) (byte # sdu @ code @ slack) = Inr (q2, Some (1, ?sn, ?plain))"
      using valid(1) validate [OF code, of slack] q(3) same
      by (auto simp: pdcp_open_pdu_def pdcp_read_header_def pdcp_get_sequence_number_of_pdu_with_SRB_sn_def
          tailer_len_def aget_def in_range_def)
    moreover have "nat (int (1 + ?len + 4) - int 1 - 4) = ?len" by simp
    then have "pdcp_payload True (int (1 + ?len + 4)) 1 ?plain = take ?len (xor_bytes ks (sdu @ code @ slack))"
      by (simp only: pdcp_payload_def tailer_len_def if_True) simp
    moreover have "\<dots> = take ?len (xor_bytes ks (sdu @ replicate 4 0))"
      using ks(1) code by (intro take_xor_bytes_cong) simp_all
    ultimately show ?thesis by (metis (no_types, lifting))
  qed
  with ks(2) show ?thesis by blast
qed

lemma pdcp_integrity_failure_ignored_witness:
  "\<exists>q1 h sn b. pdcp_open_pdu example_crypto (\<lambda>_. Some (replicate 32 7))
      (zero_pdcp\<lparr>seq_num_size := 5, is_ue := True, security_activated := 1, integrityProtAlgorithm := 2,
         kRRCenc := Some 0, kRRCint := Some 0\<rparr>) True 1 7 ([3, 10, 20] @ [1, 2, 3, 4]) = Inr (q1, Some (h, sn, b)) \<and>
    pdcp_payload True 7 h b = [10, 20]"
proof -
  let ?q = "zero_pdcp\<lparr>seq_num_size := 5, is_ue := True, security_activated := 1, integrityProtAlgorithm := 2,
    kRRCenc := Some 0, kRRCint := Some 0\<rparr>" and ?km = "\<lambda>_. Some (replicate 32 (7 :: u8))"
  have "fits True ?q" "length (missing_pdu_bitmap ?q) = 512" "security_activated ?q = 1"
    "usable_key (key_at ?km (kRRCenc ?q) 0)" "usable_key (key_at ?km (kRRCint ?q) 16)" "(1 :: u16) < maxDRB"
    by (simp_all add: fits_def pdcp_is_seq_num_size_valid_def zero_pdcp_def usable_key_def key_at_def maxDRB_def)
  from pdcp_integrity_failure_ignored [OF example_crypto this, of "[10, 20]" 3] obtain plain where
    "cipheringAlgorithm ?q = 0 \<longrightarrow> plain = [10, 20]"
    "\<forall>code slack. length code = 4 \<longrightarrow> (\<exists>q1 h sn b. pdcp_open_pdu example_crypto ?km ?q True 1 7
      (3 # [10, 20] @ code @ slack) = Inr (q1, Some (h, sn, b)) \<and> pdcp_payload True 7 h b = plain)" by auto
  from this(1) this(2) [rule_format, of "[1, 2, 3, 4]" "[]"] show ?thesis by (simp add: zero_pdcp_def)
qed

end
