(* ===== verification/PdcpLayer.thy ===== *)
theory PdcpLayer
  imports PdcpData HashTable
begin

text \<open>
  The PDCP layer of one node (\<open>pdcp.c\<close>): the table of the entities of all bearers, how the RRC adds, changes
  and removes them, and the way of an SDU from the layer above through the entity of its bearer to the RLC, and
  back.

  The entities and the keys are blocks of memory. The table holds addresses; a block that has been freed has no
  content any more, and following or freeing a pointer to it is undefined. Getting memory is taken to succeed.
\<close>

section \<open>The state\<close>

definition maxServiceCount :: nat where "maxServiceCount = 16"

definition maxSessionPerPMCH :: nat where "maxSessionPerPMCH = 29"

definition DTCH :: u16 where "DTCH = 3"

text \<open>The context of a call: the instance, whether it is an eNodeB, and the identity of the UE.\<close>

record protocol_ctxt =
  module_id :: u8
  enb_flag :: bool
  rnti :: u16
  configured :: bool

text \<open>The part of a context that names a UE at one side.\<close>

definition same_ue :: "protocol_ctxt \<Rightarrow> protocol_ctxt \<Rightarrow> bool" where
  "same_ue c c' \<longleftrightarrow> module_id c = module_id c' \<and> rnti c = rnti c' \<and> enb_flag c = enb_flag c'"

record pdcp_mbms =
  instanciated_instance :: bool
  mbms_rb_id :: u16

text \<open>An SDU for the layer above, with the header in front of it.\<close>

record pdcp_sdu =
  sdu_rb_id :: u16
  sdu_data_size :: int
  sdu_inst :: int
  sdu_bytes :: "u8 list"

record pdcp_layer =
  pdcp_coll :: "nat hash_table option"
  entities :: "nat \<Rightarrow> pdcp option"
  key_blocks :: key_memory
  next_block :: nat
  mbms_array_ue :: "nat \<times> nat \<times> nat \<Rightarrow> pdcp_mbms"
  mbms_array_eNB :: "nat \<times> nat \<times> nat \<Rightarrow> pdcp_mbms"
  eNB_UE_instance_to_rnti :: "u16 list"
  eNB_UE_instance_to_rnti_index :: nat
  UE_UE_module_id_to_rnti :: "u16 list"
  pdcp_sdu_list :: "pdcp_sdu list"

section \<open>Keys of the table\<close>

definition PDCP_COLL_KEY_VALUE :: "u8 \<Rightarrow> u16 \<Rightarrow> bool \<Rightarrow> u64 \<Rightarrow> bool \<Rightarrow> u64" where
  "PDCP_COLL_KEY_VALUE m r enb rb srb =
     or (or (or (or (or (ucast m) (push_bit 8 (ucast r))) (push_bit 24 (if enb then 1 else 0)))
       (push_bit 25 rb)) (push_bit 33 (if srb then 1 else 0))) (push_bit 34 0x55)"

definition PDCP_COLL_KEY_DEFAULT_DRB_VALUE :: "u8 \<Rightarrow> u16 \<Rightarrow> bool \<Rightarrow> u64" where
  "PDCP_COLL_KEY_DEFAULT_DRB_VALUE m r enb =
     or (or (or (or (or (ucast m) (push_bit 8 (ucast r))) (push_bit 24 (if enb then 1 else 0)))
       (push_bit 25 0xff)) (push_bit 33 0)) (push_bit 34 0xaa)"

definition bearer_key :: "protocol_ctxt \<Rightarrow> int \<Rightarrow> bool \<Rightarrow> u64" where
  "bearer_key ctxt rb srb = PDCP_COLL_KEY_VALUE (module_id ctxt) (rnti ctxt) (enb_flag ctxt) (of_int rb) srb"

definition default_key :: "protocol_ctxt \<Rightarrow> u64" where
  "default_key ctxt = PDCP_COLL_KEY_DEFAULT_DRB_VALUE (module_id ctxt) (rnti ctxt) (enb_flag ctxt)"

section \<open>Memory\<close>

definition entity_at :: "nat option \<Rightarrow> pdcp_layer \<Rightarrow> pdcp res" where
  "entity_at d s =
     (case d of
        None \<Rightarrow> Inl NullDeref
      | Some a \<Rightarrow> (case entities s a of None \<Rightarrow> Inl Undefined | Some p \<Rightarrow> Inr p))"

definition put_entity :: "nat \<Rightarrow> pdcp \<Rightarrow> pdcp_layer \<Rightarrow> pdcp_layer" where
  "put_entity a p s = s\<lparr>entities := (entities s)(a \<mapsto> p)\<rparr>"

text \<open>Changing the entity that a pointer points to.\<close>

definition upd_entity :: "(pdcp \<Rightarrow> pdcp) \<Rightarrow> nat option \<Rightarrow> pdcp_layer \<Rightarrow> pdcp_layer res" where
  "upd_entity f d s = bindE (entity_at d s) (\<lambda>p. Inr (put_entity (the d) (f p) s))"

definition new_entity :: "pdcp_layer \<Rightarrow> nat \<times> pdcp_layer" where
  "new_entity s = (next_block s, (put_entity (next_block s) zero_pdcp s)\<lparr>next_block := next_block s + 1\<rparr>)"

definition free_entity :: "nat \<Rightarrow> pdcp_layer \<Rightarrow> pdcp_layer res" where
  "free_entity a s = (if entities s a = None then Inl Undefined else Inr (s\<lparr>entities := (entities s)(a := None)\<rparr>))"

definition free_key :: "nat option \<Rightarrow> pdcp_layer \<Rightarrow> pdcp_layer res" where
  "free_key k s =
     (case k of
        None \<Rightarrow> Inr s
      | Some b \<Rightarrow> if key_blocks s b = None then Inl Undefined else Inr (s\<lparr>key_blocks := (key_blocks s)(b := None)\<rparr>))"

definition free_keys :: "pdcp \<Rightarrow> pdcp_layer \<Rightarrow> pdcp_layer res" where
  "free_keys p s = bindE (free_key (kUPenc p) s) (\<lambda>s1. bindE (free_key (kRRCint p) s1) (free_key (kRRCenc p)))"

definition pdcp_free :: "nat \<Rightarrow> pdcp_layer \<Rightarrow> pdcp_layer res" where
  "pdcp_free a s = bindE (entity_at (Some a) s) (\<lambda>p. bindE (free_keys p s) (free_entity a))"

section \<open>The table\<close>

definition coll_get :: "u64 \<Rightarrow> pdcp_layer \<Rightarrow> (hashtable_rc \<times> nat option) res" where
  "coll_get k s = hashtable_get (pdcp_coll s) k"

text \<open>The table frees the data it drops with \<open>pdcp_free\<close>.\<close>

definition coll_insert :: "u64 \<Rightarrow> nat option \<Rightarrow> pdcp_layer \<Rightarrow> (hashtable_rc \<times> pdcp_layer) res" where
  "coll_insert k d s =
     bindE (hashtable_insert (pdcp_coll s) k d) (\<lambda>(rc, t, freed).
     bindE (foldE pdcp_free freed (s\<lparr>pdcp_coll := t\<rparr>)) (\<lambda>s1. Inr (rc, s1)))"

definition coll_remove :: "u64 \<Rightarrow> pdcp_layer \<Rightarrow> (hashtable_rc \<times> pdcp_layer) res" where
  "coll_remove k s =
     bindE (hashtable_remove (pdcp_coll s) k) (\<lambda>(rc, t, freed).
     bindE (foldE pdcp_free freed (s\<lparr>pdcp_coll := t\<rparr>)) (\<lambda>s1. Inr (rc, s1)))"

definition no_mbms :: "nat \<times> nat \<times> nat \<Rightarrow> pdcp_mbms" where
  "no_mbms i = \<lparr>instanciated_instance = False, mbms_rb_id = 0\<rparr>"

text \<open>
  The array of the identities at the UE side is not set, it is zero at the start as all globals; neither are the
  entities and keys that an earlier table has held.
\<close>

definition pdcp_layer_init :: "u64 \<Rightarrow> pdcp_layer \<Rightarrow> pdcp_layer" where
  "pdcp_layer_init garbage s =
     s\<lparr>pdcp_sdu_list := [], pdcp_coll := Some (hashtable_create ((unat maxDRB + 2) * 16) None garbage),
       mbms_array_ue := no_mbms, eNB_UE_instance_to_rnti := replicate NUMBER_OF_UE_MAX NOT_A_RNTI,
       eNB_UE_instance_to_rnti_index := 0, mbms_array_eNB := no_mbms\<rparr>"

text \<open>The state of the globals at the start of the program.\<close>

definition layer_start :: pdcp_layer where
  "layer_start = \<lparr>pdcp_coll = None, entities = \<lambda>_. None, key_blocks = \<lambda>_. None, next_block = 0, mbms_array_ue = no_mbms,
     mbms_array_eNB = no_mbms, eNB_UE_instance_to_rnti = replicate NUMBER_OF_UE_MAX 0,
     eNB_UE_instance_to_rnti_index = 0, UE_UE_module_id_to_rnti = replicate NUMBER_OF_UE_MAX 0, pdcp_sdu_list = []\<rparr>"

section \<open>Data\<close>

datatype pdcp_transmission_mode =
  PDCP_TRANSMISSION_MODE_UNKNOWN | PDCP_TRANSMISSION_MODE_CONTROL | PDCP_TRANSMISSION_MODE_DATA
  | PDCP_TRANSMISSION_MODE_TRANSPARENT

text \<open>What the layer hands to its neighbours.\<close>

datatype pdcp_output =
    Rlc_data_req bool bool u16 u32 u32 int "u8 list"
      \<comment> \<open>signalling, MBMS, bearer, identifier, confirmation, size and block\<close>
  | Rrc_data_ind u16 int "u8 list"
      \<comment> \<open>bearer, size and SDU\<close>
  | Gtpv1u_tunnel_data_req u16 u16 int "u8 list"
      \<comment> \<open>identity of the UE, access bearer, size and SDU\<close>

definition RLC_OP_STATUS_OK :: int where "RLC_OP_STATUS_OK = 1"

text \<open>The code that the RLC returns is an argument. An SDU that is too long makes the code end the program.\<close>

definition pdcp_data_req ::
  "crypto \<Rightarrow> int \<Rightarrow> protocol_ctxt \<Rightarrow> bool \<Rightarrow> u16 \<Rightarrow> u32 \<Rightarrow> u32 \<Rightarrow> u8 list \<Rightarrow> u8 list \<Rightarrow> pdcp_transmission_mode \<Rightarrow> pdcp_layer \<Rightarrow>
   (bool \<times> protocol_ctxt \<times> pdcp_output list \<times> pdcp_layer) res" where
  "pdcp_data_req cr rlc_status ctxt srb rb mui confirm sdu slack mode s =
     (let transparent = (mode = PDCP_TRANSMISSION_MODE_TRANSPARENT); sz = int (length sdu) in
      if sz = 0 then Inr (False, ctxt, [], s)
      else if sz > MAX_IP_PACKET_SIZE then Inl Abort
      else if (if transparent then rb \<ge> NB_RB_MBMS_MAX else if srb then rb \<ge> 3 else rb \<ge> maxDRB)
      then Inr (False, ctxt, [], s)
      else
        bindE (coll_get (bearer_key ctxt (uint rb) srb) s) (\<lambda>(h_rc, d).
        if h_rc \<noteq> HASH_TABLE_OK \<and> \<not> transparent then Inr (False, ctxt\<lparr>configured := False\<rparr>, [], s)
        else
          let ctxt1 = (if h_rc = HASH_TABLE_OK then ctxt\<lparr>configured := True\<rparr> else ctxt) in
          if transparent
          then Inr (rlc_status = RLC_OP_STATUS_OK, ctxt1, [Rlc_data_req srb True rb mui confirm sz (sdu @ slack)], s)
          else
            bindE (entity_at d s) (\<lambda>p.
            bindE (pdcp_make_pdu cr (key_blocks s) p srb (mode = PDCP_TRANSMISSION_MODE_DATA) rb sdu slack) (\<lambda>(p1, made).
            let s1 = put_entity (the d) p1 s in
            case made of
              None \<Rightarrow> Inr (False, ctxt1, [], s1)
            | Some block \<Rightarrow>
                Inr (rlc_status = RLC_OP_STATUS_OK, ctxt1,
                     [Rlc_data_req srb False rb mui confirm (sz + (if srb then 5 else 2)) block], s1)))))"

text \<open>The SDU behind a header: the code reads it from the block whatever the size says.\<close>

definition sdu_of :: "int \<Rightarrow> nat \<Rightarrow> u8 list \<Rightarrow> u8 list res" where
  "sdu_of sz offset block =
     (if sz < int offset \<or> int (length block) < sz then Inl OutOfBounds else Inr (take (nat (sz - int offset)) (drop offset block)))"

text \<open>
  An SDU goes to GTP-U at the eNodeB and to the list at the UE; for the list the code follows the pointer to the
  entity, which is null for MBMS.
\<close>

definition pass_on ::
  "protocol_ctxt \<Rightarrow> bool \<Rightarrow> u16 \<Rightarrow> int \<Rightarrow> nat \<Rightarrow> u16 \<Rightarrow> u8 list \<Rightarrow> nat option \<Rightarrow> pdcp_layer \<Rightarrow>
   (bool \<times> pdcp_output list \<times> pdcp_layer) res" where
  "pass_on ctxt srb rb_id sz offset sn block d s =
     (if enb_flag ctxt \<and> \<not> srb
      then bindE (sdu_of sz offset block) (\<lambda>sdu.
             Inr (True, [Gtpv1u_tunnel_data_req (rnti ctxt) (rb_id + 4) (sz - int offset) sdu], s))
      else
        bindE (upd_entity (\<lambda>p. if rlc_mode p = RLC_MODE_AM then p\<lparr>last_submitted_pdcp_rx_sn := sn\<rparr> else p) d s) (\<lambda>s1.
        bindE (sdu_of sz offset block) (\<lambda>sdu.
        let header_rb = (if enb_flag ctxt then rb_id + ucast (module_id ctxt) * maxDRB else rb_id);
            inst = (if enb_flag ctxt then 0 else 1) in
        Inr (True, [], s1\<lparr>pdcp_sdu_list := pdcp_sdu_list s1 @
          [\<lparr>sdu_rb_id = header_rb, sdu_data_size = sz - int offset, sdu_inst = inst, sdu_bytes = sdu\<rparr>]\<rparr>))))"

definition pdcp_data_ind ::
  "crypto \<Rightarrow> bool \<Rightarrow> protocol_ctxt \<Rightarrow> bool \<Rightarrow> bool \<Rightarrow> u16 \<Rightarrow> int \<Rightarrow> u8 list \<Rightarrow> pdcp_layer \<Rightarrow>
   (bool \<times> pdcp_output list \<times> pdcp_layer) res" where
  "pdcp_data_ind cr otg_enabled ctxt srb mbms rb sz block s =
     (if mbms then
        if rb \<ge> NB_RB_MBMS_MAX then Inr (False, [], s)
        else if sz = 0 then Inr (False, [], s)
        else if otg_enabled then Inr (True, [], s)
        else pass_on ctxt srb rb sz 0 0 block None s
      else
        let rb_id = rb mod maxDRB in
        if rb_id = 0 then Inr (False, [], s)
        else
          bindE (coll_get (bearer_key ctxt (uint rb_id) srb) s) (\<lambda>(h_rc, d).
          if h_rc \<noteq> HASH_TABLE_OK then Inr (False, [], s)
          else if sz = 0 then Inr (False, [], s)
          else
            bindE (entity_at d s) (\<lambda>p.
            bindE (pdcp_open_pdu cr (key_blocks s) p srb rb sz block) (\<lambda>(p1, opened).
            let s1 = put_entity (the d) p1 s in
            case opened of
              None \<Rightarrow> Inr (False, [], s1)
            | Some (header_len, sn, block1) \<Rightarrow>
                if srb then
                  if int (length block1) < sz then Inl OutOfBounds
                  else Inr (True, [Rrc_data_ind rb_id (sz - int header_len - 4) (pdcp_payload True sz header_len block1)], s1)
                else if otg_enabled then Inr (True, [], s1)
                else pass_on ctxt srb rb_id sz header_len sn block1 d s1))))"

end
