(* ===== verification/PdcpConfig.thy ===== *)
theory PdcpConfig
  imports PdcpLayer
begin

text \<open>
  How the RRC configures the PDCP layer: adding, changing and removing the entities of bearers, setting their
  security, and removing a UE.
\<close>

section \<open>One entity\<close>

datatype config_action =
  CONFIG_ACTION_NULL | CONFIG_ACTION_ADD | CONFIG_ACTION_REMOVE | CONFIG_ACTION_MODIFY
  | CONFIG_ACTION_SET_SECURITY_MODE | CONFIG_ACTION_MBMS_ADD | CONFIG_ACTION_MBMS_MODIFY

text \<open>What comes with every configuration: the algorithms and the pointers to the keys.\<close>

record security_config =
  security_mode :: u8
  key_RRCenc :: "nat option"
  key_RRCint :: "nat option"
  key_UPenc :: "nat option"

definition pdcp_config_set_security :: "security_config \<Rightarrow> pdcp \<Rightarrow> pdcp" where
  "pdcp_config_set_security sec p =
     (if security_mode sec \<le> 0x77
      then p\<lparr>cipheringAlgorithm := and (security_mode sec) 0x0f, integrityProtAlgorithm := and (drop_bit 4 (security_mode sec)) 0xf,
             kRRCenc := key_RRCenc sec, kRRCint := key_RRCint sec, kUPenc := key_UPenc sec, security_activated := 1\<rparr>
      else p)"

definition len12bits :: u8 where "len12bits = 1"

text \<open>The size of the numbers for a value of the enumeration of ASN.1, or anything else.\<close>

definition sn_bits :: "u8 \<Rightarrow> u8" where
  "sn_bits rb_sn = (if rb_sn = len12bits then 12 else if rb_sn = len7bits then 7 else 5)"

text \<open>What one call configures, with the widths of its arguments.\<close>

record bearer_config =
  is_signalling :: bool
  new_rlc_mode :: rlc_mode
  lc_id :: u16
  mch_id :: u16
  rb_id :: u16
  rb_sn :: u8
  rb_report :: u8
  new_profile :: u16

definition added :: "protocol_ctxt \<Rightarrow> bearer_config \<Rightarrow> pdcp \<Rightarrow> pdcp" where
  "added ctxt b p = p\<lparr>is_ue := \<not> enb_flag ctxt, is_srb := is_signalling b, pdcp_lcid := ucast (lc_id b), pdcp_rb_id := rb_id b,
     header_compression_profile := new_profile b, status_report := rb_report b, seq_num_size := sn_bits (rb_sn b),
     rlc_mode := new_rlc_mode b, next_pdcp_tx_sn := 0, next_pdcp_rx_sn := 0, next_pdcp_rx_sn_before_integrity := 0,
     tx_hfn := 0, rx_hfn := 0, last_submitted_pdcp_rx_sn := 4095, first_missing_pdu := - 1, rx_hfn_offset := 0\<rparr>"

text \<open>The array that remembers the identity of the UE.\<close>

definition remember_rnti :: "protocol_ctxt \<Rightarrow> pdcp_layer \<Rightarrow> pdcp_layer res" where
  "remember_rnti ctxt s =
     (if enb_flag ctxt
      then bindE (aset (eNB_UE_instance_to_rnti s) (int (eNB_UE_instance_to_rnti_index s)) (rnti ctxt)) (\<lambda>xs.
             Inr (s\<lparr>eNB_UE_instance_to_rnti := xs\<rparr>))
      else bindE (aset (UE_UE_module_id_to_rnti s) (uint (module_id ctxt)) (rnti ctxt)) (\<lambda>xs.
             Inr (s\<lparr>UE_UE_module_id_to_rnti := xs\<rparr>)))"

text \<open>An entry of the arrays of MBMS sessions: instance, service and session have to be within the array.\<close>

definition mbms_index :: "protocol_ctxt \<Rightarrow> int \<Rightarrow> int \<Rightarrow> (nat \<times> nat \<times> nat) res" where
  "mbms_index ctxt mch lc =
     (if unat (module_id ctxt) < (if enb_flag ctxt then NUMBER_OF_eNB_MAX else NUMBER_OF_UE_MAX) \<and>
         0 \<le> mch \<and> mch < int maxServiceCount \<and> 0 \<le> lc \<and> lc < int maxSessionPerPMCH
      then Inr (unat (module_id ctxt), nat mch, nat lc) else Inl OutOfBounds)"

definition set_mbms :: "protocol_ctxt \<Rightarrow> bearer_config \<Rightarrow> pdcp_layer \<Rightarrow> pdcp_layer res" where
  "set_mbms ctxt b s =
     bindE (mbms_index ctxt (uint (mch_id b)) (uint (lc_id b))) (\<lambda>i.
     let session = \<lparr>instanciated_instance = True, mbms_rb_id = rb_id b\<rparr> in
     Inr (if enb_flag ctxt then s\<lparr>mbms_array_eNB := (mbms_array_eNB s)(i := session)\<rparr>
          else s\<lparr>mbms_array_ue := (mbms_array_ue s)(i := session)\<rparr>))"

definition maybe_security :: "security_config \<Rightarrow> pdcp \<Rightarrow> pdcp" where
  "maybe_security sec p = (if security_mode sec \<noteq> 0xff then pdcp_config_set_security sec p else p)"

definition pdcp_config_req_asn1 ::
  "protocol_ctxt \<Rightarrow> nat option \<Rightarrow> config_action \<Rightarrow> bearer_config \<Rightarrow> security_config \<Rightarrow> pdcp_layer \<Rightarrow> pdcp_layer res" where
  "pdcp_config_req_asn1 ctxt d action b sec s =
     (case action of
        CONFIG_ACTION_ADD \<Rightarrow>
          if d = None then Inl Abort
          else bindE (remember_rnti ctxt s) (upd_entity (maybe_security sec \<circ> added ctxt b) d)
      | CONFIG_ACTION_MODIFY \<Rightarrow>
          if d = None then Inl Abort
          else upd_entity (\<lambda>p. (maybe_security sec (p\<lparr>header_compression_profile := new_profile b, status_report := rb_report b,
                 rlc_mode := new_rlc_mode b\<rparr>))\<lparr>seq_num_size := sn_bits (rb_sn b)\<rparr>) d s
      | CONFIG_ACTION_REMOVE \<Rightarrow>
          if d = None then Inl Abort
          else bindE (entity_at d s) (\<lambda>p. bindE (free_keys p s) (upd_entity (\<lambda>_. zero_pdcp) d))
      | CONFIG_ACTION_MBMS_ADD \<Rightarrow> set_mbms ctxt b s
      | CONFIG_ACTION_MBMS_MODIFY \<Rightarrow> set_mbms ctxt b s
      | CONFIG_ACTION_SET_SECURITY_MODE \<Rightarrow>
          if d = None then Inl Abort else upd_entity (pdcp_config_set_security sec) d s
      | CONFIG_ACTION_NULL \<Rightarrow> Inl Abort)"

section \<open>A request of the RRC\<close>

text \<open>
  The lists of the request, with what the code reads of them. A pointer that may be null is an option. The
  configuration of the RLC counts for a signalling bearer only by its presence.
\<close>

datatype srb_rlc_config =
  SRB_rlc_NOTHING | SRB_rlc_explicit_NOTHING | SRB_rlc_explicitValue | SRB_rlc_defaultValue | SRB_rlc_unknown

type_synonym srb_to_add_mod = "int \<times> srb_rlc_config option"

text \<open>For \<open>rohc\<close>, the profiles that are set.\<close>

datatype header_compression = HC_NOTHING | HC_notUsed | HC_rohc "u16 list" | HC_unknown

record pdcp_asn1_config =
  rlc_AM :: "u8 option"
  rlc_UM :: "int option"
  headerCompression :: header_compression

record drb_to_add_mod =
  drb_Identity :: int
  logicalChannelIdentity :: "int option"
  pdcp_Config :: "pdcp_asn1_config option"

text \<open>The session identity and the identity of the service of an MBMS session.\<close>

type_synonym mbms_session = "u8 list option \<times> u8 list"

record config_req =
  srb2add_list :: "srb_to_add_mod list option"
  drb2add_list :: "drb_to_add_mod list option"
  drb2release_list :: "int list option"
  pmch_InfoList :: "mbms_session list list option"
  defaultDRB :: "u16 option"

text \<open>The variables of the code that live on from one bearer to the next.\<close>

record config_locals =
  cur_lc_id :: int
  cur_srb_id :: int
  cur_rlc_type :: rlc_mode
  cur_drb_sn :: u8
  cur_drb_report :: u8
  cur_profile :: u16
  cur_pdcp :: "nat option"

definition locals_start :: config_locals where
  "locals_start = \<lparr>cur_lc_id = 0, cur_srb_id = 0, cur_rlc_type = RLC_MODE_NONE, cur_drb_sn = 12, cur_drb_report = 0,
     cur_profile = 0, cur_pdcp = None\<rparr>"

type_synonym config_state = "config_locals \<times> pdcp_layer"

text \<open>A loop that may return from the function; the first component is whether it has.\<close>

fun each :: "('x \<Rightarrow> 's \<Rightarrow> (bool \<times> 's) res) \<Rightarrow> 'x list \<Rightarrow> 's \<Rightarrow> (bool \<times> 's) res" where
  "each f [] s = Inr (False, s)"
| "each f (x # xs) s = bindE (f x s) (\<lambda>(stop, s1). if stop then Inr (True, s1) else each f xs s1)"

definition config_srb ::
  "protocol_ctxt \<Rightarrow> security_config \<Rightarrow> srb_to_add_mod \<Rightarrow> config_state \<Rightarrow> (bool \<times> config_state) res" where
  "config_srb ctxt sec x st =
     (let (l, s) = st; (srb, rlc) = x;
          l1 = l\<lparr>cur_srb_id := srb, cur_rlc_type := RLC_MODE_AM, cur_lc_id := srb\<rparr>;
          k = bearer_key ctxt srb True;
          b = \<lparr>is_signalling = True, new_rlc_mode = RLC_MODE_AM, lc_id = of_int srb, mch_id = 0, rb_id = of_int srb,
               rb_sn = 5, rb_report = 0, new_profile = 0\<rparr>;
          configure = (\<lambda>action d s.
            case rlc of
              None \<Rightarrow> Inr (False, l1\<lparr>cur_pdcp := d\<rparr>, s)
            | Some SRB_rlc_NOTHING \<Rightarrow> Inr (False, l1\<lparr>cur_pdcp := d\<rparr>, s)
            | Some SRB_rlc_explicit_NOTHING \<Rightarrow> Inr (False, l1\<lparr>cur_pdcp := d\<rparr>, s)
            | Some SRB_rlc_unknown \<Rightarrow> Inl Abort
            | Some _ \<Rightarrow> bindE (pdcp_config_req_asn1 ctxt d action b sec s) (\<lambda>s1. Inr (False, l1\<lparr>cur_pdcp := d\<rparr>, s1))) in
      bindE (coll_get k s) (\<lambda>(h_rc, d).
      if h_rc = HASH_TABLE_OK then configure CONFIG_ACTION_MODIFY d s
      else
        let (a, s1) = new_entity s in
        bindE (coll_insert k (Some a) s1) (\<lambda>(h_rc, s2).
        if h_rc \<noteq> HASH_TABLE_OK
        then bindE (free_entity a s2) (\<lambda>s3. Inr (True, l1\<lparr>cur_pdcp := Some a\<rparr>, s3))
        else configure CONFIG_ACTION_ADD (Some a) s2)))"

text \<open>The first of the profiles that the code knows, in its order.\<close>

definition rohc_profile :: "u16 list \<Rightarrow> u16" where
  "rohc_profile ps =
     (case List.find (\<lambda>p. p \<in> set ps) [0x0001, 0x0002, 0x0003, 0x0004, 0x0006, 0x0101, 0x0102, 0x0103, 0x0104] of
        Some p \<Rightarrow> p | None \<Rightarrow> 0)"

text \<open>What the configuration of a data bearer leaves in the variables.\<close>

definition read_pdcp_config :: "pdcp_asn1_config \<Rightarrow> config_locals \<Rightarrow> config_locals" where
  "read_pdcp_config c l =
     (let l1 = (case rlc_AM c of
                  None \<Rightarrow> l
                | Some report \<Rightarrow> l\<lparr>cur_drb_report := report, cur_drb_sn := len12bits, cur_rlc_type := RLC_MODE_AM\<rparr>);
          l2 = (case rlc_UM c of
                  None \<Rightarrow> l1
                | Some sn_size \<Rightarrow> l1\<lparr>cur_drb_sn := of_int sn_size, cur_rlc_type := RLC_MODE_UM\<rparr>) in
      case headerCompression c of
        HC_NOTHING \<Rightarrow> l2\<lparr>cur_profile := 0\<rparr>
      | HC_notUsed \<Rightarrow> l2\<lparr>cur_profile := 0\<rparr>
      | HC_rohc ps \<Rightarrow> l2\<lparr>cur_profile := rohc_profile ps\<rparr>
      | HC_unknown \<Rightarrow> l2)"

text \<open>
  A message that is logged shows the entity, and so follows the pointer. When an entity cannot be put in the table
  it is freed, also when it has been put there under the other key.
\<close>

definition config_drb ::
  "protocol_ctxt \<Rightarrow> security_config \<Rightarrow> u16 option \<Rightarrow> drb_to_add_mod \<Rightarrow> config_state \<Rightarrow> (bool \<times> config_state) res" where
  "config_drb ctxt sec default_drb x st =
     (let (l, s) = st; drb = drb_Identity x;
          configure = (\<lambda>l1 action d s.
            case pdcp_Config x of
              None \<Rightarrow> Inr (False, l1\<lparr>cur_pdcp := d\<rparr>, s)
            | Some c \<Rightarrow>
                let l2 = (read_pdcp_config c l1)\<lparr>cur_pdcp := d\<rparr>;
                    b = \<lparr>is_signalling = False, new_rlc_mode = cur_rlc_type l2, lc_id = of_int (cur_lc_id l2), mch_id = 0,
                         rb_id = of_int drb, rb_sn = cur_drb_sn l2, rb_report = cur_drb_report l2, new_profile = cur_profile l2\<rparr> in
                bindE (pdcp_config_req_asn1 ctxt d action b sec s) (\<lambda>s1. Inr (False, l2, s1))) in
      case logicalChannelIdentity x of
        None \<Rightarrow> bindE (entity_at (cur_pdcp l) s) (\<lambda>_. Inr (False, l, s))
      | Some lc \<Rightarrow>
          let l1 = l\<lparr>cur_lc_id := lc\<rparr> in
          if lc = 1 \<or> lc = 2 then Inr (False, l1, s)
          else if drb \<ge> uint maxDRB then Inl Abort
          else
            let k = bearer_key ctxt drb False in
            bindE (coll_get k s) (\<lambda>(h_rc, d).
            if h_rc = HASH_TABLE_OK then configure l1 CONFIG_ACTION_MODIFY d s
            else
              let (a, s1) = new_entity s in
              bindE (coll_insert k (Some a) s1) (\<lambda>(h_rc, s2).
              bindE (case default_drb of
                       None \<Rightarrow> Inr (HASH_TABLE_OK, s2)
                     | Some dd \<Rightarrow> if uint dd = drb then coll_insert (default_key ctxt) (Some a) s2 else Inr (HASH_TABLE_OK, s2))
                (\<lambda>(default_rc, s3).
              if default_rc \<noteq> HASH_TABLE_OK \<or> h_rc \<noteq> HASH_TABLE_OK
              then bindE (free_entity a s3) (\<lambda>s4. Inr (True, l1\<lparr>cur_pdcp := Some a\<rparr>, s4))
              else configure l1 CONFIG_ACTION_ADD (Some a) s3))))"

text \<open>The entity that is released is looked up with the identity of a signalling bearer.\<close>

definition release_drb ::
  "protocol_ctxt \<Rightarrow> security_config \<Rightarrow> u16 option \<Rightarrow> int \<Rightarrow> config_state \<Rightarrow> config_state res" where
  "release_drb ctxt sec default_drb drb st =
     (let (l, s) = st; k = bearer_key ctxt (cur_srb_id l) False in
      bindE (coll_get k s) (\<lambda>(h_rc, d).
      if h_rc \<noteq> HASH_TABLE_OK then Inr (l\<lparr>cur_pdcp := d\<rparr>, s)
      else
        bindE (entity_at d s) (\<lambda>p.
        let l1 = l\<lparr>cur_pdcp := d, cur_lc_id := uint (pdcp_lcid p)\<rparr>;
            b = \<lparr>is_signalling = False, new_rlc_mode = cur_rlc_type l1, lc_id = of_int (cur_lc_id l1), mch_id = 0,
                 rb_id = of_int drb, rb_sn = 0, rb_report = 0, new_profile = 0\<rparr> in
        bindE (pdcp_config_req_asn1 ctxt d CONFIG_ACTION_REMOVE b sec s) (\<lambda>s1.
        bindE (coll_remove k s1) (\<lambda>(_, s2).
        if default_drb \<noteq> None \<and> uint (the default_drb) = drb
        then bindE (coll_get (default_key ctxt) s2) (\<lambda>(rc, d2).
             if rc = HASH_TABLE_OK
             then bindE (coll_remove (default_key ctxt) s2) (\<lambda>(_, s3). Inr (l1\<lparr>cur_pdcp := d2\<rparr>, s3))
             else Inr (l1\<lparr>cur_pdcp := d2\<rparr>, s2))
        else Inr (l1, s2))))))"

definition config_mbms :: "protocol_ctxt \<Rightarrow> mbms_session \<Rightarrow> pdcp_layer \<Rightarrow> pdcp_layer res" where
  "config_mbms ctxt x s =
     (case fst x of
        None \<Rightarrow> Inl NullDeref
      | Some session \<Rightarrow>
          bindE (aget session 0) (\<lambda>lc. bindE (aget (snd x) 2) (\<lambda>mch.
          bindE (mbms_index ctxt (uint mch) (uint lc)) (\<lambda>i.
          let known = instanciated_instance ((if enb_flag ctxt then mbms_array_eNB s else mbms_array_ue s) i);
              drb = uint mch * int maxSessionPerPMCH + uint lc;
              b = \<lparr>is_signalling = False, new_rlc_mode = RLC_MODE_NONE, lc_id = ucast lc, mch_id = ucast mch, rb_id = of_int drb,
                   rb_sn = 0, rb_report = 0, new_profile = 0\<rparr> in
          pdcp_config_req_asn1 ctxt None (if known then CONFIG_ACTION_MBMS_MODIFY else CONFIG_ACTION_MBMS_ADD) b
            \<lparr>security_mode = 0, key_RRCenc = None, key_RRCint = None, key_UPenc = None\<rparr> s))))"

definition list_of :: "'x list option \<Rightarrow> 'x list" where
  "list_of xs = (case xs of None \<Rightarrow> [] | Some ys \<Rightarrow> ys)"

text \<open>The result is true when the function has given up.\<close>

definition rrc_pdcp_config_asn1_req ::
  "protocol_ctxt \<Rightarrow> config_req \<Rightarrow> security_config \<Rightarrow> pdcp_layer \<Rightarrow> (bool \<times> pdcp_layer) res" where
  "rrc_pdcp_config_asn1_req ctxt req sec s =
     bindE (each (config_srb ctxt sec) (list_of (srb2add_list req)) (locals_start, s)) (\<lambda>(stop1, st1).
     if stop1 then Inr (True, snd st1)
     else bindE (each (config_drb ctxt sec (defaultDRB req)) (list_of (drb2add_list req)) st1) (\<lambda>(stop2, st2).
     if stop2 then Inr (True, snd st2)
     else bindE (foldE (release_drb ctxt sec (defaultDRB req)) (list_of (drb2release_list req)) st2) (\<lambda>(_, s3).
     bindE (foldE (config_mbms ctxt) (concat (list_of (pmch_InfoList req))) s3) (\<lambda>s4.
     Inr (False, s4)))))"

section \<open>The other requests\<close>

definition reset_numbers :: "pdcp \<Rightarrow> pdcp" where
  "reset_numbers p = p\<lparr>next_pdcp_tx_sn := 0, next_pdcp_rx_sn := 0, tx_hfn := 0, rx_hfn := 0, last_submitted_pdcp_rx_sn := 4095\<rparr>"

definition configured_entity :: "protocol_ctxt \<Rightarrow> bool \<Rightarrow> u16 \<Rightarrow> pdcp \<Rightarrow> pdcp" where
  "configured_entity ctxt srb rb p =
     (reset_numbers (p\<lparr>is_srb := srb, pdcp_rb_id := rb, is_ue := \<not> enb_flag ctxt\<rparr>))
       \<lparr>seq_num_size := (if rb < DTCH then 5 else 12), first_missing_pdu := - 1\<rparr>"

definition rrc_pdcp_config_req ::
  "protocol_ctxt \<Rightarrow> bool \<Rightarrow> config_action \<Rightarrow> u16 \<Rightarrow> u8 \<Rightarrow> pdcp_layer \<Rightarrow> pdcp_layer res" where
  "rrc_pdcp_config_req ctxt srb action rb mode s =
     (let k = bearer_key ctxt (uint rb) srb in
      bindE (coll_get k s) (\<lambda>(h_rc, d).
      if h_rc = HASH_TABLE_OK then
        case action of
          CONFIG_ACTION_ADD \<Rightarrow> upd_entity (configured_entity ctxt srb rb) d s
        | CONFIG_ACTION_MODIFY \<Rightarrow> Inr s
        | CONFIG_ACTION_REMOVE \<Rightarrow>
            bindE (upd_entity (\<lambda>p. (reset_numbers p)\<lparr>seq_num_size := 0, first_missing_pdu := - 1, security_activated := 0\<rparr>) d s)
              (\<lambda>s1. bindE (coll_remove k s1) (\<lambda>(_, s2). Inr s2))
        | CONFIG_ACTION_SET_SECURITY_MODE \<Rightarrow>
            if mode \<le> 0x77
            then upd_entity (\<lambda>p. p\<lparr>cipheringAlgorithm := and mode 0x0f, integrityProtAlgorithm := and (drop_bit 4 mode) 0xf\<rparr>) d s
            else bindE (entity_at d s) (\<lambda>_. Inr s)
        | _ \<Rightarrow> Inl Abort
      else
        case action of
          CONFIG_ACTION_ADD \<Rightarrow>
            let (a, s1) = new_entity s in
            bindE (coll_insert k (Some a) s1) (\<lambda>(h_rc, s2).
            if h_rc \<noteq> HASH_TABLE_OK then free_entity a s2 else upd_entity (configured_entity ctxt srb rb) (Some a) s2)
        | _ \<Rightarrow> Inr s))"

definition pdcp_remove_UE :: "protocol_ctxt \<Rightarrow> pdcp_layer \<Rightarrow> pdcp_layer res" where
  "pdcp_remove_UE ctxt s =
     bindE (foldE (\<lambda>srb s. bindE (coll_remove (bearer_key ctxt srb True) s) (\<lambda>(_, s1). Inr s1)) [0, 1] s)
       (foldE (\<lambda>drb s. bindE (coll_remove (bearer_key ctxt drb False) s) (\<lambda>(_, s1). Inr s1)) [0..uint maxDRB - 1])"

end
