(* ===== verification/PdcpBearers.thy ===== *)
theory PdcpBearers
  imports PdcpConfig
begin

text \<open>
  The layer as a map from keys to the entities of bearers, and the requests of the RRC as operations on this map.
\<close>

section \<open>What a layer holds\<close>

text \<open>
  The table is well-formed, its pointers point to entities that are alive, and no two keys to the same entity; the
  next block is not in use.
\<close>

definition coll_map :: "pdcp_layer \<Rightarrow> u64 \<rightharpoonup> nat option" where
  "coll_map s = (case pdcp_coll s of None \<Rightarrow> Map.empty | Some h \<Rightarrow> ht_map h)"

definition arrays_ok :: "pdcp_layer \<Rightarrow> bool" where
  "arrays_ok s \<longleftrightarrow> length (eNB_UE_instance_to_rnti s) = NUMBER_OF_UE_MAX \<and> eNB_UE_instance_to_rnti_index s < NUMBER_OF_UE_MAX \<and>
     length (UE_UE_module_id_to_rnti s) = NUMBER_OF_UE_MAX"

definition layer_ok :: "pdcp_layer \<Rightarrow> bool" where
  "layer_ok s \<longleftrightarrow> (\<exists>h. pdcp_coll s = Some h \<and> ht_ok h) \<and>
     (\<forall>k d. coll_map s k = Some d \<longrightarrow> d \<in> Some ` dom (entities s)) \<and>
     (\<forall>k k' d. coll_map s k = Some d \<and> coll_map s k' = Some d \<longrightarrow> k = k') \<and>
     (\<forall>a. entities s a \<noteq> None \<longrightarrow> a < next_block s) \<and> arrays_ok s"

definition bearers :: "pdcp_layer \<Rightarrow> u64 \<rightharpoonup> pdcp" where
  "bearers s k = (case coll_map s k of Some (Some a) \<Rightarrow> entities s a | _ \<Rightarrow> None)"

lemma layer_okI:
  assumes "pdcp_coll s = Some h" "ht_ok h"
    and "\<And>k d. coll_map s k = Some d \<Longrightarrow> \<exists>a p. d = Some a \<and> entities s a = Some p"
    and "\<And>k k' d. coll_map s k = Some d \<Longrightarrow> coll_map s k' = Some d \<Longrightarrow> k = k'"
    and "\<And>a p. entities s a = Some p \<Longrightarrow> a < next_block s"
    and "arrays_ok s"
  shows "layer_ok s"
proof -
  have "d \<in> Some ` dom (entities s)" if "coll_map s k = Some d" for k d
  proof -
    from assms(3) [OF that] obtain a p where "d = Some a" "entities s a = Some p" by blast
    then show ?thesis by (auto intro: image_eqI)
  qed
  with assms(1,2,4-6) show ?thesis unfolding layer_ok_def by blast
qed

lemma layer_okD:
  assumes "layer_ok s"
  shows "\<exists>h. pdcp_coll s = Some h \<and> ht_ok h"
    and "coll_map s k = Some d \<Longrightarrow> \<exists>a p. d = Some a \<and> entities s a = Some p"
    and "coll_map s k = Some d \<Longrightarrow> coll_map s k' = Some d \<Longrightarrow> k = k'"
    and "entities s a = Some p \<Longrightarrow> a < next_block s" and "arrays_ok s"
  using assms unfolding layer_ok_def by blast+

lemma layer_init_ok:
  assumes "\<And>a. entities s a \<noteq> None \<Longrightarrow> a < next_block s" "length (UE_UE_module_id_to_rnti s) = NUMBER_OF_UE_MAX"
  shows "layer_ok (pdcp_layer_init g s)" and "bearers (pdcp_layer_init g s) = Map.empty"
proof -
  have pos: "0 < (unat maxDRB + 2) * 16" by simp
  have empty: "coll_map (pdcp_layer_init g s) = Map.empty"
    using hashtable_create_map [OF pos, of None g] by (simp add: coll_map_def pdcp_layer_init_def)
  show "layer_ok (pdcp_layer_init g s)"
    using hashtable_create_ok [OF pos, of None g] assms
    by (intro layer_okI) (auto simp: empty, auto simp: pdcp_layer_init_def arrays_ok_def NUMBER_OF_UE_MAX_def)
  show "bearers (pdcp_layer_init g s) = Map.empty" by (simp add: bearers_def empty fun_eq_iff)
qed

lemma coll_get_ok:
  assumes "layer_ok s"
  shows "(bearers s k = None \<and> coll_map s k = None \<and> coll_get k s = Inr (HASH_TABLE_KEY_NOT_EXISTS, None)) \<or>
    (\<exists>a p. bearers s k = Some p \<and> coll_map s k = Some (Some a) \<and> entities s a = Some p \<and> coll_get k s = Inr (HASH_TABLE_OK, Some a))"
proof -
  from layer_okD(1) [OF assms] obtain h where h: "pdcp_coll s = Some h" "ht_ok h" by blast
  show ?thesis
  proof (cases "coll_map s k")
    case None
    with h show ?thesis by (simp add: coll_get_def hashtable_ops bearers_def coll_map_def)
  next
    case (Some d)
    from layer_okD(2) [OF assms this] obtain a p where "d = Some a" "entities s a = Some p" by blast
    with Some h show ?thesis by (simp add: coll_get_def hashtable_ops bearers_def coll_map_def)
  qed
qed

lemma coll_get_cases:
  assumes "layer_ok s"
  obtains "bearers s k = None" "coll_map s k = None" "coll_get k s = Inr (HASH_TABLE_KEY_NOT_EXISTS, None)"
    | a p where "bearers s k = Some p" "coll_map s k = Some (Some a)" "entities s a = Some p" "coll_get k s = Inr (HASH_TABLE_OK, Some a)"
  using coll_get_ok [OF assms] by metis

text \<open>Changing an entity that the table holds.\<close>

lemma put_entity_ok:
  assumes "layer_ok s" "coll_map s k = Some (Some a)"
  shows "layer_ok (put_entity a p s)" "bearers (put_entity a p s) = (bearers s)(k \<mapsto> p)"
    "key_blocks (put_entity a p s) = key_blocks s"
proof -
  note D = layer_okD [OF assms(1)]
  have other: "k' \<noteq> k \<Longrightarrow> coll_map s k' \<noteq> Some (Some a)" for k' using D(3) assms(2) by blast
  obtain q where alive: "entities s a = Some q" using D(2) [OF assms(2)] by auto
  have same: "coll_map (put_entity a p s) = coll_map s" by (simp add: coll_map_def put_entity_def)
  obtain h where h: "pdcp_coll s = Some h" "ht_ok h" using D(1) by blast
  show "layer_ok (put_entity a p s)"
  proof (rule layer_okI, unfold same)
    show "pdcp_coll (put_entity a p s) = Some h" "ht_ok h" using h by (simp_all add: put_entity_def)
    show "\<exists>a' p'. d = Some a' \<and> entities (put_entity a p s) a' = Some p'" if "coll_map s k' = Some d" for k' d
      using D(2) [OF that] by (auto simp: put_entity_def)
    show "k1 = k2" if "coll_map s k1 = Some d" "coll_map s k2 = Some d" for k1 k2 d using D(3) that by blast
    show "a' < next_block (put_entity a p s)" if "entities (put_entity a p s) a' = Some p'" for a' p'
      using that D(4) alive by (auto simp: put_entity_def split: if_splits)
    show "arrays_ok (put_entity a p s)" using D(5) by (simp add: arrays_ok_def put_entity_def)
  qed
  have "entities (put_entity a p s) = (entities s)(a \<mapsto> p)" by (simp add: put_entity_def)
  then show "bearers (put_entity a p s) = (bearers s)(k \<mapsto> p)"
    using assms(2) other unfolding bearers_def same by (intro ext) (auto split: option.splits)
qed (simp add: put_entity_def)

lemma upd_entity_ok:
  assumes "layer_ok s" "coll_map s k = Some (Some a)" "entities s a = Some p"
  shows "upd_entity f (Some a) s = Inr (put_entity a (f p) s)"
  using assms(3) by (simp add: upd_entity_def entity_at_def)

text \<open>A new entity under a key that is not in use.\<close>

lemma add_entity_ok:
  assumes ok: "layer_ok s" and none: "bearers s k = None" and new: "new_entity s = (a, s1)"
  shows "\<exists>s2. coll_insert k (Some a) s1 = Inr (HASH_TABLE_OK, s2) \<and> layer_ok s2 \<and> bearers s2 = (bearers s)(k \<mapsto> zero_pdcp) \<and>
    coll_map s2 k = Some (Some a) \<and> entities s2 a = Some zero_pdcp \<and> s2 = s1\<lparr>pdcp_coll := pdcp_coll s2\<rparr>"
proof -
  from layer_okD(1) [OF ok] obtain h where h: "pdcp_coll s = Some h" "ht_ok h" by blast
  have k: "coll_map s k = None" using coll_get_ok [OF ok, of k] none by auto
  have s1: "s1 = (put_entity a zero_pdcp s)\<lparr>next_block := next_block s + 1\<rparr>" "a = next_block s"
    using new by (auto simp: new_entity_def)
  note D = layer_okD [OF ok]
  have fresh: "entities s a = None" using D(4) [of a] s1(2) by (cases "entities s a") auto
  let ?s2 = "s1\<lparr>pdcp_coll := Some (ht_put k (Some a) h)\<rparr>"
  have map: "coll_map s = ht_map h" "coll_map ?s2 = (coll_map s)(k \<mapsto> Some a)"
    using h(1) table.stored_put [OF h(2)] by (simp_all add: coll_map_def)
  have "coll_insert k (Some a) s1 = Inr (HASH_TABLE_OK, ?s2)"
    using h k by (simp add: coll_insert_def s1(1) put_entity_def hashtable_ops coll_map_def)
  moreover have other: "coll_map s k' \<noteq> Some (Some a)" for k' using D(2) [of k' "Some a"] fresh by auto
  have "layer_ok ?s2"
  proof (rule layer_okI, unfold map(2))
    show "pdcp_coll ?s2 = Some (ht_put k (Some a) h)" "ht_ok (ht_put k (Some a) h)" using table.inv_put [OF h(2)] by simp_all
    show "\<exists>a p. d = Some a \<and> entities ?s2 a = Some p" if "((coll_map s)(k \<mapsto> Some a)) k' = Some d" for k' d
      using that D(2) [of k' d] by (auto simp: s1(1) put_entity_def split: if_splits)
    show "k1 = k2" if "((coll_map s)(k \<mapsto> Some a)) k1 = Some d" "((coll_map s)(k \<mapsto> Some a)) k2 = Some d" for k1 k2 d
      using that D(3) [of k1 d k2] other by (auto split: if_splits)
    show "a' < next_block ?s2" if "entities ?s2 a' = Some p" for a' p
      using that D(4) [of a' p] by (auto simp: s1 put_entity_def split: if_splits)
    show "arrays_ok ?s2" using D(5) by (simp add: arrays_ok_def s1(1) put_entity_def)
  qed
  moreover have "bearers ?s2 = (bearers s)(k \<mapsto> zero_pdcp)"
  proof -
    have "entities ?s2 = (entities s)(a \<mapsto> zero_pdcp)" by (simp add: s1(1) put_entity_def)
    then show ?thesis using other unfolding bearers_def map(2) by (auto split: option.splits)
  qed
  moreover have "coll_map ?s2 k = Some (Some a)" unfolding map(2) by simp
  moreover have "entities ?s2 a = Some zero_pdcp" by (simp add: s1(1) put_entity_def)
  ultimately show ?thesis by (intro exI [of _ ?s2]) simp
qed

section \<open>Configuration\<close>

text \<open>Instances of UEs have to be within the arrays.\<close>

definition ctxt_ok :: "protocol_ctxt \<Rightarrow> bool" where
  "ctxt_ok ctxt \<longleftrightarrow> enb_flag ctxt \<or> unat (module_id ctxt) < NUMBER_OF_UE_MAX"

definition configures :: "srb_rlc_config option \<Rightarrow> bool" where
  "configures rlc \<longleftrightarrow> rlc = Some SRB_rlc_explicitValue \<or> rlc = Some SRB_rlc_defaultValue"

text \<open>What becomes of an entity, or of none.\<close>

definition spec_entity :: "protocol_ctxt \<Rightarrow> security_config \<Rightarrow> bearer_config \<Rightarrow> pdcp option \<Rightarrow> pdcp" where
  "spec_entity ctxt sec b old =
     (case old of
        None \<Rightarrow> maybe_security sec (added ctxt b zero_pdcp)
      | Some p \<Rightarrow> (maybe_security sec (p\<lparr>header_compression_profile := new_profile b, status_report := rb_report b,
          rlc_mode := new_rlc_mode b\<rparr>))\<lparr>seq_num_size := sn_bits (rb_sn b)\<rparr>)"

definition existing :: "pdcp option \<Rightarrow> pdcp" where
  "existing old = (case old of None \<Rightarrow> zero_pdcp | Some p \<Rightarrow> p)"

definition srb_config :: "int \<Rightarrow> bearer_config" where
  "srb_config srb = \<lparr>is_signalling = True, new_rlc_mode = RLC_MODE_AM, lc_id = of_int srb, mch_id = 0, rb_id = of_int srb,
     rb_sn = 5, rb_report = 0, new_profile = 0\<rparr>"

definition drb_config :: "int \<Rightarrow> config_locals \<Rightarrow> bearer_config" where
  "drb_config drb l = \<lparr>is_signalling = False, new_rlc_mode = cur_rlc_type l, lc_id = of_int (cur_lc_id l), mch_id = 0,
     rb_id = of_int drb, rb_sn = cur_drb_sn l, rb_report = cur_drb_report l, new_profile = cur_profile l\<rparr>"

type_synonym bearer_map = "u64 \<Rightarrow> pdcp option"

text \<open>The requests on the bearers of a layer as a map, with the variables that live on.\<close>

definition spec_srb ::
  "protocol_ctxt \<Rightarrow> security_config \<Rightarrow> srb_to_add_mod \<Rightarrow> config_locals \<times> bearer_map \<Rightarrow> config_locals \<times> bearer_map" where
  "spec_srb ctxt sec x st =
     (let (l, m) = st; k = bearer_key ctxt (fst x) True in
      (l\<lparr>cur_srb_id := fst x, cur_rlc_type := RLC_MODE_AM, cur_lc_id := fst x\<rparr>,
       m(k \<mapsto> if configures (snd x) then spec_entity ctxt sec (srb_config (fst x)) (m k) else existing (m k))))"

definition unchanged :: "pdcp_layer \<Rightarrow> pdcp_layer \<Rightarrow> bool" where
  "unchanged s s' \<longleftrightarrow> key_blocks s' = key_blocks s \<and> pdcp_sdu_list s' = pdcp_sdu_list s"

lemma unchanged_trans: "unchanged s t \<Longrightarrow> unchanged t u \<Longrightarrow> unchanged s u"
  by (simp add: unchanged_def)

lemma remember_rnti_ok:
  assumes "layer_ok s" "ctxt_ok ctxt"
  shows "\<exists>s1. remember_rnti ctxt s = Inr s1 \<and> layer_ok s1 \<and> bearers s1 = bearers s \<and> coll_map s1 = coll_map s \<and>
    entities s1 = entities s \<and> unchanged s s1"
proof -
  note D = layer_okD [OF assms(1)]
  have "\<exists>s1. remember_rnti ctxt s = Inr s1 \<and> pdcp_coll s1 = pdcp_coll s \<and> entities s1 = entities s \<and> next_block s1 = next_block s \<and>
    arrays_ok s1 \<and> unchanged s s1"
  proof (cases "enb_flag ctxt")
    case True
    then show ?thesis using D(5) by (simp add: remember_rnti_def arrays_ok_def aset_def in_range_def unchanged_def)
  next
    case False
    then have "in_range (UE_UE_module_id_to_rnti s) (uint (module_id ctxt))"
      using D(5) assms(2) by (simp only: ctxt_ok_def arrays_ok_def in_range_def uint_nat of_nat_less_iff of_nat_0_le_iff simp_thms)
    with False D(5) show ?thesis by (simp add: remember_rnti_def arrays_ok_def aset_def unchanged_def)
  qed
  then obtain s1 where s1: "remember_rnti ctxt s = Inr s1" "pdcp_coll s1 = pdcp_coll s" "entities s1 = entities s"
    "next_block s1 = next_block s" "arrays_ok s1" "unchanged s s1" by blast
  have "coll_map s1 = coll_map s" by (simp add: coll_map_def s1(2))
  moreover have "layer_ok s1"
    using assms(1) unfolding layer_ok_def s1(2-4) calculation by (elim conjE) (intro conjI s1(5), assumption+)
  moreover have "bearers s1 = bearers s" unfolding bearers_def calculation(1) s1(3) ..
  ultimately show ?thesis using s1 by blast
qed

text \<open>Configuring an entity of the table.\<close>

lemma config_req_ok:
  assumes ok: "layer_ok s" "ctxt_ok ctxt" and at: "coll_map s k = Some (Some a)" "entities s a = Some p"
    and action: "(action, old) = (CONFIG_ACTION_ADD, None) \<and> p = zero_pdcp \<or> (action, old) = (CONFIG_ACTION_MODIFY, Some p)"
  shows "\<exists>s1. pdcp_config_req_asn1 ctxt (Some a) action b sec s = Inr s1 \<and> layer_ok s1 \<and>
    bearers s1 = (bearers s)(k \<mapsto> spec_entity ctxt sec b old) \<and> unchanged s s1"
  using action
proof
  assume add: "(action, old) = (CONFIG_ACTION_ADD, None) \<and> p = zero_pdcp"
  from remember_rnti_ok [OF ok] obtain s1 where s1: "remember_rnti ctxt s = Inr s1" "layer_ok s1" "bearers s1 = bearers s"
    "coll_map s1 = coll_map s" "entities s1 = entities s" "unchanged s s1" by blast
  have at1: "coll_map s1 k = Some (Some a)" "entities s1 a = Some p" using at by (simp_all add: s1(4,5))
  show ?thesis
    using add s1(1,3,6) upd_entity_ok [OF s1(2) at1] put_entity_ok [OF s1(2) at1(1)]
    by (auto simp: pdcp_config_req_asn1_def spec_entity_def unchanged_def put_entity_def)
next
  assume "(action, old) = (CONFIG_ACTION_MODIFY, Some p)"
  then show ?thesis
    using upd_entity_ok [OF ok(1) at] put_entity_ok [OF ok(1) at(1)]
    by (auto simp: pdcp_config_req_asn1_def spec_entity_def unchanged_def put_entity_def)
qed

text \<open>The pointer among the variables does not matter.\<close>

definition norm :: "config_locals \<Rightarrow> config_locals" where
  "norm l = l\<lparr>cur_pdcp := None\<rparr>"

lemma norm_simps [simp]:
  "norm (l\<lparr>cur_pdcp := d\<rparr>) = norm l" "norm (norm l) = norm l" "drb_config drb (norm l) = drb_config drb l"
  "norm l\<lparr>cur_lc_id := lc\<rparr> = norm (l\<lparr>cur_lc_id := lc\<rparr>)" "drb_config drb (l\<lparr>cur_pdcp := d\<rparr>) = drb_config drb l"
  by (simp_all add: norm_def drb_config_def)

lemma norm_read [simp]: "read_pdcp_config c (norm l) = norm (read_pdcp_config c l)"
  by (auto simp: read_pdcp_config_def norm_def Let_def split: option.splits header_compression.splits)

text \<open>The entity that a request works on: the one of the table, or a new one.\<close>

lemma find_or_add:
  assumes ok: "layer_ok s"
  obtains (found) a p where "coll_get k s = Inr (HASH_TABLE_OK, Some a)" "coll_map s k = Some (Some a)" "entities s a = Some p"
      "bearers s k = Some p"
    | (new) a s1 s2 where "coll_get k s = Inr (HASH_TABLE_KEY_NOT_EXISTS, None)" "new_entity s = (a, s1)"
      "coll_insert k (Some a) s1 = Inr (HASH_TABLE_OK, s2)" "layer_ok s2" "coll_map s2 k = Some (Some a)"
      "entities s2 a = Some zero_pdcp" "bearers s k = None" "bearers s2 = (bearers s)(k \<mapsto> zero_pdcp)" "unchanged s s2"
proof (cases rule: coll_get_cases [OF ok, of k])
  case 1
  obtain a s1 where new: "new_entity s = (a, s1)" by fastforce
  from add_entity_ok [OF ok 1(1) new] obtain s2 where s2: "coll_insert k (Some a) s1 = Inr (HASH_TABLE_OK, s2)" "layer_ok s2"
    "bearers s2 = (bearers s)(k \<mapsto> zero_pdcp)" "coll_map s2 k = Some (Some a)" "entities s2 a = Some zero_pdcp"
    "s2 = s1\<lparr>pdcp_coll := pdcp_coll s2\<rparr>" by blast
  have "unchanged s s2" using new by (subst s2(6)) (auto simp: new_entity_def put_entity_def unchanged_def)
  with 1 new s2 show thesis by (intro that(2)) auto
next
  case (2 a p)
  then show thesis by (intro that(1)) auto
qed

lemma config_srb_ok:
  assumes ok: "layer_ok s" "ctxt_ok ctxt" and rlc: "rlc \<noteq> Some SRB_rlc_unknown"
  shows "\<exists>l1 s1. config_srb ctxt sec (srb, rlc) (l, s) = Inr (False, l1, s1) \<and> layer_ok s1 \<and>
    (norm l1, bearers s1) = spec_srb ctxt sec (srb, rlc) (norm l, bearers s) \<and> unchanged s s1"
proof (cases rule: find_or_add [OF ok(1), of "bearer_key ctxt srb True", case_names found new])
  case (found a p)
  let ?l = "l\<lparr>cur_srb_id := srb, cur_rlc_type := RLC_MODE_AM, cur_lc_id := srb, cur_pdcp := Some a\<rparr>"
  from config_req_ok [OF ok found(2,3), of CONFIG_ACTION_MODIFY "Some p" "srb_config srb" sec] obtain s1 where
    "pdcp_config_req_asn1 ctxt (Some a) CONFIG_ACTION_MODIFY (srb_config srb) sec s = Inr s1" "layer_ok s1"
    "bearers s1 = (bearers s)(bearer_key ctxt srb True \<mapsto> spec_entity ctxt sec (srb_config srb) (Some p))" "unchanged s s1" by auto
  moreover have "(bearers s)(bearer_key ctxt srb True \<mapsto> p) = bearers s" using found(4) by auto
  ultimately show ?thesis using found rlc ok(1)
    by (cases "configures rlc"; intro exI [of _ ?l] exI [of _ "if configures rlc then s1 else s"])
      (auto simp: config_srb_def spec_srb_def configures_def existing_def srb_config_def unchanged_def norm_def Let_def
        split: option.splits srb_rlc_config.splits)
next
  case (new a s1 s2)
  let ?l = "l\<lparr>cur_srb_id := srb, cur_rlc_type := RLC_MODE_AM, cur_lc_id := srb, cur_pdcp := Some a\<rparr>"
  from config_req_ok [OF new(4) ok(2) new(5,6), of CONFIG_ACTION_ADD None "srb_config srb" sec] obtain s3 where
    "pdcp_config_req_asn1 ctxt (Some a) CONFIG_ACTION_ADD (srb_config srb) sec s2 = Inr s3" "layer_ok s3"
    "bearers s3 = (bearers s2)(bearer_key ctxt srb True \<mapsto> spec_entity ctxt sec (srb_config srb) None)" "unchanged s2 s3" by auto
  then show ?thesis using new rlc
    by (cases "configures rlc"; intro exI [of _ ?l] exI [of _ "if configures rlc then s3 else s2"])
      (auto simp: config_srb_def spec_srb_def configures_def existing_def srb_config_def unchanged_def norm_def Let_def
        split: option.splits srb_rlc_config.splits)
qed

definition spec_drb ::
  "protocol_ctxt \<Rightarrow> security_config \<Rightarrow> drb_to_add_mod \<Rightarrow> config_locals \<times> bearer_map \<Rightarrow> config_locals \<times> bearer_map" where
  "spec_drb ctxt sec x st =
     (let (l, m) = st; k = bearer_key ctxt (drb_Identity x) False; lc = the (logicalChannelIdentity x);
          l1 = l\<lparr>cur_lc_id := lc\<rparr> in
      if lc = 1 \<or> lc = 2 then (l1, m)
      else case pdcp_Config x of
        None \<Rightarrow> (l1, m(k \<mapsto> existing (m k)))
      | Some c \<Rightarrow>
          let l2 = read_pdcp_config c l1 in (l2, m(k \<mapsto> spec_entity ctxt sec (drb_config (drb_Identity x) l2) (m k))))"

definition drb_ok :: "u16 option \<Rightarrow> drb_to_add_mod \<Rightarrow> bool" where
  "drb_ok default_drb x \<longleftrightarrow> logicalChannelIdentity x \<noteq> None \<and> drb_Identity x < uint maxDRB \<and>
     map_option uint default_drb \<noteq> Some (drb_Identity x)"

lemma config_drb_ok:
  assumes ok: "layer_ok s" "ctxt_ok ctxt" and drb: "drb_ok default_drb x"
  shows "\<exists>l1 s1. config_drb ctxt sec default_drb x (l, s) = Inr (False, l1, s1) \<and> layer_ok s1 \<and>
    (norm l1, bearers s1) = spec_drb ctxt sec x (norm l, bearers s) \<and> unchanged s s1"
proof -
  obtain lc where lc: "logicalChannelIdentity x = Some lc" using drb by (auto simp: drb_ok_def)
  let ?drb = "drb_Identity x" and ?k = "bearer_key ctxt (drb_Identity x) False"
  have range: "\<not> ?drb \<ge> uint maxDRB" using drb by (simp add: drb_ok_def)
  have default: "(case default_drb of None \<Rightarrow> Inr (HASH_TABLE_OK, s2)
      | Some dd \<Rightarrow> if uint dd = ?drb then coll_insert (default_key ctxt) (Some a) s2 else Inr (HASH_TABLE_OK, s2)) =
    Inr (HASH_TABLE_OK, s2)" for a s2 using drb by (cases default_drb) (simp_all add: drb_ok_def)
  show ?thesis
  proof (cases "lc = 1 \<or> lc = 2")
    case True
    then show ?thesis using lc ok(1) by (auto simp: config_drb_def spec_drb_def unchanged_def)
  next
    case False
    define l1 where "l1 = l\<lparr>cur_lc_id := lc\<rparr>"
    define l2 where "l2 = (\<lambda>c. read_pdcp_config c l1)"
    have spec: "spec_drb ctxt sec x (norm l, m) = (case pdcp_Config x of
        None \<Rightarrow> (norm l1, m(?k \<mapsto> existing (m ?k)))
      | Some c \<Rightarrow> (norm (l2 c), m(?k \<mapsto> spec_entity ctxt sec (drb_config ?drb (l2 c)) (m ?k))))" for m
      using lc False by (auto simp: spec_drb_def l1_def l2_def Let_def split: option.splits)
    show ?thesis
    proof (cases rule: find_or_add [OF ok(1), of ?k, case_names found new])
      case (found a p)
      have same: "(bearers s)(?k \<mapsto> p) = bearers s" using found(4) by auto
      have run: "config_drb ctxt sec default_drb x (l, s) = (case pdcp_Config x of
          None \<Rightarrow> Inr (False, l1\<lparr>cur_pdcp := Some a\<rparr>, s)
        | Some c \<Rightarrow> bindE (pdcp_config_req_asn1 ctxt (Some a) CONFIG_ACTION_MODIFY (drb_config ?drb (l2 c)) sec s)
            (\<lambda>s1. Inr (False, (l2 c)\<lparr>cur_pdcp := Some a\<rparr>, s1)))"
        using lc False range found(1)
        by (auto simp: config_drb_def l1_def l2_def drb_config_def Let_def split: option.splits)
      show ?thesis
      proof (cases "pdcp_Config x")
        case None
        then show ?thesis using run spec ok(1) found(4) same by (simp add: existing_def unchanged_def)
      next
        case (Some c)
        with config_req_ok [OF ok found(2,3), of CONFIG_ACTION_MODIFY "Some p" "drb_config ?drb (l2 c)" sec] run spec found(4)
        show ?thesis by auto
      qed
    next
      case (new a s1 s2)
      have run: "config_drb ctxt sec default_drb x (l, s) = (case pdcp_Config x of
          None \<Rightarrow> Inr (False, l1\<lparr>cur_pdcp := Some a\<rparr>, s2)
        | Some c \<Rightarrow> bindE (pdcp_config_req_asn1 ctxt (Some a) CONFIG_ACTION_ADD (drb_config ?drb (l2 c)) sec s2)
            (\<lambda>s1. Inr (False, (l2 c)\<lparr>cur_pdcp := Some a\<rparr>, s1)))"
        using lc False range new(1-3) default
        by (auto simp: config_drb_def l1_def l2_def drb_config_def Let_def split: option.splits)
      show ?thesis
      proof (cases "pdcp_Config x")
        case None
        then show ?thesis using run spec new(4,7-9) by (simp add: existing_def)
      next
        case (Some c)
        with config_req_ok [OF new(4) ok(2) new(5,6), of CONFIG_ACTION_ADD None "drb_config ?drb (l2 c)" sec] run spec new(7-9)
        show ?thesis by (auto simp: unchanged_def)
      qed
    qed
  qed
qed

text \<open>A loop over a list of bearers.\<close>

lemma each_refines:
  assumes "layer_ok s" and "\<forall>x \<in> set xs. P x"
    and "\<And>x l s. P x \<Longrightarrow> layer_ok s \<Longrightarrow> \<exists>l1 s1. f x (l, s) = Inr (False, l1, s1) \<and> layer_ok s1 \<and>
      (norm l1, bearers s1) = g x (norm l, bearers s) \<and> unchanged s s1"
  shows "\<exists>l1 s1. each f xs (l, s) = Inr (False, l1, s1) \<and> layer_ok s1 \<and>
    (norm l1, bearers s1) = fold g xs (norm l, bearers s) \<and> unchanged s s1"
  using assms(1,2)
proof (induction xs arbitrary: l s)
  case Nil
  then show ?case by (simp add: unchanged_def)
next
  case (Cons x xs)
  from assms(3) [of x s l] Cons.prems obtain l1 s1 where one: "f x (l, s) = Inr (False, l1, s1)" "layer_ok s1"
    "(norm l1, bearers s1) = g x (norm l, bearers s)" "unchanged s s1" by auto
  from Cons.IH [OF one(2), of l1] Cons.prems(2) obtain l2 s2 where rest: "each f xs (l1, s1) = Inr (False, l2, s2)" "layer_ok s2"
    "(norm l2, bearers s2) = fold g xs (norm l1, bearers s1)" "unchanged s1 s2" by auto
  have "each f (x # xs) (l, s) = Inr (False, l2, s2)" by (simp add: one(1) rest(1))
  moreover have "(norm l2, bearers s2) = fold g (x # xs) (norm l, bearers s)" by (simp add: rest(3) one(3) [symmetric])
  moreover have "unchanged s s2" using unchanged_trans [OF one(4) rest(4)] .
  ultimately show ?case using rest(2) by blast
qed

definition spec_config :: "protocol_ctxt \<Rightarrow> security_config \<Rightarrow> config_req \<Rightarrow> bearer_map \<Rightarrow> bearer_map" where
  "spec_config ctxt sec req m =
     snd (fold (spec_drb ctxt sec) (list_of (drb2add_list req))
       (fold (spec_srb ctxt sec) (list_of (srb2add_list req)) (locals_start, m)))"

definition adds_only :: "config_req \<Rightarrow> bool" where
  "adds_only req \<longleftrightarrow> (\<forall>x \<in> set (list_of (srb2add_list req)). snd x \<noteq> Some SRB_rlc_unknown) \<and>
     (\<forall>x \<in> set (list_of (drb2add_list req)). drb_ok (defaultDRB req) x) \<and>
     list_of (drb2release_list req) = [] \<and> list_of (pmch_InfoList req) = []"

text \<open>The two loops, with the variables that they leave behind.\<close>

lemma config_loops:
  assumes "layer_ok s" "ctxt_ok ctxt" "adds_only req"
  shows "\<exists>l1 s1 l2 s2. each (config_srb ctxt sec) (list_of (srb2add_list req)) (locals_start, s) = Inr (False, l1, s1) \<and>
    each (config_drb ctxt sec (defaultDRB req)) (list_of (drb2add_list req)) (l1, s1) = Inr (False, l2, s2) \<and>
    layer_ok s2 \<and> unchanged s s2 \<and> (norm l2, bearers s2) =
      fold (spec_drb ctxt sec) (list_of (drb2add_list req))
        (fold (spec_srb ctxt sec) (list_of (srb2add_list req)) (locals_start, bearers s))"
proof -
  have start: "norm locals_start = locals_start" by (simp add: norm_def locals_start_def)
  have "\<forall>x \<in> set (list_of (srb2add_list req)). snd x \<noteq> Some SRB_rlc_unknown" using assms(3) by (simp add: adds_only_def)
  from each_refines [OF assms(1) this, of "config_srb ctxt sec" "spec_srb ctxt sec" locals_start] obtain l1 s1 where
    srb: "each (config_srb ctxt sec) (list_of (srb2add_list req)) (locals_start, s) = Inr (False, l1, s1)" "layer_ok s1"
    "(norm l1, bearers s1) = fold (spec_srb ctxt sec) (list_of (srb2add_list req)) (locals_start, bearers s)" "unchanged s s1"
    using config_srb_ok [OF _ assms(2)] by (fastforce simp: start)
  have "\<forall>x \<in> set (list_of (drb2add_list req)). drb_ok (defaultDRB req) x" using assms(3) by (simp add: adds_only_def)
  from each_refines [OF srb(2) this, of "config_drb ctxt sec (defaultDRB req)" "spec_drb ctxt sec" l1] obtain l2 s2 where
    drb: "each (config_drb ctxt sec (defaultDRB req)) (list_of (drb2add_list req)) (l1, s1) = Inr (False, l2, s2)" "layer_ok s2"
    "(norm l2, bearers s2) = fold (spec_drb ctxt sec) (list_of (drb2add_list req)) (norm l1, bearers s1)" "unchanged s1 s2"
    using config_drb_ok [OF _ assms(2)] by blast
  from srb(1) drb(1,2,3) unchanged_trans [OF srb(4) drb(4)] show ?thesis unfolding srb(3) [symmetric] by blast
qed

lemma config_adds:
  assumes "layer_ok s" "ctxt_ok ctxt" "adds_only req"
  shows "\<exists>s1. rrc_pdcp_config_asn1_req ctxt req sec s = Inr (False, s1) \<and> layer_ok s1 \<and>
    bearers s1 = spec_config ctxt sec req (bearers s) \<and> key_blocks s1 = key_blocks s \<and> pdcp_sdu_list s1 = pdcp_sdu_list s"
proof -
  from config_loops [OF assms, of sec] obtain l1 s1 l2 s2 where
    run: "each (config_srb ctxt sec) (list_of (srb2add_list req)) (locals_start, s) = Inr (False, l1, s1)"
    "each (config_drb ctxt sec (defaultDRB req)) (list_of (drb2add_list req)) (l1, s1) = Inr (False, l2, s2)"
    "layer_ok s2" "unchanged s s2" "(norm l2, bearers s2) = fold (spec_drb ctxt sec) (list_of (drb2add_list req))
        (fold (spec_srb ctxt sec) (list_of (srb2add_list req)) (locals_start, bearers s))" by blast
  have "bearers s2 = spec_config ctxt sec req (bearers s)" unfolding spec_config_def run(5) [symmetric] by simp
  with run(1-4) assms(3) show ?thesis
    by (auto simp: rrc_pdcp_config_asn1_req_def adds_only_def unchanged_def)
qed

text \<open>C12.
  A request of the RRC that adds or changes bearers is an operation on the map of bearers: in the order of its
  lists every signalling bearer gets 5 bits and AM, every data bearer what its own configuration says and, where
  it says nothing, what the bearer before it has left in the variables. New entities start with fresh numbers and
  without security when the request carries none (\<open>0xff\<close>); those that exist keep their numbers. Nothing else
  changes, and the table stays well-formed.
\<close>

theorem pdcp_config_refines:
  assumes "layer_ok s" "ctxt_ok ctxt" "adds_only req"
  shows "\<exists>s1. rrc_pdcp_config_asn1_req ctxt req sec s = Inr (False, s1) \<and> layer_ok s1 \<and>
    bearers s1 = spec_config ctxt sec req (bearers s) \<and> key_blocks s1 = key_blocks s \<and> pdcp_sdu_list s1 = pdcp_sdu_list s"
  by (rule config_adds [OF assms])

section \<open>Keys\<close>

lemma key_fields:
  fixes m :: u8 and r :: u16 and rb :: u64 and enb srb :: bool
  assumes "rb < 256"
  defines "k \<equiv> PDCP_COLL_KEY_VALUE m r enb rb srb"
  shows "ucast k = m" "ucast (drop_bit 8 k) = r" "bit k 24 = enb" "ucast (drop_bit 25 k) = (ucast rb :: u8)" "bit k 33 = srb"
    "bit k 34"
  using key_layout [OF assms(1), of m r enb srb "0x55"] by (simp_all only: k_def PDCP_COLL_KEY_VALUE_def) simp

lemma default_key_field: "\<not> bit (PDCP_COLL_KEY_DEFAULT_DRB_VALUE m r enb) 34"
proof -
  define tag rb where "tag = (0xaa :: u64)" and "rb = (0xff :: u64)"
  have k: "PDCP_COLL_KEY_DEFAULT_DRB_VALUE m r enb = or (or (or (or (or (ucast m) (push_bit 8 (ucast r)))
     (push_bit 24 (if enb then 1 else 0))) (push_bit 25 rb)) (push_bit 33 0)) (push_bit 34 tag)"
    by (simp only: PDCP_COLL_KEY_DEFAULT_DRB_VALUE_def tag_def rb_def)
  have "rb = mask 8" by (simp add: rb_def mask_eq_exp_minus_1)
  then have "\<not> bit rb 9" "\<not> bit tag 0" by (simp_all add: tag_def bit_mask_iff)
  then show ?thesis by (auto simp: k bit_simps dest: bit_imp_le_length)
qed

lemma bearer_keys:
  assumes "0 \<le> rb" "rb < 256" "0 \<le> rb'" "rb' < 256"
  shows "(bearer_key c rb srb = bearer_key c' rb' srb' \<longleftrightarrow>
      module_id c = module_id c' \<and> rnti c = rnti c' \<and> enb_flag c = enb_flag c' \<and> rb = rb' \<and> srb = srb') \<and>
    bearer_key c rb srb \<noteq> default_key c'"
proof
  have small: "(of_int x :: u64) < 256" "uint (ucast (of_int x :: u64) :: u8) = x" if "0 \<le> x" "x < 256" for x
    using that by (simp_all add: word_less_alt unsigned_ucast_eq take_bit_eq_mod uint_word_of_int)
  let ?k = "bearer_key c rb srb" and ?k' = "bearer_key c' rb' srb'"
  note f = key_fields [where m = "module_id c" and r = "rnti c" and enb = "enb_flag c" and srb = srb, OF small(1) [OF assms(1,2)],
      folded bearer_key_def]
    and f' = key_fields [where m = "module_id c'" and r = "rnti c'" and enb = "enb_flag c'" and srb = srb', OF small(1) [OF assms(3,4)],
      folded bearer_key_def]
  show "bearer_key c rb srb = bearer_key c' rb' srb' \<longleftrightarrow>
      module_id c = module_id c' \<and> rnti c = rnti c' \<and> enb_flag c = enb_flag c' \<and> rb = rb' \<and> srb = srb'"
  proof
    assume eq: "?k = ?k'"
    have "rb = rb'" using f(4) f'(4) small(2) [OF assms(1,2)] small(2) [OF assms(3,4)] unfolding eq by metis
    with f(1-3,5) f'(1-3,5) eq
    show "module_id c = module_id c' \<and> rnti c = rnti c' \<and> enb_flag c = enb_flag c' \<and> rb = rb' \<and> srb = srb'" by metis
  qed (simp add: bearer_key_def)
  show "bearer_key c rb srb \<noteq> default_key c'"
    using f(6) default_key_field unfolding default_key_def by metis
qed

text \<open>
  The bearers of a node do not share keys of the table, and none of them has the key of a default bearer: for
  identities of bearers below 256 the key determines the instance, the UE, the side and the bearer.
\<close>

theorem pdcp_keys_distinct:
  assumes "0 \<le> rb" "rb < 256" "0 \<le> rb'" "rb' < 256"
  shows "(bearer_key c rb srb = bearer_key c' rb' srb' \<longleftrightarrow>
      module_id c = module_id c' \<and> rnti c = rnti c' \<and> enb_flag c = enb_flag c' \<and> rb = rb' \<and> srb = srb') \<and>
    bearer_key c rb srb \<noteq> default_key c'"
  by (rule bearer_keys [OF assms])

definition enb_ctxt :: protocol_ctxt where
  "enb_ctxt = \<lparr>module_id = 0, enb_flag = True, rnti = 0x1234, configured = True\<rparr>"

lemma pdcp_keys_distinct_witness: "bearer_key enb_ctxt 1 True \<noteq> bearer_key enb_ctxt 1 False \<and> bearer_key enb_ctxt 1 False \<noteq> default_key enb_ctxt"
  using pdcp_keys_distinct [of 1 1 enb_ctxt True enb_ctxt False] pdcp_keys_distinct [of 1 1 enb_ctxt False enb_ctxt False] by simp

definition um_bearer :: drb_to_add_mod where
  "um_bearer = \<lparr>drb_Identity = 1, logicalChannelIdentity = Some 3,
     pdcp_Config = Some \<lparr>rlc_AM = None, rlc_UM = Some 1, headerCompression = HC_notUsed\<rparr>\<rparr>"

definition add_bearers :: config_req where
  "add_bearers = \<lparr>srb2add_list = Some [(1, Some SRB_rlc_defaultValue)], drb2add_list = Some [um_bearer],
     drb2release_list = None, pmch_InfoList = None, defaultDRB = None\<rparr>"

definition no_security :: security_config where
  "no_security = \<lparr>security_mode = 0xff, key_RRCenc = None, key_RRCint = None, key_UPenc = None\<rparr>"

lemma pdcp_config_refines_witness:
  "\<exists>s1. rrc_pdcp_config_asn1_req enb_ctxt add_bearers no_security (pdcp_layer_init 0 layer_start) = Inr (False, s1) \<and>
    map_option seq_num_size (bearers s1 (bearer_key enb_ctxt 1 True)) = Some 5 \<and>
    map_option seq_num_size (bearers s1 (bearer_key enb_ctxt 1 False)) = Some 12 \<and>
    map_option security_activated (bearers s1 (bearer_key enb_ctxt 1 False)) = Some 0"
proof -
  have start: "layer_ok (pdcp_layer_init 0 layer_start)" "bearers (pdcp_layer_init 0 layer_start) = Map.empty"
    by (rule layer_init_ok; simp add: layer_start_def)+
  have "ctxt_ok enb_ctxt" by (simp add: ctxt_ok_def enb_ctxt_def)
  moreover have "adds_only add_bearers"
    by (simp add: adds_only_def add_bearers_def list_of_def drb_ok_def um_bearer_def maxDRB_def)
  ultimately obtain s1 where "rrc_pdcp_config_asn1_req enb_ctxt add_bearers no_security (pdcp_layer_init 0 layer_start) = Inr (False, s1)"
    "bearers s1 = spec_config enb_ctxt no_security add_bearers Map.empty"
    using pdcp_config_refines [OF start(1), of enb_ctxt add_bearers no_security] start(2) by auto
  moreover have "bearer_key enb_ctxt 1 True \<noteq> bearer_key enb_ctxt 1 False" using bearer_keys [of 1 1 enb_ctxt True enb_ctxt False] by simp
  ultimately show ?thesis
    by (auto simp: spec_config_def add_bearers_def list_of_def spec_srb_def spec_drb_def um_bearer_def configures_def spec_entity_def
        srb_config_def drb_config_def maybe_security_def no_security_def added_def sn_bits_def len12bits_def len7bits_def
        read_pdcp_config_def locals_start_def zero_pdcp_def)
qed

end
