(* ===== verification/PdcpService.thy ===== *)
theory PdcpService
  imports PdcpBearers PdcpTransfer
begin

text \<open>
  What the layer does with data, on the map of its bearers: a call touches the entity of its bearer only, and two
  layers that have configured the same bearer carry the SDUs of one to the layer above the other.
\<close>

section \<open>One SDU, one PDU\<close>

lemma put_unchanged: "unchanged s (put_entity a p s)"
  by (simp add: unchanged_def put_entity_def)

text \<open>A request on a bearer that is configured.\<close>

lemma data_req_ok:
  assumes ok: "layer_ok s" and at: "bearers s (bearer_key ctxt (uint rb) srb) = Some p"
    and sdu: "sdu \<noteq> []" "length sdu \<le> 10000" and rb: "if srb then rb < 3 else rb < maxDRB"
    and mode: "mode \<noteq> PDCP_TRANSMISSION_MODE_TRANSPARENT"
  shows "\<exists>a. coll_map s (bearer_key ctxt (uint rb) srb) = Some (Some a) \<and>
    pdcp_data_req cr status ctxt srb rb mui confirm sdu slack mode s =
      bindE (pdcp_make_pdu cr (key_blocks s) p srb (mode = PDCP_TRANSMISSION_MODE_DATA) rb sdu slack) (\<lambda>(p1, made).
      Inr (case made of
        None \<Rightarrow> (False, ctxt\<lparr>configured := True\<rparr>, [], put_entity a p1 s)
      | Some block \<Rightarrow> (status = RLC_OP_STATUS_OK, ctxt\<lparr>configured := True\<rparr>,
          [Rlc_data_req srb False rb mui confirm (int (pdu_len srb sdu)) block], put_entity a p1 s)))"
proof -
  from coll_get_ok [OF ok, of "bearer_key ctxt (uint rb) srb"] at obtain a where
    a: "coll_map s (bearer_key ctxt (uint rb) srb) = Some (Some a)" "entities s a = Some p"
    "coll_get (bearer_key ctxt (uint rb) srb) s = Inr (HASH_TABLE_OK, Some a)" by auto
  have "int (length sdu) + (if srb then 5 else 2) = int (pdu_len srb sdu)" by (simp add: pdu_len_def)
  moreover have "\<not> (if srb then rb \<ge> 3 else rb \<ge> maxDRB)" using rb by (auto split: if_splits)
  moreover have "\<not> int (length sdu) > MAX_IP_PACKET_SIZE" using sdu(2) by (simp add: MAX_IP_PACKET_SIZE_def)
  ultimately have "pdcp_data_req cr status ctxt srb rb mui confirm sdu slack mode s =
      bindE (pdcp_make_pdu cr (key_blocks s) p srb (mode = PDCP_TRANSMISSION_MODE_DATA) rb sdu slack) (\<lambda>(p1, made).
      Inr (case made of
        None \<Rightarrow> (False, ctxt\<lparr>configured := True\<rparr>, [], put_entity a p1 s)
      | Some block \<Rightarrow> (status = RLC_OP_STATUS_OK, ctxt\<lparr>configured := True\<rparr>,
          [Rlc_data_req srb False rb mui confirm (int (pdu_len srb sdu)) block], put_entity a p1 s)))"
    using sdu(1) mode a unfolding pdcp_data_req_def
    by (auto simp: entity_at_def Let_def bindE_def split: sum.splits option.splits)
  with a(1) show ?thesis by blast
qed

text \<open>What a call leaves alone.\<close>

definition only_bearer :: "u64 \<Rightarrow> pdcp_layer \<Rightarrow> pdcp_layer \<Rightarrow> bool" where
  "only_bearer k s s1 \<longleftrightarrow> layer_ok s1 \<and> key_blocks s1 = key_blocks s \<and> dom (bearers s1) = dom (bearers s) \<and>
     (\<forall>k'. k' \<noteq> k \<longrightarrow> bearers s1 k' = bearers s k')"

lemma only_bearer_refl: "layer_ok s \<Longrightarrow> only_bearer k s s"
  by (simp add: only_bearer_def)

lemma only_bearer_put:
  assumes "layer_ok s" "coll_map s k = Some (Some a)" "entities s a = Some p"
  shows "only_bearer k s (put_entity a p1 s)"
proof -
  have "bearers s k = Some p" using assms(2,3) by (simp add: bearers_def)
  with put_entity_ok [OF assms(1,2), of p1] show ?thesis by (auto simp: only_bearer_def)
qed

lemma only_bearer_trans: "only_bearer k s t \<Longrightarrow> only_bearer k t u \<Longrightarrow> only_bearer k s u"
  by (simp add: only_bearer_def)

lemma sdu_list_same:
  assumes "layer_ok s"
  shows "layer_ok (s\<lparr>pdcp_sdu_list := l\<rparr>)" "bearers (s\<lparr>pdcp_sdu_list := l\<rparr>) = bearers s"
proof -
  have same: "coll_map (s\<lparr>pdcp_sdu_list := l\<rparr>) = coll_map s" by (simp add: coll_map_def)
  show "bearers (s\<lparr>pdcp_sdu_list := l\<rparr>) = bearers s" by (rule ext) (simp add: bearers_def same split: option.splits)
  show "layer_ok (s\<lparr>pdcp_sdu_list := l\<rparr>)" using assms unfolding layer_ok_def same by (simp add: arrays_ok_def)
qed

lemma sdu_list_ok: "layer_ok s \<Longrightarrow> only_bearer k s (s\<lparr>pdcp_sdu_list := l\<rparr>)"
  by (simp add: only_bearer_def sdu_list_same)

lemma pdcp_data_req_only:
  assumes ok: "layer_ok s" and run: "pdcp_data_req cr status ctxt srb rb mui confirm sdu slack mode s = Inr (r, ctxt1, outs, s1)"
  shows "only_bearer (bearer_key ctxt (uint rb) srb) s s1"
proof (cases rule: coll_get_cases [OF ok, of "bearer_key ctxt (uint rb) srb", case_names none some])
  case none
  with run only_bearer_refl [OF ok] show ?thesis
    by (auto simp: pdcp_data_req_def Let_def split: if_splits)
next
  case (some a p)
  with run only_bearer_refl [OF ok] only_bearer_put [OF ok some(2,3)] show ?thesis
    by (auto simp: pdcp_data_req_def entity_at_def bindE_eq_Inr Let_def split: if_splits option.splits)
qed

lemma pass_on_only:
  assumes ok: "layer_ok s" and d: "d = None \<or> (\<exists>a p. d = Some a \<and> coll_map s k = Some (Some a) \<and> entities s a = Some p)"
    and run: "pass_on ctxt srb rb sz off sn block d s = Inr (r, outs, s1)"
  shows "only_bearer k s s1"
proof (cases d)
  case None
  with run only_bearer_refl [OF ok] show ?thesis
    by (auto simp: pass_on_def upd_entity_def entity_at_def bindE_eq_Inr split: if_splits)
next
  case (Some a)
  with d obtain p where a: "coll_map s k = Some (Some a)" "entities s a = Some p" by auto
  have "only_bearer k s ((put_entity a p1 s)\<lparr>pdcp_sdu_list := l\<rparr>)" for p1 l
    using only_bearer_put [OF ok a, of p1] sdu_list_ok [of "put_entity a p1 s"] only_bearer_trans by (auto simp: only_bearer_def)
  with run Some a only_bearer_refl [OF ok] show ?thesis
    by (auto simp: pass_on_def upd_entity_def entity_at_def bindE_eq_Inr Let_def split: if_splits)
qed

lemma pdcp_data_ind_only:
  assumes ok: "layer_ok s" and run: "pdcp_data_ind cr otg ctxt srb mbms rb sz block s = Inr (r, outs, s1)"
  shows "only_bearer (bearer_key ctxt (uint (rb mod maxDRB)) srb) s s1"
proof (cases mbms)
  case True
  with run only_bearer_refl [OF ok] pass_on_only [OF ok, of None] show ?thesis
    by (auto simp: pdcp_data_ind_def split: if_splits)
next
  case False
  let ?k = "bearer_key ctxt (uint (rb mod maxDRB)) srb"
  show ?thesis
  proof (cases rule: coll_get_cases [OF ok, of ?k, case_names none some])
    case none
    with False run only_bearer_refl [OF ok] show ?thesis by (auto simp: pdcp_data_ind_def Let_def split: if_splits)
  next
    case (some a p)
    have put: "only_bearer ?k s (put_entity a p1 s)" for p1 using only_bearer_put [OF ok some(2,3)] .
    have "coll_map (put_entity a p1 s) ?k = Some (Some a)" "entities (put_entity a p1 s) a = Some p1" for p1
      using some(2) by (simp_all add: coll_map_def put_entity_def)
    then have "only_bearer ?k (put_entity a p1 s) s2"
      if "pass_on ctxt srb (rb mod maxDRB) sz off sn block1 (Some a) (put_entity a p1 s) = Inr (r, outs, s2)" for p1 off sn block1 r outs s2
      using pass_on_only [OF _ _ that, of ?k] put by (auto simp: only_bearer_def)
    note pass = this
    show ?thesis
    proof (cases "rb mod maxDRB = 0 \<or> sz = 0")
      case True
      with False some run only_bearer_refl [OF ok] show ?thesis by (auto simp: pdcp_data_ind_def Let_def split: if_splits)
    next
      case nonzero: False
      with False some run obtain p1 opened where "pdcp_open_pdu cr (key_blocks s) p srb rb sz block = Inr (p1, opened)"
        and rest: "(case opened of None \<Rightarrow> Inr (False, [], put_entity a p1 s)
          | Some (header_len, sn, block1) \<Rightarrow>
              if srb then
                if int (length block1) < sz then Inl OutOfBounds
                else Inr (True, [Rrc_data_ind (rb mod maxDRB) (sz - int header_len - 4) (pdcp_payload True sz header_len block1)],
                  put_entity a p1 s)
              else if otg then Inr (True, [], put_entity a p1 s)
              else pass_on ctxt srb (rb mod maxDRB) sz header_len sn block1 (Some a) (put_entity a p1 s)) = Inr (r, outs, s1)"
        by (auto simp: pdcp_data_ind_def entity_at_def Let_def elim!: bindE_eq_InrE cong: if_cong option.case_cong)
      show ?thesis
      proof (cases opened)
        case None
        with rest put show ?thesis by auto
      next
        case (Some x)
        obtain h sn b where "x = (h, sn, b)" by (cases x) auto
        with Some rest put [of p1] pass [of h sn b p1 r outs s1] only_bearer_trans show ?thesis by (auto split: if_splits)
      qed
    qed
  qed
qed

section \<open>Two layers\<close>

text \<open>
  SDUs that the eNodeB sends over a bearer of a UE. The RLC takes every PDU; of some it delivers nothing, and the
  others in a block that ends as it may.
\<close>

fun downlink ::
  "crypto \<Rightarrow> protocol_ctxt \<Rightarrow> protocol_ctxt \<Rightarrow> u16 \<Rightarrow> packet list \<Rightarrow> pdcp_layer \<Rightarrow> pdcp_layer \<Rightarrow> (pdcp_layer \<times> pdcp_layer) res" where
  "downlink cr ctxt ctxt' rb [] s t = Inr (s, t)"
| "downlink cr ctxt ctxt' rb ((sdu, slack, arrival) # xs) s t =
     bindE (pdcp_data_req cr RLC_OP_STATUS_OK ctxt False rb 0 0 sdu slack PDCP_TRANSMISSION_MODE_DATA s) (\<lambda>(_, _, outs, s1).
     case (outs, arrival) of
       ([Rlc_data_req _ _ _ _ _ sz block], Some rest) \<Rightarrow>
         bindE (pdcp_data_ind cr False ctxt' False False rb sz (take (nat sz) block @ rest) t) (\<lambda>(_, _, t1).
         downlink cr ctxt ctxt' rb xs s1 t1)
     | _ \<Rightarrow> downlink cr ctxt ctxt' rb xs s1 t)"

lemma open_header_12:
  assumes "pdcp_open_pdu cr km q False rb sz block = Inr (q1, Some (h, sn, b))" "seq_num_size q = 12"
  shows "h = 2"
  using assms by (auto simp: pdcp_open_pdu_def pdcp_read_header_def bindE_eq_Inr split: if_splits)

text \<open>A PDU that the UE opens goes to the layer above.\<close>

lemma data_ind_ok:
  assumes ok: "layer_ok t" and at: "bearers t (bearer_key ctxt (uint rb) False) = Some q" and ue: "\<not> enb_flag ctxt"
    and rb: "0 < rb" "rb < maxDRB" and mode: "rlc_mode q1 \<noteq> RLC_MODE_AM" "seq_num_size q = 12"
    and opened: "pdcp_open_pdu cr (key_blocks t) q False rb (int (pdu_len False sdu)) block = Inr (q1, Some (h, sn, b))"
    and payload: "pdcp_payload False (int (pdu_len False sdu)) h b = sdu" and sdu: "sdu \<noteq> []"
  shows "\<exists>t1. pdcp_data_ind cr False ctxt False False rb (int (pdu_len False sdu)) block t = Inr (True, [], t1) \<and>
    layer_ok t1 \<and> bearers t1 = (bearers t)(bearer_key ctxt (uint rb) False \<mapsto> q1) \<and> key_blocks t1 = key_blocks t \<and>
    pdcp_sdu_list t1 = pdcp_sdu_list t @
      [\<lparr>sdu_rb_id = rb, sdu_data_size = int (length sdu), sdu_inst = 1, sdu_bytes = sdu\<rparr>]"
proof -
  let ?k = "bearer_key ctxt (uint rb) False"
  from coll_get_ok [OF ok, of ?k] at obtain a where
    a: "coll_map t ?k = Some (Some a)" "entities t a = Some q" "coll_get ?k t = Inr (HASH_TABLE_OK, Some a)" by auto
  have mod: "rb mod maxDRB = rb" using rb(2) by (simp add: word_unat_eq_iff unat_mod word_less_nat_alt)
  have h: "h = 2" using open_header_12 [OF opened mode(2)] .
  have sz: "pdu_len False sdu = 2 + length sdu" by (simp add: pdu_len_def)
  have taken: "take (length sdu) (drop 2 b) = sdu" using payload unfolding h sz by (simp add: pdcp_payload_def tailer_len_def)
  then have len: "2 + length sdu \<le> length b" using sdu by (metis le_diff_conv2 length_0_conv length_drop length_take min.cobounded1
    min_def nat_le_linear add.commute diff_is_0_eq' le_zero_eq)
  then have of: "sdu_of (int (pdu_len False sdu)) 2 b = Inr sdu" using taken by (simp add: sdu_of_def sz)
  let ?t = "put_entity a q1 t"
  have put: "layer_ok ?t" "bearers ?t = (bearers t)(?k \<mapsto> q1)" "key_blocks ?t = key_blocks t"
    by (rule put_entity_ok [OF ok a(1)])+
  have again: "put_entity a q1 ?t = ?t" "entities ?t a = Some q1" by (simp_all add: put_entity_def)
  let ?t1 = "?t\<lparr>pdcp_sdu_list := pdcp_sdu_list t @
      [\<lparr>sdu_rb_id = rb, sdu_data_size = int (length sdu), sdu_inst = 1, sdu_bytes = sdu\<rparr>]\<rparr>"
  have "pdcp_data_ind cr False ctxt False False rb (int (pdu_len False sdu)) block t = Inr (True, [], ?t1)"
    using a rb(1) mode(1) ue opened sz len taken
    by (simp add: pdcp_data_ind_def mod entity_at_def h pass_on_def upd_entity_def again of put_entity_def sdu_of_def)
  moreover have "bearers ?t1 = bearers ?t" "layer_ok ?t1" using sdu_list_same [OF put(1)] by blast+
  ultimately show ?thesis using put by auto
qed

definition to_ue :: "u16 \<Rightarrow> u8 list \<Rightarrow> pdcp_sdu" where
  "to_ue rb sdu = \<lparr>sdu_rb_id = rb, sdu_data_size = int (length sdu), sdu_inst = 1, sdu_bytes = sdu\<rparr>"

lemma downlink_from:
  assumes cr: "proper_crypto cr" and rb: "0 < rb" "rb < maxDRB" and ue: "\<not> enb_flag ctxt'"
    and "layer_ok s" and "layer_ok t"
    and "bearers s (bearer_key ctxt (uint rb) False) = Some (tx_at N p)"
    and "bearers t (bearer_key ctxt' (uint rb) False) = Some q"
    and "bearer_ends (key_blocks s) p (key_blocks t) q False" and "rx_at R q" and "N = R + g" and "gaps_ok 4096 g xs"
    and "\<forall>x \<in> set xs. packet_ok False p x \<and> fst x \<noteq> []"
  shows "\<exists>s1 t1. downlink cr ctxt ctxt' rb xs s t = Inr (s1, t1) \<and> layer_ok s1 \<and> layer_ok t1 \<and>
    pdcp_sdu_list t1 = pdcp_sdu_list t @ map (to_ue rb) (arrivals xs)"
  using assms(5-13)
proof (induction xs arbitrary: N R g q s t)
  case Nil
  then show ?case by simp
next
  case (Cons x xs)
  obtain sdu slack arrival where x: "x = (sdu, slack, arrival)" by (cases x) auto
  note ok = Cons.prems(1,2) and at = Cons.prems(3,4) and ends = Cons.prems(5)
  from Cons.prems(9) have sdu: "length sdu \<le> 10000" "roomy False p slack" "\<And>rest. arrival = Some rest \<Longrightarrow> roomy False p rest"
    "sdu \<noteq> []" and rest_ok: "\<forall>x \<in> set xs. packet_ok False p x \<and> fst x \<noteq> []"
    by (auto simp: x packet_ok_def)
  have space: "sn_space p = 4096" "seq_num_size q = 12" using ends by (auto simp: bearer_ends_def sn_space_def)
  have "if False then rb < 3 else rb < maxDRB" "PDCP_TRANSMISSION_MODE_DATA \<noteq> PDCP_TRANSMISSION_MODE_TRANSPARENT" using rb(2) by simp_all
  from data_req_ok [OF ok(1) at(1) sdu(4,1) this] obtain a where
    a: "coll_map s (bearer_key ctxt (uint rb) False) = Some (Some a)"
    and req: "pdcp_data_req cr RLC_OP_STATUS_OK ctxt False rb 0 0 sdu slack PDCP_TRANSMISSION_MODE_DATA s =
      bindE (pdcp_make_pdu cr (key_blocks s) (tx_at N p) False (PDCP_TRANSMISSION_MODE_DATA = PDCP_TRANSMISSION_MODE_DATA) rb sdu slack)
        (\<lambda>(p1, made). Inr (case made of
        None \<Rightarrow> (False, ctxt\<lparr>configured := True\<rparr>, [], put_entity a p1 s)
      | Some block \<Rightarrow> (RLC_OP_STATUS_OK = RLC_OP_STATUS_OK, ctxt\<lparr>configured := True\<rparr>,
          [Rlc_data_req False False rb 0 0 (int (pdu_len False sdu)) block], put_entity a p1 s)))"
    by blast
  let ?s = "put_entity a (tx_at (Suc N) p) s"
  have s: "layer_ok ?s" "bearers ?s (bearer_key ctxt (uint rb) False) = Some (tx_at (Suc N) p)" "key_blocks ?s = key_blocks s"
    using put_entity_ok [OF ok(1) a] by simp_all
  show ?case
  proof (cases arrival)
    case None
    from make_alone [OF cr ends rb(2) sdu(1,2)] obtain block where
      "pdcp_make_pdu cr (key_blocks s) (tx_at N p) False True rb sdu slack = Inr (tx_at (Suc N) p, Some block)" by blast
    have "bearer_ends (key_blocks ?s) p (key_blocks t) q False" using ends by (simp only: s(3))
    with Cons.IH [OF s(1) ok(2) s(2) at(2), of R "Suc g"] Cons.prems(6-8) rest_ok None
      \<open>pdcp_make_pdu cr (key_blocks s) (tx_at N p) False True rb sdu slack = Inr (tx_at (Suc N) p, Some block)\<close>
    show ?thesis by (simp add: x req)
  next
    case (Some rest)
    with Cons.prems(7,8) have window: "R \<le> N" "N < R + sn_space p" "gaps_ok 4096 0 xs" by (auto simp: x space)
    from make_and_open [OF cr ends Cons.prems(6) window(1,2) rb(2) sdu(1,2), of True] sdu(3) [OF Some] obtain block q1 h sn b where
      step: "pdcp_make_pdu cr (key_blocks s) (tx_at N p) False True rb sdu slack = Inr (tx_at (Suc N) p, Some block)"
      "pdcp_open_pdu cr (key_blocks t) q False rb (int (pdu_len False sdu)) (take (pdu_len False sdu) block @ rest) =
        Inr (q1, Some (h, sn, b))"
      "pdcp_payload False (int (pdu_len False sdu)) h b = sdu" "rx_at (Suc N) q1" "rx_config q1 = rx_config q" by blast
    have mode: "rlc_mode q1 \<noteq> RLC_MODE_AM" using ends rx_config_simps [OF step(5)] by (simp add: bearer_ends_def)
    from data_ind_ok [OF ok(2) at(2) ue rb mode space(2) step(2,3) sdu(4)] obtain t1 where
      t1: "pdcp_data_ind cr False ctxt' False False rb (int (pdu_len False sdu)) (take (pdu_len False sdu) block @ rest) t = Inr (True, [], t1)"
      "layer_ok t1" "bearers t1 = (bearers t)(bearer_key ctxt' (uint rb) False \<mapsto> q1)" "key_blocks t1 = key_blocks t"
      "pdcp_sdu_list t1 = pdcp_sdu_list t @ [to_ue rb sdu]" by (auto simp: to_ue_def)
    have "bearer_ends (key_blocks ?s) p (key_blocks t1) q1 False" using bearer_ends_cong(2) [OF ends step(5)] by (simp add: s(3) t1(4))
    from Cons.IH [OF s(1) t1(2) s(2) _ this step(4), of 0] window(3) rest_ok show ?thesis
      by (simp add: x Some req step(1) t1(1,3,5))
  qed
qed

section \<open>The properties\<close>

text \<open>C13.
  Data of one bearer does not touch the others: after any request or indication that returns, with any contents,
  the table is well-formed, no bearer has come or gone, the keys are what they were, and only the entity of the
  bearer of the call may have changed.
\<close>

theorem pdcp_data_isolated:
  assumes "layer_ok s"
  shows "(pdcp_data_req cr status ctxt srb rb mui confirm sdu slack mode s = Inr (r, ctxt1, outs, s1) \<longrightarrow>
      only_bearer (bearer_key ctxt (uint rb) srb) s s1) \<and>
    (pdcp_data_ind cr otg ctxt srb mbms rb sz block s = Inr (r', outs', s2) \<longrightarrow>
      only_bearer (bearer_key ctxt (uint (rb mod maxDRB)) srb) s s2)"
  by (intro conjI impI pdcp_data_req_only [OF assms] pdcp_data_ind_only [OF assms])

text \<open>A request for one data bearer in UM with numbers of 12 bits, and what both ends have to agree on.\<close>

definition um_request :: "int \<Rightarrow> int \<Rightarrow> config_req" where
  "um_request drb lc = \<lparr>srb2add_list = None,
     drb2add_list = Some [\<lparr>drb_Identity = drb, logicalChannelIdentity = Some lc,
       pdcp_Config = Some \<lparr>rlc_AM = None, rlc_UM = Some (uint len12bits), headerCompression = HC_notUsed\<rparr>\<rparr>],
     drb2release_list = None, pmch_InfoList = None, defaultDRB = None\<rparr>"

definition same_user_keys :: "key_memory \<Rightarrow> security_config \<Rightarrow> key_memory \<Rightarrow> security_config \<Rightarrow> bool" where
  "same_user_keys km sec km' sec' \<longleftrightarrow> security_mode sec' = security_mode sec \<and>
     (security_mode sec \<le> 0x77 \<longrightarrow>
       key_at km' (key_UPenc sec') 0 = key_at km (key_UPenc sec) 0 \<and> usable_key (key_at km (key_UPenc sec) 0))"

definition user_packet :: "packet \<Rightarrow> bool" where
  "user_packet x \<longleftrightarrow> (case x of (sdu, slack, arrival) \<Rightarrow>
     sdu \<noteq> [] \<and> length sdu \<le> 10000 \<and> 3 \<le> length slack \<and> (\<forall>rest. arrival = Some rest \<longrightarrow> 3 \<le> length rest))"

text \<open>The entity that the request makes.\<close>

definition um_entity :: "protocol_ctxt \<Rightarrow> security_config \<Rightarrow> int \<Rightarrow> int \<Rightarrow> pdcp" where
  "um_entity ctxt sec drb lc = spec_entity ctxt sec (drb_config drb (locals_start\<lparr>cur_lc_id := lc, cur_drb_sn := len12bits,
     cur_rlc_type := RLC_MODE_UM\<rparr>)) None"

lemma um_config:
  assumes "layer_ok s" "ctxt_ok ctxt" "drb < 11" "lc \<noteq> 1" "lc \<noteq> 2" "bearers s (bearer_key ctxt drb False) = None"
  shows "\<exists>s1. rrc_pdcp_config_asn1_req ctxt (um_request drb lc) sec s = Inr (False, s1) \<and> layer_ok s1 \<and>
    bearers s1 (bearer_key ctxt drb False) = Some (um_entity ctxt sec drb lc) \<and> key_blocks s1 = key_blocks s \<and>
    pdcp_sdu_list s1 = pdcp_sdu_list s"
proof -
  have "adds_only (um_request drb lc)"
    using assms(3) by (simp add: adds_only_def um_request_def list_of_def drb_ok_def maxDRB_def)
  from config_adds [OF assms(1,2) this, of sec] obtain s1 where
    "rrc_pdcp_config_asn1_req ctxt (um_request drb lc) sec s = Inr (False, s1)" "layer_ok s1"
    "bearers s1 = spec_config ctxt sec (um_request drb lc) (bearers s)" "key_blocks s1 = key_blocks s"
    "pdcp_sdu_list s1 = pdcp_sdu_list s" by blast
  moreover have "spec_config ctxt sec (um_request drb lc) (bearers s) (bearer_key ctxt drb False) = Some (um_entity ctxt sec drb lc)"
    using assms(4-6)
    by (simp add: spec_config_def um_request_def list_of_def spec_drb_def read_pdcp_config_def um_entity_def locals_start_def Let_def)
  ultimately show ?thesis by auto
qed

lemma um_entity_ends:
  assumes "enb_flag ctxt \<noteq> enb_flag ctxt'" "same_user_keys km sec km' sec'"
  shows "bearer_ends km (um_entity ctxt sec drb lc) km' (um_entity ctxt' sec' drb lc) False"
    and "tx_at 0 (um_entity ctxt sec drb lc) = um_entity ctxt sec drb lc" and "rx_at 0 (um_entity ctxt' sec' drb lc)"
proof -
  note defs = um_entity_def spec_entity_def maybe_security_def pdcp_config_set_security_def added_def drb_config_def sn_bits_def zero_pdcp_def
  show "bearer_ends km (um_entity ctxt sec drb lc) km' (um_entity ctxt' sec' drb lc) False"
    using assms by (auto simp: bearer_ends_def paired_def fits_def pdcp_is_seq_num_size_valid_def enc_key_def same_user_keys_def defs)
  show "tx_at 0 (um_entity ctxt sec drb lc) = um_entity ctxt sec drb lc" by (simp add: tx_at_def defs)
  show "rx_at 0 (um_entity ctxt' sec' drb lc)" by (simp add: rx_at_def defs)
qed

text \<open>C3.
  From the configuration to the data: when the RRC of an eNodeB and that of a UE ask for the same new data bearer,
  with the same algorithms and keys or both without security, then the layer of the UE hands up the SDUs that the
  layer of the eNodeB is given, except those whose PDUs are lost, unchanged and in order, whatever other bearers
  the two layers serve.
\<close>

theorem pdcp_bearer_service:
  assumes "proper_crypto cr" and "layer_ok s" "layer_ok t" and "enb_flag ctxt" "\<not> enb_flag ctxt'" "ctxt_ok ctxt'"
    and "0 < drb" "drb < 11" "lc \<noteq> 1" "lc \<noteq> 2"
    and "bearers s (bearer_key ctxt drb False) = None" "bearers t (bearer_key ctxt' drb False) = None"
    and "same_user_keys (key_blocks s) sec (key_blocks t) sec'"
    and "gaps_ok 4096 0 xs" and "\<forall>x \<in> set xs. user_packet x"
  shows "\<exists>s1 t1 s2 t2. rrc_pdcp_config_asn1_req ctxt (um_request drb lc) sec s = Inr (False, s1) \<and>
    rrc_pdcp_config_asn1_req ctxt' (um_request drb lc) sec' t = Inr (False, t1) \<and>
    downlink cr ctxt ctxt' (of_int drb) xs s1 t1 = Inr (s2, t2) \<and>
    pdcp_sdu_list t2 = pdcp_sdu_list t @ map (to_ue (of_int drb)) (arrivals xs)"
proof -
  have "ctxt_ok ctxt" using assms(4) by (simp add: ctxt_ok_def)
  from um_config [OF assms(2) this assms(8-11), of sec] obtain s1 where
    s1: "rrc_pdcp_config_asn1_req ctxt (um_request drb lc) sec s = Inr (False, s1)" "layer_ok s1"
    "bearers s1 (bearer_key ctxt drb False) = Some (um_entity ctxt sec drb lc)" "key_blocks s1 = key_blocks s" by blast
  from um_config [OF assms(3,6,8-10,12), of sec'] obtain t1 where
    t1: "rrc_pdcp_config_asn1_req ctxt' (um_request drb lc) sec' t = Inr (False, t1)" "layer_ok t1"
    "bearers t1 (bearer_key ctxt' drb False) = Some (um_entity ctxt' sec' drb lc)" "key_blocks t1 = key_blocks t"
    "pdcp_sdu_list t1 = pdcp_sdu_list t" by blast
  have drb: "uint (of_int drb :: u16) = drb" using assms(7,8) by (simp add: uint_word_of_int)
  have rb: "(0 :: u16) < of_int drb" "(of_int drb :: u16) < maxDRB"
    using assms(7,8) by (simp_all add: word_less_alt drb maxDRB_def)
  have "enb_flag ctxt \<noteq> enb_flag ctxt'" using assms(4,5) by simp
  note ends = um_entity_ends [OF this, of "key_blocks s1" sec "key_blocks t1" sec']
  have keys: "same_user_keys (key_blocks s1) sec (key_blocks t1) sec'" using assms(13) by (simp add: s1(4) t1(4))
  have "\<forall>x \<in> set xs. packet_ok False (um_entity ctxt sec drb lc) x \<and> fst x \<noteq> []"
    using assms(15) by (auto simp: user_packet_def packet_ok_def roomy_def)
  from downlink_from [OF assms(1) rb assms(5) s1(2) t1(2) _ _ ends(1) [OF keys] ends(3) [OF keys] _ assms(14) this, of ctxt 0]
  show ?thesis using s1 t1 ends(2) [OF keys] unfolding drb by fastforce
qed

text \<open>Two new layers, and SDUs of which the second is lost.\<close>

definition ue_ctxt :: protocol_ctxt where
  "ue_ctxt = \<lparr>module_id = 0, enb_flag = False, rnti = 0x1234, configured = True\<rparr>"

definition eea2 :: "nat \<Rightarrow> security_config" where
  "eea2 k = \<lparr>security_mode = 0x02, key_RRCenc = None, key_RRCint = None, key_UPenc = Some k\<rparr>"

definition new_layer :: "key_memory \<Rightarrow> pdcp_layer" where
  "new_layer km = (pdcp_layer_init 0 layer_start)\<lparr>key_blocks := km\<rparr>"

definition some_packets :: "packet list" where
  "some_packets = [([1, 2], [0, 0, 0], Some [0, 0, 0]), ([3], [0, 0, 0], None), ([4, 5, 6], [0, 0, 0], Some [9, 9, 9])]"

lemma new_layer_ok: "layer_ok (new_layer km)" "bearers (new_layer km) k = None" "key_blocks (new_layer km) = km"
proof -
  have start: "layer_ok (pdcp_layer_init 0 layer_start)" "bearers (pdcp_layer_init 0 layer_start) = Map.empty"
    by (rule layer_init_ok; simp add: layer_start_def)+
  have "coll_map (new_layer km) = coll_map (pdcp_layer_init 0 layer_start)" by (simp add: coll_map_def new_layer_def)
  moreover have "pdcp_coll (new_layer km) = pdcp_coll (pdcp_layer_init 0 layer_start)"
    "entities (new_layer km) = entities (pdcp_layer_init 0 layer_start)"
    "next_block (new_layer km) = next_block (pdcp_layer_init 0 layer_start)"
    "arrays_ok (new_layer km) = arrays_ok (pdcp_layer_init 0 layer_start)" by (simp_all add: new_layer_def arrays_ok_def)
  ultimately show "layer_ok (new_layer km)" "bearers (new_layer km) k = None"
    using start(1) fun_cong [OF start(2), of k] unfolding layer_ok_def bearers_def by (simp_all cong: option.case_cong)
  show "key_blocks (new_layer km) = km" by (simp add: new_layer_def)
qed

lemma pdcp_bearer_service_witness:
  "\<exists>s1 t1 s2 t2.
    rrc_pdcp_config_asn1_req enb_ctxt (um_request 1 3) (eea2 0) (new_layer [0 \<mapsto> replicate 32 7]) = Inr (False, s1) \<and>
    rrc_pdcp_config_asn1_req ue_ctxt (um_request 1 3) (eea2 5) (new_layer [5 \<mapsto> replicate 32 7]) = Inr (False, t1) \<and>
    downlink example_crypto enb_ctxt ue_ctxt 1 some_packets s1 t1 = Inr (s2, t2) \<and>
    map sdu_bytes (pdcp_sdu_list t2) = [[1, 2], [4, 5, 6]]"
proof -
  have keys: "same_user_keys (key_blocks (new_layer [0 \<mapsto> replicate 32 7])) (eea2 0)
      (key_blocks (new_layer [5 \<mapsto> replicate 32 7])) (eea2 5)"
    by (simp add: same_user_keys_def new_layer_ok eea2_def key_at_def usable_key_def)
  have ctxt: "enb_flag enb_ctxt" "\<not> enb_flag ue_ctxt" "ctxt_ok ue_ctxt"
    by (simp_all add: ctxt_ok_def ue_ctxt_def enb_ctxt_def NUMBER_OF_UE_MAX_def)
  have packets: "gaps_ok 4096 0 some_packets" "\<forall>x \<in> set some_packets. user_packet x"
    by (simp_all add: some_packets_def user_packet_def)
  have numbers: "0 < (1 :: int)" "(1 :: int) < 11" "(3 :: int) \<noteq> 1" "(3 :: int) \<noteq> 2" by simp_all
  have "pdcp_sdu_list (new_layer [5 \<mapsto> replicate 32 7]) = []" by (simp add: new_layer_def pdcp_layer_init_def)
  moreover have "map sdu_bytes (map (to_ue 1) (arrivals some_packets)) = [[1, 2], [4, 5, 6]]"
    by (simp add: some_packets_def to_ue_def)
  ultimately show ?thesis
    using pdcp_bearer_service [OF example_crypto new_layer_ok(1) new_layer_ok(1) ctxt numbers new_layer_ok(2) new_layer_ok(2)
      keys packets] unfolding of_int_1 append_Nil by (metis append_Nil)
qed

lemma pdcp_data_isolated_witness:
  "\<exists>s s1 s2 c outs block.
    pdcp_data_req example_crypto RLC_OP_STATUS_OK ue_ctxt False 1 0 0 [1, 2] [0, 0, 0] PDCP_TRANSMISSION_MODE_DATA s =
      Inr (True, c, outs, s1) \<and> outs \<noteq> [] \<and> only_bearer (bearer_key ue_ctxt 1 False) s s1 \<and>
    pdcp_data_ind example_crypto False ue_ctxt False False 1 4 block s = Inr (True, [], s2) \<and> pdcp_sdu_list s2 \<noteq> [] \<and>
    only_bearer (bearer_key ue_ctxt 1 False) s s2"
proof -
  let ?p = "um_entity enb_ctxt no_security 1 3" and ?q = "um_entity ue_ctxt no_security 1 3"
  have ctxt: "ctxt_ok ue_ctxt" "\<not> enb_flag ue_ctxt" "enb_flag enb_ctxt"
    by (simp_all add: ctxt_ok_def ue_ctxt_def enb_ctxt_def NUMBER_OF_UE_MAX_def)
  have rb: "(0 :: u16) < 1" "(1 :: u16) < maxDRB" "uint (1 :: u16) = 1" "(1 :: u16) mod maxDRB = 1" "(4 :: int) = int (pdu_len False [1, 2])"
    by (simp_all add: maxDRB_def pdu_len_def)
  have numbers: "(1 :: int) < 11" "(3 :: int) \<noteq> 1" "(3 :: int) \<noteq> 2" by simp_all
  from um_config [OF new_layer_ok(1) ctxt(1) numbers new_layer_ok(2), of no_security Map.empty] obtain s where
    s: "layer_ok s" "bearers s (bearer_key ue_ctxt (uint (1 :: u16)) False) = Some ?q" unfolding rb(3) by blast
  have keys: "same_user_keys km no_security km' no_security" for km km' by (simp add: same_user_keys_def no_security_def)
  have sides: "enb_flag ue_ctxt \<noteq> enb_flag enb_ctxt" "enb_flag enb_ctxt \<noteq> enb_flag ue_ctxt" using ctxt(2,3) by simp_all
  have up: "bearer_ends (key_blocks s) ?q (key_blocks s) ?p False" "tx_at 0 ?q = ?q"
    by (rule um_entity_ends [OF sides(1) keys])+
  have down: "bearer_ends (key_blocks s) ?p (key_blocks s) ?q False" "rx_at 0 ?q"
    by (rule um_entity_ends [OF sides(2) keys])+
  have room: "roomy False e [0, 0, 0]" for e by (simp add: roomy_def)
  from make_alone [OF example_crypto up(1) rb(2) _ room, where sdu = "[1, 2]" and N = 0 and dm = True] obtain sent where
    sent: "pdcp_make_pdu example_crypto (key_blocks s) ?q False True 1 [1, 2] [0, 0, 0] = Inr (tx_at (Suc 0) ?q, Some sent)"
    by (auto simp: up(2))
  have "if False then (1 :: u16) < 3 else 1 < maxDRB" using rb(2) by simp
  from data_req_ok [OF s _ _ this, of "[1, 2]" PDCP_TRANSMISSION_MODE_DATA example_crypto RLC_OP_STATUS_OK 0 0 "[0, 0, 0]"] sent
  obtain c outs s1 where req: "pdcp_data_req example_crypto RLC_OP_STATUS_OK ue_ctxt False 1 0 0 [1, 2] [0, 0, 0]
    PDCP_TRANSMISSION_MODE_DATA s = Inr (True, c, outs, s1)" "outs \<noteq> []" by auto
  have space: "seq_num_size ?q = 12" "rlc_mode ?q = RLC_MODE_UM" "0 < sn_space ?p"
    using down(1) by (auto simp: bearer_ends_def sn_space_def)
  have small: "length [1, 2 :: u8] \<le> 10000" "0 < 0 + sn_space ?p" using space(3) by simp_all
  from make_and_open [OF example_crypto down(1,2) le0 small(2) rb(2) small(1) room, of True] room [of ?p] obtain block q1 h sn b where
    open1: "pdcp_open_pdu example_crypto (key_blocks s) ?q False 1 (int (pdu_len False [1, 2])) block = Inr (q1, Some (h, sn, b))"
      "pdcp_payload False (int (pdu_len False [1, 2])) h b = [1, 2]" "rx_config q1 = rx_config ?q" by blast
  have "rlc_mode q1 \<noteq> RLC_MODE_AM" using rx_config_simps [OF open1(3)] space(2) by simp
  from data_ind_ok [OF s ctxt(2) rb(1,2) this space(1) open1(1,2)] obtain s2 where
    ind: "pdcp_data_ind example_crypto False ue_ctxt False False 1 4 block s = Inr (True, [], s2)" "pdcp_sdu_list s2 \<noteq> []"
    by (auto simp: rb(5))
  show ?thesis using pdcp_data_isolated [OF s(1)] req ind unfolding rb(3,4)
    by (metis (no_types, lifting) rb(3,4))
qed

end
