(* ===== verification/PdcpDefault.thy ===== *)
theory PdcpDefault
  imports PdcpService
begin

text \<open>
  The default bearer of a UE: its entity is in the table under two keys, its own and the one of the default bearer. A
  layer with default bearers is well-formed up to the keys \<open>D\<close> of default bearers.
\<close>

section \<open>Layers with keys of default bearers\<close>

definition layer_ok_but :: "u64 set \<Rightarrow> pdcp_layer \<Rightarrow> bool" where
  "layer_ok_but D s \<longleftrightarrow> (\<exists>h. pdcp_coll s = Some h \<and> ht_ok h) \<and>
     (\<forall>k d. k \<notin> D \<and> coll_map s k = Some d \<longrightarrow> d \<in> Some ` dom (entities s)) \<and>
     (\<forall>k k' d. k \<notin> D \<and> k' \<notin> D \<and> coll_map s k = Some d \<and> coll_map s k' = Some d \<longrightarrow> k = k') \<and>
     (\<forall>a. entities s a \<noteq> None \<longrightarrow> a < next_block s) \<and> arrays_ok s"

lemma layer_ok_but_none: "layer_ok_but {} s \<longleftrightarrow> layer_ok s"
  by (simp add: layer_ok_but_def layer_ok_def)

lemma layer_ok_butI:
  assumes "pdcp_coll s = Some h" "ht_ok h"
    and "\<And>k d. k \<notin> D \<Longrightarrow> coll_map s k = Some d \<Longrightarrow> \<exists>a p. d = Some a \<and> entities s a = Some p"
    and "\<And>k k' d. k \<notin> D \<Longrightarrow> k' \<notin> D \<Longrightarrow> coll_map s k = Some d \<Longrightarrow> coll_map s k' = Some d \<Longrightarrow> k = k'"
    and "\<And>a p. entities s a = Some p \<Longrightarrow> a < next_block s"
    and "arrays_ok s"
  shows "layer_ok_but D s"
proof -
  have "d \<in> Some ` dom (entities s)" if "k \<notin> D" "coll_map s k = Some d" for k d
  proof -
    from assms(3) [OF that] obtain a p where "d = Some a" "entities s a = Some p" by blast
    then show ?thesis by (auto intro: image_eqI)
  qed
  with assms(1,2,4-6) show ?thesis unfolding layer_ok_but_def by blast
qed

lemma layer_ok_butD:
  assumes "layer_ok_but D s"
  shows "\<exists>h. pdcp_coll s = Some h \<and> ht_ok h"
    and "k \<notin> D \<Longrightarrow> coll_map s k = Some d \<Longrightarrow> \<exists>a p. d = Some a \<and> entities s a = Some p"
    and "k \<notin> D \<Longrightarrow> k' \<notin> D \<Longrightarrow> coll_map s k = Some d \<Longrightarrow> coll_map s k' = Some d \<Longrightarrow> k = k'"
    and "entities s a = Some p \<Longrightarrow> a < next_block s" and "arrays_ok s"
  using assms unfolding layer_ok_but_def by blast+

text \<open>The bearers under the other keys.\<close>

definition own :: "u64 set \<Rightarrow> pdcp_layer \<Rightarrow> u64 \<rightharpoonup> pdcp" where
  "own D s = bearers s |` (- D)"

lemma own_simps: "own {} s = bearers s" "k \<notin> D \<Longrightarrow> own D s k = bearers s k" "k \<in> D \<Longrightarrow> own D s k = None"
  by (simp_all add: own_def restrict_map_def fun_eq_iff)

lemma own_cases:
  assumes "layer_ok_but D s" "k \<notin> D"
  obtains (none) "own D s k = None" "coll_map s k = None"
    | (some) a p where "own D s k = Some p" "coll_map s k = Some (Some a)" "entities s a = Some p"
proof (cases "coll_map s k")
  case None
  with assms(2) none show thesis by (simp add: own_simps bearers_def)
next
  case (Some d)
  from layer_ok_butD(2) [OF assms this] obtain a p where "d = Some a" "entities s a = Some p" by blast
  with Some assms(2) some show thesis by (simp add: own_simps bearers_def)
qed

text \<open>A second key for an entity.\<close>

definition also_under :: "u64 \<Rightarrow> nat \<Rightarrow> pdcp_layer \<Rightarrow> pdcp_layer" where
  "also_under k a s = s\<lparr>pdcp_coll := map_option (ht_put k (Some a)) (pdcp_coll s)\<rparr>"

lemma also_under_ok:
  assumes "layer_ok s" "coll_map s k = None"
  shows "layer_ok_but {k} (also_under k a s)" "coll_map (also_under k a s) = (coll_map s)(k \<mapsto> Some a)"
    "own {k} (also_under k a s) = bearers s"
proof -
  note D = layer_okD [OF assms(1)]
  obtain h where h: "pdcp_coll s = Some h" "ht_ok h" using D(1) by blast
  show map: "coll_map (also_under k a s) = (coll_map s)(k \<mapsto> Some a)"
    using h table.stored_put [OF h(2), of k "Some a"] by (simp add: also_under_def coll_map_def)
  show "layer_ok_but {k} (also_under k a s)"
  proof (rule layer_ok_butI, unfold map)
    show "pdcp_coll (also_under k a s) = Some (ht_put k (Some a) h)" "ht_ok (ht_put k (Some a) h)"
      using h table.inv_put [OF h(2)] by (simp_all add: also_under_def)
    show "\<exists>a' p. d = Some a' \<and> entities (also_under k a s) a' = Some p"
      if "k' \<notin> {k}" "((coll_map s)(k \<mapsto> Some a)) k' = Some d" for k' d
      using that D(2) [of k' d] by (simp add: also_under_def)
    show "k1 = k2" if "k1 \<notin> {k}" "k2 \<notin> {k}" "((coll_map s)(k \<mapsto> Some a)) k1 = Some d" "((coll_map s)(k \<mapsto> Some a)) k2 = Some d" for k1 k2 d
      using that D(3) [of k1 d k2] by simp
    show "a' < next_block (also_under k a s)" if "entities (also_under k a s) a' = Some p" for a' p
      using that D(4) by (simp add: also_under_def)
    show "arrays_ok (also_under k a s)" using D(5) by (simp add: arrays_ok_def also_under_def)
  qed
  have "entities (also_under k a s) = entities s" by (simp add: also_under_def)
  then show "own {k} (also_under k a s) = bearers s"
    using assms(2) unfolding own_def bearers_def map by (intro ext) (auto simp: restrict_map_def split: option.splits)
qed

section \<open>Configuring a default bearer\<close>

definition default_request :: "int \<Rightarrow> int \<Rightarrow> config_req" where
  "default_request drb lc = (um_request drb lc)\<lparr>defaultDRB := Some (of_int drb)\<rparr>"

text \<open>Adding does not look at the table.\<close>

lemma add_also_under:
  assumes "pdcp_config_req_asn1 ctxt (Some a) CONFIG_ACTION_ADD b sec s = Inr s1"
  shows "pdcp_config_req_asn1 ctxt (Some a) CONFIG_ACTION_ADD b sec (also_under k a s) = Inr (also_under k a s1)"
    and "pdcp_coll s1 = pdcp_coll s"
  using assms
  by (auto simp: pdcp_config_req_asn1_def remember_rnti_def upd_entity_def entity_at_def put_entity_def also_under_def
      bindE_def split: if_splits option.splits sum.splits)

lemma insert_also_under:
  assumes "layer_ok s" "coll_map s k = None"
  shows "coll_insert k (Some a) s = Inr (HASH_TABLE_OK, also_under k a s)"
proof -
  from layer_okD(1) [OF assms(1)] obtain h where "pdcp_coll s = Some h" "ht_ok h" by blast
  with assms(2) show ?thesis by (simp add: coll_insert_def also_under_def hashtable_ops coll_map_def)
qed

lemma config_default:
  assumes ok: "layer_ok s" "ctxt_ok ctxt" and drb: "0 \<le> drb" "drb < 11" "lc \<noteq> 1" "lc \<noteq> 2"
    and none: "bearers s (bearer_key ctxt drb False) = None" "coll_map s (default_key ctxt) = None"
  shows "\<exists>s1 a. rrc_pdcp_config_asn1_req ctxt (default_request drb lc) sec s = Inr (False, s1) \<and>
    layer_ok_but {default_key ctxt} s1 \<and> key_blocks s1 = key_blocks s \<and>
    own {default_key ctxt} s1 = (bearers s)(bearer_key ctxt drb False \<mapsto> um_entity ctxt sec drb lc) \<and>
    coll_map s1 (bearer_key ctxt drb False) = Some (Some a) \<and> coll_map s1 (default_key ctxt) = Some (Some a)"
proof -
  let ?k = "bearer_key ctxt drb False" and ?d = "default_key ctxt"
  let ?l = "locals_start\<lparr>cur_lc_id := lc, cur_drb_sn := len12bits, cur_rlc_type := RLC_MODE_UM\<rparr>"
  have keys: "?k \<noteq> ?d" using bearer_keys [of drb 0 ctxt False ctxt] drb(1,2) by simp
  obtain a s1 s2 where new: "coll_get ?k s = Inr (HASH_TABLE_KEY_NOT_EXISTS, None)" "new_entity s = (a, s1)"
      "coll_insert ?k (Some a) s1 = Inr (HASH_TABLE_OK, s2)" "layer_ok s2" "coll_map s2 ?k = Some (Some a)"
      "entities s2 a = Some zero_pdcp" "bearers s2 = (bearers s)(?k \<mapsto> zero_pdcp)" "unchanged s s2"
    using none(1) by (cases rule: find_or_add [OF ok(1), of ?k]) auto
  have "bearers s ?d = None" using none(2) by (simp add: bearers_def)
  then have free: "bearers s2 ?d = None" using keys by (simp add: new(7))
  then have free: "coll_map s2 ?d = None" using coll_get_ok [OF new(4), of ?d] by auto
  from config_req_ok [OF new(4) ok(2) new(5,6), of CONFIG_ACTION_ADD None "drb_config drb ?l" sec] obtain s3 where
    s3: "pdcp_config_req_asn1 ctxt (Some a) CONFIG_ACTION_ADD (drb_config drb ?l) sec s2 = Inr s3" "layer_ok s3"
    "bearers s3 = (bearers s2)(?k \<mapsto> spec_entity ctxt sec (drb_config drb ?l) None)" "unchanged s2 s3" by auto
  note second = add_also_under(1) [OF s3(1), of ?d] add_also_under(2) [OF s3(1)]
  have map3: "coll_map s3 = coll_map s2" by (simp add: coll_map_def second(2))
  have "uint (of_int drb :: u16) = drb" using drb(1,2) by (simp add: uint_word_of_int)
  then have "rrc_pdcp_config_asn1_req ctxt (default_request drb lc) sec s = Inr (False, also_under ?d a s3)"
    using new(1-3) insert_also_under [OF new(4) free, of a] second(1) drb
    by (simp add: rrc_pdcp_config_asn1_req_def default_request_def um_request_def list_of_def config_drb_def
        read_pdcp_config_def drb_config_def locals_start_def maxDRB_def Let_def)
  moreover note under = also_under_ok [OF s3(2), of ?d a, unfolded map3, OF free]
  have "own {?d} (also_under ?d a s3) = (bearers s)(?k \<mapsto> um_entity ctxt sec drb lc)"
    unfolding under(3) s3(3) new(7) by (simp add: um_entity_def)
  moreover have "key_blocks (also_under ?d a s3) = key_blocks s" using new(8) s3(4) by (simp add: also_under_def unchanged_def)
  ultimately show ?thesis using under(1) new(5) keys by (intro exI [of _ "also_under ?d a s3"] exI [of _ a]) (simp add: under(2))
qed

end
