(* ===== verification/PdcpRemoval.thy ===== *)
theory PdcpRemoval
  imports PdcpDefault
begin

text \<open>
  Taking bearers out of the layer: what the table frees with an entity, which bearers of a UE are removed with it, and
  where the code frees what it does not own or removes nothing.
\<close>

section \<open>Keys that are owned\<close>

text \<open>The blocks of the keys of an entity, in the order in which they are freed.\<close>

definition entity_keys :: "pdcp \<Rightarrow> nat list" where
  "entity_keys p = List.map_filter (\<lambda>k. k) [kUPenc p, kRRCint p, kRRCenc p]"

text \<open>Every entity has keys of its own, and they are alive.\<close>

definition keys_owned_but :: "u64 set \<Rightarrow> pdcp_layer \<Rightarrow> bool" where
  "keys_owned_but D s \<longleftrightarrow>
     (\<forall>k p. own D s k = Some p \<longrightarrow> distinct (entity_keys p) \<and> set (entity_keys p) \<subseteq> dom (key_blocks s)) \<and>
     (\<forall>k k' p p'. own D s k = Some p \<longrightarrow> own D s k' = Some p' \<longrightarrow> k \<noteq> k' \<longrightarrow> set (entity_keys p) \<inter> set (entity_keys p') = {})"

abbreviation keys_owned :: "pdcp_layer \<Rightarrow> bool" where
  "keys_owned \<equiv> keys_owned_but {}"

definition free_block :: "nat \<Rightarrow> pdcp_layer \<Rightarrow> pdcp_layer res" where
  "free_block b = free_key (Some b)"

lemma free_keys_fold: "free_keys p s = foldE free_block (entity_keys p) s"
proof -
  have id: "bindE m Inr = m" for m :: "pdcp_layer res" by (cases m) auto
  show ?thesis
    by (cases "kUPenc p"; cases "kRRCint p"; cases "kRRCenc p")
      (auto simp: free_keys_def entity_keys_def map_filter_simps free_block_def free_key_def id bindE_def split: sum.splits)
qed

lemma free_blocks:
  "foldE free_block bs s =
     (if distinct bs \<and> set bs \<subseteq> dom (key_blocks s) then Inr (s\<lparr>key_blocks := key_blocks s |` (- set bs)\<rparr>) else Inl Undefined)"
proof (induction bs arbitrary: s)
  case Nil
  have "key_blocks s |` UNIV = key_blocks s" by (simp add: fun_eq_iff)
  then show ?case by simp
next
  case (Cons b bs)
  let ?s = "s\<lparr>key_blocks := (key_blocks s)(b := None)\<rparr>"
  have "(key_blocks s)(b := None) |` (- set bs) = key_blocks s |` (- set (b # bs))" by (auto simp: restrict_map_def fun_eq_iff)
  moreover have "dom ((key_blocks s)(b := None)) = dom (key_blocks s) - {b}" by simp
  ultimately have "foldE free_block bs ?s = (if distinct bs \<and> set bs \<subseteq> dom (key_blocks s) - {b}
      then Inr (s\<lparr>key_blocks := key_blocks s |` (- set (b # bs))\<rparr>) else Inl Undefined)"
    by (simp add: Cons.IH [of ?s] del: set_simps fun_upd_apply restrict_fun_upd restrict_upd_same)
  moreover have "free_block b s = (if key_blocks s b = None then Inl Undefined else Inr ?s)"
    by (simp add: free_block_def free_key_def)
  ultimately show ?case by (cases "key_blocks s b") (auto simp: dom_def)
qed

section \<open>Removing one bearer\<close>

text \<open>Whether the keys of an entity can be freed decides whether its removal succeeds.\<close>

definition freeable :: "pdcp_layer \<Rightarrow> pdcp \<Rightarrow> bool" where
  "freeable s p \<longleftrightarrow> distinct (entity_keys p) \<and> set (entity_keys p) \<subseteq> dom (key_blocks s)"

text \<open>What a removal leaves: the entity is freed, with its keys, and the other pointers stay as they are.\<close>

definition removed :: "u64 \<Rightarrow> pdcp_layer \<Rightarrow> pdcp_layer \<Rightarrow> bool" where
  "removed k s s1 \<longleftrightarrow> coll_map s1 = (coll_map s)(k := None) \<and> entities s1 \<subseteq>\<^sub>m entities s \<and> next_block s1 = next_block s \<and>
     (\<forall>a. coll_map s k = Some (Some a) \<longrightarrow> entities s1 a = None)"

lemma remove_spec:
  assumes ok: "layer_ok_but D s" and k: "k \<notin> D"
  shows "(case own D s k of
      None \<Rightarrow> \<exists>s1. coll_remove k s = Inr (HASH_TABLE_KEY_NOT_EXISTS, s1) \<and> layer_ok_but D s1 \<and> own D s1 = own D s \<and>
        key_blocks s1 = key_blocks s \<and> removed k s s1
    | Some p \<Rightarrow>
        if freeable s p
        then \<exists>s1. coll_remove k s = Inr (HASH_TABLE_OK, s1) \<and> layer_ok_but D s1 \<and> own D s1 = (own D s)(k := None) \<and>
          key_blocks s1 = key_blocks s |` (- set (entity_keys p)) \<and> removed k s s1
        else coll_remove k s = Inl Undefined)"
proof -
  note D = layer_ok_butD [OF ok]
  obtain h where h: "pdcp_coll s = Some h" "ht_ok h" using D(1) by blast
  have map: "coll_map s = ht_map h" using h(1) by (simp add: coll_map_def)
  note del = table.stored_del [OF h(2), of k] table.inv_del [OF h(2), of k]
  show ?thesis
  proof (cases rule: own_cases [OF ok k, case_names none some])
    case none
    let ?s = "s\<lparr>pdcp_coll := Some (ht_del k h)\<rparr>"
    have "(coll_map s)(k := None) = coll_map s" using none(2) by auto
    then have same: "coll_map ?s = coll_map s" using del(1) map by (simp add: coll_map_def)
    have "coll_remove k s = Inr (HASH_TABLE_KEY_NOT_EXISTS, ?s)"
      using none(2) map h by (simp add: coll_remove_def hashtable_ops)
    moreover have "layer_ok_but D ?s" using ok del(2) unfolding layer_ok_but_def same by (simp add: arrays_ok_def)
    moreover have "own D ?s = own D s" unfolding own_def bearers_def same by (simp cong: option.case_cong)
    moreover have "removed k s ?s" using none(2) same by (auto simp: removed_def)
    ultimately show ?thesis using none(1) by simp
  next
    case (some a p)
    let ?t = "s\<lparr>pdcp_coll := Some (ht_del k h)\<rparr>"
    let ?s = "?t\<lparr>key_blocks := key_blocks s |` (- set (entity_keys p)), entities := (entities s)(a := None)\<rparr>"
    have run: "coll_remove k s = (if freeable s p then Inr (HASH_TABLE_OK, ?s) else Inl Undefined)"
      using some(2,3) map h
      by (simp add: coll_remove_def hashtable_ops freed_data_def pdcp_free_def entity_at_def free_keys_fold free_blocks
          free_entity_def freeable_def)
    have left: "coll_map ?s = (coll_map s)(k := None)" using del(1) map by (simp add: coll_map_def)
    have other: "coll_map s k' \<noteq> Some (Some a)" if "k' \<noteq> k" "k' \<notin> D" for k' using D(3) [OF that(2) k] some(2) that(1) by blast
    have "layer_ok_but D ?s"
    proof (rule layer_ok_butI, unfold left)
      show "pdcp_coll ?s = Some (ht_del k h)" "ht_ok (ht_del k h)" using del(2) by simp_all
      show "\<exists>a' p'. d = Some a' \<and> entities ?s a' = Some p'" if "k' \<notin> D" "((coll_map s)(k := None)) k' = Some d" for k' d
        using that D(2) [of k' d] other [of k'] by (auto split: if_splits)
      show "k1 = k2" if "k1 \<notin> D" "k2 \<notin> D" "((coll_map s)(k := None)) k1 = Some d" "((coll_map s)(k := None)) k2 = Some d" for k1 k2 d
        using that D(3) [of k1 k2 d] by (auto split: if_splits)
      show "a' < next_block ?s" if "entities ?s a' = Some p'" for a' p' using that D(4) by (auto split: if_splits)
      show "arrays_ok ?s" using D(5) by (simp add: arrays_ok_def)
    qed
    moreover have "own D ?s = (own D s)(k := None)"
      using other unfolding own_def bearers_def left by (intro ext) (auto simp: restrict_map_def split: option.splits)
    moreover have "removed k s ?s" using some(2) left by (auto simp: removed_def map_le_def)
    ultimately show ?thesis using run some(1) by simp
  qed
qed

lemmas coll_remove_spec = remove_spec [of "{}", unfolded own_simps(1) layer_ok_but_none, simplified]

text \<open>In a layer whose keys are owned a removal succeeds, and the layer is a store from which bearers are taken.\<close>

definition layer_del :: "u64 set \<Rightarrow> u64 \<Rightarrow> pdcp_layer \<Rightarrow> pdcp_layer" where
  "layer_del D k s = (case coll_remove k s of Inr (_, s1) \<Rightarrow> if k \<in> D then s else s1 | _ \<Rightarrow> s)"

abbreviation store_ok :: "u64 set \<Rightarrow> pdcp_layer \<Rightarrow> bool" where
  "store_ok D s \<equiv> layer_ok_but D s \<and> keys_owned_but D s"

lemma keys_owned_freeable: "keys_owned_but D s \<Longrightarrow> own D s k = Some p \<Longrightarrow> freeable s p"
  by (simp add: keys_owned_but_def freeable_def)

lemma keys_owned_del:
  assumes "keys_owned_but D s" "own D s k = Some p" "own D s1 = (own D s)(k := None)"
    "key_blocks s1 = key_blocks s |` (- set (entity_keys p))"
  shows "keys_owned_but D s1"
proof -
  have "set (entity_keys p') \<subseteq> dom (key_blocks s1)" if "own D s k' = Some p'" "k' \<noteq> k" for k' p'
  proof -
    have "set (entity_keys p') \<subseteq> dom (key_blocks s)" "set (entity_keys p') \<inter> set (entity_keys p) = {}"
      using assms(1,2) that unfolding keys_owned_but_def by blast+
    then show ?thesis unfolding assms(4) dom_restrict by blast
  qed
  then show ?thesis using assms(1) unfolding keys_owned_but_def assms(3) by (simp add: fun_upd_def)
qed

lemma layer_del_run:
  assumes "store_ok D s" "k \<notin> D"
  shows "\<exists>rc. coll_remove k s = Inr (rc, layer_del D k s)" "store_ok D (layer_del D k s)"
    "own D (layer_del D k s) = (own D s)(k := None)" "removed k s (layer_del D k s)"
proof -
  have "\<exists>rc s1. coll_remove k s = Inr (rc, s1) \<and> store_ok D s1 \<and> own D s1 = (own D s)(k := None) \<and> removed k s s1"
  proof (cases "own D s k")
    case None
    then have "own D s = (own D s)(k := None)" by auto
    with None remove_spec [OF _ assms(2), of s] assms(1) show ?thesis by (auto simp: keys_owned_but_def)
  next
    case (Some p)
    with remove_spec [OF _ assms(2), of s] keys_owned_freeable [OF _ Some] keys_owned_del [OF _ Some] assms(1)
    show ?thesis by auto
  qed
  then show "\<exists>rc. coll_remove k s = Inr (rc, layer_del D k s)" "store_ok D (layer_del D k s)"
    "own D (layer_del D k s) = (own D s)(k := None)" "removed k s (layer_del D k s)"
    using assms(2) by (auto simp: layer_del_def)
qed

lemma layer_del_ok:
  assumes "store_ok D s"
  shows "store_ok D (layer_del D k s)" "own D (layer_del D k s) = (own D s)(k := None)"
proof -
  have "layer_del D k s = s" "own D s k = None" if "k \<in> D" using that by (simp_all add: layer_del_def own_simps split: sum.splits)
  with assms layer_del_run(2,3) [OF assms]
  show "store_ok D (layer_del D k s)" "own D (layer_del D k s) = (own D s)(k := None)" by (cases "k \<in> D"; auto)+
qed

interpretation layer: store_removal "store_ok D" "own D" "layer_del D" for D
  by unfold_locales (rule layer_del_ok; assumption)+

section \<open>Removing a UE\<close>

definition ue_keys :: "protocol_ctxt \<Rightarrow> u64 list" where
  "ue_keys ctxt = map (\<lambda>srb. bearer_key ctxt srb True) [0, 1] @ map (\<lambda>drb. bearer_key ctxt drb False) [0..uint maxDRB - 1]"

definition remove_key :: "u64 \<Rightarrow> pdcp_layer \<Rightarrow> pdcp_layer res" where
  "remove_key k s = bindE (coll_remove k s) (\<lambda>(_, s1). Inr s1)"

lemma pdcp_remove_UE_fold: "pdcp_remove_UE ctxt s = foldE remove_key (ue_keys ctxt) s"
  unfolding pdcp_remove_UE_def ue_keys_def foldE_append foldE_map
  by (simp add: remove_key_def [abs_def] comp_def del: upto.simps foldE.simps)

lemma remove_keys:
  assumes "store_ok D s" "set ks \<inter> D = {}"
  shows "foldE remove_key ks s = Inr (fold (layer_del D) ks s)"
    and "coll_map (fold (layer_del D) ks s) = coll_map s |` (- set ks)"
    and "entities (fold (layer_del D) ks s) \<subseteq>\<^sub>m entities s" and "next_block (fold (layer_del D) ks s) = next_block s"
    and "k \<in> set ks \<Longrightarrow> coll_map s k = Some (Some a) \<Longrightarrow> entities (fold (layer_del D) ks s) a = None"
proof -
  have "foldE remove_key ks s = Inr (fold (layer_del D) ks s) \<and> coll_map (fold (layer_del D) ks s) = coll_map s |` (- set ks) \<and>
    entities (fold (layer_del D) ks s) \<subseteq>\<^sub>m entities s \<and> next_block (fold (layer_del D) ks s) = next_block s \<and>
    (k \<in> set ks \<longrightarrow> coll_map s k = Some (Some a) \<longrightarrow> entities (fold (layer_del D) ks s) a = None)"
    using assms
  proof (induction ks arbitrary: s)
    case Nil
    then show ?case by (simp add: restrict_map_def fun_eq_iff)
  next
    case (Cons x ks)
    let ?s = "layer_del D x s"
    have x: "x \<notin> D" "set ks \<inter> D = {}" using Cons.prems(2) by auto
    note del = layer_del_run [OF Cons.prems(1) x(1)]
    from del(1) obtain rc where rc: "coll_remove x s = Inr (rc, ?s)" by blast
    note r = del(4) [unfolded removed_def]
    note IH = Cons.IH [OF del(2) x(2)]
    have "entities (fold (layer_del D) ks ?s) \<subseteq>\<^sub>m entities s" using IH r by (blast intro: map_le_trans)
    moreover have "coll_map (fold (layer_del D) ks ?s) = coll_map s |` (- set (x # ks))"
      using IH r by (auto simp: restrict_map_def fun_eq_iff)
    moreover have "entities (fold (layer_del D) ks ?s) a = None" if "k \<in> set (x # ks)" "coll_map s k = Some (Some a)"
    proof (cases "x = k")
      case True
      have "entities ?s a = None" using r that(2) unfolding True by simp
      with IH show ?thesis by (metis domIff map_le_def)
    next
      case False
      with that IH r show ?thesis by simp
    qed
    ultimately show ?case using IH r rc by (simp add: remove_key_def)
  qed
  then show "foldE remove_key ks s = Inr (fold (layer_del D) ks s)"
    "coll_map (fold (layer_del D) ks s) = coll_map s |` (- set ks)"
    "entities (fold (layer_del D) ks s) \<subseteq>\<^sub>m entities s" "next_block (fold (layer_del D) ks s) = next_block s"
    "k \<in> set ks \<Longrightarrow> coll_map s k = Some (Some a) \<Longrightarrow> entities (fold (layer_del D) ks s) a = None" by simp_all
qed

lemma ue_keys_iff:
  assumes "0 \<le> rb" "rb < 256"
  shows "bearer_key c rb srb \<in> set (ue_keys ctxt) \<longleftrightarrow> same_ue c ctxt \<and> rb < (if srb then 2 else 11)"
proof -
  have eq: "bearer_key c rb srb = bearer_key ctxt x srb' \<longleftrightarrow> same_ue c ctxt \<and> rb = x \<and> srb = srb'" if "0 \<le> x" "x < 256" for x srb'
    using bearer_keys [OF assms that, of c srb ctxt srb'] by (auto simp: same_ue_def)
  have in_image: "bearer_key c rb srb \<in> (\<lambda>x. bearer_key ctxt x srb') ` A \<longleftrightarrow> same_ue c ctxt \<and> rb \<in> A \<and> srb = srb'"
    if "A \<subseteq> {0..<256}" for A srb'
    using eq that by (auto simp: image_iff subset_iff)
  have small: "{0, 1} \<subseteq> {0..<256 :: int}" "{0..10} \<subseteq> {0..<256 :: int}" by auto
  have "bearer_key c rb srb \<in> (\<lambda>x. bearer_key ctxt x True) ` {0, 1} \<longleftrightarrow> same_ue c ctxt \<and> rb \<in> {0, 1} \<and> srb"
    "bearer_key c rb srb \<in> (\<lambda>x. bearer_key ctxt x False) ` {0..10} \<longleftrightarrow> same_ue c ctxt \<and> rb \<in> {0..10} \<and> \<not> srb"
    unfolding in_image [OF small(1)] in_image [OF small(2)] by simp_all
  moreover have "set (ue_keys ctxt) = (\<lambda>x. bearer_key ctxt x True) ` {0, 1} \<union> (\<lambda>x. bearer_key ctxt x False) ` {0..10}"
    by (auto simp: ue_keys_def maxDRB_def)
  ultimately show ?thesis using assms(1) by (simp only: Un_iff) auto
qed

lemma default_key_kept: "default_key c \<notin> set (ue_keys ctxt)"
proof
  assume "default_key c \<in> set (ue_keys ctxt)"
  then obtain x srb where x: "default_key c = bearer_key ctxt x srb" "0 \<le> x" "x < 256"
    by (fastforce simp: ue_keys_def maxDRB_def)
  from bearer_keys [OF x(2,3,2,3), of ctxt srb c srb] x(1) show False by simp
qed

text \<open>C15.
  Removing a UE, in a layer in which every entity has its own keys and which is well-formed, up to the second keys
  \<open>D\<close> under which entities of default bearers are known (none at the eNodeB, whose RRC never names a default bearer): the
  bearers of other UEs stay as they are, the data bearers 0 to 10 of the UE and its signalling bearers 0 and 1
  are gone, and the layer is as well-formed as before. The signalling bearer 2 of the UE stays. The entry of its
  default bearer stays too, and, as the entity is freed with its data bearer, it is then a pointer to freed memory.
\<close>

theorem pdcp_remove_UE_exact:
  assumes "D \<subseteq> range default_key" "layer_ok_but D s" "keys_owned_but D s" "0 \<le> rb" "rb < 256"
  shows "\<exists>s1. pdcp_remove_UE ctxt s = Inr s1 \<and> layer_ok_but D s1 \<and> keys_owned_but D s1 \<and>
    bearers s1 (bearer_key c rb srb) =
      (if same_ue c ctxt \<and> rb < (if srb then 2 else 11) then None else bearers s (bearer_key c rb srb)) \<and>
    coll_map s1 (default_key c) = coll_map s (default_key c) \<and>
    (\<forall>drb a. 0 \<le> drb \<and> drb < 11 \<and> coll_map s (bearer_key ctxt drb False) = Some (Some a) \<longrightarrow> entities s1 a = None)"
proof -
  have inv: "store_ok D s" using assms(2,3) by simp
  have apart: "set (ue_keys ctxt) \<inter> D = {}" using assms(1) default_key_kept by blast
  note run = remove_keys [OF inv apart]
  note all = layer.stored_del_all [where D = D, OF inv, of "ue_keys ctxt"] layer.inv_del_all [where D = D, OF inv, of "ue_keys ctxt"]
  have "bearer_key c rb srb \<notin> D" using assms(1) bearer_keys [OF assms(4,5,4,5), of c srb] by blast
  then have at: "bearers (fold (layer_del D) (ue_keys ctxt) s) (bearer_key c rb srb) =
      (if bearer_key c rb srb \<in> set (ue_keys ctxt) then None else bearers s (bearer_key c rb srb))"
    using all(1) [of "bearer_key c rb srb"] by (simp add: own_simps(2))
  have freed: "\<forall>drb a. 0 \<le> drb \<and> drb < 11 \<and> coll_map s (bearer_key ctxt drb False) = Some (Some a) \<longrightarrow>
      entities (fold (layer_del D) (ue_keys ctxt) s) a = None"
    using run(5) ue_keys_iff [of _ ctxt False ctxt] by (fastforce simp: same_ue_def)
  with all(2) at ue_keys_iff [OF assms(4,5)] default_key_kept run(1,2) show ?thesis
    by (intro exI [of _ "fold (layer_del D) (ue_keys ctxt) s"]) (simp add: pdcp_remove_UE_fold)
qed

text \<open>
  So a default bearer cannot be set up again after its UE has been removed: the table frees the entity that the stale
  entry leads to.
\<close>

theorem pdcp_default_bearer_freed_twice:
  assumes ok: "layer_ok s" "keys_owned s" "ctxt_ok ctxt" and drb: "0 \<le> drb" "drb < 11" "lc \<noteq> 1" "lc \<noteq> 2"
    and none: "bearers s (bearer_key ctxt drb False) = None" "coll_map s (default_key ctxt) = None"
    and sec: "security_mode sec = 0xff"
  shows "\<exists>s1 s2. rrc_pdcp_config_asn1_req ctxt (default_request drb lc) sec s = Inr (False, s1) \<and>
    pdcp_remove_UE ctxt s1 = Inr s2 \<and> rrc_pdcp_config_asn1_req ctxt (default_request drb lc) sec' s2 = Inl Undefined"
proof -
  let ?k = "bearer_key ctxt drb False" and ?d = "default_key ctxt"
  obtain s1 a where s1: "rrc_pdcp_config_asn1_req ctxt (default_request drb lc) sec s = Inr (False, s1)"
    "layer_ok_but {?d} s1" "key_blocks s1 = key_blocks s" "own {?d} s1 = (bearers s)(?k \<mapsto> um_entity ctxt sec drb lc)"
    "coll_map s1 ?k = Some (Some a)" "coll_map s1 ?d = Some (Some a)"
    using config_default [OF ok(1,3) drb none] by blast
  have "entity_keys (um_entity ctxt sec drb lc) = []"
    using sec by (simp add: um_entity_def entity_keys_def map_filter_simps spec_entity_def maybe_security_def added_def zero_pdcp_def)
  then have inv: "store_ok {?d} s1"
    using ok(2) s1(2) unfolding keys_owned_but_def own_simps(1) s1(3,4) by (auto split: if_splits)
  have apart: "set (ue_keys ctxt) \<inter> {?d} = {}" using default_key_kept by blast
  note run = remove_keys [OF inv apart]
  define s2 where "s2 = fold (layer_del {?d}) (ue_keys ctxt) s1"
  have k: "?k \<in> set (ue_keys ctxt)" using ue_keys_iff [of drb ctxt False ctxt] drb(1,2) by (simp add: same_ue_def)
  have s2: "coll_map s2 ?k = None" "coll_map s2 ?d = Some (Some a)" "entities s2 a = None" "layer_ok_but {?d} s2"
    using run(2) run(5) [OF k s1(5)] k apart s1(6) layer.inv_del_all [where D = "{?d}", OF inv, of "ue_keys ctxt"]
    by (simp_all add: s2_def)
  have "?k \<notin> {?d}" using k apart by blast
  from layer_ok_butD(2) [OF s1(2) this s1(5)] obtain p where "entities s1 a = Some p" by auto
  then have bound: "a < next_block s2" using layer_ok_butD(4) [OF s1(2)] run(4) by (simp add: s2_def)
  obtain h where h: "pdcp_coll s2 = Some h" "ht_ok h" using layer_ok_butD(1) [OF s2(4)] by blast
  have map: "ht_map h ?k = None" "ht_map (ht_put ?k d h) ?d = Some (Some a)" for d
    using h s2(1,2) table.stored_put [OF h(2), of ?k] \<open>?k \<notin> {?d}\<close> by (auto simp: coll_map_def)
  have "uint (of_int drb :: u16) = drb" using drb(1,2) by (simp add: uint_word_of_int)
  then have "rrc_pdcp_config_asn1_req ctxt (default_request drb lc) sec' s2 = Inl Undefined"
    using drb h map bound s2(3) table.inv_put [OF h(2), of ?k]
    by (simp add: rrc_pdcp_config_asn1_req_def default_request_def um_request_def list_of_def config_drb_def
        coll_get_def coll_insert_def hashtable_ops freed_data_def pdcp_free_def entity_at_def new_entity_def put_entity_def
        maxDRB_def Let_def)
  with s1(1) run(1) show ?thesis by (auto simp: pdcp_remove_UE_fold s2_def)
qed

section \<open>Keys that are shared\<close>

text \<open>Removals of a layer whose keys may be shared: what is freed stays freed.\<close>

lemma remove_key_cases:
  assumes "layer_ok s"
  obtains "remove_key k s = Inl Undefined"
    | s1 where "remove_key k s = Inr s1" "layer_ok s1" "bearers s1 = (bearers s)(k := None)" "key_blocks s1 \<subseteq>\<^sub>m key_blocks s"
      "\<And>p b. bearers s k = Some p \<Longrightarrow> b \<in> set (entity_keys p) \<Longrightarrow> key_blocks s1 b = None"
proof (cases "bearers s k")
  case None
  then have "bearers s = (bearers s)(k := None)" by auto
  with None coll_remove_spec [OF assms, of k] that(2) show thesis by (auto simp: remove_key_def)
next
  case (Some p)
  with coll_remove_spec [OF assms, of k] that show thesis
    by (fastforce simp: remove_key_def map_le_def restrict_map_def split: if_splits)
qed

lemma remove_dead:
  assumes "layer_ok s" "k \<in> set ks" "bearers s k = Some p" "b \<in> set (entity_keys p)" "key_blocks s b = None"
  shows "foldE remove_key ks s = Inl Undefined"
  using assms
proof (induction ks arbitrary: s)
  case Nil
  then show ?case by simp
next
  case (Cons x ks)
  show ?case
  proof (cases "x = k")
    case True
    have "\<not> freeable s p" using Cons.prems(4,5) by (auto simp: freeable_def dom_def)
    with True coll_remove_spec [OF Cons.prems(1), of k] Cons.prems(3) show ?thesis by (simp add: remove_key_def)
  next
    case False
    show ?thesis
    proof (cases rule: remove_key_cases [OF Cons.prems(1), of x, case_names fail run])
      case fail
      then show ?thesis by simp
    next
      case (run s1)
      have "key_blocks s1 b = None" using run(4) Cons.prems(5) by (metis domI domIff map_le_implies_dom_le subsetD)
      with Cons.IH [OF run(2) _ _ Cons.prems(4)] run(1,3) Cons.prems(2,3) False show ?thesis by simp
    qed
  qed
qed

lemma remove_shared:
  assumes "layer_ok s" "k \<in> set ks" "k' \<in> set ks" "k \<noteq> k'" "distinct ks" "bearers s k = Some p" "bearers s k' = Some p'"
    "b \<in> set (entity_keys p)" "b \<in> set (entity_keys p')"
  shows "foldE remove_key ks s = Inl Undefined"
  using assms
proof (induction ks arbitrary: s)
  case Nil
  then show ?case by simp
next
  case (Cons x ks)
  show ?case
  proof (cases rule: remove_key_cases [OF Cons.prems(1), of x, case_names fail run])
    case fail
    then show ?thesis by simp
  next
    case (run s1)
    consider "x = k" | "x = k'" | "x \<noteq> k" "x \<noteq> k'" by blast
    then show ?thesis
    proof cases
      case 1
      with run remove_dead [OF run(2), of k' ks p' b] Cons.prems(3,4,6-9) show ?thesis by simp
    next
      case 2
      with run remove_dead [OF run(2), of k ks p b] Cons.prems(2,4,6-9) show ?thesis by simp
    next
      case 3
      with run(1,3) Cons.IH [OF run(2) _ _ Cons.prems(4) _ _ _ Cons.prems(8,9)] Cons.prems(2,3,5-7) show ?thesis by simp
    qed
  qed
qed

text \<open>The keys of the request end up in every entity that it configures.\<close>

lemma entity_keys_shared:
  "security_mode sec \<le> 0x77 \<Longrightarrow> key_UPenc sec = Some b \<Longrightarrow> b \<in> set (entity_keys (spec_entity ctxt sec bc old))"
  by (cases old)
    (auto simp: entity_keys_def map_filter_simps spec_entity_def maybe_security_def pdcp_config_set_security_def split: option.splits)

definition both_bearers :: "int \<Rightarrow> int \<Rightarrow> config_req" where
  "both_bearers drb lc = (um_request drb lc)\<lparr>srb2add_list := Some [(1, Some SRB_rlc_defaultValue)]\<rparr>"

text \<open>C37.
  A UE that is configured with security for its signalling bearer and a data bearer in one request cannot be removed: both
  entities hold the pointers to the same keys, each frees them, and the second one frees memory that has been freed. This
  holds in any layer that is well-formed, whether the bearers are new or not.
\<close>

theorem pdcp_shared_keys_freed_twice:
  assumes "layer_ok s" "ctxt_ok ctxt" "0 \<le> drb" "drb < 11" "lc \<noteq> 1" "lc \<noteq> 2"
    and "security_mode sec \<le> 0x77" "key_UPenc sec = Some b"
  shows "\<exists>s1. rrc_pdcp_config_asn1_req ctxt (both_bearers drb lc) sec s = Inr (False, s1) \<and> layer_ok s1 \<and>
    pdcp_remove_UE ctxt s1 = Inl Undefined"
proof -
  have "adds_only (both_bearers drb lc)"
    using assms(4) by (simp add: adds_only_def both_bearers_def um_request_def list_of_def drb_ok_def maxDRB_def)
  from config_adds [OF assms(1,2) this, of sec] obtain s1 where
    s1: "rrc_pdcp_config_asn1_req ctxt (both_bearers drb lc) sec s = Inr (False, s1)" "layer_ok s1"
    "bearers s1 = spec_config ctxt sec (both_bearers drb lc) (bearers s)" by blast
  let ?k = "bearer_key ctxt 1 True" and ?k' = "bearer_key ctxt drb False"
  have keys: "?k \<noteq> ?k'" using bearer_keys [of 1 drb ctxt True ctxt False] assms(3,4) by simp
  have "\<exists>l l' old old'. bearers s1 ?k = Some (spec_entity ctxt sec l old) \<and> bearers s1 ?k' = Some (spec_entity ctxt sec l' old')"
    unfolding s1(3) using assms(5,6) keys
    by (auto simp: spec_config_def both_bearers_def um_request_def list_of_def spec_srb_def spec_drb_def configures_def Let_def)
  then obtain p p' where at: "bearers s1 ?k = Some p" "bearers s1 ?k' = Some p'" "b \<in> set (entity_keys p)" "b \<in> set (entity_keys p')"
    using entity_keys_shared [OF assms(7,8)] by blast
  have member: "?k \<in> set (ue_keys ctxt)" "?k' \<in> set (ue_keys ctxt)"
    using ue_keys_iff [of 1 ctxt True ctxt] ue_keys_iff [of drb ctxt False ctxt] assms(3,4) by (simp_all add: same_ue_def)
  have "distinct (ue_keys ctxt)"
    using bearer_keys [of _ _ ctxt _ ctxt _] by (auto simp: ue_keys_def maxDRB_def distinct_map inj_on_def upto.simps)
  from remove_shared [OF s1(2) member keys this at] s1(1,2) show ?thesis by (auto simp: pdcp_remove_UE_fold)
qed

section \<open>Examples\<close>

lemma pdcp_shared_keys_freed_twice_witness:
  "\<exists>s1. rrc_pdcp_config_asn1_req enb_ctxt (both_bearers 1 3) (eea2 0) (new_layer [0 \<mapsto> replicate 32 7]) = Inr (False, s1) \<and>
    pdcp_remove_UE enb_ctxt s1 = Inl Undefined"
proof -
  have "ctxt_ok enb_ctxt" by (simp add: ctxt_ok_def enb_ctxt_def)
  moreover have "security_mode (eea2 0) \<le> 0x77" "key_UPenc (eea2 0) = Some 0" by (simp_all add: eea2_def)
  ultimately show ?thesis
    using pdcp_shared_keys_freed_twice [OF new_layer_ok(1), of enb_ctxt 1 3 "eea2 0" 0 "[0 \<mapsto> replicate 32 7]"] by auto
qed

text \<open>A UE with the signalling bearers 1 and 2 and a data bearer, without security.\<close>

definition two_srbs :: config_req where
  "two_srbs = (um_request 1 3)\<lparr>srb2add_list := Some [(1, Some SRB_rlc_defaultValue), (2, Some SRB_rlc_defaultValue)]\<rparr>"

lemma two_srbs_layer:
  "\<exists>s. rrc_pdcp_config_asn1_req enb_ctxt two_srbs no_security (new_layer Map.empty) = Inr (False, s) \<and> layer_ok s \<and> keys_owned s \<and>
    (\<forall>k. bearers s k \<noteq> None \<longleftrightarrow> k = bearer_key enb_ctxt 1 True \<or> k = bearer_key enb_ctxt 2 True \<or> k = bearer_key enb_ctxt 1 False)"
proof -
  have "adds_only two_srbs" by (simp add: adds_only_def two_srbs_def um_request_def list_of_def drb_ok_def maxDRB_def)
  moreover have "ctxt_ok enb_ctxt" by (simp add: ctxt_ok_def enb_ctxt_def)
  ultimately obtain s where s: "rrc_pdcp_config_asn1_req enb_ctxt two_srbs no_security (new_layer Map.empty) = Inr (False, s)" "layer_ok s"
    "bearers s = spec_config enb_ctxt no_security two_srbs (bearers (new_layer Map.empty))"
    using config_adds [OF new_layer_ok(1)] by blast
  have empty: "bearers (new_layer Map.empty) = Map.empty" by (simp add: fun_eq_iff new_layer_ok)
  have none: "entity_keys (spec_entity enb_ctxt no_security bc None) = []" for bc
    by (simp add: entity_keys_def map_filter_simps spec_entity_def maybe_security_def no_security_def added_def zero_pdcp_def)
  have k: "bearer_key enb_ctxt 1 True \<noteq> bearer_key enb_ctxt 2 True" "bearer_key enb_ctxt 1 True \<noteq> bearer_key enb_ctxt 1 False"
    "bearer_key enb_ctxt 2 True \<noteq> bearer_key enb_ctxt 1 False"
    using bearer_keys [of 1 2 enb_ctxt True enb_ctxt True] bearer_keys [of 1 1 enb_ctxt True enb_ctxt False]
      bearer_keys [of 2 1 enb_ctxt True enb_ctxt False] by simp_all
  obtain b1 b2 b3 where b: "bearers s = [bearer_key enb_ctxt 1 True \<mapsto> spec_entity enb_ctxt no_security b1 None,
    bearer_key enb_ctxt 2 True \<mapsto> spec_entity enb_ctxt no_security b2 None,
    bearer_key enb_ctxt 1 False \<mapsto> spec_entity enb_ctxt no_security b3 None]"
    using k unfolding s(3) empty
    by (auto simp: spec_config_def two_srbs_def um_request_def list_of_def spec_srb_def spec_drb_def configures_def Let_def)
  have "keys_owned s" unfolding keys_owned_but_def own_simps(1) b by (auto simp: none)
  moreover have "bearers s k \<noteq> None \<longleftrightarrow> k = bearer_key enb_ctxt 1 True \<or> k = bearer_key enb_ctxt 2 True \<or> k = bearer_key enb_ctxt 1 False" for k
    unfolding b by auto
  ultimately show ?thesis using s(1,2) by blast
qed

text \<open>
  The eNodeB removes this UE: the signalling bearer 2 stays. The UE has a default bearer: its second entry leads to an entity
  that is gone.
\<close>

lemma pdcp_remove_UE_exact_witness:
  "(\<exists>s s1. rrc_pdcp_config_asn1_req enb_ctxt two_srbs no_security (new_layer Map.empty) = Inr (False, s) \<and>
      pdcp_remove_UE enb_ctxt s = Inr s1 \<and> layer_ok s1 \<and> bearers s1 (bearer_key enb_ctxt 1 False) = None \<and>
      bearers s (bearer_key enb_ctxt 2 True) \<noteq> None \<and> bearers s1 (bearer_key enb_ctxt 2 True) = bearers s (bearer_key enb_ctxt 2 True)) \<and>
   (\<exists>s s1 a. rrc_pdcp_config_asn1_req ue_ctxt (default_request 1 3) no_security (new_layer Map.empty) = Inr (False, s) \<and>
      coll_map s (default_key ue_ctxt) = Some (Some a) \<and> pdcp_remove_UE ue_ctxt s = Inr s1 \<and>
      bearers s1 (bearer_key ue_ctxt 1 False) = None \<and> coll_map s1 (default_key ue_ctxt) = Some (Some a) \<and> entities s1 a = None)"
    (is "?signalling \<and> ?default")
proof
  obtain s where s: "rrc_pdcp_config_asn1_req enb_ctxt two_srbs no_security (new_layer Map.empty) = Inr (False, s)"
    "layer_ok s" "keys_owned s" "bearers s (bearer_key enb_ctxt 2 True) \<noteq> None" using two_srbs_layer by blast
  note remove = pdcp_remove_UE_exact [of "{}" s _ enb_ctxt enb_ctxt, OF empty_subsetI, unfolded layer_ok_but_none, OF s(2,3)]
  from remove [of 2 True] remove [of 1 False] s(1,4) show ?signalling by (auto simp: same_ue_def)
next
  have k: "coll_map (new_layer Map.empty) (default_key ue_ctxt) = None"
    using coll_get_ok [OF new_layer_ok(1), of "Map.empty" "default_key ue_ctxt"] by (simp add: new_layer_ok)
  have ctxt: "ctxt_ok ue_ctxt" by (simp add: ctxt_ok_def ue_ctxt_def NUMBER_OF_UE_MAX_def)
  have small: "0 \<le> (1 :: int)" "(1 :: int) < 11" "(1 :: int) < 256" "(3 :: int) \<noteq> 1" "(3 :: int) \<noteq> 2" by simp_all
  from config_default [OF new_layer_ok(1) ctxt small(1,2,4,5) new_layer_ok(2) k, of no_security] obtain s a where
    s: "rrc_pdcp_config_asn1_req ue_ctxt (default_request 1 3) no_security (new_layer Map.empty) = Inr (False, s)"
    "layer_ok_but {default_key ue_ctxt} s"
    "own {default_key ue_ctxt} s = (bearers (new_layer Map.empty))(bearer_key ue_ctxt 1 False \<mapsto> um_entity ue_ctxt no_security 1 3)"
    "coll_map s (bearer_key ue_ctxt 1 False) = Some (Some a)" "coll_map s (default_key ue_ctxt) = Some (Some a)" by blast
  have "entity_keys (um_entity ue_ctxt no_security 1 3) = []"
    by (simp add: um_entity_def entity_keys_def map_filter_simps spec_entity_def maybe_security_def no_security_def added_def zero_pdcp_def)
  then have "keys_owned_but {default_key ue_ctxt} s"
    unfolding keys_owned_but_def s(3) by (auto simp: new_layer_ok split: if_splits)
  moreover have "{default_key ue_ctxt} \<subseteq> range default_key" by simp
  ultimately obtain s1 where s1: "pdcp_remove_UE ue_ctxt s = Inr s1" "bearers s1 (bearer_key ue_ctxt 1 False) = None"
    "coll_map s1 (default_key ue_ctxt) = coll_map s (default_key ue_ctxt)"
    "\<forall>drb a. 0 \<le> drb \<and> drb < 11 \<and> coll_map s (bearer_key ue_ctxt drb False) = Some (Some a) \<longrightarrow> entities s1 a = None"
    using pdcp_remove_UE_exact [OF _ s(2) _ small(1,3), of ue_ctxt ue_ctxt False] by (auto simp: same_ue_def)
  have "entities s1 a = None" using s1(4) s(4) small(1,2) by blast
  with s s1 show ?default by auto
qed

end
