(* ===== verification/PdcpRelease.thy ===== *)
theory PdcpRelease
  imports PdcpRemoval
begin

text \<open>
  The release of data bearers by the RRC: the bearer that is released is not the one that the request names, but the data
  bearer with the identity of the last signalling bearer of the request.
\<close>

section \<open>The identity that is used\<close>

definition last_srb :: "config_req \<Rightarrow> int" where
  "last_srb req = (if list_of (srb2add_list req) = [] then 0 else fst (last (list_of (srb2add_list req))))"

lemma spec_srb_id: "cur_srb_id (fst (fold (spec_srb ctxt sec) xs (l, m))) = (if xs = [] then cur_srb_id l else fst (last xs))"
  by (induction xs arbitrary: l m) (auto simp: spec_srb_def Let_def)

lemma read_config_id [simp]: "cur_srb_id (read_pdcp_config c l) = cur_srb_id l"
  by (auto simp: read_pdcp_config_def Let_def split: option.splits header_compression.splits)

lemma spec_drb_id: "cur_srb_id (fst (fold (spec_drb ctxt sec) xs st)) = cur_srb_id (fst st)"
proof (induction xs arbitrary: st)
  case Nil
  then show ?case by simp
next
  case (Cons x xs)
  have "cur_srb_id (fst (spec_drb ctxt sec x st)) = cur_srb_id (fst st)"
    by (cases st) (auto simp: spec_drb_def Let_def split: option.splits)
  with Cons.IH show ?case by simp
qed

section \<open>One release\<close>

lemma key_blocks_ok:
  assumes "layer_ok s"
  shows "layer_ok (s\<lparr>key_blocks := m\<rparr>)" "bearers (s\<lparr>key_blocks := m\<rparr>) = bearers s" "coll_map (s\<lparr>key_blocks := m\<rparr>) = coll_map s"
proof -
  show map: "coll_map (s\<lparr>key_blocks := m\<rparr>) = coll_map s" by (simp add: coll_map_def)
  show "bearers (s\<lparr>key_blocks := m\<rparr>) = bearers s" unfolding bearers_def map by (simp cong: option.case_cong)
  show "layer_ok (s\<lparr>key_blocks := m\<rparr>)" using assms unfolding layer_ok_def map by (simp add: arrays_ok_def)
qed

lemma release_one:
  assumes ok: "layer_ok s" and at: "bearers s (bearer_key ctxt (cur_srb_id l) False) = Some p"
  defines "k \<equiv> bearer_key ctxt (cur_srb_id l) False"
  shows "if freeable s p
    then \<exists>l1 s1. release_drb ctxt sec None d (l, s) = Inr (l1, s1) \<and> cur_srb_id l1 = cur_srb_id l \<and> layer_ok s1 \<and>
      bearers s1 = (bearers s)(k := None) \<and> key_blocks s1 = key_blocks s |` (- set (entity_keys p))
    else release_drb ctxt sec None d (l, s) = Inl Undefined"
proof -
  from coll_get_ok [OF ok, of k] at obtain a where a: "coll_map s k = Some (Some a)" "entities s a = Some p"
    "coll_get k s = Inr (HASH_TABLE_OK, Some a)" by (auto simp: k_def)
  show ?thesis
  proof (cases "freeable s p")
    case False
    then show ?thesis
      using a by (auto simp: release_drb_def k_def [symmetric] entity_at_def pdcp_config_req_asn1_def free_keys_fold free_blocks
          freeable_def Let_def)
  next
    case True
    let ?s = "s\<lparr>key_blocks := key_blocks s |` (- set (entity_keys p))\<rparr>" and ?t = "put_entity a zero_pdcp"
    note s = key_blocks_ok [OF ok, of "key_blocks s |` (- set (entity_keys p))"]
    have "coll_map ?s k = Some (Some a)" using a(1) by (simp only: s(3))
    note t = put_entity_ok [OF s(1) this, of zero_pdcp]
    have free: "freeable (?t ?s) zero_pdcp" by (simp add: freeable_def entity_keys_def map_filter_simps zero_pdcp_def)
    have "bearers (?t ?s) k = Some zero_pdcp" by (simp add: t(2))
    with coll_remove_spec [OF t(1), of k] free obtain s1 where s1: "coll_remove k (?t ?s) = Inr (HASH_TABLE_OK, s1)" "layer_ok s1"
      "bearers s1 = (bearers (?t ?s))(k := None)" "key_blocks s1 = key_blocks (?t ?s) |` (- set (entity_keys zero_pdcp))" by auto
    have "release_drb ctxt sec None d (l, s) = Inr (l\<lparr>cur_pdcp := Some a, cur_lc_id := uint (pdcp_lcid p)\<rparr>, s1)"
      using a True s1(1) by (simp add: release_drb_def k_def [symmetric] entity_at_def pdcp_config_req_asn1_def free_keys_fold
          free_blocks freeable_def upd_entity_def Let_def)
    moreover have "bearers s1 = (bearers s)(k := None)" unfolding s1(3) t(2) s(2) by simp
    moreover have "key_blocks s1 = key_blocks s |` (- set (entity_keys p))"
      unfolding s1(4) t(3) by (simp add: entity_keys_def map_filter_simps zero_pdcp_def restrict_map_def fun_eq_iff)
    ultimately show ?thesis using True s1(2) by auto
  qed
qed

lemma release_nothing:
  assumes "layer_ok s" "bearers s (bearer_key ctxt (cur_srb_id l) False) = None"
  shows "\<exists>l1. foldE (release_drb ctxt sec dd) ds (l, s) = Inr (l1, s)"
  using assms(2)
proof (induction ds arbitrary: l)
  case Nil
  then show ?case by simp
next
  case (Cons d ds)
  have "coll_get (bearer_key ctxt (cur_srb_id l) False) s = Inr (HASH_TABLE_KEY_NOT_EXISTS, None)"
    using coll_get_ok [OF assms(1)] Cons.prems by force
  then have "release_drb ctxt sec dd d (l, s) = Inr (l\<lparr>cur_pdcp := None\<rparr>, s)" by (simp add: release_drb_def)
  with Cons.IH [of "l\<lparr>cur_pdcp := None\<rparr>"] Cons.prems show ?case by simp
qed

section \<open>The request\<close>

text \<open>C38.
  A request that releases data bearers, after any additions, does not release those that it names: whatever its list says, as long
  as there is one bearer in it, it looks up the data bearer whose identity is that of the last signalling
  bearer of the request, or zero when the request has no signalling bearers. When there is no such data bearer, as there
  is none with the identity zero, nothing is released and the request succeeds all the same; when there is one, and the
  request names no default bearer, it is taken out with its keys, and no other (and when its keys have been freed before, they
  are freed again). The layer is well-formed, every entity under one key, and the additions are those that C12 covers.
\<close>

theorem pdcp_release_ignores_list:
  assumes "layer_ok s" "ctxt_ok ctxt" "adds_only req" "ds \<noteq> []"
  defines "k \<equiv> bearer_key ctxt (last_srb req) False" and "release \<equiv> req\<lparr>drb2release_list := Some ds\<rparr>"
  shows "\<exists>s1. rrc_pdcp_config_asn1_req ctxt req sec s = Inr (False, s1) \<and>
    (case bearers s1 k of
       None \<Rightarrow> rrc_pdcp_config_asn1_req ctxt release sec s = Inr (False, s1)
     | Some p \<Rightarrow> defaultDRB req = None \<longrightarrow>
         (if freeable s1 p
          then \<exists>s2. rrc_pdcp_config_asn1_req ctxt release sec s = Inr (False, s2) \<and> layer_ok s2 \<and>
            bearers s2 = (bearers s1)(k := None) \<and> key_blocks s2 = key_blocks s1 |` (- set (entity_keys p))
          else rrc_pdcp_config_asn1_req ctxt release sec s = Inl Undefined))"
proof -
  from config_loops [OF assms(1-3), of sec] obtain l1 s1 l2 s2 where
    run: "each (config_srb ctxt sec) (list_of (srb2add_list req)) (locals_start, s) = Inr (False, l1, s1)"
    "each (config_drb ctxt sec (defaultDRB req)) (list_of (drb2add_list req)) (l1, s1) = Inr (False, l2, s2)"
    "layer_ok s2" "(norm l2, bearers s2) = fold (spec_drb ctxt sec) (list_of (drb2add_list req))
        (fold (spec_srb ctxt sec) (list_of (srb2add_list req)) (locals_start, bearers s))" by blast
  have "cur_srb_id (norm l2) = last_srb req"
    using arg_cong [OF run(4), of "\<lambda>st. cur_srb_id (fst st)"] by (simp add: spec_drb_id spec_srb_id last_srb_def locals_start_def)
  then have id: "cur_srb_id l2 = last_srb req" by (simp add: norm_def)
  have lists: "list_of (drb2release_list req) = []" "list_of (pmch_InfoList req) = []" using assms(3) by (simp_all add: adds_only_def)
  have "rrc_pdcp_config_asn1_req ctxt req sec s = Inr (False, s2)"
    using run(1,2) lists by (simp add: rrc_pdcp_config_asn1_req_def)
  moreover have release: "rrc_pdcp_config_asn1_req ctxt release sec s =
      bindE (foldE (release_drb ctxt sec (defaultDRB req)) ds (l2, s2)) (\<lambda>(_, s3). Inr (False, s3))"
    using run(1,2) lists by (simp add: rrc_pdcp_config_asn1_req_def release_def list_of_def)
  moreover have "rrc_pdcp_config_asn1_req ctxt release sec s = Inr (False, s2)" if "bearers s2 k = None"
    using release_nothing [OF run(3), of ctxt l2 sec "defaultDRB req" ds] that by (auto simp: release id k_def)
  moreover have "if freeable s2 p
      then \<exists>s3. rrc_pdcp_config_asn1_req ctxt release sec s = Inr (False, s3) \<and> layer_ok s3 \<and>
        bearers s3 = (bearers s2)(k := None) \<and> key_blocks s3 = key_blocks s2 |` (- set (entity_keys p))
      else rrc_pdcp_config_asn1_req ctxt release sec s = Inl Undefined" if p: "bearers s2 k = Some p" "defaultDRB req = None" for p
  proof -
    obtain d ds' where ds: "ds = d # ds'" using assms(4) by (cases ds) auto
    note one = release_one [OF run(3), of ctxt l2, unfolded id, folded k_def, OF p(1), of sec d]
    show ?thesis
    proof (cases "freeable s2 p")
      case False
      with one p(2) show ?thesis by (simp add: release ds)
    next
      case True
      with one obtain l3 s3 where s3: "release_drb ctxt sec None d (l2, s2) = Inr (l3, s3)" "cur_srb_id l3 = last_srb req"
        "layer_ok s3" "bearers s3 = (bearers s2)(k := None)" "key_blocks s3 = key_blocks s2 |` (- set (entity_keys p))" by auto
      have "bearers s3 (bearer_key ctxt (cur_srb_id l3) False) = None" by (simp add: s3(2,4) k_def)
      from release_nothing [OF s3(3) this, of sec None ds'] True s3 p(2) show ?thesis by (auto simp: release ds)
    qed
  qed
  ultimately show ?thesis by (auto split: option.splits)
qed

text \<open>
  A UE has the data bearer 1 only. A request for the release of bearer 1 does nothing; one for the release of bearer 2 that
  comes with the signalling bearer 1 takes bearer 1 out.
\<close>

definition with_srbs :: "srb_to_add_mod list \<Rightarrow> config_req" where
  "with_srbs srbs = \<lparr>srb2add_list = Some srbs, drb2add_list = None, drb2release_list = None, pmch_InfoList = None, defaultDRB = None\<rparr>"

lemma pdcp_release_ignores_list_witness:
  "\<exists>s s1 s2. layer_ok s \<and> bearers s (bearer_key enb_ctxt 1 False) \<noteq> None \<and>
    rrc_pdcp_config_asn1_req enb_ctxt ((with_srbs [])\<lparr>drb2release_list := Some [1]\<rparr>) no_security s = Inr (False, s1) \<and>
    bearers s1 (bearer_key enb_ctxt 1 False) \<noteq> None \<and>
    rrc_pdcp_config_asn1_req enb_ctxt ((with_srbs [(1, None)])\<lparr>drb2release_list := Some [2]\<rparr>) no_security s = Inr (False, s2) \<and>
    bearers s2 (bearer_key enb_ctxt 1 False) = None"
proof -
  obtain s where s: "layer_ok s" "keys_owned s" "bearers s (bearer_key enb_ctxt 1 False) \<noteq> None"
    "bearers s (bearer_key enb_ctxt 1 True) \<noteq> None"
    "\<And>k. bearers s k \<noteq> None \<Longrightarrow> k = bearer_key enb_ctxt 1 True \<or> k = bearer_key enb_ctxt 2 True \<or> k = bearer_key enb_ctxt 1 False"
    using two_srbs_layer by blast
  have ctxt: "ctxt_ok enb_ctxt" by (simp add: ctxt_ok_def enb_ctxt_def)
  have adds: "adds_only (with_srbs [])" "adds_only (with_srbs [(1, None)])" by (simp_all add: adds_only_def with_srbs_def list_of_def)
  have ids: "last_srb (with_srbs []) = 0" "last_srb (with_srbs [(1, None)]) = 1" by (simp_all add: last_srb_def with_srbs_def list_of_def)
  have "bearer_key enb_ctxt 0 False \<noteq> bearer_key enb_ctxt 1 True" "bearer_key enb_ctxt 0 False \<noteq> bearer_key enb_ctxt 2 True"
    "bearer_key enb_ctxt 0 False \<noteq> bearer_key enb_ctxt 1 False"
    using bearer_keys [of 0 1 enb_ctxt False enb_ctxt True] bearer_keys [of 0 2 enb_ctxt False enb_ctxt True]
      bearer_keys [of 0 1 enb_ctxt False enb_ctxt False] by simp_all
  then have zero: "bearers s (bearer_key enb_ctxt 0 False) = None" using s(5) by blast
  have same: "spec_config enb_ctxt no_security (with_srbs []) m = m" for m by (simp add: spec_config_def with_srbs_def list_of_def)
  have one: "spec_config enb_ctxt no_security (with_srbs [(1, None)]) (bearers s) = bearers s"
    using s(4) by (auto simp: spec_config_def with_srbs_def list_of_def spec_srb_def configures_def existing_def Let_def)
  obtain t1 t2 where t: "rrc_pdcp_config_asn1_req enb_ctxt (with_srbs []) no_security s = Inr (False, t1)" "bearers t1 = bearers s"
    "rrc_pdcp_config_asn1_req enb_ctxt (with_srbs [(1, None)]) no_security s = Inr (False, t2)" "bearers t2 = bearers s"
    "key_blocks t2 = key_blocks s"
    using config_adds [OF s(1) ctxt adds(1), of no_security] config_adds [OF s(1) ctxt adds(2), of no_security] same one by auto
  have first: "rrc_pdcp_config_asn1_req enb_ctxt ((with_srbs [])\<lparr>drb2release_list := Some [1]\<rparr>) no_security s = Inr (False, t1)"
    using pdcp_release_ignores_list [OF s(1) ctxt adds(1), of "[1]" no_security] t(1,2) zero by (simp add: ids)
  from s(3) obtain p where p: "bearers s (bearer_key enb_ctxt 1 False) = Some p" by blast
  have "freeable t2 p" using keys_owned_freeable [OF s(2), unfolded own_simps(1), OF p] by (simp add: freeable_def t(5))
  moreover have "defaultDRB (with_srbs [(1, None)]) = None" by (simp add: with_srbs_def)
  ultimately obtain s2 where second:
    "rrc_pdcp_config_asn1_req enb_ctxt ((with_srbs [(1, None)])\<lparr>drb2release_list := Some [2]\<rparr>) no_security s = Inr (False, s2)"
    "bearers s2 = (bearers t2)(bearer_key enb_ctxt 1 False := None)"
    using pdcp_release_ignores_list [OF s(1) ctxt adds(2), of "[2]" no_security] t(3,4) p by (auto simp: ids)
  from s(1,3) first second t(2) show ?thesis by (intro exI [of _ s] exI [of _ t1] exI [of _ s2]) simp
qed

end
