(* ===== verification/RlcTable.thy ===== *)
theory RlcTable
  imports RlcUmTransfer PdcpLayer
begin

text \<open>
  The RLC layer of one node: the table of the entities (\<open>rlc_rrc.c\<close>), in which an entity is found by the
  identity of its bearer and by its logical channel, its configuration by the RRC, and the calls of the PDCP
  (\<open>rlc.c\<close>) and of the MAC (\<open>rlc_mac.c\<close>) that find an entity and hand it the data.

  The unacknowledged mode is the one of the theories \<open>RlcUm\<close> to \<open>RlcUmTransfer\<close>. Of an entity in acknowledged mode
  the configuration is modelled (\<open>rlc_am_init.c\<close>, \<open>rlc_am.c\<close>); what it does with data is an argument, \<open>am_ops\<close>,
  over a type \<open>'q\<close> of its buffers. No request makes an entity in transparent mode. MBMS is left out.
\<close>

section \<open>Entities\<close>

text \<open>The timers of an entity in acknowledged mode are here with their durations.\<close>

record 'q rlc_am =
  am_initialized :: bool
  am_configured :: bool
  am_state :: rlc_state
  am_rb_id :: u16
  am_channel_id :: u32
  am_data_plane :: bool
  max_retx_threshold :: u16
  poll_pdu :: u16
  poll_byte :: u32
  t_poll_retransmit :: u32
  t_reordering :: u32
  t_status_prohibit :: u32
  am_buffers :: 'q

text \<open>An entity in unacknowledged mode has a receiving and a transmitting side.\<close>

record um_instance =
  receiver :: rlc_um
  sender :: um_tx
  um_rb_id :: u16
  um_channel_id :: u32

text \<open>The memory of the union; \<open>Cleared\<close> is zero in every byte.\<close>

datatype 'q content = Cleared | Am "'q rlc_am" | Um um_instance

record 'q rlc_union =
  union_mode :: rlc_mode
  content :: "'q content"

record 'q rlc_layer =
  rlc_coll :: "nat hash_table option"
  unions :: "nat \<Rightarrow> 'q rlc_union option"
  next_union :: nat

text \<open>
  What an entity in acknowledged mode does with its buffers: the buffers of a new one, and the effect of a request
  of the PDCP, and of a request for data, an indication of data and a request for the status of the MAC.
\<close>

record rlc_status_resp =
  bytes_in_buffer :: u32
  pdus_in_buffer :: u16
  head_creation_time :: u32
  head_remaining_size :: u32
  head_is_segmented :: bool

record 'q am_ops =
  am_empty :: 'q
  am_data_req :: "u32 \<Rightarrow> u32 \<Rightarrow> u32 \<Rightarrow> u8 list \<Rightarrow> 'q rlc_am \<Rightarrow> 'q res"
  am_mac_data_request :: "u32 option \<Rightarrow> 'q rlc_am \<Rightarrow> (u8 list list \<times> 'q) res"
  am_mac_data_indication :: "u32 \<Rightarrow> u8 list list \<Rightarrow> 'q rlc_am \<Rightarrow> (u8 list list \<times> 'q) res"
  am_mac_status_indication :: "u32 \<Rightarrow> u32 \<Rightarrow> u16 \<Rightarrow> bool \<Rightarrow> 'q rlc_am \<Rightarrow> (rlc_status_resp \<times> 'q) res"
  am_get_buffer_occupancy :: "'q rlc_am \<Rightarrow> u32"

section \<open>Keys\<close>

text \<open>\<open>(max_val_DRB_Identity + 1) * NUMBER_OF_UE_MAX\<close>\<close>

definition RLC_MAX_LC :: u32 where "RLC_MAX_LC = 528"

definition RLC_COLL_KEY_VALUE :: "u8 \<Rightarrow> u16 \<Rightarrow> bool \<Rightarrow> u64 \<Rightarrow> bool \<Rightarrow> u64" where
  "RLC_COLL_KEY_VALUE m r enb rb srb =
     or (or (or (or (or (ucast m) (push_bit 8 (ucast r))) (push_bit 24 (if enb then 1 else 0)))
       (push_bit 25 rb)) (push_bit 33 (if srb then 1 else 0))) (push_bit 34 0x05)"

definition RLC_COLL_KEY_LCID_VALUE :: "u8 \<Rightarrow> u16 \<Rightarrow> bool \<Rightarrow> u64 \<Rightarrow> bool \<Rightarrow> u64" where
  "RLC_COLL_KEY_LCID_VALUE m r enb lc srb =
     or (or (or (or (or (ucast m) (push_bit 8 (ucast r))) (push_bit 24 (if enb then 1 else 0)))
       (push_bit 25 lc)) (push_bit 33 (if srb then 1 else 0))) (push_bit 34 0x0a)"

definition rb_key :: "protocol_ctxt \<Rightarrow> u16 \<Rightarrow> bool \<Rightarrow> u64" where
  "rb_key ctxt rb srb = RLC_COLL_KEY_VALUE (module_id ctxt) (rnti ctxt) (enb_flag ctxt) (ucast rb) srb"

definition lc_key :: "protocol_ctxt \<Rightarrow> u32 \<Rightarrow> bool \<Rightarrow> u64" where
  "lc_key ctxt lc srb = RLC_COLL_KEY_LCID_VALUE (module_id ctxt) (rnti ctxt) (enb_flag ctxt) (ucast lc) srb"

section \<open>Initialisation and configuration of an entity\<close>

definition zero_am :: "'q am_ops \<Rightarrow> 'q rlc_am" where
  "zero_am ops = \<lparr>am_initialized = False, am_configured = False, am_state = RLC_NULL_STATE, am_rb_id = 0,
     am_channel_id = 0, am_data_plane = False, max_retx_threshold = 0, poll_pdu = 0, poll_byte = 0, t_poll_retransmit = 0,
     t_reordering = 0, t_status_prohibit = 0, am_buffers = am_empty ops\<rparr>"

definition rlc_am_init :: "'q am_ops \<Rightarrow> 'q rlc_am \<Rightarrow> 'q rlc_am" where
  "rlc_am_init ops a = (if am_initialized a then a else (zero_am ops)\<lparr>am_initialized := True\<rparr>)"

definition rlc_am_set_debug_infos :: "bool \<Rightarrow> u16 \<Rightarrow> u32 \<Rightarrow> 'q rlc_am \<Rightarrow> 'q rlc_am" where
  "rlc_am_set_debug_infos srb rb lc a = a\<lparr>am_rb_id := rb, am_channel_id := lc, am_data_plane := \<not> srb\<rparr>"

text \<open>The number of bytes comes with 16 bits, the field has 32.\<close>

definition rlc_am_configure :: "u16 \<Rightarrow> u16 \<Rightarrow> u16 \<Rightarrow> u32 \<Rightarrow> u32 \<Rightarrow> u32 \<Rightarrow> 'q rlc_am \<Rightarrow> 'q rlc_am" where
  "rlc_am_configure retx pdu byte poll reord prohibit a =
     a\<lparr>max_retx_threshold := retx, poll_pdu := pdu, poll_byte := ucast byte, am_state := RLC_DATA_TRANSFER_READY_STATE,
       t_poll_retransmit := poll, t_reordering := reord, t_status_prohibit := prohibit, am_configured := True\<rparr>"

text \<open>The values of the enumerations of ASN.1.\<close>

record am_config =
  cfg_maxRetxThreshold :: nat
  cfg_pollPDU :: nat
  cfg_pollByte :: nat
  cfg_t_PollRetransmit :: nat
  cfg_t_Reordering :: nat
  cfg_t_StatusProhibit :: nat

definition maxRetxThreshold_tab :: "u32 list" where "maxRetxThreshold_tab = [1, 2, 3, 4, 6, 8, 16, 32]"

definition pollPDU_tab :: "u16 list" where "pollPDU_tab = [4, 8, 16, 32, 64, 128, 256, 0xFFFF]"

definition pollByte_tab :: "u32 list" where
  "pollByte_tab = [25000, 50000, 75000, 100000, 125000, 250000, 375000, 500000, 750000, 1000000, 1250000, 1500000,
     2000000, 3000000, 0xFFFFFFFF]"

definition steps_of_5 :: "nat \<Rightarrow> nat \<Rightarrow> u32 list" where
  "steps_of_5 a b = map (\<lambda>i. of_nat (5 * i)) [a..<b]"

definition PollRetransmit_tab :: "u32 list" where
  "PollRetransmit_tab = steps_of_5 1 51 @ [300, 350, 400, 450, 500, 800, 1000, 2000, 4000]"

definition am_t_Reordering_tab :: "u32 list" where
  "am_t_Reordering_tab = steps_of_5 0 21 @ [110, 120, 130, 140, 150, 160, 170, 180, 190, 200, 1600]"

definition t_StatusProhibit_tab :: "u32 list" where
  "t_StatusProhibit_tab = steps_of_5 0 51 @ [300, 350, 400, 450, 500, 800, 1000, 1200, 1600, 2000, 2400]"

text \<open>The values that have an entry; the last ones of the enumerations are spare.\<close>

definition am_config_legal :: "am_config \<Rightarrow> bool" where
  "am_config_legal c \<longleftrightarrow> cfg_maxRetxThreshold c \<le> 7 \<and> cfg_pollPDU c \<le> 7 \<and> cfg_pollByte c < 15 \<and>
     cfg_t_PollRetransmit c < 59 \<and> cfg_t_Reordering c < 32 \<and> cfg_t_StatusProhibit c < 62"

definition configure_am :: "'q am_ops \<Rightarrow> bool \<Rightarrow> u16 \<Rightarrow> u32 \<Rightarrow> am_config \<Rightarrow> 'q rlc_am \<Rightarrow> 'q rlc_am" where
  "configure_am ops srb rb lc c a =
     (if am_config_legal c
      then rlc_am_configure (ucast (maxRetxThreshold_tab ! cfg_maxRetxThreshold c)) (pollPDU_tab ! cfg_pollPDU c)
             (ucast (pollByte_tab ! cfg_pollByte c)) (PollRetransmit_tab ! cfg_t_PollRetransmit c)
             (am_t_Reordering_tab ! cfg_t_Reordering c) (t_StatusProhibit_tab ! cfg_t_StatusProhibit c)
             (rlc_am_set_debug_infos srb rb lc (rlc_am_init ops a))
      else a)"

text \<open>
  The fields of the configuration that both sides of an entity in unacknowledged mode use are in the record of
  the receiving side; \<open>shared_fields\<close> copies them to the transmitting side.
\<close>

definition zero_um :: um_instance where
  "zero_um = \<lparr>receiver = zero_rlc_um, sender = new_sender zero_rlc_um, um_rb_id = 0, um_channel_id = 0\<rparr>"

definition um_init :: "um_instance \<Rightarrow> um_instance" where
  "um_init u =
     (if initialized (receiver u) then u
      else let e = rlc_um_init (receiver u) in \<lparr>receiver = e, sender = new_sender e, um_rb_id = 0, um_channel_id = 0\<rparr>)"

definition shared_fields :: "rlc_um \<Rightarrow> um_tx \<Rightarrow> um_tx" where
  "shared_fields e t = t\<lparr>tx_state := protocol_state e, tx_len := tx_sn_length e, tx_header_min_length := tx_header_min e,
     tx_vt_us := word_of_int (vt_us e)\<rparr>"

definition um_configure :: "u32 \<Rightarrow> nat \<Rightarrow> nat \<Rightarrow> bool \<Rightarrow> um_instance \<Rightarrow> um_instance" where
  "um_configure timer rx_bits tx_bits mxch u =
     (let e = rlc_um_configure timer rx_bits tx_bits mxch (receiver u)
      in u\<lparr>receiver := e, sender := (shared_fields e (sender u))\<lparr>buffer_occupancy := 0\<rparr>\<rparr>)"

text \<open>The length of the sequence numbers for a value of the enumeration, and the durations of the timer.\<close>

definition sn_field_length :: "nat \<Rightarrow> nat option" where
  "sn_field_length v = (if v = 0 then Some 5 else if v = 1 then Some 10 else None)"

definition t_Reordering_tab :: "u32 list" where
  "t_Reordering_tab = am_t_Reordering_tab"

text \<open>
  The configuration of an entity: uplink is the length of its numbers, downlink the length and the timer; a
  direction may be missing. The state machine comes first: it refuses an entity that transfers data already.
\<close>

definition um_lengths :: "nat option \<Rightarrow> (nat \<times> nat) option \<Rightarrow> (nat \<times> nat \<times> u32) option" where
  "um_lengths ul dl =
     (case (case ul of None \<Rightarrow> Some 0 | Some v \<Rightarrow> sn_field_length v) of
        None \<Rightarrow> None
      | Some ul_len \<Rightarrow>
          (case dl of
             None \<Rightarrow> Some (ul_len, 0, 0)
           | Some (v, t) \<Rightarrow>
               (case sn_field_length v of
                  None \<Rightarrow> None
                | Some dl_len \<Rightarrow> if t < 32 then Some (ul_len, dl_len, t_Reordering_tab ! t) else None)))"

definition configure_um ::
  "bool \<Rightarrow> bool \<Rightarrow> u16 \<Rightarrow> u32 \<Rightarrow> nat option \<Rightarrow> (nat \<times> nat) option \<Rightarrow> um_instance \<Rightarrow> um_instance res" where
  "configure_um enb srb rb lc ul dl u =
     (let u0 = um_init u in
      bindE (rlc_um_fsm_notify_event CONFIG_REQ_ENTER_DATA_TRANSFER_READY_STATE (receiver u0)) (\<lambda>(ok, e).
      if \<not> ok then Inr (u0\<lparr>receiver := e\<rparr>)
      else
        let u2 = u0\<lparr>receiver := rlc_um_set_debug_infos srb e, sender := (sender u0)\<lparr>tx_state := protocol_state e\<rparr>,
                    um_rb_id := rb, um_channel_id := lc\<rparr> in
        case um_lengths ul dl of
          None \<Rightarrow> Inr u2
        | Some (ul_len, dl_len, timer) \<Rightarrow>
            Inr (if enb then um_configure timer ul_len dl_len False u2 else um_configure timer dl_len ul_len False u2)))"

section \<open>Memory\<close>

definition union_at :: "nat option \<Rightarrow> 'q rlc_layer \<Rightarrow> 'q rlc_union res" where
  "union_at d s =
     (case d of
        None \<Rightarrow> Inl NullDeref
      | Some a \<Rightarrow> (case unions s a of None \<Rightarrow> Inl Undefined | Some u \<Rightarrow> Inr u))"

definition put_union :: "nat \<Rightarrow> 'q rlc_union \<Rightarrow> 'q rlc_layer \<Rightarrow> 'q rlc_layer" where
  "put_union a u s = s\<lparr>unions := (unions s)(a \<mapsto> u)\<rparr>"

definition new_union :: "'q rlc_layer \<Rightarrow> nat \<times> 'q rlc_layer" where
  "new_union s = (next_union s, (put_union (next_union s) \<lparr>union_mode = RLC_MODE_NONE, content = Cleared\<rparr> s)\<lparr>next_union := next_union s + 1\<rparr>)"

definition free_union :: "nat \<Rightarrow> 'q rlc_layer \<Rightarrow> 'q rlc_layer" where
  "free_union a s = s\<lparr>unions := (unions s)(a := None)\<rparr>"

text \<open>The members of the union. Reading one when the memory holds the other is undefined.\<close>

definition as_am :: "'q am_ops \<Rightarrow> 'q content \<Rightarrow> 'q rlc_am res" where
  "as_am ops c = (case c of Cleared \<Rightarrow> Inr (zero_am ops) | Am a \<Rightarrow> Inr a | Um _ \<Rightarrow> Inl Undefined)"

definition as_um :: "'q content \<Rightarrow> um_instance res" where
  "as_um c = (case c of Cleared \<Rightarrow> Inr zero_um | Um u \<Rightarrow> Inr u | Am _ \<Rightarrow> Inl Undefined)"

definition upd_um :: "(um_instance \<Rightarrow> um_instance res) \<Rightarrow> nat option \<Rightarrow> 'q rlc_layer \<Rightarrow> 'q rlc_layer res" where
  "upd_um f d s =
     bindE (union_at d s) (\<lambda>u. bindE (as_um (content u)) (\<lambda>x. bindE (f x) (\<lambda>x1.
     Inr (put_union (the d) (u\<lparr>content := Um x1\<rparr>) s))))"

text \<open>
  The free function of the table clears the entity and what belongs to it; the memory of the entity itself is not
  given back.
\<close>

definition rb_free_rlc_union :: "nat \<Rightarrow> 'q rlc_layer \<Rightarrow> 'q rlc_layer res" where
  "rb_free_rlc_union a s =
     bindE (union_at (Some a) s) (\<lambda>u.
     Inr (if union_mode u = RLC_MODE_NONE then s else put_union a (u\<lparr>content := Cleared\<rparr>) s))"

section \<open>The table\<close>

definition rlc_get :: "u64 \<Rightarrow> 'q rlc_layer \<Rightarrow> (hashtable_rc \<times> nat option) res" where
  "rlc_get k s = hashtable_get (rlc_coll s) k"

definition rlc_insert :: "u64 \<Rightarrow> nat option \<Rightarrow> 'q rlc_layer \<Rightarrow> (hashtable_rc \<times> 'q rlc_layer) res" where
  "rlc_insert k d s =
     bindE (hashtable_insert (rlc_coll s) k d) (\<lambda>(rc, t, freed).
     bindE (foldE rb_free_rlc_union freed (s\<lparr>rlc_coll := t\<rparr>)) (\<lambda>s1. Inr (rc, s1)))"

definition rlc_remove :: "u64 \<Rightarrow> 'q rlc_layer \<Rightarrow> (hashtable_rc \<times> 'q rlc_layer) res" where
  "rlc_remove k s =
     bindE (hashtable_remove (rlc_coll s) k) (\<lambda>(rc, t, freed).
     bindE (foldE rb_free_rlc_union freed (s\<lparr>rlc_coll := t\<rparr>)) (\<lambda>s1. Inr (rc, s1)))"

definition rlc_module_init :: "u64 \<Rightarrow> 'q rlc_layer \<Rightarrow> 'q rlc_layer" where
  "rlc_module_init garbage s = s\<lparr>rlc_coll := Some (hashtable_create ((unat maxDRB + 2) * 16) None garbage)\<rparr>"

definition rlc_layer_start :: "'q rlc_layer" where
  "rlc_layer_start = \<lparr>rlc_coll = None, unions = \<lambda>_. None, next_union = 0\<rparr>"

section \<open>Adding and removing entities\<close>

text \<open>An entity that is there already is returned as it is; then its mode has to be the same.\<close>

definition rrc_rlc_add_rlc ::
  "protocol_ctxt \<Rightarrow> bool \<Rightarrow> u16 \<Rightarrow> u32 \<Rightarrow> rlc_mode \<Rightarrow> 'q rlc_layer \<Rightarrow> (nat option \<times> 'q rlc_layer) res" where
  "rrc_rlc_add_rlc ctxt srb rb lc mode s =
     (if \<not> rb < NB_RB_MAX \<or> \<not> lc < RLC_MAX_LC then Inl Abort
      else
        bindE (rlc_get (rb_key ctxt rb srb) s) (\<lambda>(h_rc, d).
        if h_rc = HASH_TABLE_OK then
          bindE (union_at d s) (\<lambda>u. if union_mode u = mode then Inr (d, s) else Inl Abort)
        else if h_rc = HASH_TABLE_KEY_NOT_EXISTS then
          let (a, s1) = new_union s in
          bindE (rlc_insert (rb_key ctxt rb srb) (Some a) s1) (\<lambda>(h_rc, s2).
          bindE (rlc_insert (lc_key ctxt lc srb) (Some a) s2) (\<lambda>(h_lcid_rc, s3).
          if h_rc = HASH_TABLE_OK \<and> h_lcid_rc = HASH_TABLE_OK then
            bindE (union_at (Some a) s3) (\<lambda>u. Inr (Some a, put_union a (u\<lparr>union_mode := mode\<rparr>) s3))
          else Inr (None, free_union a s3)))
        else Inr (None, s)))"

text \<open>
  The logical channel under which an entity is taken out of the table is the one that its configuration has put into
  it. Both entries are taken out, or none.
\<close>

definition channel_of :: "'q rlc_union \<Rightarrow> u32 res" where
  "channel_of u =
     (case (union_mode u, content u) of
        (RLC_MODE_AM, Am a) \<Rightarrow> Inr (am_channel_id a)
      | (RLC_MODE_UM, Um x) \<Rightarrow> Inr (um_channel_id x)
      | (RLC_MODE_NONE, _) \<Rightarrow> Inr 0
      | (_, Cleared) \<Rightarrow> Inr 0
      | _ \<Rightarrow> Inl Undefined)"

definition rrc_rlc_remove_rlc :: "protocol_ctxt \<Rightarrow> bool \<Rightarrow> u16 \<Rightarrow> 'q rlc_layer \<Rightarrow> 'q rlc_layer res" where
  "rrc_rlc_remove_rlc ctxt srb rb s =
     (if \<not> rb < NB_RB_MAX then Inl Abort
      else
        bindE (rlc_get (rb_key ctxt rb srb) s) (\<lambda>(h_rc, d).
        if h_rc \<noteq> HASH_TABLE_OK then Inr s
        else
          bindE (union_at d s) (\<lambda>u.
          bindE (channel_of u) (\<lambda>lcid.
          bindE (rlc_get (lc_key ctxt lcid srb) s) (\<lambda>(h_lcid_rc, _).
          if h_lcid_rc = HASH_TABLE_OK then
            bindE (rlc_remove (lc_key ctxt lcid srb) s) (\<lambda>(_, s1).
            bindE (rlc_remove (rb_key ctxt rb srb) s1) (\<lambda>(_, s2). Inr s2))
          else Inr s)))))"

definition rrc_rlc_remove_ue :: "protocol_ctxt \<Rightarrow> 'q rlc_layer \<Rightarrow> 'q rlc_layer res" where
  "rrc_rlc_remove_ue ctxt s =
     bindE (foldE (rrc_rlc_remove_rlc ctxt True) [1, 2] s)
       (foldE (rrc_rlc_remove_rlc ctxt False) (map of_nat [1..<unat maxDRB + 1]))"

section \<open>A request of the RRC\<close>

datatype rlc_config =
    RLC_Config_NOTHING
  | RLC_Config_am am_config
  | RLC_Config_um_Bi_Directional nat "nat \<times> nat"
  | RLC_Config_um_Uni_Directional_UL nat
  | RLC_Config_um_Uni_Directional_DL "nat \<times> nat"
  | RLC_Config_unknown

datatype rlc_srb_config =
  SRB_NOTHING | SRB_explicitValue rlc_config | SRB_defaultValue | SRB_unknown

record rlc_srb_to_add_mod =
  srb_Identity :: int
  srb_rlc_Config :: "rlc_srb_config option"

record rlc_drb_to_add_mod =
  drb_to_add :: int
  drb_logicalChannel :: "int option"
  drb_rlc_Config :: "rlc_config option"

record rlc_config_req =
  rlc_srb2add :: "rlc_srb_to_add_mod list option"
  rlc_drb2add :: "rlc_drb_to_add_mod list option"
  rlc_drb2release :: "int list option"

text \<open>The configuration of SRB1 by default: 35 ms, 0 ms, 45 ms, no polling by PDUs or bytes, four transmissions.\<close>

definition default_am_config :: am_config where
  "default_am_config = \<lparr>cfg_maxRetxThreshold = 3, cfg_pollPDU = 7, cfg_pollByte = 14, cfg_t_PollRetransmit = 8,
     cfg_t_Reordering = 7, cfg_t_StatusProhibit = 0\<rparr>"

definition config_req_rlc_am_asn1 ::
  "'q am_ops \<Rightarrow> protocol_ctxt \<Rightarrow> bool \<Rightarrow> am_config \<Rightarrow> u16 \<Rightarrow> u32 \<Rightarrow> 'q rlc_layer \<Rightarrow> 'q rlc_layer res" where
  "config_req_rlc_am_asn1 ops ctxt srb c rb lc s =
     bindE (rlc_get (rb_key ctxt rb srb) s) (\<lambda>(h_rc, d).
     if h_rc \<noteq> HASH_TABLE_OK then Inr s
     else
       bindE (union_at d s) (\<lambda>u. bindE (as_am ops (content u)) (\<lambda>a.
       Inr (put_union (the d) (u\<lparr>content := Am (configure_am ops srb rb lc c a)\<rparr>) s))))"

definition config_req_rlc_um_asn1 ::
  "protocol_ctxt \<Rightarrow> bool \<Rightarrow> nat option \<Rightarrow> (nat \<times> nat) option \<Rightarrow> u16 \<Rightarrow> u32 \<Rightarrow> 'q rlc_layer \<Rightarrow> 'q rlc_layer res" where
  "config_req_rlc_um_asn1 ctxt srb ul dl rb lc s =
     bindE (rlc_get (rb_key ctxt rb srb) s) (\<lambda>(h_rc, d).
     if h_rc \<noteq> HASH_TABLE_OK then Inl Abort else upd_um (configure_um (enb_flag ctxt) srb rb lc ul dl) d s)"

text \<open>Adding one bearer and configuring it; if adding fails the bearer is left out.\<close>

definition add_and_configure ::
  "protocol_ctxt \<Rightarrow> bool \<Rightarrow> u16 \<Rightarrow> u32 \<Rightarrow> rlc_mode \<Rightarrow> ('q rlc_layer \<Rightarrow> 'q rlc_layer res) \<Rightarrow> 'q rlc_layer \<Rightarrow> 'q rlc_layer res" where
  "add_and_configure ctxt srb rb lc mode configure s =
     bindE (rrc_rlc_add_rlc ctxt srb rb lc mode s) (\<lambda>(d, s1). if d = None then Inr s1 else configure s1)"

definition configure_bearer ::
  "'q am_ops \<Rightarrow> protocol_ctxt \<Rightarrow> bool \<Rightarrow> u16 \<Rightarrow> u32 \<Rightarrow> rlc_config \<Rightarrow> 'q rlc_layer \<Rightarrow> 'q rlc_layer res" where
  "configure_bearer ops ctxt srb rb lc c =
     (case c of
        RLC_Config_NOTHING \<Rightarrow> Inr
      | RLC_Config_am am \<Rightarrow>
          add_and_configure ctxt srb rb lc RLC_MODE_AM (config_req_rlc_am_asn1 ops ctxt srb am rb lc)
      | RLC_Config_um_Bi_Directional ul dl \<Rightarrow>
          add_and_configure ctxt srb rb lc RLC_MODE_UM (config_req_rlc_um_asn1 ctxt srb (Some ul) (Some dl) rb lc)
      | RLC_Config_um_Uni_Directional_UL ul \<Rightarrow>
          add_and_configure ctxt srb rb lc RLC_MODE_UM (config_req_rlc_um_asn1 ctxt srb (Some ul) None rb lc)
      | RLC_Config_um_Uni_Directional_DL dl \<Rightarrow>
          add_and_configure ctxt srb rb lc RLC_MODE_UM (config_req_rlc_um_asn1 ctxt srb None (Some dl) rb lc)
      | RLC_Config_unknown \<Rightarrow> Inr)"

definition add_srb :: "'q am_ops \<Rightarrow> protocol_ctxt \<Rightarrow> rlc_srb_to_add_mod \<Rightarrow> 'q rlc_layer \<Rightarrow> 'q rlc_layer res" where
  "add_srb ops ctxt r s =
     (let rb = of_int (srb_Identity r); lc = ucast rb in
      case srb_rlc_Config r of
        Some (SRB_explicitValue c) \<Rightarrow> configure_bearer ops ctxt True rb lc c s
      | Some SRB_defaultValue \<Rightarrow> configure_bearer ops ctxt True rb lc (RLC_Config_am default_am_config) s
      | _ \<Rightarrow> Inr s)"

definition add_drb :: "'q am_ops \<Rightarrow> protocol_ctxt \<Rightarrow> rlc_drb_to_add_mod \<Rightarrow> 'q rlc_layer \<Rightarrow> 'q rlc_layer res" where
  "add_drb ops ctxt r s =
     (case drb_logicalChannel r of
        None \<Rightarrow> Inr s
      | Some l \<Rightarrow>
          let lc = of_int l in
          if lc = 1 \<or> lc = 2 then Inr s
          else
            (case drb_rlc_Config r of
               None \<Rightarrow> Inr s
             | Some c \<Rightarrow> configure_bearer ops ctxt False (of_int (drb_to_add r)) lc c s))"

definition rrc_rlc_config_asn1_req :: "'q am_ops \<Rightarrow> protocol_ctxt \<Rightarrow> rlc_config_req \<Rightarrow> 'q rlc_layer \<Rightarrow> 'q rlc_layer res" where
  "rrc_rlc_config_asn1_req ops ctxt req s =
     bindE (foldE (add_srb ops ctxt) (case rlc_srb2add req of None \<Rightarrow> [] | Some rs \<Rightarrow> rs) s) (\<lambda>s1.
     bindE (foldE (add_drb ops ctxt) (case rlc_drb2add req of None \<Rightarrow> [] | Some rs \<Rightarrow> rs) s1)
       (foldE (\<lambda>rb. rrc_rlc_remove_rlc ctxt False (of_int rb)) (case rlc_drb2release req of None \<Rightarrow> [] | Some rs \<Rightarrow> rs)))"

end
