(* ===== verification/RlcCalls.thy ===== *)
theory RlcCalls
  imports RlcTable
begin

text \<open>
  The calls of the PDCP (\<open>rlc.c\<close>) and of the MAC (\<open>rlc_mac.c\<close>) into the RLC layer: how they find the entity, what
  they hand to it and what they hand back. The PDCP finds it by the bearer, the MAC by the logical channel. Getting
  memory is taken to succeed.
\<close>

definition RLC_OP_STATUS_BAD_PARAMETER :: int where "RLC_OP_STATUS_BAD_PARAMETER = 22"

definition put_am :: "'q \<Rightarrow> 'q rlc_am \<Rightarrow> 'q rlc_union \<Rightarrow> nat option \<Rightarrow> 'q rlc_layer \<Rightarrow> 'q rlc_layer" where
  "put_am q a u d s = put_union (the d) (u\<lparr>content := Am (a\<lparr>am_buffers := q\<rparr>)\<rparr>) s"

definition put_um :: "um_instance \<Rightarrow> 'q rlc_union \<Rightarrow> nat option \<Rightarrow> 'q rlc_layer \<Rightarrow> 'q rlc_layer" where
  "put_um x u d s = put_union (the d) (u\<lparr>content := Um x\<rparr>) s"

section \<open>The PDCP\<close>

definition rlc_data_req ::
  "'q am_ops \<Rightarrow> u32 \<Rightarrow> protocol_ctxt \<Rightarrow> bool \<Rightarrow> u16 \<Rightarrow> u32 \<Rightarrow> u32 \<Rightarrow> int \<Rightarrow> u8 list \<Rightarrow> 'q rlc_layer \<Rightarrow> (int \<times> 'q rlc_layer) res" where
  "rlc_data_req ops frame ctxt srb rb mui confirm sz block s =
     (if \<not> rb < NB_RB_MAX \<or> sz \<le> 0 then Inl Abort
      else
        bindE (rlc_get (rb_key ctxt rb srb) s) (\<lambda>(h_rc, d).
        if h_rc \<noteq> HASH_TABLE_OK then Inl Abort
        else
          bindE (union_at d s) (\<lambda>u.
          if union_mode u = RLC_MODE_NONE then Inr (RLC_OP_STATUS_BAD_PARAMETER, s)
          else if int (length block) < sz then Inl OutOfBounds
          else
            let sdu = take (nat sz) block in
            case union_mode u of
              RLC_MODE_AM \<Rightarrow>
                bindE (as_am ops (content u)) (\<lambda>a.
                bindE (am_data_req ops frame mui confirm sdu a) (\<lambda>q. Inr (RLC_OP_STATUS_OK, put_am q a u d s)))
            | RLC_MODE_UM \<Rightarrow>
                bindE (as_um (content u)) (\<lambda>x.
                Inr (RLC_OP_STATUS_OK, put_um (x\<lparr>sender := rlc_um_data_req frame sdu (sender x)\<rparr>) u d s))
            | _ \<Rightarrow> Inl Undefined)))"

section \<open>The MAC\<close>

text \<open>The logical channels 0 to 2 carry signalling.\<close>

definition channel_key :: "protocol_ctxt \<Rightarrow> u32 \<Rightarrow> u64" where
  "channel_key ctxt channel = lc_key ctxt channel (channel \<le> 2)"

definition entity_by_channel ::
  "protocol_ctxt \<Rightarrow> u32 \<Rightarrow> 'q rlc_layer \<Rightarrow> (nat option \<times> 'q rlc_union) option res" where
  "entity_by_channel ctxt channel s =
     bindE (rlc_get (channel_key ctxt channel) s) (\<lambda>(h_rc, d).
     if h_rc \<noteq> HASH_TABLE_OK then Inr None else bindE (union_at d s) (\<lambda>u. Inr (Some (d, u))))"

text \<open>The PDUs of a request are written one behind the other to the buffer of the caller.\<close>

definition mac_rlc_serialize_tb :: "u8 list list \<Rightarrow> u8 list" where
  "mac_rlc_serialize_tb pdus = concat pdus"

definition mac_rlc_deserialize_tb :: "u8 list \<Rightarrow> nat \<Rightarrow> nat \<Rightarrow> u8 list list res" where
  "mac_rlc_deserialize_tb buffer tb_size num_tb =
     (if length buffer < num_tb * tb_size then Inl OutOfBounds
      else Inr (map (\<lambda>i. take tb_size (drop (i * tb_size) buffer)) [0..<num_tb]))"

text \<open>Only the UE sets the size of the request here; at the eNodeB the request for the status has set it.\<close>

definition mac_rlc_data_req ::
  "'q am_ops \<Rightarrow> (nat \<Rightarrow> u8) \<Rightarrow> protocol_ctxt \<Rightarrow> u32 \<Rightarrow> u32 \<Rightarrow> 'q rlc_layer \<Rightarrow> (u8 list \<times> 'q rlc_layer) res" where
  "mac_rlc_data_req ops fresh ctxt channel tb_size s =
     (if \<not> channel < ucast NB_RB_MAX then Inl Abort
      else
        bindE (entity_by_channel ctxt channel s) (\<lambda>found.
        case found of
          None \<Rightarrow> Inl Abort
        | Some (d, u) \<Rightarrow>
            (case union_mode u of
               RLC_MODE_NONE \<Rightarrow> Inr ([], s)
             | RLC_MODE_AM \<Rightarrow>
                 bindE (as_am ops (content u)) (\<lambda>a.
                 bindE (am_mac_data_request ops (if enb_flag ctxt then None else Some tb_size) a) (\<lambda>(pdus, q).
                 Inr (mac_rlc_serialize_tb pdus, put_am q a u d s)))
             | RLC_MODE_UM \<Rightarrow>
                 bindE (as_um (content u)) (\<lambda>x.
                 let t = (if enb_flag ctxt then sender x else rlc_um_set_nb_bytes_requested_by_mac tb_size (sender x)) in
                 bindE (rlc_um_mac_data_request fresh t) (\<lambda>(pdus, t1).
                 Inr (mac_rlc_serialize_tb pdus, put_um (x\<lparr>sender := t1\<rparr>) u d s)))
             | RLC_MODE_TM \<Rightarrow> Inl Undefined)))"

text \<open>
  What an entity delivers goes to the PDCP: \<open>rlc_data_ind\<close> calls \<open>pdcp_data_ind\<close> with these arguments. The MAC
  passes no error flags.
\<close>

record rlc_indication =
  ind_srb :: bool
  ind_mbms :: bool
  ind_rb :: u16
  ind_sdu :: "u8 list"

definition um_indications :: "um_instance \<Rightarrow> u8 list list \<Rightarrow> rlc_indication list" where
  "um_indications x sdus =
     map (\<lambda>sdu. \<lparr>ind_srb = \<not> is_data_plane (receiver x), ind_mbms = is_mxch (receiver x), ind_rb = um_rb_id x, ind_sdu = sdu\<rparr>) sdus"

definition mac_rlc_data_ind ::
  "'q am_ops \<Rightarrow> u32 \<Rightarrow> bool \<Rightarrow> protocol_ctxt \<Rightarrow> u32 \<Rightarrow> u8 list \<Rightarrow> nat \<Rightarrow> nat \<Rightarrow> 'q rlc_layer \<Rightarrow>
   (rlc_indication list \<times> 'q rlc_layer) res" where
  "mac_rlc_data_ind ops now lock_free ctxt channel buffer tb_size num_tb s =
     bindE (entity_by_channel ctxt channel s) (\<lambda>found.
     bindE (mac_rlc_deserialize_tb buffer tb_size num_tb) (\<lambda>tbs.
     case found of
       None \<Rightarrow> Inr ([], s)
     | Some (d, u) \<Rightarrow>
         (case union_mode u of
            RLC_MODE_NONE \<Rightarrow> Inr ([], s)
          | RLC_MODE_AM \<Rightarrow>
              bindE (as_am ops (content u)) (\<lambda>a.
              bindE (am_mac_data_indication ops now tbs a) (\<lambda>(sdus, q).
              Inr (map (\<lambda>sdu. \<lparr>ind_srb = \<not> am_data_plane a, ind_mbms = False, ind_rb = am_rb_id a, ind_sdu = sdu\<rparr>) sdus,
                   put_am q a u d s)))
          | RLC_MODE_UM \<Rightarrow>
              bindE (as_um (content u)) (\<lambda>x.
              bindE (rlc_um_mac_data_indication now lock_free tbs (receiver x)) (\<lambda>e.
              Inr (um_indications x (drop (length (delivered (receiver x))) (delivered e)),
                   put_um (x\<lparr>receiver := e\<rparr>) u d s)))
          | RLC_MODE_TM \<Rightarrow> Inl Undefined)))"

text \<open>For an entity in acknowledged mode the number of PDUs is not set: it is the zero of the start.\<close>

definition mac_rlc_status_ind ::
  "'q am_ops \<Rightarrow> u32 \<Rightarrow> bool \<Rightarrow> u32 \<Rightarrow> protocol_ctxt \<Rightarrow> u32 \<Rightarrow> u16 \<Rightarrow> 'q rlc_layer \<Rightarrow> (rlc_status_resp \<times> 'q rlc_layer) res" where
  "mac_rlc_status_ind ops now lock_free frame ctxt channel tb_size s =
     (let nothing = \<lparr>bytes_in_buffer = 0, pdus_in_buffer = 0, head_creation_time = 0, head_remaining_size = 0,
                     head_is_segmented = False\<rparr> in
      bindE (entity_by_channel ctxt channel s) (\<lambda>found.
      case found of
        None \<Rightarrow> Inr (nothing, s)
      | Some (d, u) \<Rightarrow>
          (case union_mode u of
             RLC_MODE_NONE \<Rightarrow> Inr (nothing, s)
           | RLC_MODE_AM \<Rightarrow>
               bindE (as_am ops (content u)) (\<lambda>a.
               bindE (am_mac_status_indication ops now frame tb_size (enb_flag ctxt) a) (\<lambda>(resp, q).
               Inr (resp\<lparr>pdus_in_buffer := 0\<rparr>, put_am q a u d s)))
           | RLC_MODE_UM \<Rightarrow>
               bindE (as_um (content u)) (\<lambda>x.
               bindE (rlc_um_mac_status_indication now lock_free frame tb_size (enb_flag ctxt) (sender x, receiver x))
                 (\<lambda>(resp, t, e).
               Inr (\<lparr>bytes_in_buffer = resp_bytes resp, pdus_in_buffer = resp_pdus resp, head_creation_time = resp_creation_time resp,
                      head_remaining_size = resp_remaining resp, head_is_segmented = resp_segmented resp\<rparr>,
                    put_um (x\<lparr>sender := t, receiver := e\<rparr>) u d s)))
           | RLC_MODE_TM \<Rightarrow> Inl Undefined)))"

definition mac_rlc_get_buffer_occupancy_ind ::
  "'q am_ops \<Rightarrow> protocol_ctxt \<Rightarrow> u32 \<Rightarrow> 'q rlc_layer \<Rightarrow> u32 res" where
  "mac_rlc_get_buffer_occupancy_ind ops ctxt channel s =
     (if enb_flag ctxt then Inl Abort
      else
        bindE (entity_by_channel ctxt channel s) (\<lambda>found.
        case found of
          None \<Rightarrow> Inr 0
        | Some (d, u) \<Rightarrow>
            (case union_mode u of
               RLC_MODE_AM \<Rightarrow> bindE (as_am ops (content u)) (\<lambda>a. Inr (am_get_buffer_occupancy ops a))
             | RLC_MODE_UM \<Rightarrow> bindE (as_um (content u)) (\<lambda>x. Inr (word_of_int (rlc_um_get_buffer_occupancy (sender x))))
             | _ \<Rightarrow> Inr 0)))"

end
