(* ===== verification/RlcBearers.thy ===== *)
theory RlcBearers
  imports RlcCalls
begin

text \<open>
  The RLC layer as a map from keys to entities. Every entity is in the table twice, under the key of its bearer
  and under the key of its logical channel; what the RRC adds, changes and removes keeps the two together as long as
  its requests are consistent, and goes wrong in a way that is stated here when they are not.
\<close>

section \<open>Keys\<close>

lemma rb_key_fields:
  assumes "rb < 256"
  shows "ucast (rb_key c rb srb) = module_id c" "ucast (drop_bit 8 (rb_key c rb srb)) = rnti c"
    "bit (rb_key c rb srb) 24 = enb_flag c" "ucast (drop_bit 25 (rb_key c rb srb)) = (ucast rb :: u8)"
    "bit (rb_key c rb srb) 33 = srb" "bit (rb_key c rb srb) 34"
proof -
  have "unat (ucast rb :: u64) \<le> unat rb" by (simp add: unsigned_ucast_eq)
  then have "(ucast rb :: u64) < 256" using assms by (simp add: word_less_nat_alt)
  note f = key_layout [OF this, of "module_id c" "rnti c" "enb_flag c" srb "0x05", folded RLC_COLL_KEY_VALUE_def, folded rb_key_def]
  have "(ucast (ucast rb :: u64) :: u8) = ucast rb" by (rule bit_word_eqI) (auto simp: bit_simps dest: bit_imp_le_length)
  with f(4) show "ucast (drop_bit 25 (rb_key c rb srb)) = (ucast rb :: u8)" by (rule trans)
  have "bit (0x05 :: u64) 0" by simp
  with f(6) show "bit (rb_key c rb srb) 34" by blast
  show "ucast (rb_key c rb srb) = module_id c" "ucast (drop_bit 8 (rb_key c rb srb)) = rnti c"
    "bit (rb_key c rb srb) 24 = enb_flag c" "bit (rb_key c rb srb) 33 = srb" by (rule f)+
qed

lemma lc_key_fields:
  assumes "lc < 256"
  shows "ucast (lc_key c lc srb) = module_id c" "ucast (drop_bit 8 (lc_key c lc srb)) = rnti c"
    "bit (lc_key c lc srb) 24 = enb_flag c" "ucast (drop_bit 25 (lc_key c lc srb)) = (ucast lc :: u8)"
    "bit (lc_key c lc srb) 33 = srb" "\<not> bit (lc_key c lc srb) 34"
proof -
  have "unat (ucast lc :: u64) \<le> unat lc" by (simp add: unsigned_ucast_eq)
  then have "(ucast lc :: u64) < 256" using assms by (simp add: word_less_nat_alt)
  note f = key_layout [OF this, of "module_id c" "rnti c" "enb_flag c" srb "0x0a", folded RLC_COLL_KEY_LCID_VALUE_def, folded lc_key_def]
  have "(ucast (ucast lc :: u64) :: u8) = ucast lc" by (rule bit_word_eqI) (auto simp: bit_simps dest: bit_imp_le_length)
  with f(4) show "ucast (drop_bit 25 (lc_key c lc srb)) = (ucast lc :: u8)" by (rule trans)
  have "\<not> bit (0x0a :: u64) 0" by simp
  with f(6) show "\<not> bit (lc_key c lc srb) 34" by blast
  show "ucast (lc_key c lc srb) = module_id c" "ucast (drop_bit 8 (lc_key c lc srb)) = rnti c"
    "bit (lc_key c lc srb) 24 = enb_flag c" "bit (lc_key c lc srb) 33 = srb" by (rule f)+
qed

lemma small_eq:
  assumes "uint x < 256" "uint y < 256" "(ucast x :: u8) = ucast y"
  shows "x = y"
proof -
  have "uint (ucast x :: u8) = uint (ucast y :: u8)" by (simp only: assms(3))
  with assms(1,2) show ?thesis by (simp add: unsigned_ucast_eq take_bit_eq_mod word_uint_eq_iff)
qed

lemma rb_keys:
  assumes "rb < 256" "rb' < 256"
  shows "rb_key c rb srb = rb_key c' rb' srb' \<longleftrightarrow> same_ue c c' \<and> rb = rb' \<and> srb = srb'"
proof
  assume eq: "rb_key c rb srb = rb_key c' rb' srb'"
  note f = rb_key_fields [OF assms(1), of c srb] and f' = rb_key_fields [OF assms(2), of c' srb', folded eq]
  have low: "(ucast rb :: u8) = ucast rb'" by (rule trans [OF f(4) [symmetric] f'(4)])
  have "uint rb < 256" "uint rb' < 256" using assms by (simp_all add: word_less_alt)
  then have "rb = rb'" using low by (rule small_eq)
  moreover have "module_id c = module_id c'" by (rule trans [OF f(1) [symmetric] f'(1)])
  moreover have "rnti c = rnti c'" by (rule trans [OF f(2) [symmetric] f'(2)])
  moreover have "enb_flag c = enb_flag c'" using f(3) f'(3) by blast
  moreover have "srb = srb'" using f(5) f'(5) by blast
  ultimately show "same_ue c c' \<and> rb = rb' \<and> srb = srb'" by (simp add: same_ue_def)
qed (simp add: rb_key_def same_ue_def)

lemma lc_keys:
  assumes "lc < 256" "lc' < 256"
  shows "lc_key c lc srb = lc_key c' lc' srb' \<longleftrightarrow> same_ue c c' \<and> lc = lc' \<and> srb = srb'"
proof
  assume eq: "lc_key c lc srb = lc_key c' lc' srb'"
  note f = lc_key_fields [OF assms(1), of c srb] and f' = lc_key_fields [OF assms(2), of c' srb', folded eq]
  have low: "(ucast lc :: u8) = ucast lc'" by (rule trans [OF f(4) [symmetric] f'(4)])
  have "uint lc < 256" "uint lc' < 256" using assms by (simp_all add: word_less_alt)
  then have "lc = lc'" using low by (rule small_eq)
  moreover have "module_id c = module_id c'" by (rule trans [OF f(1) [symmetric] f'(1)])
  moreover have "rnti c = rnti c'" by (rule trans [OF f(2) [symmetric] f'(2)])
  moreover have "enb_flag c = enb_flag c'" using f(3) f'(3) by blast
  moreover have "srb = srb'" using f(5) f'(5) by blast
  ultimately show "same_ue c c' \<and> lc = lc' \<and> srb = srb'" by (simp add: same_ue_def)
qed (simp add: lc_key_def same_ue_def)

lemma rb_lc_key: "rb < 256 \<Longrightarrow> lc < 256 \<Longrightarrow> rb_key c rb srb \<noteq> lc_key c' lc srb'"
  using rb_key_fields(6) lc_key_fields(6) by metis

section \<open>What a layer holds\<close>

definition rlc_map :: "'q rlc_layer \<Rightarrow> u64 \<rightharpoonup> nat option" where
  "rlc_map s = (case rlc_coll s of None \<Rightarrow> Map.empty | Some h \<Rightarrow> ht_map h)"

text \<open>The entity under a key.\<close>

definition instances :: "'q rlc_layer \<Rightarrow> u64 \<rightharpoonup> 'q rlc_union" where
  "instances s k = (case rlc_map s k of Some (Some a) \<Rightarrow> unions s a | _ \<Rightarrow> None)"

text \<open>An entity that has been configured for a bearer and a logical channel.\<close>

definition named :: "u16 \<Rightarrow> u32 \<Rightarrow> bool \<Rightarrow> 'q rlc_union \<Rightarrow> bool" where
  "named rb lc srb u \<longleftrightarrow>
     (union_mode u = RLC_MODE_AM \<and>
        (\<exists>a. content u = Am a \<and> am_initialized a \<and> am_rb_id a = rb \<and> am_channel_id a = lc \<and> am_data_plane a = (\<not> srb))) \<or>
     (union_mode u = RLC_MODE_UM \<and>
        (\<exists>x. content u = Um x \<and> initialized (receiver x) \<and> protocol_state (receiver x) = RLC_DATA_TRANSFER_READY_STATE \<and>
           um_rb_id x = rb \<and> um_channel_id x = lc \<and> is_data_plane (receiver x) = (\<not> srb)))"

text \<open>The two keys under which it stands.\<close>

definition registered :: "u64 \<Rightarrow> u64 \<Rightarrow> 'q rlc_union \<Rightarrow> bool" where
  "registered k1 k2 u \<longleftrightarrow>
     (\<exists>c rb lc srb. rb < NB_RB_MAX \<and> lc < 256 \<and> k1 = rb_key c rb srb \<and> k2 = lc_key c lc srb \<and> named rb lc srb u)"

text \<open>
  A well-formed layer: the table is, and there is an assignment of two keys to addresses such that the table holds
  an address under exactly the keys that it is assigned, and the entity at the address is alive and has been
  configured for them.
\<close>

definition owned_by :: "(nat \<rightharpoonup> u64 \<times> u64) \<Rightarrow> 'q rlc_layer \<Rightarrow> bool" where
  "owned_by own s \<longleftrightarrow>
     (\<forall>k d. rlc_map s k = Some d \<longleftrightarrow> (\<exists>a k1 k2. d = Some a \<and> own a = Some (k1, k2) \<and> (k = k1 \<or> k = k2))) \<and>
     (\<forall>a k1 k2. own a = Some (k1, k2) \<longrightarrow> (\<exists>u. unions s a = Some u \<and> registered k1 k2 u))"

definition rlc_ok :: "'q rlc_layer \<Rightarrow> bool" where
  "rlc_ok s \<longleftrightarrow> (\<exists>h. rlc_coll s = Some h \<and> ht_ok h) \<and> (\<forall>a. unions s a \<noteq> None \<longrightarrow> a < next_union s) \<and> (\<exists>own. owned_by own s)"

lemma NB_RB_MAX_less [simp]: "rb < NB_RB_MAX \<Longrightarrow> rb < 256"
  by (simp add: NB_RB_MAX_def maxDRB_def word_less_nat_alt)

lemma registered_distinct: "registered k1 k2 u \<Longrightarrow> k1 \<noteq> k2"
  using rb_lc_key by (auto simp: registered_def)

lemma rlc_get_cases:
  assumes "rlc_ok s"
  obtains "rlc_map s k = None" "instances s k = None" "rlc_get k s = Inr (HASH_TABLE_KEY_NOT_EXISTS, None)"
    | a u where "rlc_map s k = Some (Some a)" "instances s k = Some u" "unions s a = Some u" "rlc_get k s = Inr (HASH_TABLE_OK, Some a)"
proof -
  from assms obtain h own where h: "rlc_coll s = Some h" "ht_ok h" "owned_by own s" unfolding rlc_ok_def by blast
  have map: "rlc_map s = ht_map h" using h(1) by (simp add: rlc_map_def)
  show thesis
  proof (cases "rlc_map s k")
    case None
    with h(1,2) that(1) map show ?thesis by (simp add: rlc_get_def hashtable_ops instances_def)
  next
    case (Some d)
    with h(3) obtain a u where "d = Some a" "unions s a = Some u" unfolding owned_by_def by blast
    with h(1,2) that(2) map Some show ?thesis by (simp add: rlc_get_def hashtable_ops instances_def)
  qed
qed

text \<open>The entity of a bearer is found under its channel too, and nowhere else.\<close>

lemma ownedE:
  assumes "owned_by own s" "rlc_map s k = Some (Some a)"
  obtains k1 k2 u where "own a = Some (k1, k2)" "k = k1 \<or> k = k2" "unions s a = Some u" "registered k1 k2 u"
    "\<And>k'. rlc_map s k' = Some (Some a) \<longleftrightarrow> k' = k1 \<or> k' = k2"
proof -
  from assms obtain k1 k2 where own: "own a = Some (k1, k2)" "k = k1 \<or> k = k2" unfolding owned_by_def by blast
  moreover obtain u where "unions s a = Some u" "registered k1 k2 u" using assms(1) own(1) unfolding owned_by_def by blast
  moreover have "rlc_map s k' = Some (Some a) \<longleftrightarrow> k' = k1 \<or> k' = k2" for k' using assms(1) own(1) unfolding owned_by_def by auto
  ultimately show thesis by (rule that)
qed

lemma rlc_pair:
  assumes "rlc_ok s" "rb < NB_RB_MAX" "rlc_map s (rb_key c rb srb) = Some (Some a)"
  obtains lc u where "lc < 256" "unions s a = Some u" "named rb lc srb u"
    "\<And>k. rlc_map s k = Some (Some a) \<longleftrightarrow> k = rb_key c rb srb \<or> k = lc_key c lc srb"
proof -
  from assms(1) obtain own where own: "owned_by own s" unfolding rlc_ok_def by blast
  obtain k1 k2 u where k: "own a = Some (k1, k2)" "rb_key c rb srb = k1 \<or> rb_key c rb srb = k2"
    "unions s a = Some u" "registered k1 k2 u" "\<And>k'. rlc_map s k' = Some (Some a) \<longleftrightarrow> k' = k1 \<or> k' = k2"
    by (rule ownedE [OF own assms(3)]) blast
  from k(4) obtain c' rb' lc srb' where r: "rb' < NB_RB_MAX" "lc < 256" "k1 = rb_key c' rb' srb'" "k2 = lc_key c' lc srb'"
    "named rb' lc srb' u" unfolding registered_def by blast
  have "rb_key c rb srb = rb_key c' rb' srb'" using k(2) r rb_lc_key assms(2) by auto
  then have same: "same_ue c c'" "rb = rb'" "srb = srb'" using rb_keys r(1) assms(2) by auto
  then have "lc_key c lc srb = k2" "rb_key c rb srb = k1" using r(3,4) by (simp_all add: lc_key_def rb_key_def same_ue_def)
  with that r(2,5) k(3,5) same show thesis by simp
qed

section \<open>Entities in the table\<close>

lemma rlc_map_unions [simp]: "rlc_map (s\<lparr>unions := f\<rparr>) = rlc_map s" "rlc_map (s\<lparr>next_union := n\<rparr>) = rlc_map s"
  by (simp_all add: rlc_map_def)

lemma put_union_simps [simp]:
  "rlc_coll (put_union a u s) = rlc_coll s" "rlc_map (put_union a u s) = rlc_map s" "next_union (put_union a u s) = next_union s"
  "unions (put_union a u s) = (unions s)(a \<mapsto> u)"
  by (simp_all add: put_union_def)

lemma union_at_put [simp]: "union_at (Some a) (put_union a u s) = Inr u"
  by (simp add: union_at_def)

lemma put_instances:
  assumes "\<And>k. rlc_map s k = Some (Some a) \<longleftrightarrow> k = k1 \<or> k = k2"
  shows "instances (put_union a u s) = (instances s)(k1 \<mapsto> u, k2 \<mapsto> u)"
proof
  fix k
  show "instances (put_union a u s) k = ((instances s)(k1 \<mapsto> u, k2 \<mapsto> u)) k"
    using assms [of k] by (cases "rlc_map s k") (auto simp: instances_def split: option.splits)
qed

text \<open>Changing an entity in a way that keeps its names.\<close>

lemma put_named:
  assumes ok: "rlc_ok s" and rb: "rb < NB_RB_MAX" and lc: "lc < 256"
    and pair: "\<And>k. rlc_map s k = Some (Some a) \<longleftrightarrow> k = rb_key c rb srb \<or> k = lc_key c lc srb" and u: "named rb lc srb u"
  shows "rlc_ok (put_union a u s)" "instances (put_union a u s) = (instances s)(rb_key c rb srb \<mapsto> u, lc_key c lc srb \<mapsto> u)"
proof -
  let ?k1 = "rb_key c rb srb" and ?k2 = "lc_key c lc srb"
  from ok obtain own where own: "owned_by own s" and bound: "\<forall>a. unions s a \<noteq> None \<longrightarrow> a < next_union s"
    and h: "\<exists>h. rlc_coll s = Some h \<and> ht_ok h" unfolding rlc_ok_def by blast
  have map: "rlc_map s ?k1 = Some (Some a)" using pair by simp
  obtain k1 k2 v where k: "own a = Some (k1, k2)" "unions s a = Some v" "registered k1 k2 v"
    "\<And>k'. rlc_map s k' = Some (Some a) \<longleftrightarrow> k' = k1 \<or> k' = k2" by (rule ownedE [OF own map]) blast
  from k(3) obtain c' rb' lc' srb' where r: "rb' < NB_RB_MAX" "lc' < 256" "k1 = rb_key c' rb' srb'" "k2 = lc_key c' lc' srb'"
    unfolding registered_def by blast
  have "?k1 \<noteq> k2" "k1 \<noteq> ?k2" unfolding r(3,4) using rb_lc_key rb r(1,2) lc by auto
  with k(4) pair have keys: "k1 = ?k1" "k2 = ?k2" by metis+
  have "registered ?k1 ?k2 u" unfolding registered_def using rb lc u by blast
  then have "owned_by own (put_union a u s)" using own k(1) keys unfolding owned_by_def by auto
  moreover have "a < next_union s" using bound k(2) by simp
  ultimately show "rlc_ok (put_union a u s)" unfolding rlc_ok_def using h bound by auto
  show "instances (put_union a u s) = (instances s)(?k1 \<mapsto> u, ?k2 \<mapsto> u)" by (rule put_instances [OF pair])
qed

text \<open>Adding an entity for a bearer and a channel that are both free.\<close>

lemma coll_insert_free:
  assumes "rlc_coll s = Some h" "ht_ok h" "rlc_map s k = None"
  shows "rlc_insert k d s = Inr (HASH_TABLE_OK, s\<lparr>rlc_coll := Some (ht_put k d h)\<rparr>)" "ht_ok (ht_put k d h)"
    "rlc_map (s\<lparr>rlc_coll := Some (ht_put k d h)\<rparr>) = (rlc_map s)(k \<mapsto> d)"
  using assms table.stored_put [OF assms(2)] table.inv_put [OF assms(2)]
  by (simp_all add: rlc_insert_def hashtable_ops rlc_map_def)

definition fresh_entry :: "nat \<Rightarrow> u64 \<Rightarrow> u64 \<Rightarrow> 'q rlc_union \<Rightarrow> 'q rlc_layer \<Rightarrow> 'q rlc_layer \<Rightarrow> bool" where
  "fresh_entry a k1 k2 u s s1 \<longleftrightarrow> a = next_union s \<and> next_union s1 = a + 1 \<and> unions s1 = (unions s)(a \<mapsto> u) \<and>
     (\<exists>h. rlc_coll s1 = Some h \<and> ht_ok h) \<and> rlc_map s1 = (rlc_map s)(k1 \<mapsto> Some a, k2 \<mapsto> Some a)"

lemma add_fresh:
  assumes ok: "rlc_ok s" and rb: "rb < NB_RB_MAX" and lc: "lc < 256"
    and free: "instances s (rb_key c rb srb) = None" "instances s (lc_key c lc srb) = None"
  shows "\<exists>s1. rrc_rlc_add_rlc c srb rb lc mode s = Inr (Some (next_union s), s1) \<and>
    fresh_entry (next_union s) (rb_key c rb srb) (lc_key c lc srb) \<lparr>union_mode = mode, content = Cleared\<rparr> s s1"
proof -
  let ?k1 = "rb_key c rb srb" and ?k2 = "lc_key c lc srb" and ?a = "next_union s"
  have none: "rlc_map s ?k1 = None" "rlc_get ?k1 s = Inr (HASH_TABLE_KEY_NOT_EXISTS, None)" "rlc_map s ?k2 = None"
    using rlc_get_cases [OF ok, of ?k1] rlc_get_cases [OF ok, of ?k2] free by (metis option.distinct(1))+
  obtain h where h: "rlc_coll s = Some h" "ht_ok h" using ok unfolding rlc_ok_def by blast
  define s0 where "s0 = snd (new_union s)"
  have s0: "new_union s = (?a, s0)" "rlc_coll s0 = Some h" "rlc_map s0 = rlc_map s" "next_union s0 = ?a + 1"
    "unions s0 = (unions s)(?a \<mapsto> \<lparr>union_mode = RLC_MODE_NONE, content = Cleared\<rparr>)"
    using h(1) by (simp_all add: s0_def new_union_def)
  have differ: "?k2 \<noteq> ?k1" using rb_lc_key [of rb lc c srb c srb] rb lc by simp
  let ?h1 = "ht_put ?k1 (Some ?a) h"
  let ?s1 = "s0\<lparr>rlc_coll := Some ?h1\<rparr>"
  note i1 = coll_insert_free [OF s0(2) h(2), of ?k1 "Some ?a", unfolded s0(3), OF none(1)]
  have free2: "rlc_map ?s1 ?k2 = None" using i1(3) none(3) differ by simp
  have coll1: "rlc_coll ?s1 = Some ?h1" by simp
  let ?s2 = "?s1\<lparr>rlc_coll := Some (ht_put ?k2 (Some ?a) ?h1)\<rparr>"
  note i2 = coll_insert_free [OF coll1 i1(2) free2, of "Some ?a"]
  have "lc < RLC_MAX_LC" using lc by (simp add: RLC_MAX_LC_def word_less_nat_alt)
  moreover have "union_at (Some ?a) ?s2 = Inr \<lparr>union_mode = RLC_MODE_NONE, content = Cleared\<rparr>" by (simp add: union_at_def s0(5))
  ultimately have "rrc_rlc_add_rlc c srb rb lc mode s =
      Inr (Some ?a, put_union ?a \<lparr>union_mode = mode, content = Cleared\<rparr> ?s2)"
    using rb none(2) s0(1) i1(1) i2(1) by (simp add: rrc_rlc_add_rlc_def)
  moreover have "fresh_entry ?a ?k1 ?k2 \<lparr>union_mode = mode, content = Cleared\<rparr> s (put_union ?a \<lparr>union_mode = mode, content = Cleared\<rparr> ?s2)"
    using i1(3) i2(2,3) s0(3-5) by (simp add: fresh_entry_def)
  ultimately show ?thesis by blast
qed

lemma fresh_entry_put: "fresh_entry a k1 k2 u s s1 \<Longrightarrow> fresh_entry a k1 k2 u' s (put_union a u' s1)"
  by (auto simp: fresh_entry_def)

lemma fresh_entry_get:
  assumes "fresh_entry a k1 k2 u s s1"
  shows "rlc_get k1 s1 = Inr (HASH_TABLE_OK, Some a)" "union_at (Some a) s1 = Inr u"
proof -
  from assms obtain h where "rlc_coll s1 = Some h" "ht_ok h" "rlc_map s1 k1 = Some (Some a)" by (auto simp: fresh_entry_def)
  then show "rlc_get k1 s1 = Inr (HASH_TABLE_OK, Some a)" by (simp add: rlc_get_def hashtable_ops rlc_map_def)
  show "union_at (Some a) s1 = Inr u" using assms by (simp add: fresh_entry_def union_at_def)
qed

lemma fresh_entry_ok:
  assumes ok: "rlc_ok s" and fresh: "fresh_entry a (rb_key c rb srb) (lc_key c lc srb) u s s1"
    and rb: "rb < NB_RB_MAX" and lc: "lc < 256" and u: "named rb lc srb u"
    and free: "rlc_map s (rb_key c rb srb) = None" "rlc_map s (lc_key c lc srb) = None"
  shows "rlc_ok s1" "instances s1 = (instances s)(rb_key c rb srb \<mapsto> u, lc_key c lc srb \<mapsto> u)"
proof -
  let ?k1 = "rb_key c rb srb" and ?k2 = "lc_key c lc srb"
  from ok obtain own where own: "owned_by own s" and bound: "\<forall>a. unions s a \<noteq> None \<longrightarrow> a < next_union s" unfolding rlc_ok_def by blast
  note f = fresh [unfolded fresh_entry_def]
  have dead: "unions s a = None" using bound f by (cases "unions s a") auto
  have "own a = None"
  proof (rule ccontr)
    assume "own a \<noteq> None"
    then obtain k1 k2 where "own a = Some (k1, k2)" by force
    with own dead show False unfolding owned_by_def by force
  qed
  have reg: "registered ?k1 ?k2 u" unfolding registered_def using rb lc u by blast
  have "owned_by (own(a \<mapsto> (?k1, ?k2))) s1"
    unfolding owned_by_def
  proof (intro conjI allI impI)
    fix k d
    show "rlc_map s1 k = Some d \<longleftrightarrow>
        (\<exists>a' k1 k2. d = Some a' \<and> (own(a \<mapsto> (?k1, ?k2))) a' = Some (k1, k2) \<and> (k = k1 \<or> k = k2))"
    proof (cases "k = ?k1 \<or> k = ?k2")
      case True
      then have "rlc_map s k = None" using free by auto
      then have "\<nexists>a' k1 k2. own a' = Some (k1, k2) \<and> (k = k1 \<or> k = k2)" using own unfolding owned_by_def by (metis option.distinct(1))
      with True f show ?thesis by auto
    next
      case False
      then have "rlc_map s1 k = rlc_map s k" using f by simp
      moreover have "rlc_map s k = Some d \<longleftrightarrow> (\<exists>a' k1 k2. d = Some a' \<and> own a' = Some (k1, k2) \<and> (k = k1 \<or> k = k2))"
        using own unfolding owned_by_def by blast
      moreover have "(own(a \<mapsto> (?k1, ?k2))) a' = Some (k1, k2) \<and> (k = k1 \<or> k = k2) \<longleftrightarrow> own a' = Some (k1, k2) \<and> (k = k1 \<or> k = k2)"
        for a' k1 k2 using False \<open>own a = None\<close> by auto
      ultimately show ?thesis by simp
    qed
  next
    fix a' k1 k2
    assume "(own(a \<mapsto> (?k1, ?k2))) a' = Some (k1, k2)"
    then show "\<exists>u'. unions s1 a' = Some u' \<and> registered k1 k2 u'"
      using reg f own unfolding owned_by_def by (auto split: if_splits)
  qed
  with f bound show "rlc_ok s1" unfolding rlc_ok_def by (auto simp: less_Suc_eq split: if_splits)
  have other: "rlc_map s k \<noteq> Some (Some a)" for k using own dead unfolding owned_by_def by (metis option.distinct(1) option.inject)
  show "instances s1 = (instances s)(?k1 \<mapsto> u, ?k2 \<mapsto> u)"
  proof
    fix k
    show "instances s1 k = ((instances s)(?k1 \<mapsto> u, ?k2 \<mapsto> u)) k"
      using f other [of k] by (cases "rlc_map s k") (auto simp: instances_def split: option.splits)
  qed
qed

section \<open>What a request says\<close>

definition mode_of :: "rlc_config \<Rightarrow> rlc_mode option" where
  "mode_of cfg =
     (case cfg of
        RLC_Config_am _ \<Rightarrow> Some RLC_MODE_AM
      | RLC_Config_um_Bi_Directional _ _ \<Rightarrow> Some RLC_MODE_UM
      | RLC_Config_um_Uni_Directional_UL _ \<Rightarrow> Some RLC_MODE_UM
      | RLC_Config_um_Uni_Directional_DL _ \<Rightarrow> Some RLC_MODE_UM
      | _ \<Rightarrow> None)"

definition directions :: "rlc_config \<Rightarrow> nat option \<times> (nat \<times> nat) option" where
  "directions cfg =
     (case cfg of
        RLC_Config_um_Bi_Directional ul dl \<Rightarrow> (Some ul, Some dl)
      | RLC_Config_um_Uni_Directional_UL ul \<Rightarrow> (Some ul, None)
      | RLC_Config_um_Uni_Directional_DL dl \<Rightarrow> (None, Some dl)
      | _ \<Rightarrow> (None, None))"

text \<open>
  The specification of one bearer: an entity that is not there is made and configured. One in acknowledged mode that
  is there gets the new parameters and keeps its buffers; one in unacknowledged mode keeps everything.
\<close>

definition new_entity_of :: "'q am_ops \<Rightarrow> bool \<Rightarrow> bool \<Rightarrow> u16 \<Rightarrow> u32 \<Rightarrow> rlc_config \<Rightarrow> 'q rlc_union" where
  "new_entity_of ops enb srb rb lc cfg =
     (case cfg of
        RLC_Config_am am \<Rightarrow> \<lparr>union_mode = RLC_MODE_AM, content = Am (configure_am ops srb rb lc am (zero_am ops))\<rparr>
      | _ \<Rightarrow>
          (case configure_um enb srb rb lc (fst (directions cfg)) (snd (directions cfg)) zero_um of
             Inr x \<Rightarrow> \<lparr>union_mode = RLC_MODE_UM, content = Um x\<rparr>
           | Inl _ \<Rightarrow> \<lparr>union_mode = RLC_MODE_UM, content = Cleared\<rparr>))"

definition changed_entity :: "'q am_ops \<Rightarrow> bool \<Rightarrow> u16 \<Rightarrow> u32 \<Rightarrow> rlc_config \<Rightarrow> 'q rlc_union \<Rightarrow> 'q rlc_union" where
  "changed_entity ops srb rb lc cfg u =
     (case (cfg, content u) of
        (RLC_Config_am am, Am a) \<Rightarrow> u\<lparr>content := Am (configure_am ops srb rb lc am a)\<rparr>
      | _ \<Rightarrow> u)"

definition spec_bearer ::
  "'q am_ops \<Rightarrow> protocol_ctxt \<Rightarrow> bool \<Rightarrow> u16 \<Rightarrow> u32 \<Rightarrow> rlc_config \<Rightarrow> (u64 \<rightharpoonup> 'q rlc_union) \<Rightarrow> (u64 \<rightharpoonup> 'q rlc_union)" where
  "spec_bearer ops c srb rb lc cfg m =
     (if mode_of cfg = None then m
      else
        let u = (case m (rb_key c rb srb) of
                   None \<Rightarrow> new_entity_of ops (enb_flag c) srb rb lc cfg
                 | Some u \<Rightarrow> changed_entity ops srb rb lc cfg u)
        in m(rb_key c rb srb \<mapsto> u, lc_key c lc srb \<mapsto> u))"

text \<open>
  A request for a bearer is consistent when its values are legal and the bearer and the channel are both new, or
  belong to one entity of the same mode.
\<close>

definition consistent :: "protocol_ctxt \<Rightarrow> bool \<Rightarrow> u16 \<Rightarrow> u32 \<Rightarrow> rlc_config \<Rightarrow> (u64 \<rightharpoonup> 'q rlc_union) \<Rightarrow> bool" where
  "consistent c srb rb lc cfg m \<longleftrightarrow>
     (case mode_of cfg of
        None \<Rightarrow> True
      | Some mode \<Rightarrow>
          rb < NB_RB_MAX \<and> lc < 256 \<and> (\<forall>am. cfg = RLC_Config_am am \<longrightarrow> am_config_legal am) \<and>
          (case m (rb_key c rb srb) of
             None \<Rightarrow> m (lc_key c lc srb) = None
           | Some u \<Rightarrow> union_mode u = mode \<and> named rb lc srb u))"

lemma configure_um_new:
  "\<exists>x. configure_um enb srb rb lc ul dl zero_um = Inr x \<and> initialized (receiver x) \<and>
     protocol_state (receiver x) = RLC_DATA_TRANSFER_READY_STATE \<and> um_rb_id x = rb \<and> um_channel_id x = lc \<and>
     is_data_plane (receiver x) = (\<not> srb)"
  by (auto simp: configure_um_def um_init_def zero_um_def zero_rlc_um_def rlc_um_init_def rlc_um_fsm_notify_event_def
      rlc_um_set_debug_infos_def um_configure_def rlc_um_configure_def rlc_um_reset_state_variables_def
      rlc_um_init_timer_reordering_def Let_def split: option.splits)

lemma configure_um_busy:
  "initialized (receiver x) \<Longrightarrow> protocol_state (receiver x) = RLC_DATA_TRANSFER_READY_STATE \<Longrightarrow>
   configure_um enb srb rb lc ul dl x = Inr x"
  by (simp add: configure_um_def um_init_def rlc_um_fsm_notify_event_def)

lemma configure_am_simps [simp]:
  assumes "am_config_legal am"
  shows "am_rb_id (configure_am ops srb rb lc am a) = rb" "am_channel_id (configure_am ops srb rb lc am a) = lc"
    "am_data_plane (configure_am ops srb rb lc am a) = (\<not> srb)" "am_initialized (configure_am ops srb rb lc am a)"
  using assms by (simp_all add: configure_am_def rlc_am_configure_def rlc_am_set_debug_infos_def rlc_am_init_def)

text \<open>One bearer of a request, as the code configures it.\<close>

definition configure_entity ::
  "'q am_ops \<Rightarrow> protocol_ctxt \<Rightarrow> bool \<Rightarrow> u16 \<Rightarrow> u32 \<Rightarrow> rlc_config \<Rightarrow> 'q rlc_layer \<Rightarrow> 'q rlc_layer res" where
  "configure_entity ops c srb rb lc cfg =
     (case cfg of
        RLC_Config_am am \<Rightarrow> config_req_rlc_am_asn1 ops c srb am rb lc
      | _ \<Rightarrow> config_req_rlc_um_asn1 c srb (fst (directions cfg)) (snd (directions cfg)) rb lc)"

lemma configure_bearer_eq:
  "configure_bearer ops c srb rb lc cfg s =
     (case mode_of cfg of None \<Rightarrow> Inr s | Some mode \<Rightarrow> add_and_configure c srb rb lc mode (configure_entity ops c srb rb lc cfg) s)"
  by (cases cfg) (simp_all add: configure_bearer_def mode_of_def configure_entity_def directions_def)

lemma new_um_entity:
  assumes "\<not> (\<exists>am. cfg = RLC_Config_am am)"
    and "configure_um enb srb rb lc (fst (directions cfg)) (snd (directions cfg)) zero_um = Inr x"
  shows "new_entity_of ops enb srb rb lc cfg = \<lparr>union_mode = RLC_MODE_UM, content = Um x\<rparr>"
  using assms by (cases cfg) (simp_all add: new_entity_of_def)

lemma configure_fresh:
  assumes get: "rlc_get (rb_key c rb srb) s = Inr (HASH_TABLE_OK, Some a)" "union_at (Some a) s = Inr \<lparr>union_mode = mode, content = Cleared\<rparr>"
    and mode: "mode_of cfg = Some mode"
  shows "configure_entity ops c srb rb lc cfg s = Inr (put_union a (new_entity_of ops (enb_flag c) srb rb lc cfg) s)"
proof (cases "\<exists>am. cfg = RLC_Config_am am")
  case True
  with get mode show ?thesis
    by (auto simp: configure_entity_def config_req_rlc_am_asn1_def as_am_def new_entity_of_def mode_of_def)
next
  case False
  with mode have um: "mode = RLC_MODE_UM" "configure_entity ops c srb rb lc cfg =
      config_req_rlc_um_asn1 c srb (fst (directions cfg)) (snd (directions cfg)) rb lc"
    by (auto simp: mode_of_def configure_entity_def split: rlc_config.splits)
  obtain x where x: "configure_um (enb_flag c) srb rb lc (fst (directions cfg)) (snd (directions cfg)) zero_um = Inr x"
    using configure_um_new by blast
  have "new_entity_of ops (enb_flag c) srb rb lc cfg = \<lparr>union_mode = RLC_MODE_UM, content = Um x\<rparr>"
    by (rule new_um_entity [OF False x])
  with get x um show ?thesis by (simp add: config_req_rlc_um_asn1_def upd_um_def as_um_def)
qed

lemma new_entity_named:
  assumes "mode_of cfg = Some mode" "\<forall>am. cfg = RLC_Config_am am \<longrightarrow> am_config_legal am"
  shows "named rb lc srb (new_entity_of ops enb srb rb lc cfg)"
proof (cases "\<exists>am. cfg = RLC_Config_am am")
  case True
  with assms show ?thesis by (auto simp: named_def new_entity_of_def)
next
  case False
  obtain x where x: "configure_um enb srb rb lc (fst (directions cfg)) (snd (directions cfg)) zero_um = Inr x"
    "initialized (receiver x)" "protocol_state (receiver x) = RLC_DATA_TRANSFER_READY_STATE" "um_rb_id x = rb" "um_channel_id x = lc"
    "is_data_plane (receiver x) = (\<not> srb)" using configure_um_new by blast
  have "new_entity_of ops enb srb rb lc cfg = \<lparr>union_mode = RLC_MODE_UM, content = Um x\<rparr>"
    by (rule new_um_entity [OF False x(1)])
  with x show ?thesis by (simp add: named_def)
qed

lemma changed_named:
  "named rb lc srb u \<Longrightarrow> \<forall>am. cfg = RLC_Config_am am \<longrightarrow> am_config_legal am \<Longrightarrow> named rb lc srb (changed_entity ops srb rb lc cfg u)"
  by (auto simp: named_def changed_entity_def split: rlc_config.splits)

lemma content_same: "content u = x \<Longrightarrow> u\<lparr>content := x\<rparr> = u"
  by (cases u) simp

lemma configure_again:
  assumes get: "rlc_get (rb_key c rb srb) s = Inr (HASH_TABLE_OK, Some a)" "unions s a = Some u"
    and u: "named rb lc srb u" "mode_of cfg = Some (union_mode u)"
  shows "configure_entity ops c srb rb lc cfg s = Inr (put_union a (changed_entity ops srb rb lc cfg u) s)"
  using u(1) [unfolded named_def]
proof (elim disjE conjE exE)
  fix x
  assume x: "union_mode u = RLC_MODE_AM" "content u = Am x"
  with get u(2) show ?thesis
    by (auto simp: configure_entity_def config_req_rlc_am_asn1_def as_am_def changed_entity_def mode_of_def union_at_def split: rlc_config.splits)
next
  fix x
  assume x: "union_mode u = RLC_MODE_UM" "content u = Um x" "initialized (receiver x)"
    "protocol_state (receiver x) = RLC_DATA_TRANSFER_READY_STATE"
  with get u(2) x configure_um_busy [OF x(3,4)] show ?thesis
    by (auto simp: configure_entity_def config_req_rlc_um_asn1_def upd_um_def as_um_def changed_entity_def mode_of_def union_at_def content_same
        split: rlc_config.splits)
qed

lemma configure_bearer_ok:
  assumes ok: "rlc_ok s" and con: "consistent c srb rb lc cfg (instances s)"
  shows "\<exists>s1. configure_bearer ops c srb rb lc cfg s = Inr s1 \<and> rlc_ok s1 \<and> instances s1 = spec_bearer ops c srb rb lc cfg (instances s)"
proof (cases "mode_of cfg")
  case None
  with ok show ?thesis by (simp add: configure_bearer_eq spec_bearer_def)
next
  case (Some mode)
  let ?k1 = "rb_key c rb srb" and ?k2 = "lc_key c lc srb"
  from con Some have rb: "rb < NB_RB_MAX" and lc: "lc < 256" and legal: "\<forall>am. cfg = RLC_Config_am am \<longrightarrow> am_config_legal am"
    by (auto simp: consistent_def)
  have run: "configure_bearer ops c srb rb lc cfg s = add_and_configure c srb rb lc mode (configure_entity ops c srb rb lc cfg) s"
    by (simp add: configure_bearer_eq Some)
  show ?thesis
  proof (cases rule: rlc_get_cases [OF ok, of ?k1, case_names none some])
    case none
    then have free: "instances s ?k1 = None" "instances s ?k2 = None" using con Some by (auto simp: consistent_def)
    let ?u = "new_entity_of ops (enb_flag c) srb rb lc cfg" and ?a = "next_union s"
    from add_fresh [OF ok rb lc free] obtain s1 where s1: "rrc_rlc_add_rlc c srb rb lc mode s = Inr (Some ?a, s1)"
      "fresh_entry ?a ?k1 ?k2 \<lparr>union_mode = mode, content = Cleared\<rparr> s s1" by blast
    have "configure_bearer ops c srb rb lc cfg s = Inr (put_union ?a ?u s1)"
      unfolding run using s1(1) configure_fresh [OF fresh_entry_get [OF s1(2)] Some] by (simp add: add_and_configure_def)
    moreover have "rlc_map s ?k2 = None" using free(2) rlc_get_cases [OF ok, of ?k2] by (metis option.distinct(1))
    then have "rlc_ok (put_union ?a ?u s1)" "instances (put_union ?a ?u s1) = (instances s)(?k1 \<mapsto> ?u, ?k2 \<mapsto> ?u)"
      using fresh_entry_ok [OF ok fresh_entry_put [OF s1(2)] rb lc new_entity_named [OF Some legal]] none(1) by blast+
    ultimately show ?thesis using free Some by (simp add: spec_bearer_def Let_def)
  next
    case (some a u)
    then have u: "union_mode u = mode" "named rb lc srb u" using con Some by (auto simp: consistent_def)
    let ?u = "changed_entity ops srb rb lc cfg u"
    have "rb < NB_RB_MAX \<and> lc < RLC_MAX_LC" using rb lc by (simp add: RLC_MAX_LC_def word_less_nat_alt)
    then have "rrc_rlc_add_rlc c srb rb lc mode s = Inr (Some a, s)"
      using some u(1) by (simp add: rrc_rlc_add_rlc_def union_at_def)
    then have "configure_bearer ops c srb rb lc cfg s = Inr (put_union a ?u s)"
      unfolding run using configure_again [OF some(4,3) u(2)] Some u(1) by (simp add: add_and_configure_def)
    moreover obtain lc' v where v: "lc' < 256" "unions s a = Some v" "named rb lc' srb v"
      "\<And>k. rlc_map s k = Some (Some a) \<longleftrightarrow> k = ?k1 \<or> k = lc_key c lc' srb" by (rule rlc_pair [OF ok rb some(1)]) blast
    moreover have "lc' = lc" using u(2) v(2,3) some(3) by (auto simp: named_def)
    moreover have "rlc_ok (put_union a ?u s)" "instances (put_union a ?u s) = (instances s)(?k1 \<mapsto> ?u, ?k2 \<mapsto> ?u)"
      using put_named [OF ok rb lc _ changed_named [OF u(2) legal]] v(4) \<open>lc' = lc\<close> by blast+
    ultimately show ?thesis using some(2) Some by (simp add: spec_bearer_def Let_def)
  qed
qed

end
