(* ===== verification/RlcRequests.thy ===== *)
theory RlcRequests
  imports RlcBearers
begin

text \<open>
  The requests of the RRC to the RLC layer: what taking out bearers and removing a UE does, and that a request whose
  parts are consistent is an operation on the map of entities.
\<close>

section \<open>Taking out one bearer\<close>

definition channel :: "'q rlc_union \<Rightarrow> u32" where
  "channel u = (case content u of Cleared \<Rightarrow> 0 | Am a \<Rightarrow> am_channel_id a | Um x \<Rightarrow> um_channel_id x)"

definition cleared :: "'q rlc_union \<Rightarrow> 'q rlc_union" where
  "cleared u = u\<lparr>content := Cleared\<rparr>"

lemma named_simps:
  assumes "named rb lc srb u"
  shows "channel_of u = Inr lc" "channel u = lc" "union_mode u \<noteq> RLC_MODE_NONE"
  using assms by (auto simp: named_def channel_of_def channel_def)

lemma rlc_remove_there:
  assumes "rlc_coll s = Some h" "ht_ok h" "rlc_map s k = Some (Some a)" "unions s a = Some u" "union_mode u \<noteq> RLC_MODE_NONE"
  shows "rlc_remove k s = Inr (HASH_TABLE_OK, put_union a (cleared u) (s\<lparr>rlc_coll := Some (ht_del k h)\<rparr>))" "ht_ok (ht_del k h)"
    "rlc_map (s\<lparr>rlc_coll := Some (ht_del k h)\<rparr>) = (rlc_map s)(k := None)"
  using assms table.stored_del [OF assms(2)] table.inv_del [OF assms(2)]
  by (simp_all add: rlc_remove_def hashtable_ops rlc_map_def freed_data_def rb_free_rlc_union_def union_at_def cleared_def)

text \<open>
  A bearer that is there is taken out under both keys and its entity is cleared. The memory of the entity stays
  allocated, and nothing points to it any more.
\<close>

definition leaked :: "nat \<Rightarrow> 'q rlc_layer \<Rightarrow> bool" where
  "leaked a s \<longleftrightarrow> unions s a \<noteq> None \<and> (\<forall>k. rlc_map s k \<noteq> Some (Some a))"

lemma remove_there:
  assumes ok: "rlc_ok s" and rb: "rb < NB_RB_MAX" and u: "instances s (rb_key c rb srb) = Some u"
  shows "\<exists>a s1. rrc_rlc_remove_rlc c srb rb s = Inr s1 \<and> rlc_ok s1 \<and>
    instances s1 = (instances s)(rb_key c rb srb := None, lc_key c (channel u) srb := None) \<and>
    rlc_map s (rb_key c rb srb) = Some (Some a) \<and> leaked a s1"
proof -
  let ?k1 = "rb_key c rb srb" and ?k2 = "lc_key c (channel u) srb"
  from rlc_get_cases [OF ok, of ?k1] u obtain a where a: "rlc_map s ?k1 = Some (Some a)" "unions s a = Some u"
    "rlc_get ?k1 s = Inr (HASH_TABLE_OK, Some a)" by (metis option.distinct(1) option.inject)
  obtain lc where lc: "lc < 256" "named rb lc srb u" "\<And>k. rlc_map s k = Some (Some a) \<longleftrightarrow> k = ?k1 \<or> k = lc_key c lc srb"
    using rlc_pair [OF ok rb a(1)] a(2) by (metis option.inject)
  note n = named_simps [OF lc(2)]
  have pair: "rlc_map s k = Some (Some a) \<longleftrightarrow> k = ?k1 \<or> k = ?k2" for k using lc(3) n(2) by simp
  have differ: "?k1 \<noteq> ?k2" using rb_lc_key [of rb lc c srb c srb] rb lc(1) n(2) by simp
  obtain h own where h: "rlc_coll s = Some h" "ht_ok h" and own: "owned_by own s"
    and bound: "\<forall>a. unions s a \<noteq> None \<longrightarrow> a < next_union s" using ok unfolding rlc_ok_def by blast
  have map2: "rlc_map s ?k2 = Some (Some a)" using pair by simp
  then have get2: "rlc_get ?k2 s = Inr (HASH_TABLE_OK, Some a)"
    using h by (simp add: rlc_get_def hashtable_ops rlc_map_def)
  let ?s1 = "put_union a (cleared u) (s\<lparr>rlc_coll := Some (ht_del ?k2 h)\<rparr>)"
  note r1 = rlc_remove_there [OF h map2 a(2) n(3)]
  have s1: "rlc_coll ?s1 = Some (ht_del ?k2 h)" "rlc_map ?s1 ?k1 = Some (Some a)" "unions ?s1 a = Some (cleared u)"
    "union_mode (cleared u) \<noteq> RLC_MODE_NONE" "cleared (cleared u) = cleared u"
    using a(1) differ n(3) r1(3) by (simp_all add: cleared_def)
  let ?s2 = "put_union a (cleared u) (?s1\<lparr>rlc_coll := Some (ht_del ?k1 (ht_del ?k2 h))\<rparr>)"
  note r2 = rlc_remove_there [OF s1(1) r1(2) s1(2-4), unfolded s1(5)]
  have run: "rrc_rlc_remove_rlc c srb rb s = Inr ?s2"
    using rb a(2,3) n(1,2) get2 r1(1) r2(1) by (simp add: rrc_rlc_remove_rlc_def union_at_def)
  have map: "rlc_map ?s2 = (rlc_map s)(?k2 := None, ?k1 := None)" using r2(3) r1(3) by simp
  have un: "unions ?s2 = (unions s)(a \<mapsto> cleared u)" by simp
  have gone: "rlc_map ?s2 k \<noteq> Some (Some a)" for k using pair [of k] unfolding map by auto
  have "owned_by (own(a := None)) ?s2"
    unfolding owned_by_def
  proof (intro conjI allI impI)
    fix k d
    have held: "rlc_map s k = Some (Some a') \<longleftrightarrow> (\<exists>k1 k2. own a' = Some (k1, k2) \<and> (k = k1 \<or> k = k2))" for a'
      using own unfolding owned_by_def by blast
    have all: "rlc_map s k = Some d \<Longrightarrow> \<exists>a'. d = Some a'" using own unfolding owned_by_def by blast
    have "rlc_map ?s2 k = Some d \<longleftrightarrow> (\<exists>a'. d = Some a' \<and> a' \<noteq> a \<and> rlc_map s k = Some (Some a'))"
    proof (cases "rlc_map s k = Some (Some a)")
      case True
      then have "k = ?k1 \<or> k = ?k2" using pair by blast
      with True show ?thesis unfolding map by auto
    next
      case False
      then have "rlc_map ?s2 k = rlc_map s k" using pair [of k] unfolding map by simp
      with False all show ?thesis by auto
    qed
    then show "rlc_map ?s2 k = Some d \<longleftrightarrow>
        (\<exists>a' k1 k2. d = Some a' \<and> (own(a := None)) a' = Some (k1, k2) \<and> (k = k1 \<or> k = k2))"
      unfolding held by auto
  next
    fix a' k1 k2
    assume "(own(a := None)) a' = Some (k1, k2)"
    then show "\<exists>u'. unions ?s2 a' = Some u' \<and> registered k1 k2 u'"
      using own unfolding owned_by_def un by (auto split: if_splits)
  qed
  then have "rlc_ok ?s2" using bound a(2) r2(2) unfolding rlc_ok_def by auto
  moreover have "instances ?s2 = (instances s)(?k1 := None, ?k2 := None)"
  proof
    fix k
    show "instances ?s2 k = ((instances s)(?k1 := None, ?k2 := None)) k"
      using gone [of k] unfolding instances_def un map by (auto split: option.splits)
  qed
  moreover have "leaked a ?s2" using gone by (auto simp: leaked_def)
  ultimately show ?thesis using run a(1) by blast
qed

lemma remove_absent:
  assumes "rlc_ok s" "rb < NB_RB_MAX" "instances s (rb_key c rb srb) = None"
  shows "rrc_rlc_remove_rlc c srb rb s = Inr s"
proof (cases rule: rlc_get_cases [OF assms(1), of "rb_key c rb srb", case_names none some])
  case none
  with assms(2) show ?thesis by (simp add: rrc_rlc_remove_rlc_def)
next
  case some
  with assms(3) show ?thesis by simp
qed

section \<open>The layer as a store of bearers\<close>

text \<open>A bearer: instance, identity of the UE and side, the plane, and the number.\<close>

type_synonym bearer_id = "(u8 \<times> u16 \<times> bool) \<times> bool \<times> u16"

definition ue_id :: "protocol_ctxt \<Rightarrow> u8 \<times> u16 \<times> bool" where
  "ue_id c = (module_id c, rnti c, enb_flag c)"

fun id_ctxt :: "u8 \<times> u16 \<times> bool \<Rightarrow> protocol_ctxt" where
  "id_ctxt (m, r, enb) = \<lparr>module_id = m, enb_flag = enb, rnti = r, configured = False\<rparr>"

fun rlc_bearers :: "'q rlc_layer \<Rightarrow> bearer_id \<rightharpoonup> 'q rlc_union" where
  "rlc_bearers s (i, srb, rb) = (if rb < NB_RB_MAX then instances s (rb_key (id_ctxt i) rb srb) else None)"

fun rlc_del :: "bearer_id \<Rightarrow> 'q rlc_layer \<Rightarrow> 'q rlc_layer" where
  "rlc_del (i, srb, rb) s = (case rrc_rlc_remove_rlc (id_ctxt i) srb rb s of Inl _ \<Rightarrow> s | Inr s1 \<Rightarrow> s1)"

lemma rb_key_id: "rb_key (id_ctxt (ue_id c)) rb srb = rb_key c rb srb" "lc_key (id_ctxt (ue_id c)) lc srb = lc_key c lc srb"
  by (simp_all add: ue_id_def rb_key_def lc_key_def)

lemma same_ue_id: "same_ue (id_ctxt i) (id_ctxt j) \<longleftrightarrow> i = j" "same_ue (id_ctxt (ue_id c)) d \<longleftrightarrow> same_ue c d"
  by (cases i; cases j; simp add: same_ue_def) (simp add: same_ue_def ue_id_def)

lemma remove_id: "rrc_rlc_remove_rlc (id_ctxt (ue_id c)) srb rb s = rrc_rlc_remove_rlc c srb rb s"
  unfolding rrc_rlc_remove_rlc_def rb_key_id by (simp only:)

lemma instances_channel:
  assumes "rlc_ok s" "rb < NB_RB_MAX" "instances s (rb_key c rb srb) = Some u"
  shows "named rb (channel u) srb u" "channel u < 256" "instances s (lc_key c (channel u) srb) = Some u"
proof -
  from rlc_get_cases [OF assms(1), of "rb_key c rb srb"] assms(3) obtain a where
    a: "rlc_map s (rb_key c rb srb) = Some (Some a)" "unions s a = Some u" by (metis option.distinct(1) option.inject)
  obtain lc where lc: "lc < 256" "named rb lc srb u" "\<And>k. rlc_map s k = Some (Some a) \<longleftrightarrow> k = rb_key c rb srb \<or> k = lc_key c lc srb"
    using rlc_pair [OF assms(1,2) a(1)] a(2) by (metis option.inject)
  have "rlc_map s (lc_key c lc srb) = Some (Some a)" using lc(3) by blast
  then have "instances s (lc_key c lc srb) = Some u" using a(2) by (simp add: instances_def)
  then show "named rb (channel u) srb u" "channel u < 256" "instances s (lc_key c (channel u) srb) = Some u"
    using lc(1,2) named_simps(2) [OF lc(2)] by simp_all
qed

lemma rlc_del_ok:
  assumes "rlc_ok s"
  shows "rlc_ok (rlc_del b s)" "rlc_bearers (rlc_del b s) = (rlc_bearers s)(b := None)"
proof -
  obtain i srb rb where b: "b = (i, srb, rb)" by (cases b)
  have "rlc_ok (rlc_del b s) \<and> rlc_bearers (rlc_del b s) = (rlc_bearers s)(b := None)"
  proof (cases "rb < NB_RB_MAX")
    case False
    then have "rlc_del b s = s" "rlc_bearers s b = None" by (simp_all add: b rrc_rlc_remove_rlc_def)
    with assms show ?thesis by (metis fun_upd_triv)
  next
    case True
    show ?thesis
    proof (cases "instances s (rb_key (id_ctxt i) rb srb)")
      case None
      then have "rlc_del b s = s" "rlc_bearers s b = None" using remove_absent [OF assms True None] True by (simp_all add: b)
      with assms show ?thesis by (metis fun_upd_triv)
    next
      case (Some u)
      from remove_there [OF assms True Some] obtain s1 where s1: "rlc_del b s = s1" "rlc_ok s1"
        "instances s1 = (instances s)(rb_key (id_ctxt i) rb srb := None, lc_key (id_ctxt i) (channel u) srb := None)"
        by (auto simp: b)
      have lc: "channel u < 256" by (rule instances_channel [OF assms True Some])
      have "rlc_bearers s1 (j, srb', rb') = ((rlc_bearers s)(b := None)) (j, srb', rb')" for j srb' rb'
      proof (cases "rb' < NB_RB_MAX")
        case rb': True
        have "rb_key (id_ctxt j) rb' srb' = rb_key (id_ctxt i) rb srb \<longleftrightarrow> (j, srb', rb') = b"
          using rb_keys [of rb' rb "id_ctxt j" srb' "id_ctxt i" srb] True rb' by (auto simp: same_ue_id b)
        moreover have "rb_key (id_ctxt j) rb' srb' \<noteq> lc_key (id_ctxt i) (channel u) srb" using rb_lc_key rb' lc by simp
        ultimately show ?thesis using rb' by (simp add: s1(3))
      qed simp
      then have "rlc_bearers s1 = (rlc_bearers s)(b := None)" by (intro ext) (metis prod_cases3)
      with s1 show ?thesis by simp
    qed
  qed
  then show "rlc_ok (rlc_del b s)" "rlc_bearers (rlc_del b s) = (rlc_bearers s)(b := None)" by simp_all
qed

interpretation rlc: store_removal rlc_ok rlc_bearers rlc_del
  by unfold_locales (auto simp: rlc_del_ok simp del: rlc_bearers.simps)

lemma remove_is_del:
  assumes "rlc_ok s" "rb < NB_RB_MAX"
  shows "rrc_rlc_remove_rlc c srb rb s = Inr (rlc_del (ue_id c, srb, rb) s)"
proof (cases "instances s (rb_key c rb srb)")
  case None
  then show ?thesis using remove_absent [OF assms None] by (simp add: remove_id)
next
  case (Some u)
  then show ?thesis using remove_there [OF assms Some] by (auto simp: remove_id)
qed

section \<open>Removing a UE\<close>

definition ue_bearers :: "protocol_ctxt \<Rightarrow> bearer_id list" where
  "ue_bearers c = map (\<lambda>rb. (ue_id c, True, rb)) [1, 2] @ map (\<lambda>rb. (ue_id c, False, rb)) (map of_nat [1..<12])"

lemma remove_all:
  "rlc_ok s \<Longrightarrow> \<forall>rb \<in> set rbs. rb < NB_RB_MAX \<Longrightarrow>
   foldE (rrc_rlc_remove_rlc c srb) rbs s = Inr (fold rlc_del (map (\<lambda>rb. (ue_id c, srb, rb)) rbs) s)"
proof (induction rbs arbitrary: s)
  case Nil
  then show ?case by simp
next
  case (Cons rb rbs)
  then show ?case
    using Cons.IH [OF rlc.inv_del [OF Cons.prems(1), of "(ue_id c, srb, rb)"]] by (simp add: remove_is_del del: rlc_del.simps)
qed

lemma remove_ue_fold:
  assumes "rlc_ok s"
  shows "rrc_rlc_remove_ue c s = Inr (fold rlc_del (ue_bearers c) s)"
proof -
  have small: "\<forall>rb \<in> set [1, 2]. rb < NB_RB_MAX" "\<forall>rb \<in> set (map of_nat [1..<12]). rb < NB_RB_MAX"
    by (simp_all add: NB_RB_MAX_def maxDRB_def upt_rec)
  have last: "unat maxDRB + 1 = 12" by (simp add: maxDRB_def)
  show ?thesis
    by (simp only: rrc_rlc_remove_ue_def ue_bearers_def last remove_all [OF assms small(1)] bindE_Inr
        remove_all [OF rlc.inv_del_all [OF assms] small(2)] fold_append o_apply)
qed

lemma ue_bearers_iff:
  "(i, srb, rb) \<in> set (ue_bearers c) \<longleftrightarrow> i = ue_id c \<and> 1 \<le> rb \<and> rb \<le> (if srb then 2 else 11)"
proof -
  have "rb \<in> of_nat ` {1..<12} \<longleftrightarrow> 1 \<le> rb \<and> rb \<le> 11" for rb :: u16
  proof
    assume r: "1 \<le> rb \<and> rb \<le> 11"
    then have "unat rb \<in> {1..<12}" by (simp add: word_le_nat_alt)
    moreover have "rb = of_nat (unat rb)" by simp
    ultimately show "rb \<in> of_nat ` {1..<12}" by blast
  qed (auto simp: word_le_nat_alt unat_of_nat)
  moreover have "rb \<in> {1, 2} \<longleftrightarrow> 1 \<le> rb \<and> rb \<le> 2" for rb :: u16
    by (auto simp: word_le_nat_alt word_unat_eq_iff)
  ultimately show ?thesis by (auto simp: ue_bearers_def image_iff)
qed

text \<open>Whatever is found by a channel belongs to a bearer.\<close>

lemma channel_address:
  assumes "rlc_ok s" "lc < 256" "rlc_map s (lc_key c lc srb) = Some (Some a)"
  shows "\<exists>rb. rb < NB_RB_MAX \<and> rlc_map s (rb_key c rb srb) = Some (Some a)"
proof -
  from assms(1) obtain own where own: "owned_by own s" unfolding rlc_ok_def by blast
  obtain k1 k2 v where k: "lc_key c lc srb = k1 \<or> lc_key c lc srb = k2" "registered k1 k2 v" "own a = Some (k1, k2)"
    "unions s a = Some v" "\<And>k'. rlc_map s k' = Some (Some a) \<longleftrightarrow> k' = k1 \<or> k' = k2" by (rule ownedE [OF own assms(3)]) blast
  from k(2) obtain c' rb lc' srb' where r: "rb < NB_RB_MAX" "lc' < 256" "k1 = rb_key c' rb srb'" "k2 = lc_key c' lc' srb'"
    unfolding registered_def by blast
  have "lc_key c lc srb \<noteq> k1" using rb_lc_key [of rb lc c' srb' c srb] r(1,3) assms(2) by auto
  then have "lc_key c lc srb = lc_key c' lc' srb'" using k(1) r(4) by auto
  then have same: "same_ue c c'" "srb = srb'" using lc_keys [OF assms(2) r(2)] by auto
  then have "rb_key c rb srb = k1" using r(3) by (simp add: rb_key_def same_ue_def)
  then have "rlc_map s (rb_key c rb srb) = Some (Some a)" using k(5) by simp
  with r(1) show ?thesis by blast
qed

lemma channel_owner:
  assumes "rlc_ok s" "lc < 256" "instances s (lc_key c lc srb) = Some u"
  shows "\<exists>rb. rb < NB_RB_MAX \<and> instances s (rb_key c rb srb) = Some u"
proof -
  from rlc_get_cases [OF assms(1), of "lc_key c lc srb"] assms(3) obtain a where
    a: "rlc_map s (lc_key c lc srb) = Some (Some a)" "unions s a = Some u" by (metis option.distinct(1) option.inject)
  from channel_address [OF assms(1,2) a(1)] a(2) show ?thesis by (auto simp: instances_def)
qed

text \<open>C16.
  Removing a UE from the RLC layer takes out its signalling bearers 1 and 2 and its data bearers 1 to 11, leaves all
  other bearers as they are and keeps the layer well-formed. No channel leads to an entity whose bearer is gone.
\<close>

theorem rlc_remove_ue_exact:
  assumes "rlc_ok s" "rb < NB_RB_MAX" "lc < 256"
  shows "\<exists>s1. rrc_rlc_remove_ue c s = Inr s1 \<and> rlc_ok s1 \<and>
    instances s1 (rb_key d rb srb) =
      (if same_ue d c \<and> 1 \<le> rb \<and> rb \<le> (if srb then 2 else 11) then None else instances s (rb_key d rb srb)) \<and>
    (\<forall>u. instances s1 (lc_key d lc srb) = Some u \<longrightarrow> (\<exists>rb'. rb' < NB_RB_MAX \<and> instances s1 (rb_key d rb' srb) = Some u))"
proof -
  let ?s1 = "fold rlc_del (ue_bearers c) s"
  note all = rlc.stored_del_all [OF assms(1), of "ue_bearers c" "(ue_id d, srb, rb)"] rlc.inv_del_all [OF assms(1), of "ue_bearers c"]
  have "ue_id d = ue_id c \<longleftrightarrow> same_ue d c" by (auto simp: ue_id_def same_ue_def)
  then have "instances ?s1 (rb_key d rb srb) =
      (if same_ue d c \<and> 1 \<le> rb \<and> rb \<le> (if srb then 2 else 11) then None else instances s (rb_key d rb srb))"
    using all(1) assms(2) unfolding ue_bearers_iff rlc_bearers.simps rb_key_id by simp
  with remove_ue_fold [OF assms(1), of c] all(2) channel_owner [OF all(2) assms(3)] show ?thesis by blast
qed

section \<open>A request as an operation on the map\<close>

text \<open>What a request says of one bearer: plane, number, channel and configuration.\<close>

type_synonym item = "bool \<times> u16 \<times> u32 \<times> rlc_config"

definition srb_item :: "rlc_srb_to_add_mod \<Rightarrow> item" where
  "srb_item r =
     (True, of_int (srb_Identity r), ucast (of_int (srb_Identity r) :: u16),
      (case srb_rlc_Config r of
         Some (SRB_explicitValue cfg) \<Rightarrow> cfg
       | Some SRB_defaultValue \<Rightarrow> RLC_Config_am default_am_config
       | _ \<Rightarrow> RLC_Config_NOTHING))"

definition drb_item :: "rlc_drb_to_add_mod \<Rightarrow> item" where
  "drb_item r =
     (case (drb_logicalChannel r, drb_rlc_Config r) of
        (Some l, Some cfg) \<Rightarrow>
          (False, of_int (drb_to_add r), of_int l, if (of_int l :: u32) \<in> {1, 2} then RLC_Config_NOTHING else cfg)
      | _ \<Rightarrow> (False, 0, 0, RLC_Config_NOTHING))"

definition list_or_none :: "'a list option \<Rightarrow> 'a list" where
  "list_or_none xs = (case xs of None \<Rightarrow> [] | Some ys \<Rightarrow> ys)"

definition items :: "rlc_config_req \<Rightarrow> item list" where
  "items req = map srb_item (list_or_none (rlc_srb2add req)) @ map drb_item (list_or_none (rlc_drb2add req))"

fun configure_item :: "'q am_ops \<Rightarrow> protocol_ctxt \<Rightarrow> item \<Rightarrow> 'q rlc_layer \<Rightarrow> 'q rlc_layer res" where
  "configure_item ops c (srb, rb, lc, cfg) s = configure_bearer ops c srb rb lc cfg s"

fun spec_item :: "'q am_ops \<Rightarrow> protocol_ctxt \<Rightarrow> item \<Rightarrow> (u64 \<rightharpoonup> 'q rlc_union) \<Rightarrow> (u64 \<rightharpoonup> 'q rlc_union)" where
  "spec_item ops c (srb, rb, lc, cfg) m = spec_bearer ops c srb rb lc cfg m"

fun item_ok :: "protocol_ctxt \<Rightarrow> item \<Rightarrow> (u64 \<rightharpoonup> 'q rlc_union) \<Rightarrow> bool" where
  "item_ok c (srb, rb, lc, cfg) m \<longleftrightarrow> consistent c srb rb lc cfg m"

definition spec_release :: "protocol_ctxt \<Rightarrow> int \<Rightarrow> (u64 \<rightharpoonup> 'q rlc_union) \<Rightarrow> (u64 \<rightharpoonup> 'q rlc_union)" where
  "spec_release c drb m =
     (case m (rb_key c (of_int drb) False) of
        None \<Rightarrow> m
      | Some u \<Rightarrow> m(rb_key c (of_int drb) False := None, lc_key c (channel u) False := None))"

definition spec_request :: "'q am_ops \<Rightarrow> protocol_ctxt \<Rightarrow> rlc_config_req \<Rightarrow> (u64 \<rightharpoonup> 'q rlc_union) \<Rightarrow> (u64 \<rightharpoonup> 'q rlc_union)" where
  "spec_request ops c req m =
     fold (spec_release c) (list_or_none (rlc_drb2release req)) (fold (spec_item ops c) (items req) m)"

definition request_ok :: "'q am_ops \<Rightarrow> protocol_ctxt \<Rightarrow> rlc_config_req \<Rightarrow> (u64 \<rightharpoonup> 'q rlc_union) \<Rightarrow> bool" where
  "request_ok ops c req m \<longleftrightarrow> steps_ok (item_ok c) (spec_item ops c) (items req) m \<and>
     (\<forall>drb \<in> set (list_or_none (rlc_drb2release req)). (of_int drb :: u16) < NB_RB_MAX)"

lemma configure_nothing [simp]: "configure_bearer ops c srb rb lc RLC_Config_NOTHING = Inr"
  by (simp add: configure_bearer_def)

lemma add_srb_item: "add_srb ops c r s = configure_item ops c (srb_item r) s"
  by (auto simp: add_srb_def srb_item_def Let_def split: option.splits rlc_srb_config.splits)

lemma add_drb_item: "add_drb ops c r s = configure_item ops c (drb_item r) s"
  by (auto simp: add_drb_def drb_item_def Let_def split: option.splits)

lemma request_items:
  "rrc_rlc_config_asn1_req ops c req s =
     bindE (foldE (configure_item ops c) (items req) s)
       (foldE (\<lambda>drb. rrc_rlc_remove_rlc c False (of_int drb)) (list_or_none (rlc_drb2release req)))"
proof -
  have "bindE (bindE m f) g = bindE m (\<lambda>x. bindE (f x) g)" for m :: "'a rlc_layer res" and f and g :: "'a rlc_layer \<Rightarrow> 'a rlc_layer res"
    by (cases m) simp_all
  moreover have "add_srb ops c = (\<lambda>x. configure_item ops c (srb_item x))" "add_drb ops c = (\<lambda>x. configure_item ops c (drb_item x))"
    by (intro ext add_srb_item add_drb_item)+
  ultimately show ?thesis
    by (simp add: rrc_rlc_config_asn1_req_def items_def foldE_append foldE_map comp_def list_or_none_def)
qed

lemma release_ok:
  assumes "rlc_ok s" "(of_int drb :: u16) < NB_RB_MAX"
  shows "\<exists>t. rrc_rlc_remove_rlc c False (of_int drb) s = Inr t \<and> rlc_ok t \<and> instances t = spec_release c drb (instances s)"
proof (cases "instances s (rb_key c (of_int drb) False)")
  case None
  with remove_absent [OF assms None] assms(1) show ?thesis by (simp add: spec_release_def)
next
  case (Some u)
  with remove_there [OF assms Some] show ?thesis by (auto simp: spec_release_def)
qed

lemma request_refines:
  assumes "rlc_ok s" "request_ok ops c req (instances s)"
  shows "\<exists>s1. rrc_rlc_config_asn1_req ops c req s = Inr s1 \<and> rlc_ok s1 \<and> instances s1 = spec_request ops c req (instances s)"
proof -
  have item: "\<exists>t. configure_item ops c x s = Inr t \<and> rlc_ok t \<and> instances t = spec_item ops c x (instances s)"
    if "rlc_ok s" "item_ok c x (instances s)" for x s
    using configure_bearer_ok that by (cases x) auto
  obtain s1 where s1: "foldE (configure_item ops c) (items req) s = Inr s1" "rlc_ok s1"
    "instances s1 = fold (spec_item ops c) (items req) (instances s)"
    using foldE_refines [where I = rlc_ok and view = instances and P = "item_ok c" and f = "spec_item ops c"
        and g = "configure_item ops c" and xs = "items req", OF assms(1) _ item] assms(2) unfolding request_ok_def by blast
  have all: "steps_ok (\<lambda>drb _. (of_int drb :: u16) < NB_RB_MAX) (spec_release c) ds m" if "\<forall>drb \<in> set ds. (of_int drb :: u16) < NB_RB_MAX"
    for ds and m :: "u64 \<rightharpoonup> 'a rlc_union" using that by (induction ds arbitrary: m) auto
  have "steps_ok (\<lambda>drb _. (of_int drb :: u16) < NB_RB_MAX) (spec_release c) (list_or_none (rlc_drb2release req)) (instances s1)"
    using assms(2) by (intro all) (simp add: request_ok_def)
  from foldE_refines [where I = rlc_ok and view = instances and g = "\<lambda>drb. rrc_rlc_remove_rlc c False (of_int drb)", OF s1(2) this release_ok]
  show ?thesis using s1 by (simp add: request_items spec_request_def)
qed

text \<open>C14.
  A consistent request of the RRC is an operation on the map from keys to entities: in the order of its lists every
  bearer gets an entity under its own key and under that of its channel, with the configuration that the request
  says; one that is there in acknowledged mode gets the new parameters, one in unacknowledged mode stays as it is,
  and the released data bearers go. Nothing else changes and the layer stays well-formed. This holds whatever an
  entity in acknowledged mode does with its buffers.
\<close>

theorem rlc_config_refines:
  assumes "rlc_ok s" "request_ok ops c req (instances s)"
  shows "\<exists>s1. rrc_rlc_config_asn1_req ops c req s = Inr s1 \<and> rlc_ok s1 \<and> instances s1 = spec_request ops c req (instances s)"
  by (rule request_refines [OF assms])

section \<open>Examples\<close>

lemma rlc_init_ok:
  assumes "\<And>a. unions s a \<noteq> None \<Longrightarrow> a < next_union s"
  shows "rlc_ok (rlc_module_init g s)" "instances (rlc_module_init g s) = Map.empty"
proof -
  have pos: "0 < (unat maxDRB + 2) * 16" by simp
  have empty: "rlc_map (rlc_module_init g s) = Map.empty"
    using hashtable_create_map [OF pos, of None g] by (simp add: rlc_map_def rlc_module_init_def)
  then have "owned_by Map.empty (rlc_module_init g s)" by (simp add: owned_by_def)
  then show "rlc_ok (rlc_module_init g s)"
    using hashtable_create_ok [OF pos, of None g] assms by (auto simp: rlc_ok_def rlc_module_init_def)
  show "instances (rlc_module_init g s) = Map.empty" by (simp add: instances_def empty fun_eq_iff)
qed

text \<open>An eNodeB whose acknowledged mode keeps the SDUs it gets and does nothing else.\<close>

definition keeping_ops :: "u8 list list am_ops" where
  "keeping_ops = \<lparr>am_empty = [], am_data_req = (\<lambda>_ _ _ sdu a. Inr (am_buffers a @ [sdu])),
     am_mac_data_request = (\<lambda>_ a. Inr ([], am_buffers a)), am_mac_data_indication = (\<lambda>_ _ a. Inr ([], am_buffers a)),
     am_mac_status_indication = (\<lambda>_ _ _ _ a. Inr (\<lparr>bytes_in_buffer = 0, pdus_in_buffer = 0, head_creation_time = 0,
       head_remaining_size = 0, head_is_segmented = False\<rparr>, am_buffers a)),
     am_get_buffer_occupancy = (\<lambda>a. of_nat (sum_list (map length (am_buffers a))))\<rparr>"

definition new_rlc :: "'q rlc_layer" where
  "new_rlc = rlc_module_init 0 rlc_layer_start"

lemma new_rlc: "rlc_ok new_rlc" "instances new_rlc = Map.empty"
  unfolding new_rlc_def by (rule rlc_init_ok; simp add: rlc_layer_start_def)+

definition some_ctxt :: protocol_ctxt where
  "some_ctxt = \<lparr>module_id = 0, enb_flag = True, rnti = 0x1234, configured = True\<rparr>"

text \<open>The first signalling bearer by default, two data bearers, and the release of the second one.\<close>

definition um_both :: rlc_config where "um_both = RLC_Config_um_Bi_Directional 0 (0, 7)"

definition some_request :: rlc_config_req where
  "some_request = \<lparr>rlc_srb2add = Some [\<lparr>srb_Identity = 1, srb_rlc_Config = Some SRB_defaultValue\<rparr>],
     rlc_drb2add = Some [\<lparr>drb_to_add = 1, drb_logicalChannel = Some 3, drb_rlc_Config = Some um_both\<rparr>,
       \<lparr>drb_to_add = 2, drb_logicalChannel = Some 4, drb_rlc_Config = Some (RLC_Config_am default_am_config)\<rparr>],
     rlc_drb2release = Some [2]\<rparr>"

lemma default_legal [simp]: "am_config_legal default_am_config"
  by (simp add: am_config_legal_def default_am_config_def)

lemmas key_facts = rb_keys lc_keys rb_lc_key rb_lc_key [THEN not_sym]

lemma some_request_items:
  "items some_request = [(True, 1, 1, RLC_Config_am default_am_config), (False, 1, 3, um_both), (False, 2, 4, RLC_Config_am default_am_config)]"
  by (simp add: items_def some_request_def srb_item_def drb_item_def list_or_none_def)

lemma some_request_ok: "request_ok ops some_ctxt some_request Map.empty"
  unfolding request_ok_def some_request_items
  by (simp add: some_request_def list_or_none_def consistent_def spec_bearer_def mode_of_def um_both_def key_facts Let_def
      NB_RB_MAX_def maxDRB_def)

lemma some_request_keys:
  fixes ops :: "'q am_ops"
  defines "m \<equiv> spec_request ops some_ctxt some_request Map.empty"
  shows "m (rb_key some_ctxt 1 True) = Some (new_entity_of ops True True 1 1 (RLC_Config_am default_am_config))"
    "m (rb_key some_ctxt 1 False) = Some (new_entity_of ops True False 1 3 um_both)"
    "m (lc_key some_ctxt 3 False) = Some (new_entity_of ops True False 1 3 um_both)"
    "m (rb_key some_ctxt 2 False) = None" "m (lc_key some_ctxt 4 False) = None"
proof -
  have "channel (new_entity_of ops True False 2 4 (RLC_Config_am default_am_config)) = 4"
    by (simp add: new_entity_of_def channel_def)
  moreover have "enb_flag some_ctxt" by (simp add: some_ctxt_def)
  ultimately show "m (rb_key some_ctxt 1 True) = Some (new_entity_of ops True True 1 1 (RLC_Config_am default_am_config))"
    "m (rb_key some_ctxt 1 False) = Some (new_entity_of ops True False 1 3 um_both)"
    "m (lc_key some_ctxt 3 False) = Some (new_entity_of ops True False 1 3 um_both)"
    "m (rb_key some_ctxt 2 False) = None" "m (lc_key some_ctxt 4 False) = None"
    unfolding m_def spec_request_def some_request_items
    by (simp_all add: some_request_def list_or_none_def spec_bearer_def spec_release_def mode_of_def um_both_def key_facts Let_def)
qed

lemma rlc_config_refines_witness:
  "\<exists>s1. rrc_rlc_config_asn1_req keeping_ops some_ctxt some_request new_rlc = Inr s1 \<and> rlc_ok s1 \<and>
    instances s1 (rb_key some_ctxt 1 False) = Some (new_entity_of keeping_ops True False 1 3 um_both) \<and>
    instances s1 (lc_key some_ctxt 3 False) = instances s1 (rb_key some_ctxt 1 False) \<and>
    instances s1 (rb_key some_ctxt 2 False) = None"
  using rlc_config_refines [OF new_rlc(1), unfolded new_rlc(2), OF some_request_ok [of keeping_ops]] some_request_keys
  by fastforce

lemma rlc_remove_ue_exact_witness:
  "\<exists>s s1 :: u8 list list rlc_layer. instances s (rb_key some_ctxt 1 False) \<noteq> None \<and> rrc_rlc_remove_ue some_ctxt s = Inr s1 \<and>
    rlc_ok s1 \<and> instances s1 (rb_key some_ctxt 1 False) = None"
proof -
  obtain s where s: "rlc_ok s" "instances s = spec_request keeping_ops some_ctxt some_request Map.empty"
    using request_refines [OF new_rlc(1), unfolded new_rlc(2), OF some_request_ok [of keeping_ops]] by blast
  have small: "(1 :: u16) < NB_RB_MAX" "(3 :: u32) < 256" "1 \<le> (1 :: u16)" "(1 :: u16) \<le> 11" by (simp_all add: NB_RB_MAX_def maxDRB_def)
  have "same_ue some_ctxt some_ctxt" by (simp add: same_ue_def)
  with rlc_remove_ue_exact [OF s(1) small(1,2), of some_ctxt some_ctxt False] small(3,4) obtain s1 where
    "rrc_rlc_remove_ue some_ctxt s = Inr s1" "rlc_ok s1" "instances s1 (rb_key some_ctxt 1 False) = None" by auto
  with s(2) some_request_keys(2) show ?thesis by (metis option.distinct(1))
qed

end
