(* ===== verification/RlcFaults.thy ===== *)
theory RlcFaults
  imports RlcRequests
begin

text \<open>
  Where the RLC layer does not do what its callers rely on: a channel that is in use already, a bearer in
  acknowledged mode that gets another channel, the memory of removed entities, and the polling by bytes.
\<close>

section \<open>A channel that is in use\<close>

definition add_drb_request :: "int \<Rightarrow> int \<Rightarrow> rlc_config \<Rightarrow> rlc_config_req" where
  "add_drb_request drb l cfg =
     \<lparr>rlc_srb2add = None, rlc_drb2add = Some [\<lparr>drb_to_add = drb, drb_logicalChannel = Some l, drb_rlc_Config = Some cfg\<rparr>],
      rlc_drb2release = None\<rparr>"

lemma add_drb_run:
  assumes "(of_int l :: u32) \<notin> {1, 2}"
  shows "rrc_rlc_config_asn1_req ops c (add_drb_request drb l cfg) s = configure_bearer ops c False (of_int drb) (of_int l) cfg s"
  using assms
  by (simp add: request_items items_def add_drb_request_def list_or_none_def drb_item_def bindE_def split: sum.splits)

text \<open>The layer after an entity could not be added: both keys lead to its memory, which is freed.\<close>

lemma add_taken:
  assumes ok: "rlc_ok s" and rb: "rb < NB_RB_MAX" and lc: "lc < 256"
    and free: "instances s (rb_key c rb srb) = None" and taken: "instances s (lc_key c lc srb) = Some u"
  shows "\<exists>s1 rb'. rrc_rlc_add_rlc c srb rb lc mode s = Inr (None, s1) \<and>
    rlc_get (rb_key c rb srb) s1 = Inr (HASH_TABLE_OK, Some (next_union s)) \<and>
    rlc_get (lc_key c lc srb) s1 = Inr (HASH_TABLE_OK, Some (next_union s)) \<and> union_at (Some (next_union s)) s1 = Inl Undefined \<and>
    rb' < NB_RB_MAX \<and> instances s (rb_key c rb' srb) = Some u \<and> instances s1 (rb_key c rb' srb) = Some (cleared u)"
proof -
  let ?k1 = "rb_key c rb srb" and ?k2 = "lc_key c lc srb" and ?a = "next_union s"
  obtain h where h: "rlc_coll s = Some h" "ht_ok h" using ok unfolding rlc_ok_def by blast
  have none: "rlc_map s ?k1 = None" "rlc_get ?k1 s = Inr (HASH_TABLE_KEY_NOT_EXISTS, None)"
    using rlc_get_cases [OF ok, of ?k1] free by (metis option.distinct(1))+
  obtain b where b: "rlc_map s ?k2 = Some (Some b)" "unions s b = Some u"
    using rlc_get_cases [OF ok, of ?k2] taken by (metis option.distinct(1) option.inject)
  obtain rb' where map': "rb' < NB_RB_MAX" "rlc_map s (rb_key c rb' srb) = Some (Some b)"
    using channel_address [OF ok lc b(1)] by blast
  then have rb': "rb' < NB_RB_MAX" "instances s (rb_key c rb' srb) = Some u" using b(2) by (simp_all add: instances_def)
  have mode: "union_mode u \<noteq> RLC_MODE_NONE" using named_simps(3) [OF instances_channel(1) [OF ok rb']] .
  have fresh: "?a \<noteq> b" using ok b(2) unfolding rlc_ok_def by auto
  define s0 where "s0 = snd (new_union s)"
  have s0: "new_union s = (?a, s0)" "rlc_coll s0 = Some h" "rlc_map s0 = rlc_map s" "unions s0 b = Some u" "?a < next_union s0"
    using h(1) b(2) fresh by (simp_all add: s0_def new_union_def)
  have differ: "?k2 \<noteq> ?k1" using rb_lc_key [of rb lc c srb c srb] rb lc by simp
  let ?h1 = "ht_put ?k1 (Some ?a) h"
  let ?s1 = "s0\<lparr>rlc_coll := Some ?h1\<rparr>"
  note i1 = coll_insert_free [OF s0(2) h(2), of ?k1 "Some ?a", unfolded s0(3), OF none(1)]
  let ?h2 = "ht_put ?k2 (Some ?a) ?h1"
  let ?s2 = "put_union b (cleared u) (?s1\<lparr>rlc_coll := Some ?h2\<rparr>)"
  have "ht_map ?h1 ?k2 = Some (Some b)" using i1(3) b(1) differ by (simp add: rlc_map_def)
  then have i2: "rlc_insert ?k2 (Some ?a) ?s1 = Inr (HASH_TABLE_INSERT_OVERWRITTEN_DATA, ?s2)"
    using hashtable_insert_ok [OF i1(2)] mode s0(4)
    by (simp add: rlc_insert_def freed_data_def rb_free_rlc_union_def union_at_def cleared_def)
  have "lc < RLC_MAX_LC" using lc by (simp add: RLC_MAX_LC_def word_less_nat_alt)
  then have run: "rrc_rlc_add_rlc c srb rb lc mode s = Inr (None, free_union ?a ?s2)"
    using rb none(2) s0(1) i1(1) i2 by (simp add: rrc_rlc_add_rlc_def)
  have h2: "ht_ok ?h2" "ht_map ?h2 = (ht_map h)(?k1 \<mapsto> Some ?a, ?k2 \<mapsto> Some ?a)"
    using i1(2) h(2) table.inv_put table.stored_put by simp_all
  have get: "rlc_get k (free_union ?a ?s2) = Inr (HASH_TABLE_OK, Some ?a)" if "k = ?k1 \<or> k = ?k2" for k
    using h2 that by (auto simp: rlc_get_def free_union_def hashtable_ops)
  have "rb_key c rb' srb \<noteq> ?k1" using none(1) map'(2) by auto
  moreover have "rb_key c rb' srb \<noteq> ?k2" using rb_lc_key [of rb' lc c srb c srb] rb'(1) lc by simp
  ultimately have "instances (free_union ?a ?s2) (rb_key c rb' srb) = Some (cleared u)"
    using h2(2) map'(2) h(1) fresh by (simp add: instances_def rlc_map_def free_union_def)
  moreover have "union_at (Some ?a) (free_union ?a ?s2) = Inl Undefined" by (simp add: union_at_def free_union_def)
  ultimately show ?thesis using run get rb' by blast
qed

text \<open>C39.
  A new data bearer on a channel that another bearer of the UE has: the RLC returns no error, but the entity that
  is in use is cleared, and the new bearer and the channel both lead to memory that has been freed, so that the next
  data of the new bearer and the next request of the MAC for the channel follow a dangling pointer.
\<close>

theorem rlc_channel_taken:
  assumes "rlc_ok s" "(of_int drb :: u16) < NB_RB_MAX" "2 < (of_int l :: u32)" "(of_int l :: u32) < 14" "mode_of cfg \<noteq> None"
    and "instances s (rb_key c (of_int drb) False) = None" "instances s (lc_key c (of_int l) False) = Some u" "0 < sz"
  shows "\<exists>s1 rb'. rrc_rlc_config_asn1_req ops c (add_drb_request drb l cfg) s = Inr s1 \<and>
    instances s (rb_key c rb' False) = Some u \<and> instances s1 (rb_key c rb' False) = Some (cleared u) \<and>
    rlc_data_req ops frame c False (of_int drb) mui confirm sz block s1 = Inl Undefined \<and>
    mac_rlc_data_req ops fresh c (of_int l) nb s1 = Inl Undefined"
proof -
  have lc: "(of_int l :: u32) < 256" "(of_int l :: u32) \<notin> {1, 2}" "\<not> (of_int l :: u32) \<le> 2" "(of_int l :: u32) < ucast NB_RB_MAX"
    using assms(3,4) by (auto simp: word_less_nat_alt word_le_nat_alt NB_RB_MAX_def maxDRB_def)
  from assms(5) obtain mode where mode: "mode_of cfg = Some mode" by blast
  from add_taken [OF assms(1,2) lc(1) assms(6,7), of mode] obtain s1 rb' where s1:
    "rrc_rlc_add_rlc c False (of_int drb) (of_int l) mode s = Inr (None, s1)"
    "rlc_get (rb_key c (of_int drb) False) s1 = Inr (HASH_TABLE_OK, Some (next_union s))"
    "rlc_get (lc_key c (of_int l) False) s1 = Inr (HASH_TABLE_OK, Some (next_union s))" "union_at (Some (next_union s)) s1 = Inl Undefined"
    "instances s (rb_key c rb' False) = Some u" "instances s1 (rb_key c rb' False) = Some (cleared u)" by blast
  have "rrc_rlc_config_asn1_req ops c (add_drb_request drb l cfg) s = Inr s1"
    unfolding add_drb_run [OF lc(2)] by (simp add: configure_bearer_eq mode add_and_configure_def s1(1))
  moreover have "rlc_data_req ops frame c False (of_int drb) mui confirm sz block s1 = Inl Undefined"
    using assms(2,8) s1(2,4) by (simp add: rlc_data_req_def)
  moreover have "mac_rlc_data_req ops fresh c (of_int l) nb s1 = Inl Undefined"
    using lc(3,4) s1(3,4) by (simp add: mac_rlc_data_req_def entity_by_channel_def channel_key_def)
  ultimately show ?thesis using s1(5,6) by blast
qed

section \<open>Another channel for a bearer\<close>

text \<open>
  A bearer in acknowledged mode that is configured again with another channel: the entity takes the new channel, the
  table keeps the old one, and from then on the bearer can no longer be removed.
\<close>

theorem rlc_am_renamed_stays:
  assumes ok: "rlc_ok s" and rb: "(of_int drb :: u16) < NB_RB_MAX"
    and l: "(of_int l :: u32) \<notin> {1, 2}" "(of_int l :: u32) < 256" "(of_int l :: u32) \<noteq> channel u" and legal: "am_config_legal am"
    and u: "instances s (rb_key c (of_int drb) False) = Some u" "union_mode u = RLC_MODE_AM"
    and free: "instances s (lc_key c (of_int l) False) = None"
  shows "\<exists>s1. rrc_rlc_config_asn1_req ops c (add_drb_request drb l (RLC_Config_am am)) s = Inr s1 \<and>
    instances s1 (rb_key c (of_int drb) False) \<noteq> None \<and> rrc_rlc_remove_rlc c False (of_int drb) s1 = Inr s1"
proof -
  let ?rb = "of_int drb :: u16" and ?lc = "of_int l :: u32" and ?k1 = "rb_key c (of_int drb) False"
  from rlc_get_cases [OF ok, of ?k1] u(1) obtain a where a: "rlc_map s ?k1 = Some (Some a)" "unions s a = Some u"
    "rlc_get ?k1 s = Inr (HASH_TABLE_OK, Some a)" by (metis option.distinct(1) option.inject)
  have n: "named ?rb (channel u) False u" by (rule instances_channel(1) [OF ok rb u(1)])
  let ?u = "changed_entity ops False ?rb ?lc (RLC_Config_am am) u"
  let ?s1 = "put_union a ?u s"
  obtain x where x: "content u = Am x" using n u(2) by (auto simp: named_def)
  have "configure_entity ops c False ?rb ?lc (RLC_Config_am am) s = Inr ?s1"
    using a(2,3) x by (simp add: configure_entity_def config_req_rlc_am_asn1_def as_am_def changed_entity_def union_at_def)
  moreover have "?lc < RLC_MAX_LC" using l(2) by (simp add: RLC_MAX_LC_def word_less_nat_alt)
  ultimately have run: "rrc_rlc_config_asn1_req ops c (add_drb_request drb l (RLC_Config_am am)) s = Inr ?s1"
    unfolding add_drb_run [OF l(1)] using rb a u(2)
    by (simp add: configure_bearer_eq mode_of_def add_and_configure_def rrc_rlc_add_rlc_def union_at_def)
  have same: "rlc_get k ?s1 = rlc_get k s" for k by (simp add: rlc_get_def)
  have "rlc_get (lc_key c ?lc False) s = Inr (HASH_TABLE_KEY_NOT_EXISTS, None)"
    using rlc_get_cases [OF ok, of "lc_key c ?lc False"] free by (metis option.distinct(1))
  moreover have "channel_of ?u = Inr ?lc" using x u(2) legal by (simp add: changed_entity_def channel_of_def)
  ultimately have "rrc_rlc_remove_rlc c False ?rb ?s1 = Inr ?s1"
    using rb a(3) same by (simp add: rrc_rlc_remove_rlc_def)
  moreover have "instances ?s1 ?k1 \<noteq> None" using a(1) by (simp add: instances_def)
  ultimately show ?thesis using run by blast
qed

section \<open>The memory of removed entities\<close>

text \<open>
  The memory of an entity that is removed stays allocated, and no entry of the table leads to it any more: the free function of
  the table clears the entity but does not free it.
\<close>

theorem rlc_removed_memory_lost:
  assumes "rlc_ok s" "rb < NB_RB_MAX" "instances s (rb_key c rb srb) = Some u"
  shows "\<exists>a s1. rrc_rlc_remove_rlc c srb rb s = Inr s1 \<and> rlc_map s (rb_key c rb srb) = Some (Some a) \<and> leaked a s1"
  using remove_there [OF assms] by blast

section \<open>Polling by bytes\<close>

text \<open>C40.
  Of the fifteen values that the RRC can configure for the number of bytes after which an entity in acknowledged
  mode asks for a status, only the two smallest reach the entity, because the number is passed in 16 bits. The
  value for no polling becomes polling after 65535 bytes; the default configuration of the signalling bearer
  has this value.
\<close>

theorem rlc_am_poll_byte_truncated:
  assumes "am_config_legal am"
  shows "(poll_byte (configure_am ops srb rb lc am a) = pollByte_tab ! cfg_pollByte am \<longleftrightarrow> cfg_pollByte am < 2) \<and>
    poll_byte (configure_am ops srb rb lc default_am_config a) = 0xFFFF \<and>
    pollByte_tab ! cfg_pollByte default_am_config = 0xFFFFFFFF"
proof -
  have cfg: "poll_byte (configure_am ops srb rb lc am a) = ucast (ucast (pollByte_tab ! cfg_pollByte am) :: u16)"
    if "am_config_legal am" for am using that by (simp add: configure_am_def rlc_am_configure_def)
  have "list_all (\<lambda>n. (ucast (ucast (pollByte_tab ! n) :: u16) = pollByte_tab ! n) = (n < 2)) [0..<15]" by code_simp
  then have "\<forall>n < 15. (ucast (ucast (pollByte_tab ! n) :: u16) = pollByte_tab ! n) = (n < 2)" by (simp add: list_all_iff)
  moreover have "am_config_legal default_am_config" by (simp add: am_config_legal_def default_am_config_def)
  ultimately show ?thesis using assms cfg
    by (simp add: default_am_config_def pollByte_tab_def am_config_legal_def)
qed

section \<open>Examples\<close>

lemma some_layer:
  obtains s :: "u8 list list rlc_layer" where "rlc_ok s" "instances s = spec_request keeping_ops some_ctxt some_request Map.empty"
  using request_refines [OF new_rlc(1), unfolded new_rlc(2), OF some_request_ok [of keeping_ops]] by blast

text \<open>Data bearer 5 on channel 3, which data bearer 1 has.\<close>

lemma rlc_channel_taken_witness:
  "\<exists>(s :: u8 list list rlc_layer) s1 u.
    rrc_rlc_config_asn1_req keeping_ops some_ctxt (add_drb_request 5 3 um_both) s = Inr s1 \<and>
    instances s (rb_key some_ctxt 1 False) = Some u \<and>
    rlc_data_req keeping_ops 0 some_ctxt False 5 0 0 1 [1] s1 = Inl Undefined \<and>
    mac_rlc_data_req keeping_ops (\<lambda>_. 0) some_ctxt 3 100 s1 = Inl Undefined"
proof -
  obtain s :: "u8 list list rlc_layer" where s: "rlc_ok s" "instances s = spec_request keeping_ops some_ctxt some_request Map.empty"
    by (rule some_layer)
  have "rb_key some_ctxt 5 False \<noteq> rb_key some_ctxt 1 True" "rb_key some_ctxt 5 False \<noteq> rb_key some_ctxt 1 False"
    "rb_key some_ctxt 5 False \<noteq> rb_key some_ctxt 2 False" by (simp_all add: key_facts)
  then have free: "instances s (rb_key some_ctxt (of_int 5) False) = None"
    unfolding s(2) spec_request_def some_request_items
    by (simp add: some_request_def list_or_none_def spec_bearer_def spec_release_def mode_of_def um_both_def key_facts Let_def)
  have taken: "instances s (lc_key some_ctxt (of_int 3) False) = instances s (rb_key some_ctxt 1 False)"
    "instances s (rb_key some_ctxt 1 False) \<noteq> None"
    unfolding s(2) using some_request_keys [of keeping_ops] by simp_all
  then obtain u where u: "instances s (lc_key some_ctxt (of_int 3) False) = Some u" "instances s (rb_key some_ctxt 1 False) = Some u" by auto
  have "(of_int 5 :: u16) < NB_RB_MAX" "2 < (of_int 3 :: u32)" "(of_int 3 :: u32) < 14" "mode_of um_both \<noteq> None" "(0 :: int) < 1"
    by (simp_all add: NB_RB_MAX_def maxDRB_def mode_of_def um_both_def)
  from rlc_channel_taken [OF s(1) this(1-4) free u(1) this(5), of keeping_ops 0 0 0 "[1]" "\<lambda>_. 0" 100] u(2) show ?thesis by auto
qed

text \<open>75000 bytes become 9464.\<close>

lemma rlc_am_poll_byte_truncated_witness:
  "poll_byte (configure_am keeping_ops True 1 1 (default_am_config\<lparr>cfg_pollByte := 2\<rparr>) (zero_am keeping_ops)) \<noteq> 75000 \<and>
   poll_byte (configure_am keeping_ops True 1 1 default_am_config (zero_am keeping_ops)) = 0xFFFF"
proof -
  have "am_config_legal (default_am_config\<lparr>cfg_pollByte := 2\<rparr>)" by (simp add: am_config_legal_def default_am_config_def)
  from rlc_am_poll_byte_truncated [OF this, of keeping_ops True 1 1 "zero_am keeping_ops"] show ?thesis
    by (simp add: pollByte_tab_def)
qed

end
