(* ===== verification/Spec2Isabelle.thy ===== *)
theory Spec2Isabelle
  imports DlReset UlPre RlcUmReceiver RlcUmSending RlcUmTransfer HashTable PdcpErrors PdcpRelease RlcFaults
begin

text \<open>
  A verification library for the base station of EdgeSlice.

  EdgeSlice is an OpenAirInterface eNodeB (\<open>src/openairinterface5g\<close>) with an SDN controller and an image recognition
  server beside it. A hypervisor sends the eNodeB, over a socket, the share of the radio that each slice may use; the MAC
  scheduler gives every UE resource blocks within the share of its slice; user data passes through PDCP, which
  numbers and ciphers it, and RLC, which cuts it into PDUs of the size the MAC asks for. The library
  models this path: the slice table, the parts of the MAC that decide who gets which blocks, the
  unacknowledged mode of RLC, PDCP with its security, and the hash table that holds the bearers. Paths of files
  below are relative to \<open>openairinterface5g/openair2\<close> unless they start with another directory.

  \<^bold>\<open>Conventions.\<close> \<open>Prelude\<close> holds the machine integers (\<open>u8\<close> to \<open>u64\<close> are words, so that \<open>+\<close> wraps as in C),
  the ways in which a C function can fail to return (\<open>Abort\<close>, \<open>NullDeref\<close>, \<open>OutOfBounds\<close>, \<open>Undefined\<close> and so on) and the
  result type with its sequencing operator \<open>bindE\<close>: \<open>Inl\<close> is a failure, \<open>Inr\<close> the value that is returned. A function that
  changes state takes the state and returns the new one. Arrays are lists with checked access (\<open>aget\<close>, \<open>aset\<close>) or functions
  on an index; a pointer that may be null is an option; where two pointers can be the same, the state has a memory. Loops over
  lists and ranges are structural recursion. A loop that might not end carries fuel and gives \<open>Diverges\<close> when it is used up:
  the walks along the linked lists of UEs (as many steps as there are slots), the search for the number of blocks of a UE
  (256 steps, more than a carrier has blocks) and the loops on sequence numbers of RLC (as many as there are numbers). The
  theorems that a function returns show that this is enough; nothing rests on a loop that has not ended.
  The limits are those of the USRP build (\<open>CMakeLists.txt\<close>): 16 UEs, one component carrier, one eNodeB.

  \<^bold>\<open>Slice table\<close> (\<open>Slices\<close>; \<open>LAYER2/MAC/main.c\<close>, \<open>pre_processor.c\<close>). \<open>global_infos\<close> is \<open>Global_Info\<close>; \<open>server_step\<close>
  are the steps of the thread that accepts connections and of those that receive, whose interleaving is
  the reachability relation \<open>server_reachable\<close>. Shown: a whole message sets the quotas of the first two slices, whatever has
  happened before, and no other quota ever changes.

  \<^bold>\<open>MAC\<close>. \<open>MacState\<close> is the state of one instance (\<open>LAYER2/MAC/defs.h\<close>). \<open>UeList\<close>
  (\<open>eNB_scheduler_primitives.c\<close>) are the operations on UEs, with the invariant of the list in every reachable state and what
  insertion, removal and exchange do to every lookup. \<open>Cce\<close> (\<open>eNB_scheduler_primitives.c\<close>) is the downlink
  control channel: the allocation is total, disjoint, aligned and on the candidates of 36.213, and the feasibility test
  implies the allocation. \<open>Sorting_Lists\<close> is the sorting that the schedulers share. \<open>DlPre\<close> (\<open>pre_processor.c\<close>) is the
  downlink pre-processor as it runs in a subframe; \<open>DlSlicing\<close> shows that the windows of the slices are disjoint,
  exactly which groups a UE gets, and where the window leaves the array; \<open>DlReset\<close> what the reset leaves for it. \<open>UlPre\<close>
  is the uplink pre-processor: coding schemes and blocks that fit, and blocks within the quota.

  \<^bold>\<open>RLC in unacknowledged mode\<close> (\<open>LAYER2/RLC/UM_v9.3.0\<close>). \<open>RlcUm\<close> is the entity and its state machine;
  \<open>RlcUmReassembly\<close> the reassembly of SDUs; \<open>RlcUmDar\<close> duplicate avoidance, reordering and its timer.
  \<open>RlcUmInvariant\<close> and \<open>RlcUmService\<close> prove the invariant \<open>rx_ok\<close> by induction over the steps \<open>rlc_step\<close> and that
  readable PDUs are always processed to the end; \<open>RlcUmReceiver\<close> holds the properties. The sender is
  \<open>RlcUmSegment\<close>, with the loops of the segmentation in \<open>RlcUmFilling\<close> and \<open>RlcUmSender\<close>. \<open>RlcUmPdu\<close> and \<open>RlcUmDelivery\<close> show
  that the receiver takes back what the sender writes; \<open>RlcUmLink\<close> and \<open>RlcUmTransfer\<close> join the two and show that together they
  are a queue of SDUs, and that enough requests empty it. \<open>RlcUmSending\<close> holds the properties of the sender.

  \<^bold>\<open>Hash table\<close> (\<open>HashTable\<close>; \<open>common/utils/hashtable/hashtable.c\<close>). The contract of the table is the locale
  \<open>key_store\<close>, with the part about removal, \<open>store_removal\<close>, below it; \<open>table\<close> is its interpretation on the code. Any
  sequence of operations is one on a map, frees the data that leaves the map and keeps the table well-formed.

  \<^bold>\<open>Security\<close> (\<open>UTIL/OSA\<close>). \<open>Snow3g\<close> is the stream cipher with its tables, \<open>SecurityStreams\<close> the algorithms EEA0 to EEA2
  and EIA1, EIA2 on it. Shown: ciphering is the XOR with a key stream, so that doing it twice gives the message back (but for the spare bits of its
  last byte), and EIA1 is the polynomial hash of the standard. AES in counter mode and AES-CMAC, which nettle and OpenSSL
  compute, are the parameter \<open>crypto\<close>; that they return as many bytes as they should is the named hypothesis \<open>proper_crypto\<close>.

  \<^bold>\<open>PDCP\<close> (\<open>LAYER2/PDCP_v10.1.0\<close>). \<open>Pdcp\<close> is the entity with its numbers, headers and COUNT; \<open>PdcpData\<close> what it makes of
  an SDU and of a PDU. \<open>PdcpNumbers\<close> gives the numbers in closed form, across every wrap, and shows when a COUNT is
  used twice; \<open>PdcpSecurity\<close> and \<open>PdcpTransfer\<close> show that the receiver undoes what the sender does, over any loss of
  less than a cycle of numbers; \<open>PdcpErrors\<close> where the code leaves the standard. \<open>PdcpLayer\<close> and
  \<open>PdcpConfig\<close> are the layer of a node: the table of entities, with their memory, and the requests of the RRC. \<open>PdcpBearers\<close>
  has the invariant \<open>layer_ok\<close> and the abstraction \<open>bearers\<close>, the map from keys to entities, and shows that the requests of the
  RRC refine operations on this map and that keys are distinct; \<open>PdcpService\<close> that data touches its own bearer only, and
  the service as a whole: what two layers that have configured the same bearer do for each other. \<open>PdcpDefault\<close> has the
  invariant for layers with default bearers, whose entities have a second key, \<open>layer_ok_but\<close>, and what their configuration
  makes; \<open>layer_ok\<close>, on which the theorems above rest, is the case without them, that of the eNodeB. \<open>PdcpRemoval\<close> is about
  taking bearers out: with the invariant \<open>keys_owned_but\<close> the layer is a \<open>store_removal\<close>, so that removing a UE removes its
  bearers and no others; the second key of a default bearer is left behind, and where security keys are shared they
  are freed twice. \<open>PdcpRelease\<close> shows which bearer a request for a release takes out.

  \<^bold>\<open>RLC layer\<close> (\<open>LAYER2/RLC\<close>). \<open>RlcTable\<close> is the table of the RLC entities of a node with the memory behind it, where an
  entity has two entries, one for its bearer and one for its logical channel; adding, removing and configuring
  entities (\<open>rlc_rrc.c\<close>, \<open>UM_v9.3.0/rlc_um_control_primitives.c\<close>, \<open>AM_v9.3.0/rlc_am_init.c\<close>, \<open>AM_v9.3.0/rlc_am.c\<close>).
  \<open>RlcCalls\<close> are the calls of PDCP (\<open>rlc.c\<close>) and MAC (\<open>rlc_mac.c\<close>). What an entity in acknowledged mode does with data is
  the parameter \<open>am_ops\<close>, of which nothing is assumed. \<open>RlcBearers\<close> has the invariant \<open>rlc_ok\<close>, that the two entries
  of every entity agree, and the abstraction \<open>instances\<close>, the map from bearers to entities. \<open>RlcRequests\<close> shows that the requests of the RRC refine
  operations on this map, and that the layer is a \<open>store_removal\<close> too, so that removing a UE removes its bearers
  and no others; \<open>RlcFaults\<close> what goes wrong when a logical channel is used twice, and what is lost.

  \<^bold>\<open>How the parts interact.\<close> The pre-processors read the quotas of \<open>Slices\<close> and the queues and flags that \<open>UeList\<close> keeps, and
  \<open>DlPre\<close> asks \<open>Cce\<close> whether a control message still fits. The MAC asks a sender of RLC for a PDU of a size
  (\<open>rlc_um_mac_data_request\<close>) and hands PDUs to a receiver. PDCP keeps its entities in a \<open>hash_table\<close>, gives PDUs to the
  RLC (the output \<open>Rlc_data_req\<close>) and gets those that arrive (\<open>pdcp_data_ind\<close>). Both tables are a \<open>hash_table\<close>, and both use the locale
  \<open>store_removal\<close>.

  \<^bold>\<open>Not modelled.\<close> The physical layer (\<open>openair1\<close>) computes with complex samples in SIMD registers and, for the most part,
  is tables. RRC, S1AP, X2AP and NAS work on structures of the ASN.1 compiler, whose code is generated by the build; what PDCP
  reads of them is an argument here. The main schedulers (\<open>eNB_scheduler_dlsch.c\<close>, \<open>eNB_scheduler_ulsch.c\<close>) fill requests
  of the PHY from the decisions of the pre-processors, which are modelled. The acknowledged mode of RLC (but for its
  configuration), the transparent mode, MBMS in RLC and the older request \<open>rrc_rlc_config_req\<close>, GTP-U, the FlexRAN agent,
  ITTI, SCTP and the network drivers, \<open>darknet\<close> and the Python controller are outside the path of the slices. Getting memory is taken to succeed; printing, statistics and traces are left out. Transport blocks
  are taken to be shorter than 2^16 bytes, the width of their size in the receiver of RLC; the values of enumerations of ASN.1 are
  not negative; and the four bytes that the segmentation of RLC clears at the start of a PDU are taken to be in its block also when the
  PDU is shorter, which the pools of the memory manager ensure.
\<close>

end
